(* ===== verification/Prelude.thy ===== *)
theory Prelude
  imports Main "HOL-Library.Sublist" "HOL-Library.Multiset" "HOL-Library.Char_ord" "HOL-Library.List_Lexorder"
begin

text \<open>
  Shared vocabulary of the development: Python strings as \<^typ>\<open>string\<close> (a code point is a
  \<^typ>\<open>char\<close>, so U+0000 to U+00FF), \<open>str.join\<close>, \<open>str.replace\<close> of one character,
  \<open>str.split\<close> on one character, the decimal rendering \<open>str(n)\<close> of integers and the
  scanner of decimal digits that inverts it. The collections \<open>py_str\<close> and \<open>join_simps\<close>
  carry the facts the component theories rewrite with.
\<close>

named_theorems join_simps \<open>rewriting of joined strings\<close>
named_theorems model_defs \<open>definitions a component proof unfolds\<close>

section \<open>Joining and splitting\<close>

fun join :: "'a list \<Rightarrow> 'a list list \<Rightarrow> 'a list" where
  "join sep [] = []"
| "join sep [x] = x"
| "join sep (x # y # ys) = x @ sep @ join sep (y # ys)"

fun_cases join_nilE: "join sep xs = []"

lemma join_Cons [join_simps]: "xs \<noteq> [] \<Longrightarrow> join sep (x # xs) = x @ sep @ join sep xs"
  by (cases xs) auto

lemma join_append [join_simps]:
  "xs \<noteq> [] \<Longrightarrow> ys \<noteq> [] \<Longrightarrow> join sep (xs @ ys) = join sep xs @ sep @ join sep ys"
proof (induction xs)
  case (Cons x xs)
  then show ?case by (cases "xs = []") (auto simp: join_simps)
qed simp

lemma set_join_subset: "set (join sep xs) \<subseteq> set sep \<union> \<Union> (set ` set xs)"
  by (induction sep xs rule: join.induct) auto

text \<open>\<open>s.split(c)\<close> for a one-character separator: never empty, \<open>""\<close> gives \<open>[""]\<close>.\<close>

fun split_on :: "'a \<Rightarrow> 'a list \<Rightarrow> 'a list list" where
  "split_on c [] = [[]]"
| "split_on c (x # xs) =
     (if x = c then [] # split_on c xs
      else (case split_on c xs of [] \<Rightarrow> [[x]] | y # ys \<Rightarrow> (x # y) # ys))"

lemma split_on_not_Nil [simp]: "split_on c xs \<noteq> []"
  by (cases xs) (auto split: list.splits)

lemma join_Cons_Cons: "join sep ((x # a) # as) = x # join sep (a # as)"
  by (cases as) auto

lemma join_split_on [simp]: "join [c] (split_on c xs) = xs"
proof (induction xs)
  case (Cons x xs)
  then show ?case
    by (cases "split_on c xs") (auto simp: join_Cons join_Cons_Cons)
qed simp

lemma split_on_free: "c \<notin> set xs \<Longrightarrow> split_on c xs = [xs]"
  by (induction xs) auto

lemma split_on_append: "c \<notin> set xs \<Longrightarrow> split_on c (xs @ c # ys) = xs # split_on c ys"
  by (induction xs) auto

lemma split_on_join [simp]:
  "xs \<noteq> [] \<Longrightarrow> \<forall>x \<in> set xs. c \<notin> set x \<Longrightarrow> split_on c (join [c] xs) = xs"
proof (induction xs)
  case (Cons x xs)
  then show ?case
    by (cases "xs = []") (auto simp: split_on_free join_Cons split_on_append)
qed simp

lemma split_on_parts_free: "x \<in> set (split_on c xs) \<Longrightarrow> c \<notin> set x"
  by (induction xs arbitrary: x) (auto split: if_splits list.splits)

text \<open>\<open>s.replace(c, r)\<close> for a one-character pattern.\<close>

definition replace_char :: "char \<Rightarrow> string \<Rightarrow> string \<Rightarrow> string" where
  "replace_char c r s = concat (map (\<lambda>x. if x = c then r else [x]) s)"

lemma replace_char_Nil [simp]: "replace_char c r [] = []"
  by (simp add: replace_char_def)

lemma replace_char_Cons [simp]:
  "replace_char c r (x # xs) = (if x = c then r else [x]) @ replace_char c r xs"
  by (simp add: replace_char_def)

section \<open>Decimal numbers\<close>

definition digit_char :: "nat \<Rightarrow> char" where
  "digit_char n = char_of (48 + n)"

definition is_digit :: "char \<Rightarrow> bool" where
  "is_digit c = (let k = (of_char c :: nat) in 48 \<le> k \<and> k \<le> 57)"

definition digit_val :: "char \<Rightarrow> nat" where
  "digit_val c = of_char c - 48"

fun show_nat :: "nat \<Rightarrow> string" where
  "show_nat n = (if n < 10 then [digit_char n]
                 else show_nat (n div 10) @ [digit_char (n mod 10)])"

declare show_nat.simps [simp del]

definition show_int :: "int \<Rightarrow> string" where
  "show_int i = (if i < 0 then CHR ''-'' # show_nat (nat (- i)) else show_nat (nat i))"

definition nat_of_digits :: "string \<Rightarrow> nat" where
  "nat_of_digits s = foldl (\<lambda>a c. a * 10 + digit_val c) 0 s"

lemma digit_char_simps [simp]:
  "digit_char 0 = CHR ''0''" "digit_char (Suc 0) = CHR ''1''" "digit_char 1 = CHR ''1''"
  "digit_char 2 = CHR ''2''" "digit_char 3 = CHR ''3''" "digit_char 4 = CHR ''4''"
  "digit_char 5 = CHR ''5''" "digit_char 6 = CHR ''6''" "digit_char 7 = CHR ''7''"
  "digit_char 8 = CHR ''8''" "digit_char 9 = CHR ''9''"
  by code_simp+

lemma digit_char_digit [simp]: "n < 10 \<Longrightarrow> is_digit (digit_char n)"
  by (simp add: is_digit_def digit_char_def of_char_of)

lemma digit_val_char [simp]: "n < 10 \<Longrightarrow> digit_val (digit_char n) = n"
  by (simp add: digit_val_def digit_char_def of_char_of)

lemma show_nat_digits: "c \<in> set (show_nat n) \<Longrightarrow> is_digit c"
proof (induction n rule: show_nat.induct)
  case (1 n)
  then show ?case by (subst (asm) show_nat.simps) (auto split: if_splits)
qed

lemma show_nat_not_Nil [simp]: "show_nat n \<noteq> []"
  by (subst show_nat.simps) simp

lemma nat_of_show_nat [simp]: "nat_of_digits (show_nat n) = n"
proof (induction n rule: show_nat.induct)
  case (1 n)
  show ?case
  proof (cases "n < 10")
    case True
    then show ?thesis by (subst show_nat.simps) (simp add: nat_of_digits_def)
  next
    case False
    with 1 show ?thesis
      by (subst show_nat.simps) (simp add: nat_of_digits_def)
  qed
qed

lemma show_nat_inj: "show_nat m = show_nat n \<longleftrightarrow> m = n"
  by (metis nat_of_show_nat)

text \<open>Scanning: the leading digits of a text are recovered whatever non-digit follows.\<close>

lemma takeWhile_show_nat [simp]:
  "\<not> is_digit c \<Longrightarrow> takeWhile is_digit (show_nat n @ c # r) = show_nat n"
  by (simp add: show_nat_digits takeWhile_append2)

lemma dropWhile_show_nat [simp]:
  "\<not> is_digit c \<Longrightarrow> dropWhile is_digit (show_nat n @ c # r) = c # r"
  by (simp add: show_nat_digits dropWhile_append2)

lemma not_digit_simps [simp]:
  "\<not> is_digit CHR '':''" "\<not> is_digit CHR '',''" "\<not> is_digit CHR '' ''" "\<not> is_digit CHR ''-''"
  "\<not> is_digit CHR '']''" "\<not> is_digit CHR ''}''" "\<not> is_digit CHR ''.''" "\<not> is_digit CHR ''[''"
  "\<not> is_digit CHR ''{''" "\<not> is_digit (CHR 0x22)" "\<not> is_digit CHR ''n''" "\<not> is_digit CHR ''t''"
  "\<not> is_digit CHR ''f''"
  by (simp_all add: is_digit_def)

lemma show_int_not_Nil [simp]: "show_int i \<noteq> []"
  by (simp add: show_int_def)

lemma show_int_inj: "show_int i = show_int j \<longleftrightarrow> i = j"
proof
  assume eq: "show_int i = show_int j"
  have minus: "show_nat m \<noteq> CHR ''-'' # s" for m s
    using show_nat_digits [of "CHR ''-''" m] by auto
  show "i = j"
    using eq minus [of "nat i"] minus [of "nat j"]
    by (auto simp: show_int_def show_nat_inj split: if_splits dest: sym)
qed simp

section \<open>Sums as results\<close>

text \<open>A computation that may raise is a sum, the error on the left.\<close>

definition bind_res :: "'e + 'a \<Rightarrow> ('a \<Rightarrow> 'e + 'b) \<Rightarrow> 'e + 'b" where
  "bind_res m f = (case m of Inl e \<Rightarrow> Inl e | Inr x \<Rightarrow> f x)"

lemma bind_res_simps [simp]:
  "bind_res (Inl e) f = Inl e" "bind_res (Inr x) f = f x"
  by (simp_all add: bind_res_def)

lemma bind_res_Inr_iff: "bind_res m f = Inr y \<longleftrightarrow> (\<exists>x. m = Inr x \<and> f x = Inr y)"
  by (cases m) auto

fun map_res :: "('a \<Rightarrow> 'e + 'b) \<Rightarrow> 'a list \<Rightarrow> 'e + 'b list" where
  "map_res f [] = Inr []"
| "map_res f (x # xs) =
     (case f x of Inl e \<Rightarrow> Inl e
      | Inr y \<Rightarrow> (case map_res f xs of Inl e \<Rightarrow> Inl e | Inr ys \<Rightarrow> Inr (y # ys)))"

lemma map_res_total: "(\<And>x. x \<in> set xs \<Longrightarrow> f x = Inr (g x)) \<Longrightarrow> map_res f xs = Inr (map g xs)"
  by (induction xs) auto

lemma map_res_length: "map_res f xs = Inr ys \<Longrightarrow> length ys = length xs"
  by (induction xs arbitrary: ys) (auto split: sum.splits)

section \<open>Dictionaries in sorted order\<close>

lemma map_of_map_snd: "map_of (map (\<lambda>(k, v). (k, f v)) d) n = map_option f (map_of d n)"
  by (induction d) auto

text \<open>\<open>sorted(d.items())\<close> of a dict given by its items: keys are distinct, so comparing items
  is comparing keys, by code point.\<close>

definition sort_items :: "('k :: linorder \<times> 'v) list \<Rightarrow> ('k \<times> 'v) list" where
  "sort_items d = sort_key fst d"

lemma sort_items_set [simp]: "set (sort_items d) = set d"
  by (simp add: sort_items_def)

lemma sort_items_length [simp]: "length (sort_items d) = length d"
  by (simp add: sort_items_def)

lemma mset_sort_items [simp]: "mset (sort_items d) = mset d"
  by (simp add: sort_items_def)

lemma distinct_sort_items [simp]: "distinct (map fst (sort_items d)) \<longleftrightarrow> distinct (map fst d)"
  by (metis mset_map mset_sort_items mset_eq_imp_distinct_iff)

lemma sort_items_sorted: "sorted (map fst (sort_items d))"
  by (simp add: sort_items_def)

lemma map_of_sort_items [simp]: "distinct (map fst d) \<Longrightarrow> map_of (sort_items d) = map_of d"
  by (rule map_of_inject_set [THEN iffD2]) simp_all

lemma sort_items_eqI:
  assumes "distinct (map fst d)" "distinct (map fst e)" "set d = set e"
  shows "sort_items d = sort_items e"
proof (rule map_sorted_distinct_set_unique [where f = fst])
  show "inj_on fst (set (sort_items d) \<union> set (sort_items e))"
    using assms by (simp add: distinct_map)
qed (use assms in \<open>simp_all add: sort_items_sorted\<close>)

lemma sort_items_eq_iff:
  assumes "distinct (map fst d)" "distinct (map fst e)"
  shows "sort_items d = sort_items e \<longleftrightarrow> map_of d = map_of e"
  by (metis assms map_of_inject_set sort_items_eqI sort_items_set)

end
