(* ===== verification/Quote.thy ===== *)
theory Quote
  imports Prelude
begin

text \<open>
  \<open>_quote.py\<close> (\<open>quote_ident\<close>, \<open>quote_literal\<close>), \<open>expressions/_edge_filter.py\<close>
  (\<open>et_clause\<close>) and the identifier splitting of \<open>timescale/hypertable.py\<close>
  (\<open>_split_schema_name\<close>, \<open>_quote_qualified\<close>). The specification they are checked against
  is a reader of SQL's two quoting forms (\<open>sql_tokens\<close>): every character outside quotes is
  a symbol, a quoted stretch is one token whose value has doubled quotes undone.
\<close>

section \<open>The quoting functions\<close>

abbreviation DQ :: char where "DQ \<equiv> CHR 0x22"
abbreviation SQ :: char where "SQ \<equiv> CHR 0x27"

definition quote_ident :: "string \<Rightarrow> string" where
  "quote_ident name = [DQ] @ replace_char DQ [DQ, DQ] name @ [DQ]"

definition quote_literal :: "string \<Rightarrow> string" where
  "quote_literal v = [SQ] @ replace_char SQ [SQ, SQ] v @ [SQ]"

section \<open>Reading SQL text back\<close>

datatype sqltok = Sym char | Ident string | Lit string

datatype scan_mode = Out | InQ char string | AfterQ char string

definition quoted_tok :: "char \<Rightarrow> string \<Rightarrow> sqltok" where
  "quoted_tok q a = (if q = DQ then Ident a else Lit a)"

fun scan :: "scan_mode \<Rightarrow> string \<Rightarrow> sqltok list option" where
  "scan Out [] = Some []"
| "scan Out (c # cs) =
     (if c = DQ \<or> c = SQ then scan (InQ c []) cs else map_option ((#) (Sym c)) (scan Out cs))"
| "scan (InQ q a) [] = None"
| "scan (InQ q a) (c # cs) =
     (if c = q then scan (AfterQ q a) cs else scan (InQ q (a @ [c])) cs)"
| "scan (AfterQ q a) [] = Some [quoted_tok q a]"
| "scan (AfterQ q a) (c # cs) =
     (if c = q then scan (InQ q (a @ [q])) cs
      else map_option ((#) (quoted_tok q a))
        (if c = DQ \<or> c = SQ then scan (InQ c []) cs
         else map_option ((#) (Sym c)) (scan Out cs)))"

definition sql_tokens :: "string \<Rightarrow> sqltok list option" where
  "sql_tokens s = scan Out s"

definition plain :: "string \<Rightarrow> bool" where
  "plain s = (DQ \<notin> set s \<and> SQ \<notin> set s)"

definition starts_with_char :: "char \<Rightarrow> string \<Rightarrow> bool" where
  "starts_with_char c s = (case s of [] \<Rightarrow> False | x # _ \<Rightarrow> x = c)"

lemma starts_with_char_simps [simp]:
  "\<not> starts_with_char c []" "starts_with_char c (x # xs) \<longleftrightarrow> x = c"
  by (simp_all add: starts_with_char_def)

lemma scan_plain: "plain s \<Longrightarrow> scan Out (s @ r) = map_option ((@) (map Sym s)) (scan Out r)"
  by (cases "scan Out r"; induction s) (auto simp: plain_def)

lemma scan_after:
  "\<not> starts_with_char q r \<Longrightarrow> scan (AfterQ q a) r = map_option ((#) (quoted_tok q a)) (scan Out r)"
  by (cases r) auto

lemma scan_body:
  "\<not> starts_with_char q r \<Longrightarrow>
   scan (InQ q a) (replace_char q [q, q] s @ q # r)
     = map_option ((#) (quoted_tok q (a @ s))) (scan Out r)"
  by (induction s arbitrary: a) (auto simp: scan_after)

lemma scan_quote_ident:
  "\<not> starts_with_char DQ r \<Longrightarrow>
   scan Out (quote_ident s @ r) = map_option ((#) (Ident s)) (scan Out r)"
  by (simp add: quote_ident_def scan_body quoted_tok_def)

lemma scan_quote_literal:
  "\<not> starts_with_char SQ r \<Longrightarrow>
   scan Out (quote_literal s @ r) = map_option ((#) (Lit s)) (scan Out r)"
  by (simp add: quote_literal_def scan_body quoted_tok_def)

section \<open>The quoting contract\<close>

text \<open>What a caller that builds SQL relies on: whatever the value, and whatever follows the
  quoted text (as long as it is not the quote character itself), the reader sees exactly one
  token that carries the value.\<close>

locale sql_quoting =
  fixes quote :: "string \<Rightarrow> string"
    and tok :: "string \<Rightarrow> sqltok"
    and q :: char
  assumes quote_read:
      "\<not> starts_with_char q r \<Longrightarrow> scan Out (quote s @ r) = map_option ((#) (tok s)) (scan Out r)"
    and tok_inj: "tok s = tok t \<Longrightarrow> s = t"
    and q_not_comma: "q \<noteq> CHR '',''"
begin

lemma quote_alone: "sql_tokens (quote s) = Some [tok s]"
  using quote_read [of "[]" s] by (simp add: sql_tokens_def)

lemma quote_inj: "quote s = quote t \<Longrightarrow> s = t"
  using quote_alone [of s] quote_alone [of t] by (auto dest: tok_inj)

lemma quote_args:
  assumes "xs \<noteq> []"
  shows "sql_tokens (join '', '' (map quote xs))
           = Some (join (map Sym '', '') (map (\<lambda>x. [tok x]) xs))"
  using assms
proof (induction xs)
  case (Cons x xs)
  show ?case
  proof (cases "xs = []")
    case True
    then show ?thesis by (simp add: quote_alone)
  next
    case False
    then show ?thesis
      using Cons.IH q_not_comma quote_read [of "'', '' @ join '', '' (map quote xs)" x]
      by (simp add: sql_tokens_def join_Cons)
  qed
qed simp

end

interpretation ident: sql_quoting quote_ident Ident DQ
  by unfold_locales (simp_all add: scan_quote_ident)

interpretation literal: sql_quoting quote_literal Lit SQ
  by unfold_locales (simp_all add: scan_quote_literal)

text \<open>Rules that evaluate \<open>sql_tokens\<close> on a template with quoted holes.\<close>

lemmas sql_read = sql_tokens_def scan_quote_ident scan_quote_literal
  option.map_comp o_def

section \<open>Schema-qualified names\<close>

fun split_loop :: "nat \<Rightarrow> bool \<Rightarrow> int \<Rightarrow> string \<Rightarrow> int" where
  "split_loop i in_quote d [] = d"
| "split_loop i in_quote d (c # cs) =
     (if c = DQ then split_loop (Suc i) (\<not> in_quote) d cs
      else if c = CHR ''.'' \<and> \<not> in_quote then split_loop (Suc i) in_quote (int i) cs
      else split_loop (Suc i) in_quote d cs)"

definition split_schema_name :: "string \<Rightarrow> string option \<times> string" where
  "split_schema_name name =
     (let last_unquoted_dot = split_loop 0 False (-1) name
      in if last_unquoted_dot \<noteq> -1
         then (Some (take (nat last_unquoted_dot) name), drop (nat last_unquoted_dot + 1) name)
         else (None, name))"

definition quote_qualified :: "string \<Rightarrow> string" where
  "quote_qualified name =
     (case split_schema_name name of
        (None, table) \<Rightarrow> quote_ident table
      | (Some schema, table) \<Rightarrow> quote_ident schema @ ''.'' @ quote_ident table)"

text \<open>Where a dot is outside double quotes; \<open>in_quote\<close> is the state at the start.\<close>

fun dot_free :: "bool \<Rightarrow> string \<Rightarrow> bool" where
  "dot_free in_quote [] = True"
| "dot_free in_quote (c # cs) =
     (if c = DQ then dot_free (\<not> in_quote) cs
      else if c = CHR ''.'' \<and> \<not> in_quote then False else dot_free in_quote cs)"

fun quote_state :: "bool \<Rightarrow> string \<Rightarrow> bool" where
  "quote_state in_quote [] = in_quote"
| "quote_state in_quote (c # cs) = quote_state (if c = DQ then \<not> in_quote else in_quote) cs"

lemma split_loop_dot_free: "dot_free b cs \<Longrightarrow> split_loop i b d cs = d"
  by (induction i b d cs rule: split_loop.induct) (auto split: if_splits)

lemma split_loop_at_dot:
  "\<not> quote_state b xs \<Longrightarrow> dot_free False ys \<Longrightarrow>
   split_loop i b d (xs @ CHR ''.'' # ys) = int (i + length xs)"
  by (induction xs arbitrary: i b d) (auto simp: split_loop_dot_free)

lemma split_at_last_dot:
  "\<not> dot_free b cs \<Longrightarrow>
   \<exists>xs ys. cs = xs @ CHR ''.'' # ys \<and> \<not> quote_state b xs \<and> dot_free False ys"
proof (induction cs arbitrary: b)
  case (Cons c cs)
  define b' where "b' = (if c = DQ then \<not> b else b)"
  show ?case
  proof (cases "dot_free b' cs")
    case True
    with Cons.prems have "c = CHR ''.''" "\<not> b"
      by (auto simp: b'_def split: if_splits)
    with True show ?thesis
      by (intro exI [of _ "[]"] exI [of _ cs]) (simp add: b'_def)
  next
    case False
    from Cons.IH [OF this] obtain xs ys where
      "cs = xs @ CHR ''.'' # ys" "\<not> quote_state b' xs" "dot_free False ys" by blast
    then show ?thesis
      by (intro exI [of _ "c # xs"] exI [of _ ys]) (simp add: b'_def)
  qed
qed simp

lemma split_schema_dot_free: "dot_free False n \<Longrightarrow> split_schema_name n = (None, n)"
  by (simp add: split_schema_name_def split_loop_dot_free)

lemma split_schema_at_dot:
  "\<not> quote_state False s \<Longrightarrow> dot_free False t \<Longrightarrow>
   split_schema_name (s @ CHR ''.'' # t) = (Some s, t)"
  by (simp add: split_schema_name_def split_loop_at_dot Let_def)

lemma plain_dot_free: "DQ \<notin> set s \<Longrightarrow> CHR ''.'' \<notin> set s \<Longrightarrow> dot_free b s"
  by (induction s) auto

lemma plain_quote_state: "DQ \<notin> set s \<Longrightarrow> quote_state b s = b"
  by (induction s) auto

lemma quote_state_append: "quote_state b (xs @ ys) = quote_state (quote_state b xs) ys"
  by (induction xs arbitrary: b) auto

lemma quote_state_replace: "quote_state b (replace_char DQ [DQ, DQ] s) = b"
  by (induction s arbitrary: b) auto

lemma quote_state_ident: "quote_state b (quote_ident s) = b"
  by (simp add: quote_ident_def quote_state_append quote_state_replace)

lemma dot_free_append: "dot_free b (xs @ ys) \<longleftrightarrow> dot_free b xs \<and> dot_free (quote_state b xs) ys"
  by (induction xs arbitrary: b) auto

lemma dot_free_replace: "dot_free True (replace_char DQ [DQ, DQ] s)"
  by (induction s) auto

lemma quote_state_replace_True: "quote_state True (replace_char DQ [DQ, DQ] s)"
  by (simp add: quote_state_replace)

lemma dot_free_ident: "dot_free False (quote_ident s)"
  by (simp add: quote_ident_def dot_free_append dot_free_replace quote_state_replace)

lemma quote_ident_changes: "quote_ident a \<noteq> a"
proof -
  have "length a \<le> length (replace_char DQ [DQ, DQ] a)"
    by (induction a) auto
  then have "length a < length (quote_ident a)"
    by (simp add: quote_ident_def)
  then show ?thesis by (metis less_irrefl)
qed

section \<open>The edge-type filter fragment\<close>

definition et_clause :: "string option \<Rightarrow> int \<Rightarrow> string \<times> string list" where
  "et_clause edge_type param_index =
     (case edge_type of
        None \<Rightarrow> ('''', [])
      | Some t \<Rightarrow> (''AND e.edge_type = $'' @ show_int param_index, [t]))"

lemma et_clause_length: "length (snd (et_clause e i)) \<le> 1"
  by (simp add: et_clause_def split: option.splits)

section \<open>Properties\<close>

text \<open>A value quoted by \<open>quote_literal\<close> or \<open>quote_ident\<close> and interpolated between fixed
  pieces of SQL text is read back as exactly one token carrying that value, whatever the value
  holds (quotes, semicolons, comment markers): no value changes the statement around it.\<close>

theorem quoted_value_is_one_token:
  assumes "plain pre" and "plain post"
  shows "sql_tokens (pre @ quote_literal v @ post) = Some (map Sym pre @ [Lit v] @ map Sym post)
       \<and> sql_tokens (pre @ quote_ident v @ post) = Some (map Sym pre @ [Ident v] @ map Sym post)"
proof -
  have post: "scan Out post = Some (map Sym post)"
    using scan_plain [OF assms(2), of "[]"] by simp
  have no_quote: "\<not> starts_with_char SQ post" "\<not> starts_with_char DQ post"
    using assms(2) by (auto simp: plain_def starts_with_char_def split: list.splits)
  show ?thesis
    using no_quote by (simp add: sql_tokens_def scan_plain [OF assms(1)] post
        scan_quote_literal scan_quote_ident)
qed

theorem quoted_value_is_one_token_witness:
  "sql_tokens (''DROP TABLE '' @ quote_ident ''t; DELETE'' @ '' CASCADE'')
     = Some (map Sym ''DROP TABLE '' @ [Ident ''t; DELETE''] @ map Sym '' CASCADE'')"
  by (rule quoted_value_is_one_token [of "''DROP TABLE ''" "'' CASCADE''", THEN conjunct2])
    (simp_all add: plain_def)

text \<open>\<open>_split_schema_name\<close> cuts at the last dot outside double quotes: the schema and the
  table put back around that dot give the name, the cut is outside quotes and no unquoted dot
  is left in the table; and a name without unquoted dot is returned whole.\<close>

theorem split_schema_name_last_unquoted_dot:
  "(split_schema_name n = (Some s, t)
      \<longleftrightarrow> n = s @ ''.'' @ t \<and> \<not> quote_state False s \<and> dot_free False t)
   \<and> (split_schema_name n = (None, t) \<longleftrightarrow> t = n \<and> dot_free False n)"
proof (cases "dot_free False n")
  case True
  then show ?thesis
    by (auto simp: split_schema_dot_free dot_free_append)
next
  case False
  then obtain xs ys where n: "n = xs @ CHR ''.'' # ys"
    and xs: "\<not> quote_state False xs" and ys: "dot_free False ys"
    using split_at_last_dot by blast
  have cut: "split_schema_name n = (Some xs, ys)"
    using xs ys by (simp add: n split_schema_at_dot)
  have "n = s @ ''.'' @ t \<and> \<not> quote_state False s \<and> dot_free False t
      \<Longrightarrow> split_schema_name n = (Some s, t)"
    by (simp add: split_schema_at_dot)
  then show ?thesis
    using False xs ys n cut by auto
qed

text \<open>\<open>_quote_qualified\<close> renders a plain \<open>schema.table\<close> name as two quoted identifiers
  joined by a dot, and an undotted name as one identifier.\<close>

theorem quote_qualified_tokens:
  assumes "DQ \<notin> set s" and "CHR ''.'' \<notin> set t" and "DQ \<notin> set t"
  shows "sql_tokens (quote_qualified (s @ ''.'' @ t)) = Some [Ident s, Sym CHR ''.'', Ident t]
       \<and> sql_tokens (quote_qualified t) = Some [Ident t]"
  using assms ident.quote_alone [of t] scan_quote_ident [of "[]" t]
  by (simp add: quote_qualified_def split_schema_at_dot split_schema_dot_free plain_dot_free
      plain_quote_state sql_tokens_def scan_quote_ident)

theorem quote_qualified_tokens_witness:
  "sql_tokens (quote_qualified (''metrics'' @ ''.'' @ ''events''))
     = Some [Ident ''metrics'', Sym CHR ''.'', Ident ''events'']"
  by (rule quote_qualified_tokens [of "''metrics''" "''events''", THEN conjunct1]) simp_all

text \<open>An already quoted qualified name is quoted a second time: the identifiers that reach
  PostgreSQL are the quoted texts, quote characters included, not the names they denote.\<close>

theorem quote_qualified_requotes:
  "sql_tokens (quote_qualified (quote_ident a @ ''.'' @ quote_ident b))
     = Some [Ident (quote_ident a), Sym CHR ''.'', Ident (quote_ident b)]
   \<and> quote_ident a \<noteq> a"
  using scan_quote_ident [of "[]" "quote_ident b"]
  by (simp add: quote_qualified_def split_schema_at_dot quote_state_ident dot_free_ident
      sql_tokens_def scan_quote_ident quote_ident_changes)

end
