(* ===== verification/Exceptions.thy ===== *)
theory Exceptions
  imports Prelude
begin

text \<open>
  The exception hierarchy of \<open>exceptions.py\<close> together with the built-in and driver
  classes the package catches. A raised exception is represented by its class; its
  message text is not modelled. \<open>except (A, B)\<close> is \<^term>\<open>catches [A, B] e\<close>.
\<close>

datatype exc =
  \<comment> \<open>Python and driver classes\<close>
    BaseException | Exception_cls | CancelledError | ValueError | TypeError | LookupError | KeyError
  | IndexError | AttributeError | ArithmeticError | OverflowError | RuntimeError | NotImplementedError
  | OSError | ConnectionError | TimeoutError | ImportError | StructError
  | RedisError | DoesNotExist | OperationalError | IntegrityError | ConfigurationError
  | VerificationError | VerifyMismatchError | InvalidHashError
  \<comment> \<open>the package's own hierarchy\<close>
  | TortoiseExtendedError | FieldDefinitionError | VectorFieldError | LTreeFieldError
  | IndexDefinitionError | GraphError | GraphTraversalError | HierarchyError | RecursiveCTEError
  | HybridSearchError | TimescaleError | MigrationOperationError | CacheError | CacheKeyError
  | CacheSerializationError | CacheDataError | CacheBackendNotInitializedError | RedisCacheError

text \<open>The base class each class statement names.\<close>

fun exc_base :: "exc \<Rightarrow> exc option" where
  "exc_base BaseException = None"
| "exc_base Exception_cls = Some BaseException"
| "exc_base CancelledError = Some BaseException"
| "exc_base LookupError = Some Exception_cls"
| "exc_base KeyError = Some LookupError"
| "exc_base IndexError = Some LookupError"
| "exc_base OverflowError = Some ArithmeticError"
| "exc_base NotImplementedError = Some RuntimeError"
| "exc_base ConnectionError = Some OSError"
| "exc_base TimeoutError = Some OSError"
| "exc_base IntegrityError = Some OperationalError"
| "exc_base VerifyMismatchError = Some VerificationError"
| "exc_base InvalidHashError = Some ValueError"
| "exc_base FieldDefinitionError = Some TortoiseExtendedError"
| "exc_base VectorFieldError = Some FieldDefinitionError"
| "exc_base LTreeFieldError = Some FieldDefinitionError"
| "exc_base IndexDefinitionError = Some TortoiseExtendedError"
| "exc_base GraphError = Some TortoiseExtendedError"
| "exc_base GraphTraversalError = Some GraphError"
| "exc_base HierarchyError = Some GraphError"
| "exc_base RecursiveCTEError = Some TortoiseExtendedError"
| "exc_base HybridSearchError = Some TortoiseExtendedError"
| "exc_base TimescaleError = Some TortoiseExtendedError"
| "exc_base MigrationOperationError = Some TortoiseExtendedError"
| "exc_base CacheError = Some TortoiseExtendedError"
| "exc_base CacheKeyError = Some CacheError"
| "exc_base CacheSerializationError = Some CacheError"
| "exc_base CacheDataError = Some CacheError"
| "exc_base CacheBackendNotInitializedError = Some CacheError"
| "exc_base RedisCacheError = Some CacheError"
| "exc_base e = Some Exception_cls"

text \<open>The longest base chain, \<open>GraphTraversalError\<close> to \<open>BaseException\<close>, has four links.\<close>

fun exc_mro :: "nat \<Rightarrow> exc \<Rightarrow> exc list" where
  "exc_mro 0 e = [e]"
| "exc_mro (Suc n) e = e # (case exc_base e of None \<Rightarrow> [] | Some b \<Rightarrow> exc_mro n b)"

definition is_instance :: "exc \<Rightarrow> exc \<Rightarrow> bool" where
  "is_instance e c = (c \<in> set (exc_mro 4 e))"

definition catches :: "exc list \<Rightarrow> exc \<Rightarrow> bool" where
  "catches cs e = list_ex (is_instance e) cs"

lemma is_instance_refl [simp]: "is_instance e e"
  by (cases e) (simp_all add: is_instance_def numeral_eq_Suc)

lemma mro_complete: "last (exc_mro 4 e) = BaseException"
  by (cases e) (simp_all add: numeral_eq_Suc)

lemma mro_saturated: "exc_mro (Suc 4) e = exc_mro 4 e"
  by (cases e) (simp_all add: numeral_eq_Suc)

lemma mro_base_step: "c \<in> set (exc_mro n e) \<Longrightarrow> exc_base c = Some b \<Longrightarrow> b \<in> set (exc_mro (Suc n) e)"
proof (induction n arbitrary: e)
  case 0
  then show ?case by simp
next
  case (Suc n)
  show ?case
  proof (cases "c = e")
    case True
    then show ?thesis using Suc.prems(2) by (cases n) simp_all
  next
    case False
    then obtain d where d: "exc_base e = Some d" "c \<in> set (exc_mro n d)"
      using Suc.prems(1) by (cases "exc_base e") auto
    then show ?thesis using Suc.IH [OF d(2) Suc.prems(2)] by (subst exc_mro.simps(2)) simp
  qed
qed

lemma is_instance_base_closed:
  "is_instance e c \<Longrightarrow> exc_base c = Some b \<Longrightarrow> is_instance e b"
  using mro_base_step [of c 4 e b] unfolding is_instance_def mro_saturated .

text \<open>The subclass relation is an order, the more special class below.\<close>

lemma mro_upward: "c \<in> set (exc_mro 4 e) \<Longrightarrow> set (exc_mro 4 c) \<subseteq> set (exc_mro 4 e)"
proof -
  have "set (exc_mro n c) \<subseteq> set (exc_mro 4 e)" if "c \<in> set (exc_mro 4 e)" for n
    using that
  proof (induction n arbitrary: c)
    case (Suc n)
    then have "set (exc_mro n b) \<subseteq> set (exc_mro 4 e)" if "exc_base c = Some b" for b
      using that is_instance_base_closed [of e c b] by (simp add: is_instance_def)
    then show ?case using Suc.prems by (cases "exc_base c") auto
  qed simp
  then show "c \<in> set (exc_mro 4 e) \<Longrightarrow> set (exc_mro 4 c) \<subseteq> set (exc_mro 4 e)" by blast
qed

lemma mro_base_shorter: "exc_base e = Some b \<Longrightarrow> length (exc_mro 4 b) < length (exc_mro 4 e)"
  by (cases e; simp add: numeral_eq_Suc; hypsubst; simp)

lemma mro_shorter: "c \<in> set (exc_mro 4 e) \<Longrightarrow> c \<noteq> e \<Longrightarrow> length (exc_mro 4 c) < length (exc_mro 4 e)"
proof -
  have "c = e \<or> length (exc_mro 4 c) < length (exc_mro 4 e)" if "c \<in> set (exc_mro n e)" for n
    using that
  proof (induction n arbitrary: e)
    case (Suc n)
    show ?case
    proof (cases "c = e")
      case False
      then obtain b where b: "exc_base e = Some b" "c \<in> set (exc_mro n b)"
        using Suc.prems by (cases "exc_base e") auto
      then show ?thesis using Suc.IH [OF b(2)] mro_base_shorter [OF b(1)] by auto
    qed simp
  qed simp
  then show "c \<in> set (exc_mro 4 e) \<Longrightarrow> c \<noteq> e \<Longrightarrow> length (exc_mro 4 c) < length (exc_mro 4 e)" by blast
qed

instantiation exc :: order
begin

definition less_eq_exc :: "exc \<Rightarrow> exc \<Rightarrow> bool" where
  "less_eq_exc e c = is_instance e c"

definition less_exc :: "exc \<Rightarrow> exc \<Rightarrow> bool" where
  "less_exc e c = (is_instance e c \<and> \<not> is_instance c e)"

instance
proof
  fix a b c :: exc
  show "a \<le> a" by (simp add: less_eq_exc_def)
  show "a < b \<longleftrightarrow> a \<le> b \<and> \<not> b \<le> a" by (simp add: less_eq_exc_def less_exc_def)
  show "a \<le> c" if "a \<le> b" "b \<le> c"
    using that mro_upward [of b a] by (auto simp: less_eq_exc_def is_instance_def)
  show "a = b" if "a \<le> b" "b \<le> a"
    using that mro_shorter [of b a] mro_shorter [of a b] by (force simp: less_eq_exc_def is_instance_def)
qed

end

lemma catches_le: "catches cs e \<longleftrightarrow> (\<exists>c \<in> set cs. e \<le> c)"
  by (simp add: catches_def less_eq_exc_def list_ex_iff)

lemma catches_special: "catches cs c \<Longrightarrow> e \<le> c \<Longrightarrow> catches cs e"
  by (auto simp: catches_le intro: order_trans)

lemma is_instance_CacheError_iff:
  "is_instance e CacheError \<longleftrightarrow>
     e \<in> {CacheError, CacheKeyError, CacheSerializationError, CacheDataError,
          CacheBackendNotInitializedError, RedisCacheError}"
  by (cases e) (simp_all add: is_instance_def numeral_eq_Suc)

definition package_exceptions :: "exc list" where
  "package_exceptions =
    [TortoiseExtendedError, FieldDefinitionError, VectorFieldError, LTreeFieldError,
     IndexDefinitionError, GraphError, GraphTraversalError, HierarchyError, RecursiveCTEError,
     HybridSearchError, TimescaleError, MigrationOperationError, CacheError, CacheKeyError,
     CacheSerializationError, CacheDataError, CacheBackendNotInitializedError, RedisCacheError]"

lemma package_exceptions_derive:
  "e \<in> set package_exceptions \<longleftrightarrow> is_instance e TortoiseExtendedError"
  by (cases e) (simp_all add: package_exceptions_def is_instance_def numeral_eq_Suc)

end
