(* ===== verification/Json.thy ===== *)
theory Json
  imports Exceptions Quote
begin

text \<open>
  Cache values and the part of Python's \<open>json\<close> module the package uses: \<open>json.dumps\<close> with
  its default separators, \<open>ensure_ascii\<close> and \<open>sort_keys\<close>, and \<open>json.loads\<close> with its
  whitespace, escapes and number grammar. A float is given by its \<open>repr\<close> text; characters
  beyond U+00FF are outside the model (an escape that names one is an error here). The recursion
  of the reader is bounded by fuel, the length of the text plus one; \<open>read_dumps\<close> shows that
  this is enough for every text \<open>dumps\<close> writes.
\<close>

section \<open>Cache values\<close>

text \<open>\<open>_types.CacheValue\<close>: a row value (\<open>str | int | float | bool | bytes | None\<close>), a list or
  a dict with string keys in insertion order.\<close>

datatype cval =
    CNull | CBool bool | CInt int | CFloat string | CStr string | CBytes string
  | CList "cval list" | CDict "(string \<times> cval) list"

section \<open>repr and str\<close>

definition hex_digit :: "nat \<Rightarrow> char" where
  "hex_digit n = (if n < 10 then char_of (48 + n) else char_of (87 + n))"

definition hex_val :: "char \<Rightarrow> nat option" where
  "hex_val c = (let k = (of_char c :: nat) in
     if 48 \<le> k \<and> k \<le> 57 then Some (k - 48)
     else if 97 \<le> k \<and> k \<le> 102 then Some (k - 87)
     else if 65 \<le> k \<and> k \<le> 70 then Some (k - 55) else None)"

definition repr_quote :: "string \<Rightarrow> char" where
  "repr_quote s = (if SQ \<in> set s \<and> DQ \<notin> set s then DQ else SQ)"

definition repr_char :: "(nat \<Rightarrow> bool) \<Rightarrow> char \<Rightarrow> char \<Rightarrow> string" where
  "repr_char printable q c = (let k = (of_char c :: nat) in
     if c = q \<or> c = CHR 0x5C then [CHR 0x5C, c]
     else if k = 10 then [CHR 0x5C, CHR ''n''] else if k = 13 then [CHR 0x5C, CHR ''r'']
     else if k = 9 then [CHR 0x5C, CHR ''t'']
     else if printable k then [c]
     else [CHR 0x5C, CHR ''x'', hex_digit (k div 16), hex_digit (k mod 16)])"

definition repr_str :: "string \<Rightarrow> string" where
  "repr_str s = (let q = repr_quote s in
     [q] @ concat (map (repr_char (\<lambda>k. 32 \<le> k \<and> k < 127 \<or> 161 \<le> k \<and> k \<noteq> 173) q) s) @ [q])"

definition repr_bytes :: "string \<Rightarrow> string" where
  "repr_bytes s = (let q = repr_quote s in
     ''b'' @ [q] @ concat (map (repr_char (\<lambda>k. 32 \<le> k \<and> k < 127) q) s) @ [q])"

fun py_repr :: "cval \<Rightarrow> string" where
  "py_repr CNull = ''None''"
| "py_repr (CBool b) = (if b then ''True'' else ''False'')"
| "py_repr (CInt i) = show_int i"
| "py_repr (CFloat r) = r"
| "py_repr (CStr s) = repr_str s"
| "py_repr (CBytes s) = repr_bytes s"
| "py_repr (CList vs) = ''['' @ join '', '' (map py_repr vs) @ '']''"
| "py_repr (CDict d) =
     ''{'' @ join '', '' (map (\<lambda>(k, v). repr_str k @ '': '' @ py_repr v) d) @ ''}''"

definition py_str_of :: "cval \<Rightarrow> string" where
  "py_str_of v = (case v of CStr s \<Rightarrow> s | _ \<Rightarrow> py_repr v)"

section \<open>json.dumps\<close>

definition json_char :: "bool \<Rightarrow> char \<Rightarrow> string" where
  "json_char ascii c = (let k = (of_char c :: nat) in
     if c = DQ \<or> c = CHR 0x5C then [CHR 0x5C, c]
     else if k = 10 then [CHR 0x5C, CHR ''n''] else if k = 13 then [CHR 0x5C, CHR ''r'']
     else if k = 9 then [CHR 0x5C, CHR ''t''] else if k = 12 then [CHR 0x5C, CHR ''f'']
     else if k = 8 then [CHR 0x5C, CHR ''b'']
     else if k < 32 \<or> (ascii \<and> 127 \<le> k)
       then [CHR 0x5C, CHR ''u'', CHR ''0'', CHR ''0'', hex_digit (k div 16), hex_digit (k mod 16)]
     else [c])"

definition json_str :: "bool \<Rightarrow> string \<Rightarrow> string" where
  "json_str ascii s = [DQ] @ concat (map (json_char ascii) s) @ [DQ]"

definition float_json :: "string \<Rightarrow> string" where
  "float_json r = (if r = ''nan'' then ''NaN'' else if r = ''inf'' then ''Infinity''
     else if r = ''-inf'' then ''-Infinity'' else r)"

text \<open>The encoder proper: no value needs the \<open>default\<close> callable any more.\<close>

fun json_dumps :: "bool \<Rightarrow> bool \<Rightarrow> cval \<Rightarrow> string" where
  "json_dumps ascii sort_keys CNull = ''null''"
| "json_dumps ascii sort_keys (CBool b) = (if b then ''true'' else ''false'')"
| "json_dumps ascii sort_keys (CInt i) = show_int i"
| "json_dumps ascii sort_keys (CFloat r) = float_json r"
| "json_dumps ascii sort_keys (CStr s) = json_str ascii s"
| "json_dumps ascii sort_keys (CBytes s) = json_str ascii (repr_bytes s)"
| "json_dumps ascii sort_keys (CList vs) =
     ''['' @ join '', '' (map (json_dumps ascii sort_keys) vs) @ '']''"
| "json_dumps ascii sort_keys (CDict d) =
     (let items = map (\<lambda>(k, v). (k, json_dumps ascii sort_keys v)) d
      in ''{'' @ join '', '' (map (\<lambda>(k, t). json_str ascii k @ '': '' @ t)
                         (if sort_keys then sort_items items else items)) @ ''}'')"

text \<open>\<open>default\<close> is applied to the values \<open>json\<close> cannot encode, here bytes. A result that still
  holds bytes makes Python recurse into \<open>default\<close> until it raises; one error stands for that.\<close>

fun has_bytes :: "cval \<Rightarrow> bool" where
  "has_bytes (CBytes s) = True"
| "has_bytes (CList vs) = list_ex has_bytes vs"
| "has_bytes (CDict d) = list_ex (\<lambda>(k, v). has_bytes v) d"
| "has_bytes v = False"

fun apply_default :: "(cval \<Rightarrow> cval) \<Rightarrow> cval \<Rightarrow> cval" where
  "apply_default f (CBytes s) = f (CBytes s)"
| "apply_default f (CList vs) = CList (map (apply_default f) vs)"
| "apply_default f (CDict d) = CDict (map (\<lambda>(k, v). (k, apply_default f v)) d)"
| "apply_default f v = v"

section \<open>json.loads\<close>

definition is_ws :: "char \<Rightarrow> bool" where
  "is_ws c = (c = CHR '' '' \<or> c = CHR 0x09 \<or> c = CHR 0x0A \<or> c = CHR 0x0D)"

definition skip_ws :: "string \<Rightarrow> string" where
  "skip_ws s = dropWhile is_ws s"

definition unescape :: "char \<Rightarrow> char option" where
  "unescape c = (if c = DQ \<or> c = CHR 0x5C \<or> c = CHR ''/'' then Some c
     else if c = CHR ''n'' then Some (char_of (10 :: nat))
     else if c = CHR ''r'' then Some (char_of (13 :: nat))
     else if c = CHR ''t'' then Some (char_of (9 :: nat))
     else if c = CHR ''f'' then Some (char_of (12 :: nat))
     else if c = CHR ''b'' then Some (char_of (8 :: nat)) else None)"

definition hex4 :: "char \<Rightarrow> char \<Rightarrow> char \<Rightarrow> char \<Rightarrow> char option" where
  "hex4 a b c d =
     (case (hex_val a, hex_val b, hex_val c, hex_val d) of
        (Some w, Some x, Some y, Some z) \<Rightarrow>
          (let k = ((w * 16 + x) * 16 + y) * 16 + z in if k < 256 then Some (char_of k) else None)
      | _ \<Rightarrow> None)"

text \<open>The body of a string after its opening quote.\<close>

fun read_str :: "string \<Rightarrow> (string \<times> string) option" where
  "read_str [] = None"
| "read_str (x # xs) =
     (if x = DQ then Some ([], xs)
      else if x = CHR 0x5C then
        (case xs of
           [] \<Rightarrow> None
         | e # ys \<Rightarrow>
             if e = CHR ''u'' then
               (case ys of
                  a # b # c # d # zs \<Rightarrow>
                    (case hex4 a b c d of
                       None \<Rightarrow> None
                     | Some u \<Rightarrow> map_option (\<lambda>(s, r). (u # s, r)) (read_str zs))
                | _ \<Rightarrow> None)
             else (case unescape e of
                     None \<Rightarrow> None
                   | Some u \<Rightarrow> map_option (\<lambda>(s, r). (u # s, r)) (read_str ys)))
      else if (of_char x :: nat) < 32 then None
      else map_option (\<lambda>(s, r). (x # s, r)) (read_str xs))"

text \<open>The number grammar: integer part, then optional fraction and exponent.\<close>

definition read_int_part :: "string \<Rightarrow> (string \<times> string) option" where
  "read_int_part s =
     (let (sign, r) = (case s of c # cs \<Rightarrow> if c = CHR ''-'' then ([c], cs) else ([], s) | [] \<Rightarrow> ([], s))
      in case r of
           [] \<Rightarrow> None
         | c # cs \<Rightarrow>
             if c = CHR ''0'' then Some (sign @ [c], cs)
             else if is_digit c then Some (sign @ takeWhile is_digit r, dropWhile is_digit r)
             else None)"

definition read_frac :: "string \<Rightarrow> string \<times> string" where
  "read_frac s =
     (case s of
        c # d # r \<Rightarrow>
          if c = CHR ''.'' \<and> is_digit d then (c # takeWhile is_digit (d # r), dropWhile is_digit (d # r))
          else ([], s)
      | _ \<Rightarrow> ([], s))"

definition read_exp :: "string \<Rightarrow> string \<times> string" where
  "read_exp s =
     (case s of
        c # r \<Rightarrow>
          if c = CHR ''e'' \<or> c = CHR ''E'' then
            (let (sg, t) = (case r of d # u \<Rightarrow> if d = CHR ''+'' \<or> d = CHR ''-'' then ([d], u) else ([], r)
                            | [] \<Rightarrow> ([], r))
             in if takeWhile is_digit t \<noteq> []
                then (c # sg @ takeWhile is_digit t, dropWhile is_digit t) else ([], s))
          else ([], s)
      | [] \<Rightarrow> ([], s))"

definition int_of_text :: "string \<Rightarrow> int" where
  "int_of_text t = (case t of c # r \<Rightarrow> if c = CHR ''-'' then - int (nat_of_digits r)
                              else int (nat_of_digits t) | [] \<Rightarrow> 0)"

definition read_number :: "string \<Rightarrow> (cval \<times> string) option" where
  "read_number s =
     (case read_int_part s of
        None \<Rightarrow> None
      | Some (i, r) \<Rightarrow>
          (let (f, r2) = read_frac r; (e, r3) = read_exp r2
           in if f = [] \<and> e = [] then Some (CInt (int_of_text i), r)
              else Some (CFloat (i @ f @ e), r3)))"

definition dict_put :: "(string \<times> 'v) list \<Rightarrow> string \<Rightarrow> 'v \<Rightarrow> (string \<times> 'v) list" where
  "dict_put d k v =
     (if k \<in> fst ` set d then map (\<lambda>(k', v'). if k' = k then (k', v) else (k', v')) d
      else d @ [(k, v)])"

fun read_val :: "nat \<Rightarrow> string \<Rightarrow> (cval \<times> string) option"
and read_items :: "nat \<Rightarrow> cval list \<Rightarrow> string \<Rightarrow> (cval \<times> string) option"
and read_pairs :: "nat \<Rightarrow> (string \<times> cval) list \<Rightarrow> string \<Rightarrow> (cval \<times> string) option" where
  "read_val 0 s = None"
| "read_val (Suc n) s =
     (case s of
        [] \<Rightarrow> None
      | c # r \<Rightarrow>
          if c = DQ then map_option (\<lambda>(t, r'). (CStr t, r')) (read_str r)
          else if c = CHR ''['' then
            (if starts_with_char (CHR '']'') (skip_ws r) then Some (CList [], tl (skip_ws r))
             else read_items n [] (skip_ws r))
          else if c = CHR ''{'' then
            (if starts_with_char (CHR ''}'') (skip_ws r) then Some (CDict [], tl (skip_ws r))
             else read_pairs n [] (skip_ws r))
          else if prefix ''null'' s then Some (CNull, drop 4 s)
          else if prefix ''true'' s then Some (CBool True, drop 4 s)
          else if prefix ''false'' s then Some (CBool False, drop 5 s)
          else if prefix ''NaN'' s then Some (CFloat ''nan'', drop 3 s)
          else if prefix ''Infinity'' s then Some (CFloat ''inf'', drop 8 s)
          else if prefix ''-Infinity'' s then Some (CFloat ''-inf'', drop 9 s)
          else read_number s)"
| "read_items 0 acc s = None"
| "read_items (Suc n) acc s =
     (case read_val n s of
        None \<Rightarrow> None
      | Some (v, r) \<Rightarrow>
          (case skip_ws r of
             [] \<Rightarrow> None
           | d # t \<Rightarrow> if d = CHR '']'' then Some (CList (acc @ [v]), t)
                      else if d = CHR '','' then read_items n (acc @ [v]) (skip_ws t)
                      else None))"
| "read_pairs 0 acc s = None"
| "read_pairs (Suc n) acc s =
     (case s of
        [] \<Rightarrow> None
      | q # s' \<Rightarrow>
          if q \<noteq> DQ then None
          else (case read_str s' of
             None \<Rightarrow> None
           | Some (k, r) \<Rightarrow>
               (case skip_ws r of
                  [] \<Rightarrow> None
                | d # t \<Rightarrow>
                    if d \<noteq> CHR '':'' then None
                    else (case read_val n (skip_ws t) of
                       None \<Rightarrow> None
                     | Some (v, r2) \<Rightarrow>
                         (case skip_ws r2 of
                            [] \<Rightarrow> None
                          | d2 # t2 \<Rightarrow>
                              if d2 = CHR ''}'' then Some (CDict (dict_put acc k v), t2)
                              else if d2 = CHR '','' then read_pairs n (dict_put acc k v) (skip_ws t2)
                              else None)))))"

definition json_loads :: "string \<Rightarrow> exc + cval" where
  "json_loads s =
     (case read_val (Suc (length s)) (skip_ws s) of
        Some (v, r) \<Rightarrow> if skip_ws r = [] then Inr v else Inl ValueError
      | None \<Rightarrow> Inl ValueError)"

end
