(* ===== verification/Json_Roundtrip.thy ===== *)
theory Json_Roundtrip
  imports Json
begin

text \<open>
  The reader inverts the writer: \<open>json.loads(json.dumps(v)) == v\<close> for every value JSON can
  represent (no bytes, floats with a number text, distinct dict keys), and sorting the keys only
  reorders the dict items.
\<close>

section \<open>Values JSON can represent\<close>

definition special_floats :: "string set" where
  "special_floats = {''nan'', ''inf'', ''-inf''}"

definition float_text :: "string \<Rightarrow> bool" where
  "float_text r = (r \<in> special_floats \<or> read_number r = Some (CFloat r, []))"

fun wf_json :: "cval \<Rightarrow> bool" where
  "wf_json (CBytes s) = False"
| "wf_json (CFloat r) = float_text r"
| "wf_json (CList vs) = list_all wf_json vs"
| "wf_json (CDict d) = (distinct (map fst d) \<and> list_all (\<lambda>(k, v). wf_json v) d)"
| "wf_json v = True"

section \<open>Strings\<close>

lemma hex_val_digit [simp]: "n < 16 \<Longrightarrow> hex_val (hex_digit n) = Some n"
  by (auto simp: hex_val_def hex_digit_def of_char_of Let_def)

lemma of_char_bound [simp]: "(of_char c :: nat) < 256"
  using nat_of_char_less_256 .

lemma hex4_char [simp]:
  "hex4 (CHR ''0'') (CHR ''0'') (hex_digit (of_char c div 16)) (hex_digit (of_char c mod 16))
     = Some c"
proof -
  have "(of_char c :: nat) div 16 < 16"
    using of_char_bound [of c] by (simp add: div_less_iff_less_mult)
  moreover have "hex_val CHR ''0'' = Some 0"
    by (simp add: hex_val_def Let_def)
  ultimately show ?thesis
    by (simp add: hex4_def Let_def)
qed

lemma char_of_eq: "(of_char c :: nat) = k \<Longrightarrow> char_of k = c"
  by auto

lemma read_str_char:
  "read_str (json_char a c @ t) = map_option (\<lambda>(s, r). (c # s, r)) (read_str t)"
proof -
  have "unescape CHR ''n'' = Some (char_of (10::nat))" "unescape CHR ''r'' = Some (char_of (13::nat))"
    "unescape CHR ''t'' = Some (char_of (9::nat))" "unescape CHR ''f'' = Some (char_of (12::nat))"
    "unescape CHR ''b'' = Some (char_of (8::nat))" "unescape DQ = Some DQ"
    "unescape (CHR 0x5C) = Some (CHR 0x5C)"
    by (simp_all add: unescape_def)
  then show ?thesis
    by (auto simp: json_char_def Let_def char_of_eq)
qed

lemma read_json_str: "read_str (concat (map (json_char a) s) @ DQ # r) = Some (s, r)"
  by (induction s) (simp_all add: read_str_char)

section \<open>Numbers\<close>

definition ends_number :: "string \<Rightarrow> bool" where
  "ends_number r = (case r of [] \<Rightarrow> True
     | c # _ \<Rightarrow> \<not> is_digit c \<and> c \<noteq> CHR ''.'' \<and> c \<noteq> CHR ''e'' \<and> c \<noteq> CHR ''E''
              \<and> c \<noteq> CHR ''+'' \<and> c \<noteq> CHR ''-'')"

lemma span_ends:
  assumes "ends_number r"
  shows "takeWhile is_digit r = []" "dropWhile is_digit r = r"
  using assms by (auto simp: ends_number_def split: list.splits)

lemma span_append:
  assumes "ends_number r"
  shows "takeWhile is_digit (s @ r) = takeWhile is_digit s"
    and "dropWhile is_digit (s @ r) = dropWhile is_digit s @ r"
  using span_ends [OF assms] by (induction s) auto

lemma read_int_part_append:
  "ends_number r \<Longrightarrow> read_int_part s = Some (i, t) \<Longrightarrow> read_int_part (s @ r) = Some (i, t @ r)"
  by (cases s; cases "tl s")
    (auto simp: read_int_part_def span_append span_ends split: if_splits list.splits)

lemma read_frac_append:
  "ends_number r \<Longrightarrow> read_frac (s @ r) = (fst (read_frac s), snd (read_frac s) @ r)"
  by (cases s; cases "tl s"; cases r)
    (auto simp: read_frac_def ends_number_def span_append split: list.splits)

lemma read_exp_append:
  "ends_number r \<Longrightarrow> read_exp (s @ r) = (fst (read_exp s), snd (read_exp s) @ r)"
  by (cases s; cases "tl s"; cases r)
    (auto simp: read_exp_def ends_number_def span_append Let_def split: list.splits)

lemma ends_number_rest: "ends_number r \<Longrightarrow> read_frac r = ([], r) \<and> read_exp r = ([], r)"
  by (cases r) (auto simp: ends_number_def read_frac_def read_exp_def split: list.splits)

lemma show_nat_head: "\<exists>c t. show_nat n = c # t \<and> is_digit c \<and> (c = CHR ''0'' \<longrightarrow> n = 0 \<and> t = [])"
proof (induction n rule: show_nat.induct)
  case (1 n)
  show ?case
  proof (cases "n < 10")
    case True
    have "digit_char n = CHR ''0'' \<Longrightarrow> n = 0"
      using True digit_val_char [of n] digit_val_char [of 0] by simp
    then show ?thesis using True by (subst show_nat.simps) simp
  next
    case False
    with 1 obtain c t where "show_nat (n div 10) = c # t" "is_digit c"
      "c = CHR ''0'' \<longrightarrow> n div 10 = 0 \<and> t = []" by auto
    then show ?thesis using False by (subst (1) show_nat.simps) auto
  qed
qed

lemma takeWhile_all_digits: "takeWhile is_digit (show_nat n) = show_nat n"
  by (simp add: show_nat_digits takeWhile_eq_all_conv)

lemma read_int_part_show: "read_int_part (show_int i) = Some (show_int i, [])"
proof -
  have *: "read_int_part (p @ show_nat n) = Some (p @ show_nat n, [])"
    if "p = [] \<or> p = ''-''" for p n
  proof -
    obtain c t where n: "show_nat n = c # t" and c: "is_digit c" "c = CHR ''0'' \<longrightarrow> n = 0 \<and> t = []"
      using show_nat_head by blast
    have "takeWhile is_digit (c # t) = c # t" "dropWhile is_digit (c # t) = []"
      using takeWhile_all_digits [of n] dropWhile_eq_Nil_conv [of is_digit "c # t"] show_nat_digits [of _ n]
      by (auto simp: n)
    moreover have "c \<noteq> CHR ''-''" using c by auto
    ultimately show ?thesis
      using that c by (auto simp: read_int_part_def n)
  qed
  show ?thesis
    using * [of "''-''"] * [of "[]"] by (simp add: show_int_def)
qed

lemma int_of_text_show [simp]: "int_of_text (show_int i) = i"
proof -
  obtain c t where "show_nat (nat i) = c # t" "is_digit c" using show_nat_head by blast
  moreover from this have "c \<noteq> CHR ''-''" by auto
  ultimately show ?thesis
    using nat_of_show_nat [of "nat i"] by (auto simp: int_of_text_def show_int_def)
qed

lemma read_number_int: "ends_number r \<Longrightarrow> read_number (show_int i @ r) = Some (CInt i, r)"
  using read_int_part_append [OF _ read_int_part_show] ends_number_rest [of r]
  by (simp add: read_number_def)

lemma read_number_float:
  assumes "ends_number r" and "read_number t = Some (CFloat t, [])"
  shows "read_number (t @ r) = Some (CFloat t, r)"
proof -
  from assms(2) obtain i t1 where i: "read_int_part t = Some (i, t1)"
    by (auto simp: read_number_def split: option.splits)
  show ?thesis
    using assms read_int_part_append [OF assms(1) i] read_frac_append [OF assms(1), of t1]
      read_exp_append [OF assms(1), of "snd (read_frac t1)"]
    by (auto simp: read_number_def i Let_def split: prod.splits if_splits)
qed

lemma read_number_int_part:
  assumes "read_number r = Some y"
  shows "\<exists>x. read_int_part r = Some x"
proof (cases "read_int_part r")
  case None
  then show ?thesis using assms by (simp add: read_number_def)
qed simp

text \<open>A text that starts a number reaches the number reader: no keyword starts that way.\<close>

lemma read_int_part_head:
  "read_int_part s = Some x \<Longrightarrow>
   \<exists>c t. s = c # t \<and> (is_digit c \<or> (c = CHR ''-'' \<and> t \<noteq> [] \<and> is_digit (hd t)))"
proof (cases s)
  case (Cons c t)
  assume "read_int_part s = Some x"
  moreover have "is_digit CHR ''0''" by (simp add: is_digit_def)
  ultimately show ?thesis
    using Cons by (cases "c = CHR ''-''"; cases t) (auto simp: read_int_part_def split: if_splits)
qed (auto simp: read_int_part_def)

lemma not_digit_keywords: "\<not> is_digit CHR ''N''" "\<not> is_digit CHR ''I''"
  by (simp_all add: is_digit_def)

lemma read_val_number:
  assumes "read_int_part s = Some x"
  shows "read_val (Suc n) s = read_number s"
proof -
  obtain c t where s: "s = c # t"
    and c: "is_digit c \<or> (c = CHR ''-'' \<and> t \<noteq> [] \<and> is_digit (hd t))"
    using read_int_part_head [OF assms] by blast
  have "c \<noteq> DQ" "c \<noteq> CHR ''[''" "c \<noteq> CHR ''{''" "c \<noteq> CHR ''n''" "c \<noteq> CHR ''t''" "c \<noteq> CHR ''f''"
    "c \<noteq> CHR ''N''" "c \<noteq> CHR ''I''" "\<not> (c = CHR ''-'' \<and> prefix ''Infinity'' t)"
    using c by (auto simp: not_digit_keywords prefix_def)
  then show ?thesis by (auto simp: s)
qed

section \<open>Values\<close>

text \<open>What may follow a value: the end, or a delimiter of the enclosing list or dict.\<close>

definition delim :: "string \<Rightarrow> bool" where
  "delim r = (case r of [] \<Rightarrow> True | c # _ \<Rightarrow> c = CHR '','' \<or> c = CHR '']'' \<or> c = CHR ''}'')"

lemma delim_ends: "delim r \<Longrightarrow> ends_number r"
  by (auto simp: delim_def ends_number_def split: list.splits)

lemma skip_ws_simps [simp]:
  "skip_ws (c # r) = (if is_ws c then skip_ws r else c # r)" "skip_ws [] = []"
  by (simp_all add: skip_ws_def)

lemma is_ws_simps [simp]:
  "is_ws CHR '' ''" "\<not> is_ws CHR '',''" "\<not> is_ws CHR '']''" "\<not> is_ws CHR ''}''" "\<not> is_ws CHR '':''"
  "\<not> is_ws DQ" "\<not> is_ws CHR ''[''" "\<not> is_ws CHR ''{''" "\<not> is_ws CHR ''-''" "\<not> is_ws CHR ''n''"
  "\<not> is_ws CHR ''t''" "\<not> is_ws CHR ''f''" "\<not> is_ws CHR ''N''" "\<not> is_ws CHR ''I''"
  by (simp_all add: is_ws_def)

lemma is_digit_not_ws: "is_digit c \<Longrightarrow> \<not> is_ws c"
  by (auto simp: is_ws_def is_digit_def)

abbreviation dumps0 :: "bool \<Rightarrow> cval \<Rightarrow> string" where
  "dumps0 a \<equiv> json_dumps a False"

text \<open>The first character of a value's text is not white space and closes nothing.\<close>

definition value_head :: "char \<Rightarrow> bool" where
  "value_head c = (\<not> is_ws c \<and> c \<noteq> CHR '']'' \<and> c \<noteq> CHR ''}'')"

lemma number_head: "read_int_part s = Some x \<Longrightarrow> \<exists>c t. s = c # t \<and> value_head c"
proof -
  assume "read_int_part s = Some x"
  then obtain c t where "s = c # t" and c: "is_digit c \<or> c = CHR ''-''"
    using read_int_part_head by blast
  moreover have "value_head c"
    using c is_digit_not_ws [of c] by (auto simp: value_head_def)
  ultimately show ?thesis by blast
qed

lemma float_text_number:
  "float_text r \<Longrightarrow> r \<notin> special_floats \<Longrightarrow> \<exists>x. read_int_part r = Some x"
  unfolding float_text_def using read_number_int_part by blast

lemma dumps0_head: "wf_json v \<Longrightarrow> \<exists>c t. dumps0 a v = c # t \<and> value_head c"
proof (cases v)
  case (CFloat r)
  assume "wf_json v"
  then show ?thesis
    using CFloat float_text_number [of r] number_head [of r]
    by (cases "r \<in> special_floats") (auto simp: float_json_def value_head_def special_floats_def)
next
  case (CInt i)
  then show ?thesis using number_head [OF read_int_part_show] by simp
qed (simp_all add: value_head_def json_str_def)

lemma read_val_scalar:
  assumes "delim r"
  shows "read_val (Suc n) (show_int i @ r) = Some (CInt i, r)"
    and "float_text t \<Longrightarrow> read_val (Suc n) (float_json t @ r) = Some (CFloat t, r)"
    and "read_val (Suc n) (json_str a s @ r) = Some (CStr s, r)"
proof -
  note e = delim_ends [OF assms]
  show "read_val (Suc n) (show_int i @ r) = Some (CInt i, r)"
    using read_val_number [OF read_int_part_append [OF e read_int_part_show]]
      read_number_int [OF e] by simp
  show "read_val (Suc n) (json_str a s @ r) = Some (CStr s, r)"
    by (simp add: json_str_def read_json_str)
  assume t: "float_text t"
  show "read_val (Suc n) (float_json t @ r) = Some (CFloat t, r)"
  proof (cases "t \<in> special_floats")
    case True
    then show ?thesis by (auto simp: float_json_def special_floats_def)
  next
    case False
    with t float_text_number obtain x y where x: "read_int_part t = Some (x, y)" by fastforce
    show ?thesis
      using False t read_val_number [OF read_int_part_append [OF e x]] read_number_float [OF e]
      by (simp add: float_json_def float_text_def special_floats_def)
  qed
qed

text \<open>The fuel a value needs: one unit per node and one per list element or dict item.\<close>

fun need :: "cval \<Rightarrow> nat" where
  "need (CList vs) = 1 + sum_list (map (\<lambda>v. 1 + need v) vs)"
| "need (CDict d) = 1 + sum_list (map (\<lambda>(k, v). 1 + need v) d)"
| "need v = 1"

lemma need_pos [simp]: "0 < need v" by (cases v) auto

definition reads_back :: "bool \<Rightarrow> cval \<Rightarrow> bool" where
  "reads_back a v = (\<forall>n r. delim r \<longrightarrow> need v \<le> n \<longrightarrow> read_val n (dumps0 a v @ r) = Some (v, r))"

lemma reads_backD: "reads_back a v \<Longrightarrow> delim r \<Longrightarrow> need v \<le> n \<Longrightarrow> read_val n (dumps0 a v @ r) = Some (v, r)"
  by (simp add: reads_back_def)

lemma delim_simps [simp]: "delim (CHR '','' # r)" "delim (CHR '']'' # r)" "delim (CHR ''}'' # r)" "delim []"
  by (simp_all add: delim_def)

lemma skip_ws_dumps0: "wf_json v \<Longrightarrow> skip_ws (dumps0 a v @ r) = dumps0 a v @ r"
  using dumps0_head [of v a] by (auto simp: value_head_def)

lemma skip_ws_join_values:
  "vs \<noteq> [] \<Longrightarrow> list_all wf_json vs \<Longrightarrow>
   skip_ws (join s (map (dumps0 a) vs) @ r) = join s (map (dumps0 a) vs) @ r"
  by (cases vs; cases "tl vs") (auto simp: join_Cons skip_ws_dumps0)

lemma read_items_back:
  assumes "\<And>v. v \<in> set vs \<Longrightarrow> reads_back a v" and "list_all wf_json vs" and "vs \<noteq> []"
    and "sum_list (map (\<lambda>v. 1 + need v) vs) \<le> n"
  shows "read_items n acc (join '', '' (map (dumps0 a) vs) @ CHR '']'' # r) = Some (CList (acc @ vs), r)"
  using assms
proof (induction vs arbitrary: n acc)
  case (Cons v vs)
  from Cons.prems(4) obtain m where n: "n = Suc m" and m: "need v \<le> m"
    "sum_list (map (\<lambda>v. 1 + need v) vs) \<le> m"
    by (cases n) auto
  have v: "reads_back a v" using Cons.prems(1) by simp
  show ?case
  proof (cases "vs = []")
    case True
    then show ?thesis using reads_backD [OF v, of "CHR '']'' # r" m] m n by simp
  next
    case False
    let ?rest = "join '', '' (map (dumps0 a) vs) @ CHR '']'' # r"
    have "read_items m (acc @ [v]) ?rest = Some (CList ((acc @ [v]) @ vs), r)"
      using Cons.prems False m by (intro Cons.IH) auto
    then show ?thesis
      using False Cons.prems(2) reads_backD [OF v, of "CHR '','' # CHR '' '' # ?rest" m] m n
      by (simp add: join_Cons skip_ws_join_values)
  qed
qed simp

definition dump_item :: "bool \<Rightarrow> string \<times> cval \<Rightarrow> string" where
  "dump_item a kv = json_str a (fst kv) @ '': '' @ dumps0 a (snd kv)"

lemma skip_ws_join_items:
  "d \<noteq> [] \<Longrightarrow> skip_ws (join s (map (dump_item a) d) @ r) = join s (map (dump_item a) d) @ r"
  by (cases d; cases "tl d") (auto simp: join_Cons json_str_def dump_item_def)

lemma dict_put_fresh [simp]: "k \<notin> fst ` set d \<Longrightarrow> dict_put d k v = d @ [(k, v)]"
  by (simp add: dict_put_def)

lemma read_pairs_step:
  assumes "reads_back a v" "wf_json v" "need v \<le> m" "delim r"
  shows "read_pairs (Suc m) acc (dump_item a (k, v) @ r) =
      (case skip_ws r of [] \<Rightarrow> None
       | d2 # t2 \<Rightarrow> if d2 = CHR ''}'' then Some (CDict (dict_put acc k v), t2)
                    else if d2 = CHR '','' then read_pairs m (dict_put acc k v) (skip_ws t2)
                    else None)"
  using assms reads_backD [OF assms(1,4,3)]
  by (simp add: json_str_def read_json_str skip_ws_dumps0 dump_item_def)

lemma read_pairs_back:
  assumes "\<And>k v. (k, v) \<in> set d \<Longrightarrow> reads_back a v \<and> wf_json v" and "d \<noteq> []"
    and "distinct (map fst (acc @ d))"
    and "sum_list (map (\<lambda>(k, v). 1 + need v) d) \<le> n"
  shows "read_pairs n acc (join '', '' (map (dump_item a) d) @ CHR ''}'' # r) = Some (CDict (acc @ d), r)"
  using assms
proof (induction d arbitrary: n acc)
  case (Cons kv d)
  obtain k v where kv: "kv = (k, v)" by (cases kv)
  from Cons.prems(4) obtain m where n: "n = Suc m" and m: "need v \<le> m"
    "sum_list (map (\<lambda>(k, v). 1 + need v) d) \<le> m"
    by (cases n) (auto simp: kv)
  have v: "reads_back a v" "wf_json v" using Cons.prems(1) by (auto simp: kv)
  have put: "dict_put acc k v = acc @ [(k, v)]"
    using Cons.prems(3) by (auto simp: kv image_iff)
  show ?case
  proof (cases "d = []")
    case True
    then show ?thesis
      using read_pairs_step [OF v m(1), of "CHR ''}'' # r" acc k] by (simp add: kv n put del: read_pairs.simps)
  next
    case False
    let ?rest = "join '', '' (map (dump_item a) d) @ CHR ''}'' # r"
    have "read_pairs m (acc @ [(k, v)]) ?rest = Some (CDict ((acc @ [(k, v)]) @ d), r)"
      using Cons.prems False m by (intro Cons.IH) (auto simp: kv)
    then show ?thesis
      using False read_pairs_step [OF v m(1), of "CHR '','' # CHR '' '' # ?rest" acc k]
      by (simp add: kv n put join_Cons skip_ws_join_items del: read_pairs.simps)
  qed
qed simp

lemma dumps0_dict: "dumps0 a (CDict d) = ''{'' @ join '', '' (map (dump_item a) d) @ ''}''"
  by (simp add: case_prod_unfold o_def dump_item_def [abs_def])

lemma not_close_value: "wf_json v \<Longrightarrow> \<not> starts_with_char (CHR '']'') (dumps0 a v @ r)"
  using dumps0_head [of v a] by (auto simp: value_head_def)

lemma not_close_values:
  "vs \<noteq> [] \<Longrightarrow> list_all wf_json vs \<Longrightarrow>
   \<not> starts_with_char (CHR '']'') (join s (map (dumps0 a) vs) @ r)"
  by (cases vs; cases "tl vs") (auto simp: join_Cons not_close_value)

lemma reads_back_suc:
  assumes "need v = 1" and "\<And>n r. delim r \<Longrightarrow> read_val (Suc n) (dumps0 a v @ r) = Some (v, r)"
  shows "reads_back a v"
  unfolding reads_back_def
proof (intro allI impI)
  fix n r
  assume r: "delim r" and "need v \<le> n"
  then obtain m where "n = Suc m" using assms(1) by (cases n) auto
  then show "read_val n (dumps0 a v @ r) = Some (v, r)" using assms(2) [OF r] by simp
qed

lemma reads_back_scalar:
  "reads_back a CNull" "reads_back a (CBool b)" "reads_back a (CInt i)"
  "float_text t \<Longrightarrow> reads_back a (CFloat t)" "reads_back a (CStr s)"
proof -
  show "reads_back a CNull" by (rule reads_back_suc) simp_all
  show "reads_back a (CBool b)" by (rule reads_back_suc; cases b) simp_all
  show "reads_back a (CInt i)" "float_text t \<Longrightarrow> reads_back a (CFloat t)" "reads_back a (CStr s)"
    by (rule reads_back_suc; simp add: read_val_scalar del: read_val.simps)+
qed

lemma reads_back_all: "wf_json v \<Longrightarrow> reads_back a v"
proof (induction v)
  case (CList vs)
  have IH: "\<And>v. v \<in> set vs \<Longrightarrow> reads_back a v" using CList by (auto simp: list_all_iff)
  have "read_val n (dumps0 a (CList vs) @ r) = Some (CList vs, r)"
    if dl: "delim r" and nd: "need (CList vs) \<le> n" for n r
  proof -
    obtain m where n: "n = Suc m" using nd by (cases n) auto
    show ?thesis
    proof (cases "vs = []")
      case False
      have "read_items m [] (join '', '' (map (dumps0 a) vs) @ CHR '']'' # r) = Some (CList ([] @ vs), r)"
        using IH CList.prems False nd n by (intro read_items_back) auto
      then show ?thesis
        using False CList.prems by (simp add: n skip_ws_join_values not_close_values)
    qed (simp add: n)
  qed
  then show ?case by (simp only: reads_back_def) simp
next
  case (CDict d)
  have IH: "\<And>k v. (k, v) \<in> set d \<Longrightarrow> reads_back a v \<and> wf_json v"
    using CDict by (fastforce simp: list_all_iff)
  have "read_val n (dumps0 a (CDict d) @ r) = Some (CDict d, r)"
    if dl: "delim r" and nd: "need (CDict d) \<le> n" for n r
  proof -
    obtain m where n: "n = Suc m" using nd by (cases n) auto
    show ?thesis
    proof (cases "d = []")
      case False
      have "read_pairs m [] (join '', '' (map (dump_item a) d) @ CHR ''}'' # r) = Some (CDict ([] @ d), r)"
        using IH CDict.prems False nd n by (intro read_pairs_back) auto
      moreover have "\<not> starts_with_char (CHR ''}'') (join '', '' (map (dump_item a) d) @ t)" for t
        using False by (cases d; cases "tl d") (auto simp: join_Cons json_str_def dump_item_def)
      ultimately show ?thesis
        using False unfolding dumps0_dict by (simp add: n skip_ws_join_items)
    qed (simp add: n)
  qed
  then show ?case by (simp only: reads_back_def) simp
qed (simp_all add: reads_back_scalar)

section \<open>The fuel is enough\<close>

lemma length_join_ge: "sum_list (map length xs) \<le> length (join s xs)"
  by (induction s xs rule: join.induct) auto

lemma length_join2:
  "xs \<noteq> [] \<Longrightarrow> length s = 2 \<Longrightarrow> sum_list (map length xs) + 2 * length xs = length (join s xs) + 2"
proof (induction xs)
  case (Cons x xs)
  then show ?case by (cases "xs = []") (auto simp: join_Cons)
qed simp

lemma need_le_length: "wf_json v \<Longrightarrow> need v \<le> length (dumps0 a v)"
proof (induction v)
  case (CFloat r)
  then show ?case using dumps0_head [of "CFloat r" a] by auto
next
  case (CList vs)
  have "sum_list (map (\<lambda>v. 1 + need v) vs) \<le> sum_list (map (\<lambda>v. 1 + length (dumps0 a v)) vs)"
    using CList by (intro sum_list_mono) (auto simp: list_all_iff)
  also have "\<dots> = sum_list (map length (map (dumps0 a) vs)) + length vs"
    by (induction vs) auto
  finally show ?case
    using length_join2 [of "map (dumps0 a) vs" "'', ''"] by (cases vs) (simp_all add: o_def)
next
  case (CDict d)
  have "sum_list (map (\<lambda>(k, v). 1 + need v) d) \<le> sum_list (map (\<lambda>i. length (dump_item a i)) d)"
    using CDict by (intro sum_list_mono) (fastforce simp: list_all_iff dump_item_def)
  also have "\<dots> \<le> length (join '', '' (map (dump_item a) d))"
    using length_join_ge [of "map (dump_item a) d" "'', ''"] by (simp add: o_def)
  finally show ?case unfolding dumps0_dict by simp
qed (auto simp: json_str_def Suc_le_eq)

lemma loads_dumps0: "wf_json v \<Longrightarrow> json_loads (dumps0 a v) = Inr v"
  using reads_backD [OF reads_back_all [of v a], of "[]" "Suc (length (dumps0 a v))"]
    need_le_length [of v a] skip_ws_dumps0 [of v a "[]"]
  by (simp add: json_loads_def del: read_val.simps)

lemma dumps0_inj: "wf_json v \<Longrightarrow> wf_json w \<Longrightarrow> dumps0 a v = dumps0 a w \<Longrightarrow> v = w"
  by (metis loads_dumps0 sum.inject(2))

section \<open>Sorted keys\<close>

fun json_sorted :: "cval \<Rightarrow> cval" where
  "json_sorted (CList vs) = CList (map json_sorted vs)"
| "json_sorted (CDict d) = CDict (sort_items (map (\<lambda>(k, v). (k, json_sorted v)) d))"
| "json_sorted v = v"

lemma insort_key_map: "insort_key f (g x) (map g xs) = map g (insort_key (\<lambda>x. f (g x)) x xs)"
  by (induction xs) auto

lemma sort_key_map: "sort_key f (map g xs) = map g (sort_key (\<lambda>x. f (g x)) xs)"
  by (induction xs) (auto simp: insort_key_map)

lemma sort_items_map:
  "sort_items (map (\<lambda>p. (fst p, f (snd p))) d) = map (\<lambda>p. (fst p, f (snd p))) (sort_items d)"
  by (simp add: sort_items_def sort_key_map)

lemma dumps_sorted: "json_dumps a True v = dumps0 a (json_sorted v)"
proof (induction v)
  case (CDict d)
  then have IH: "json_dumps a True (snd p) = dumps0 a (json_sorted (snd p))" if "p \<in> set d" for p
    using that by (cases p) (auto simp: snds.simps)
  show ?case
    by (simp add: sort_items_map [of json_sorted] sort_items_map [of "\<lambda>v. dumps0 a (json_sorted v)"]
        case_prod_unfold o_def IH cong: map_cong)
qed (simp_all add: o_def cong: map_cong)

lemma wf_json_sorted: "wf_json v \<Longrightarrow> wf_json (json_sorted v)"
proof (induction v)
  case (CDict d)
  then show ?case
    by (auto simp: list_all_iff o_def case_prod_unfold)
qed (auto simp: list_all_iff)

lemma dumps_sorted_eq_iff:
  "wf_json v \<Longrightarrow> wf_json w \<Longrightarrow>
   json_dumps a True v = json_dumps a True w \<longleftrightarrow> json_sorted v = json_sorted w"
  by (metis dumps_sorted dumps0_inj wf_json_sorted)

end
