(* ===== verification/Serializers.thy ===== *)
theory Serializers
  imports Json_Roundtrip
begin

text \<open>
  The serializers of \<open>cache/base.py\<close>: \<open>JSONSerializer\<close> (JSON text in UTF-8),
  \<open>NullSerializer\<close> and \<open>PickleSerializer\<close>. \<open>pickle\<close> is the pair of parameters
  \<open>pickle_dumps\<close> and \<open>pickle_loads\<close>. Bytes are \<^typ>\<open>string\<close>s, one \<^typ>\<open>char\<close> per byte. A
  byte sequence that encodes a character beyond U+00FF is a decoding error in the model.
\<close>

section \<open>UTF-8\<close>

definition utf8_char :: "char \<Rightarrow> string" where
  "utf8_char c = (let k = (of_char c :: nat) in
     if k < 128 then [c] else [char_of (192 + k div 64), char_of (128 + k mod 64)])"

definition utf8_encode :: "string \<Rightarrow> string" where
  "utf8_encode s = concat (map utf8_char s)"

fun utf8_decode :: "string \<Rightarrow> string option" where
  "utf8_decode [] = Some []"
| "utf8_decode (b # bs) =
     (if (of_char b :: nat) < 128 then map_option ((#) b) (utf8_decode bs)
      else (case bs of
              [] \<Rightarrow> None
            | c # cs \<Rightarrow>
                (let k = (of_char b :: nat); l = (of_char c :: nat) in
                 if (k = 194 \<or> k = 195) \<and> 128 \<le> l \<and> l < 192
                 then map_option ((#) (char_of ((k - 192) * 64 + (l - 128)))) (utf8_decode cs)
                 else None)))"

lemma utf8_decode_char: "utf8_decode (utf8_char c @ t) = map_option ((#) c) (utf8_decode t)"
proof (cases "(of_char c :: nat) < 128")
  case True
  then show ?thesis by (simp add: utf8_char_def)
next
  case False
  let ?k = "of_char c :: nat"
  have k: "128 \<le> ?k" "?k < 256" using False by simp_all
  have "2 \<le> ?k div 64" using k(1) div_le_mono [of 128 ?k 64] by simp
  moreover have "?k div 64 < 4" using k(2) by (simp only: less_mult_imp_div_less)
  ultimately have d: "?k div 64 = 2 \<or> ?k div 64 = 3" by linarith
  have low: "?k mod 64 < 64" by simp
  have "of_char (char_of (192 + ?k div 64) :: char) = 192 + ?k div 64"
    "of_char (char_of (128 + ?k mod 64) :: char) = 128 + ?k mod 64"
    using d low by (auto simp: of_char_of)
  moreover have "?k div 64 * 64 + ?k mod 64 = ?k" by simp
  ultimately show ?thesis
    using d low False by (auto simp: utf8_char_def Let_def)
qed

lemma utf8_decode_encode [simp]: "utf8_decode (utf8_encode s) = Some s"
proof (induction s)
  case (Cons c s)
  then show ?case using utf8_decode_char [of c "utf8_encode s"] by (simp add: utf8_encode_def)
qed (simp add: utf8_encode_def)

section \<open>The serializers\<close>

record serializer =
  ser_dumps :: "cval \<Rightarrow> exc + string"
  ser_loads :: "string \<Rightarrow> exc + cval"

text \<open>\<open>JSONSerializer(default)\<close>; without one, values JSON cannot encode go through \<open>str\<close>.\<close>

definition json_dumps_bytes :: "(cval \<Rightarrow> cval) option \<Rightarrow> cval \<Rightarrow> exc + string" where
  "json_dumps_bytes df v =
     (let w = apply_default (case df of None \<Rightarrow> (\<lambda>x. CStr (py_str_of x)) | Some f \<Rightarrow> f) v
      in if has_bytes w then Inl ValueError else Inr (utf8_encode (json_dumps False False w)))"

definition json_loads_bytes :: "string \<Rightarrow> exc + cval" where
  "json_loads_bytes data =
     (case utf8_decode data of None \<Rightarrow> Inl ValueError | Some s \<Rightarrow> json_loads s)"

definition JSONSerializer :: "(cval \<Rightarrow> cval) option \<Rightarrow> serializer" where
  "JSONSerializer df =
     \<lparr>ser_dumps = json_dumps_bytes df, ser_loads = json_loads_bytes\<rparr>"

definition PickleSerializer :: "(cval \<Rightarrow> exc + string) \<Rightarrow> (string \<Rightarrow> exc + cval) \<Rightarrow> serializer" where
  "PickleSerializer pickle_dumps pickle_loads =
     \<lparr>ser_dumps = pickle_dumps, ser_loads = pickle_loads\<rparr>"

definition null_dumps :: "cval \<Rightarrow> exc + string" where
  "null_dumps v = (case v of CBytes b \<Rightarrow> Inr b | _ \<Rightarrow> Inr (utf8_encode (py_str_of v)))"

definition null_loads :: "string \<Rightarrow> exc + cval" where
  "null_loads data = Inr (CBytes data)"

definition NullSerializer :: serializer where
  "NullSerializer = \<lparr>ser_dumps = null_dumps, ser_loads = null_loads\<rparr>"

section \<open>What a cache backend relies on\<close>

text \<open>Values in \<open>good\<close> are written without error and read back unchanged; every failure of
  the serializer is an exception the backend translates (\<open>TypeError\<close> or \<open>ValueError\<close>).\<close>

locale faithful_serializer =
  fixes S :: serializer and good :: "cval \<Rightarrow> bool"
  assumes dumps_good: "good v \<Longrightarrow> \<exists>d. ser_dumps S v = Inr d \<and> ser_loads S d = Inr v"
    and dumps_error: "ser_dumps S v = Inl e \<Longrightarrow> catches [TypeError, ValueError] e"
    and loads_error: "ser_loads S d = Inl e \<Longrightarrow> catches [TypeError, ValueError] e"
begin

lemma good_cases:
  assumes "good v"
  obtains d where "ser_dumps S v = Inr d" "ser_loads S d = Inr v"
  using dumps_good [OF assms] by blast

lemma dumps_inj: "good v \<Longrightarrow> good w \<Longrightarrow> ser_dumps S v = ser_dumps S w \<Longrightarrow> v = w"
  using dumps_good [of v] dumps_good [of w] by auto

end

lemma wf_no_bytes: "wf_json v \<Longrightarrow> \<not> has_bytes v"
  by (induction v) (auto simp: list_all_iff list_ex_iff)

lemma apply_default_no_bytes: "\<not> has_bytes v \<Longrightarrow> apply_default f v = v"
proof (induction v)
  case (CList vs)
  then show ?case by (auto simp: list_ex_iff intro!: map_idI)
next
  case (CDict d)
  then show ?case by (auto simp: list_ex_iff snds.simps intro!: map_idI)
qed auto

lemma apply_str_default_no_bytes: "\<not> has_bytes (apply_default (\<lambda>x. CStr (f x)) v)"
  by (induction v) (auto simp: list_ex_iff snds.simps)

lemma json_dumps_wf: "wf_json v \<Longrightarrow> json_dumps_bytes df v = Inr (utf8_encode (json_dumps False False v))"
  by (simp add: json_dumps_bytes_def wf_no_bytes apply_default_no_bytes)

lemma json_bytes_back: "wf_json v \<Longrightarrow> json_loads_bytes (utf8_encode (json_dumps False False v)) = Inr v"
  by (simp add: json_loads_bytes_def loads_dumps0)

lemma json_loads_error: "json_loads s = Inl e \<Longrightarrow> e = ValueError"
  by (auto simp: json_loads_def split: option.splits prod.splits if_splits)

lemma catches_value_error [simp]: "catches [TypeError, ValueError] ValueError"
  by (simp add: catches_def)

interpretation json: faithful_serializer "JSONSerializer df" wf_json for df
proof
  fix v e d
  show "wf_json v \<Longrightarrow> \<exists>d. ser_dumps (JSONSerializer df) v = Inr d
      \<and> ser_loads (JSONSerializer df) d = Inr v"
    by (simp add: JSONSerializer_def json_dumps_wf json_bytes_back)
  show "ser_dumps (JSONSerializer df) v = Inl e \<Longrightarrow> catches [TypeError, ValueError] e"
    by (auto simp: JSONSerializer_def json_dumps_bytes_def Let_def split: if_splits)
  show "ser_loads (JSONSerializer df) d = Inl e \<Longrightarrow> catches [TypeError, ValueError] e"
    by (auto simp: JSONSerializer_def json_loads_bytes_def dest: json_loads_error split: option.splits)
qed

definition is_bytes :: "cval \<Rightarrow> bool" where
  "is_bytes v = (case v of CBytes b \<Rightarrow> True | _ \<Rightarrow> False)"

interpretation null: faithful_serializer NullSerializer is_bytes
proof
  fix v e d
  show "is_bytes v \<Longrightarrow> \<exists>d. ser_dumps NullSerializer v = Inr d \<and> ser_loads NullSerializer d = Inr v"
    by (auto simp: is_bytes_def NullSerializer_def null_dumps_def null_loads_def split: cval.splits)
  show "ser_dumps NullSerializer v = Inl e \<Longrightarrow> catches [TypeError, ValueError] e"
    by (auto simp: NullSerializer_def null_dumps_def split: cval.splits)
  show "ser_loads NullSerializer d = Inl e \<Longrightarrow> catches [TypeError, ValueError] e"
    by (simp add: NullSerializer_def null_loads_def)
qed

section \<open>Properties\<close>

text \<open>C14: \<open>JSONSerializer\<close> loses nothing on JSON values: for every value without bytes, with number
  texts for floats and distinct dict keys, \<open>loads(dumps(v))\<close> is \<open>v\<close>, whatever \<open>default\<close> is,
  through escaping, nesting and UTF-8.\<close>

theorem json_serializer_roundtrip:
  assumes "wf_json v"
  shows "bind_res (ser_dumps (JSONSerializer df) v) (ser_loads (JSONSerializer df)) = Inr v"
  using json.dumps_good [OF assms, of df] by auto

theorem json_serializer_roundtrip_witness:
  "bind_res (ser_dumps (JSONSerializer None) (CDict [(''k'', CList [CInt 7, CStr [DQ]])]))
     (ser_loads (JSONSerializer None)) = Inr (CDict [(''k'', CList [CInt 7, CStr [DQ]])])"
  by (rule json_serializer_roundtrip) simp

text \<open>Bytes do not survive \<open>JSONSerializer\<close>: without a \<open>default\<close> they come back as the string
  of their \<open>repr\<close>, so a cache hit and a database hit differ in type.\<close>

theorem json_serializer_bytes_become_repr:
  "bind_res (ser_dumps (JSONSerializer None) (CBytes b)) (ser_loads (JSONSerializer None))
     = Inr (CStr (repr_bytes b))"
proof -
  have "json_dumps_bytes None (CBytes b) = json_dumps_bytes None (CStr (repr_bytes b))"
    by (simp add: json_dumps_bytes_def py_str_of_def)
  then show ?thesis
    using json.dumps_good [of "CStr (repr_bytes b)" None] by (auto simp: JSONSerializer_def)
qed

end
