(* ===== verification/Effects.thy ===== *)
theory Effects
  imports Exceptions
begin

text \<open>
  Code that awaits an external service: an \<open>act\<close> takes the state of the outside world and gives
  a result or a raised exception, with the state it leaves. \<open>bind_act\<close> is the next statement,
  \<open>handle\<close> is \<open>try ... except classes as e\<close>, \<open>for_each\<close> is a loop whose body may raise, and
  \<open>lift_res\<close> runs a computation that does not touch the state. The collection \<open>act_simps\<close>
  unfolds them.
\<close>

type_synonym ('s, 'a) act = "'s \<Rightarrow> (exc + 'a) \<times> 's"

named_theorems act_simps \<open>running an action\<close>

definition ret :: "'a \<Rightarrow> ('s, 'a) act" where
  "ret x s = (Inr x, s)"

definition throw :: "exc \<Rightarrow> ('s, 'a) act" where
  "throw e s = (Inl e, s)"

definition bind_act :: "('s, 'a) act \<Rightarrow> ('a \<Rightarrow> ('s, 'b) act) \<Rightarrow> ('s, 'b) act" where
  "bind_act m f s = (case m s of (Inl e, t) \<Rightarrow> (Inl e, t) | (Inr x, t) \<Rightarrow> f x t)"

definition lift_res :: "exc + 'a \<Rightarrow> ('s, 'a) act" where
  "lift_res r s = (r, s)"

definition map_act :: "('a \<Rightarrow> 'b) \<Rightarrow> ('s, 'a) act \<Rightarrow> ('s, 'b) act" where
  "map_act f m = bind_act m (\<lambda>x. ret (f x))"

definition handle :: "('s, 'a) act \<Rightarrow> exc list \<Rightarrow> (exc \<Rightarrow> ('s, 'a) act) \<Rightarrow> ('s, 'a) act" where
  "handle m cs h s =
     (case m s of (Inl e, t) \<Rightarrow> (if catches cs e then h e t else (Inl e, t)) | (Inr x, t) \<Rightarrow> (Inr x, t))"

fun for_each :: "('a \<Rightarrow> ('s, unit) act) \<Rightarrow> 'a list \<Rightarrow> ('s, unit) act" where
  "for_each f [] = ret ()"
| "for_each f (x # xs) = bind_act (f x) (\<lambda>_. for_each f xs)"

fun map_each :: "('a \<Rightarrow> ('s, 'b) act) \<Rightarrow> 'a list \<Rightarrow> ('s, 'b list) act" where
  "map_each f [] = ret []"
| "map_each f (x # xs) = bind_act (f x) (\<lambda>y. bind_act (map_each f xs) (\<lambda>ys. ret (y # ys)))"

lemmas act_defs = ret_def throw_def bind_act_def lift_res_def map_act_def handle_def

lemma run_act [act_simps]:
  "ret x s = (Inr x, s)" "throw e s = (Inl e, s)" "lift_res r s = (r, s)"
  by (simp_all add: act_defs)

lemma run_bind_Inr [act_simps]: "m s = (Inr x, t) \<Longrightarrow> bind_act m f s = f x t"
  by (simp add: bind_act_def)

lemma run_bind_Inl [act_simps]: "m s = (Inl e, t) \<Longrightarrow> bind_act m f s = (Inl e, t)"
  by (simp add: bind_act_def)

lemma run_bind [act_simps]:
  "bind_act (ret x) f = f x" "bind_act (throw e) g = throw e"
  "bind_act (lift_res r) f s = (case r of Inl e \<Rightarrow> (Inl e, s) | Inr x \<Rightarrow> f x s)"
  by (auto simp: act_defs fun_eq_iff split: sum.splits)

lemma bind_lift [act_simps]:
  "bind_act (lift_res (Inr x)) f = f x" "bind_act (lift_res (Inl e)) f = throw e"
  by (simp_all add: act_defs fun_eq_iff)

lemma run_map_act [act_simps]:
  "map_act f m s = (case m s of (Inl e, t) \<Rightarrow> (Inl e, t) | (Inr x, t) \<Rightarrow> (Inr (f x), t))"
  by (auto simp: act_defs split: prod.splits sum.splits)

lemma run_handle_Inr [act_simps]: "m s = (Inr x, t) \<Longrightarrow> handle m cs h s = (Inr x, t)"
  by (simp add: handle_def)

lemma run_handle_Inl [act_simps]:
  "m s = (Inl e, t) \<Longrightarrow> handle m cs h s = (if catches cs e then h e t else (Inl e, t))"
  by (simp add: handle_def)

lemma handle_lift [act_simps]:
  "handle (lift_res r) cs h s =
     (case r of Inl e \<Rightarrow> (if catches cs e then h e s else (Inl e, s)) | Inr x \<Rightarrow> (Inr x, s))"
  by (auto simp: handle_def lift_res_def split: sum.splits)

lemma bind_act_assoc: "bind_act (bind_act m f) g = bind_act m (\<lambda>x. bind_act (f x) g)"
  by (auto simp: bind_act_def fun_eq_iff split: prod.splits sum.splits)

text \<open>Which exceptions can leave an action.\<close>

definition raises_only :: "(exc \<Rightarrow> bool) \<Rightarrow> ('s, 'a) act \<Rightarrow> bool" where
  "raises_only P m \<longleftrightarrow> (\<forall>s e t. m s = (Inl e, t) \<longrightarrow> P e)"

lemma raises_onlyD: "raises_only P m \<Longrightarrow> m s = (Inl e, t) \<Longrightarrow> P e"
  by (auto simp: raises_only_def)

lemma raises_only_ret [intro]: "raises_only P (ret x)"
  by (simp add: raises_only_def ret_def)

lemma raises_only_throw [intro]: "P e \<Longrightarrow> raises_only P (throw e)"
  by (simp add: raises_only_def throw_def)

lemma raises_only_bind [intro]:
  "raises_only P m \<Longrightarrow> (\<And>x. raises_only P (f x)) \<Longrightarrow> raises_only P (bind_act m f)"
  by (fastforce simp: raises_only_def bind_act_def split: prod.splits sum.splits)

lemma raises_only_map [intro]: "raises_only P m \<Longrightarrow> raises_only P (map_act f m)"
  by (auto simp: map_act_def)

lemma raises_only_handle [intro]:
  "raises_only (\<lambda>e. catches cs e \<or> P e) m \<Longrightarrow> (\<And>e. raises_only P (h e)) \<Longrightarrow> raises_only P (handle m cs h)"
  by (fastforce simp: raises_only_def handle_def split: prod.splits sum.splits if_splits)

lemma raises_only_for_each [intro]: "(\<And>x. raises_only P (f x)) \<Longrightarrow> raises_only P (for_each f xs)"
  by (induction xs) auto

lemma raises_only_lift: "(\<And>e. r = Inl e \<Longrightarrow> P e) \<Longrightarrow> raises_only P (lift_res r)"
  by (simp add: raises_only_def lift_res_def)

lemma raises_only_mono: "raises_only P m \<Longrightarrow> (\<And>e. P e \<Longrightarrow> Q e) \<Longrightarrow> raises_only Q m"
  by (auto simp: raises_only_def)

end
