(* ===== verification/Redis_Backend.thy ===== *)
theory Redis_Backend
  imports Serializers Effects
begin

text \<open>
  \<open>RedisCacheBackend\<close> of \<open>cache/redis.py\<close> and the default methods of \<open>CacheBackend\<close>
  (\<open>cache/base.py\<close>). The redis-py client is the parameter \<open>'db redis\<close>, a record of
  actions on the server state; \<open>redis_store\<close> states what the Redis commands are documented to
  do, \<open>cache_backend\<close> what the rest of the package relies on, and a sublocale shows that the
  backend of the source turns the first into the second. \<open>scan_iter\<close> is the list of keys it
  yields, in any order and possibly with repetitions.
\<close>

section \<open>The client\<close>

record 'db redis =
  r_get :: "string \<Rightarrow> ('db, string option) act"
  r_set :: "string \<Rightarrow> string \<Rightarrow> int option \<Rightarrow> ('db, unit) act"
  r_delete :: "string \<Rightarrow> ('db, nat) act"
  r_exists :: "string \<Rightarrow> ('db, nat) act"
  r_expire :: "string \<Rightarrow> int \<Rightarrow> ('db, bool) act"
  r_scan :: "string \<Rightarrow> ('db, string list) act"
  r_mget :: "string list \<Rightarrow> ('db, string option list) act"
  r_pipe :: "(string \<times> string \<times> int option) list \<Rightarrow> ('db, unit) act"
  r_incrby :: "string \<Rightarrow> int \<Rightarrow> ('db, int) act"

definition redis_infra_errors :: "exc list" where
  "redis_infra_errors = [RedisError, ConnectionError, OSError, TimeoutError]"

section \<open>The backend\<close>

record 'db redis_backend =
  rb_pool :: "'db redis"
  rb_namespace :: string
  rb_default_ttl :: int
  rb_serializer :: serializer

definition RedisCacheBackend ::
  "'db redis \<Rightarrow> string \<Rightarrow> int \<Rightarrow> serializer option \<Rightarrow> 'db redis_backend" where
  "RedisCacheBackend pool ns ttl ser =
     \<lparr>rb_pool = pool, rb_namespace = ns, rb_default_ttl = ttl,
      rb_serializer = (case ser of None \<Rightarrow> JSONSerializer None | Some S \<Rightarrow> S)\<rparr>"

definition rb_key :: "'db redis_backend \<Rightarrow> string \<Rightarrow> string" where
  "rb_key b key = rb_namespace b @ '':'' @ key"

text \<open>The two \<open>try\<close> shapes of the class: a driver call, and a call of the serializer.\<close>

definition redis_try :: "('db, 'a) act \<Rightarrow> ('db, 'a) act" where
  "redis_try m = handle m redis_infra_errors (\<lambda>_. throw RedisCacheError)"

definition serial_try :: "exc + 'a \<Rightarrow> exc + 'a" where
  "serial_try r = (case r of
       Inl e \<Rightarrow> (if catches [TypeError, ValueError] e then Inl CacheSerializationError else Inl e)
     | Inr x \<Rightarrow> Inr x)"

definition rb_get :: "'db redis_backend \<Rightarrow> string \<Rightarrow> ('db, cval) act" where
  "rb_get b key =
     bind_act (redis_try (r_get (rb_pool b) (rb_key b key))) (\<lambda>data.
       case data of None \<Rightarrow> ret CNull
       | Some d \<Rightarrow> lift_res (serial_try (ser_loads (rb_serializer b) d)))"

definition effective_ttl :: "'db redis_backend \<Rightarrow> int option \<Rightarrow> int" where
  "effective_ttl b ttl = (case ttl of None \<Rightarrow> rb_default_ttl b | Some t \<Rightarrow> t)"

definition rb_set :: "'db redis_backend \<Rightarrow> string \<Rightarrow> cval \<Rightarrow> int option \<Rightarrow> ('db, unit) act" where
  "rb_set b key value ttl =
     (let ttl = effective_ttl b ttl in
      bind_act (lift_res (serial_try (ser_dumps (rb_serializer b) value))) (\<lambda>data.
        redis_try
          (if ttl > 0 then r_set (rb_pool b) (rb_key b key) data (Some ttl)
           else r_set (rb_pool b) (rb_key b key) data None)))"

definition rb_delete :: "'db redis_backend \<Rightarrow> string \<Rightarrow> ('db, bool) act" where
  "rb_delete b key =
     bind_act (redis_try (r_delete (rb_pool b) (rb_key b key))) (\<lambda>n. ret (n > 0))"

definition rb_exists :: "'db redis_backend \<Rightarrow> string \<Rightarrow> ('db, bool) act" where
  "rb_exists b key = redis_try (map_act (\<lambda>n. n \<noteq> 0) (r_exists (rb_pool b) (rb_key b key)))"

definition rb_expire :: "'db redis_backend \<Rightarrow> string \<Rightarrow> int \<Rightarrow> ('db, bool) act" where
  "rb_expire b key ttl = redis_try (r_expire (rb_pool b) (rb_key b key) ttl)"

definition remove_prefix :: "string \<Rightarrow> string \<Rightarrow> string" where
  "remove_prefix p s = (if prefix p s then drop (length p) s else s)"

definition rb_keys :: "'db redis_backend \<Rightarrow> string \<Rightarrow> ('db, string list) act" where
  "rb_keys b pattern =
     redis_try (map_act (map (remove_prefix (rb_namespace b @ '':'')))
       (r_scan (rb_pool b) (rb_key b pattern)))"

fun delete_scanned :: "'db redis \<Rightarrow> string list \<Rightarrow> nat \<Rightarrow> ('db, nat) act" where
  "delete_scanned pool [] n = ret n"
| "delete_scanned pool (k # ks) n =
     bind_act (r_delete pool k) (\<lambda>_. delete_scanned pool ks (n + 1))"

definition rb_delete_pattern :: "'db redis_backend \<Rightarrow> string \<Rightarrow> ('db, nat) act" where
  "rb_delete_pattern b pattern =
     redis_try (bind_act (r_scan (rb_pool b) (rb_key b pattern))
       (\<lambda>ks. delete_scanned (rb_pool b) ks 0))"

definition rb_flush :: "'db redis_backend \<Rightarrow> ('db, unit) act" where
  "rb_flush b = map_act (\<lambda>_. ()) (rb_delete_pattern b ''*'')"

text \<open>\<open>get_many\<close> reads every key with one \<open>MGET\<close>; \<open>zip(..., strict=True)\<close> raises
  \<open>ValueError\<close> when the reply has another length.\<close>

fun collect_values ::
  "serializer \<Rightarrow> string list \<Rightarrow> string option list \<Rightarrow> (string \<times> cval) list
     \<Rightarrow> exc + (string \<times> cval) list" where
  "collect_values S [] [] result = Inr result"
| "collect_values S (k # ks) (None # vs) result = collect_values S ks vs result"
| "collect_values S (k # ks) (Some d # vs) result =
     (case serial_try (ser_loads S d) of Inl e \<Rightarrow> Inl e
      | Inr v \<Rightarrow> collect_values S ks vs (dict_put result k v))"
| "collect_values S _ _ result = Inl ValueError"

definition rb_get_many :: "'db redis_backend \<Rightarrow> string list \<Rightarrow> ('db, (string \<times> cval) list) act" where
  "rb_get_many b keys =
     (if keys = [] then ret []
      else bind_act (redis_try (r_mget (rb_pool b) (map (rb_key b) keys)))
             (\<lambda>values. lift_res (collect_values (rb_serializer b) keys values [])))"

definition set_command ::
  "'db redis_backend \<Rightarrow> int \<Rightarrow> string \<times> cval \<Rightarrow> exc + (string \<times> string \<times> int option)" where
  "set_command b ttl kv =
     bind_res (ser_dumps (rb_serializer b) (snd kv))
       (\<lambda>data. Inr (rb_key b (fst kv), data, if ttl > 0 then Some ttl else None))"

definition rb_set_many ::
  "'db redis_backend \<Rightarrow> (string \<times> cval) list \<Rightarrow> int option \<Rightarrow> ('db, unit) act" where
  "rb_set_many b mapping ttl =
     (if mapping = [] then ret ()
      else bind_act (lift_res (serial_try (map_res (set_command b (effective_ttl b ttl)) mapping)))
             (\<lambda>cmds. redis_try (r_pipe (rb_pool b) cmds)))"

definition rb_incr :: "'db redis_backend \<Rightarrow> string \<Rightarrow> int \<Rightarrow> ('db, int) act" where
  "rb_incr b key amount = redis_try (r_incrby (rb_pool b) (rb_key b key) amount)"

section \<open>What the client promises\<close>

text \<open>\<open>view s k\<close> is the live entry of \<open>k\<close> in state \<open>s\<close>, its data and its remaining time to live
  (\<open>None\<close> for a key that does not expire); \<open>up s\<close> says the server answers; \<open>globs p k\<close> that
  \<open>SCAN MATCH p\<close> matches \<open>k\<close>, of which only patterns with a single, final star are used.\<close>

type_synonym entries = "string \<rightharpoonup> string \<times> int option"

definition set_entry :: "string \<times> string \<times> int option \<Rightarrow> entries \<Rightarrow> entries" where
  "set_entry cmd m = m(fst cmd \<mapsto> snd cmd)"

definition expire_entry :: "string \<Rightarrow> int \<Rightarrow> entries \<Rightarrow> entries" where
  "expire_entry k n m = (case m k of None \<Rightarrow> m
     | Some e \<Rightarrow> if n > 0 then m(k \<mapsto> (fst e, Some n)) else m(k := None))"

definition valid_ex :: "int option \<Rightarrow> bool" where
  "valid_ex ex = (case ex of None \<Rightarrow> True | Some n \<Rightarrow> n > 0)"

definition int64 :: "int \<Rightarrow> bool" where
  "int64 i \<longleftrightarrow> - (2 ^ 63) \<le> i \<and> i < 2 ^ 63"

definition no_glob :: "string \<Rightarrow> bool" where
  "no_glob s = list_all (\<lambda>c. c \<notin> {CHR ''*'', CHR ''?'', CHR ''['', CHR 0x5C}) s"

locale redis_store =
  fixes R :: "'db redis" and view :: "'db \<Rightarrow> entries" and up :: "'db \<Rightarrow> bool"
    and globs :: "string \<Rightarrow> string \<Rightarrow> bool"
  assumes globs_prefix: "no_glob p \<Longrightarrow> globs (p @ ''*'') k \<longleftrightarrow> prefix p k"
    and get_up: "up s \<Longrightarrow> r_get R k s = (Inr (map_option fst (view s k)), s)"
    and set_up: "up s \<Longrightarrow> valid_ex ex \<Longrightarrow>
        \<exists>t. r_set R k d ex s = (Inr (), t) \<and> up t \<and> view t = (view s)(k \<mapsto> (d, ex))"
    and delete_up: "up s \<Longrightarrow>
        \<exists>t. r_delete R k s = (Inr (if view s k = None then 0 else 1), t)
            \<and> up t \<and> view t = (view s)(k := None)"
    and exists_up: "up s \<Longrightarrow> r_exists R k s = (Inr (if view s k = None then 0 else 1), s)"
    and expire_up: "up s \<Longrightarrow>
        \<exists>t. r_expire R k n s = (Inr (view s k \<noteq> None), t)
            \<and> up t \<and> view t = expire_entry k n (view s)"
    and scan_up: "up s \<Longrightarrow>
        \<exists>ks. r_scan R p s = (Inr ks, s) \<and> set ks = {k \<in> dom (view s). globs p k}"
    and mget_up: "up s \<Longrightarrow> r_mget R ks s = (Inr (map (\<lambda>k. map_option fst (view s k)) ks), s)"
    and pipe_up: "up s \<Longrightarrow> list_all (\<lambda>c. valid_ex (snd (snd c))) cmds \<Longrightarrow>
        \<exists>t. r_pipe R cmds s = (Inr (), t) \<and> up t \<and> view t = fold set_entry cmds (view s)"
    and incr_missing: "up s \<Longrightarrow> view s k = None \<Longrightarrow> int64 n \<Longrightarrow>
        \<exists>t. r_incrby R k n s = (Inr n, t) \<and> up t \<and> view t = (view s)(k \<mapsto> (show_int n, None))"
    and incr_present: "up s \<Longrightarrow> view s k = Some (show_int i, ex) \<Longrightarrow> int64 i \<Longrightarrow> int64 (i + n) \<Longrightarrow>
        \<exists>t. r_incrby R k n s = (Inr (i + n), t) \<and> up t
            \<and> view t = (view s)(k \<mapsto> (show_int (i + n), ex))"
    and get_raises: "raises_only (catches redis_infra_errors) (r_get R k)"
    and set_raises: "raises_only (catches redis_infra_errors) (r_set R k d ex)"
    and delete_raises: "raises_only (catches redis_infra_errors) (r_delete R k)"
    and exists_raises: "raises_only (catches redis_infra_errors) (r_exists R k)"
    and expire_raises: "raises_only (catches redis_infra_errors) (r_expire R k n)"
    and scan_raises: "raises_only (catches redis_infra_errors) (r_scan R p)"
    and mget_raises: "raises_only (catches redis_infra_errors) (r_mget R ks)"
    and pipe_raises: "raises_only (catches redis_infra_errors) (r_pipe R cmds)"
    and incr_raises: "raises_only (catches redis_infra_errors) (r_incrby R k n)"
begin

lemmas raises = get_raises set_raises delete_raises exists_raises expire_raises scan_raises
  mget_raises pipe_raises incr_raises

lemma scan_prefix:
  assumes "up s" "no_glob p"
  obtains ks where "r_scan R (p @ ''*'') s = (Inr ks, s)" "set ks = {k \<in> dom (view s). prefix p k}"
  using scan_up [OF assms(1), of "p @ ''*''"] globs_prefix [OF assms(2)] by auto

lemma delete_scanned_up:
  "up s \<Longrightarrow> \<exists>t. delete_scanned R ks n s = (Inr (n + length ks), t) \<and> up t
     \<and> view t = (view s) |` (- set ks)"
proof (induction ks arbitrary: s n)
  case Nil
  then show ?case by (simp add: ret_def)
next
  case (Cons k ks)
  obtain s1 where s1: "r_delete R k s = (Inr (if view s k = None then 0 else 1), s1)" "up s1"
    "view s1 = (view s)(k := None)"
    using delete_up [OF Cons.prems] by blast
  then show ?case
    using Cons.IH [OF s1(2), of "n + 1"] by (auto simp: bind_act_def restrict_map_def fun_eq_iff)
qed

end

section \<open>What the package relies on\<close>

text \<open>The operations the clients of a backend call, and their laws: \<open>content s k\<close> is what a read of
  \<open>k\<close> gives (the value, or the error of reading it), \<open>None\<close> for an absent key.\<close>

record 'db cache =
  c_get :: "string \<Rightarrow> ('db, cval) act"
  c_set :: "string \<Rightarrow> cval \<Rightarrow> int option \<Rightarrow> ('db, unit) act"
  c_delete :: "string \<Rightarrow> ('db, bool) act"
  c_delete_pattern :: "string \<Rightarrow> ('db, nat) act"

definition cache_of :: "'db redis_backend \<Rightarrow> 'db cache" where
  "cache_of b = \<lparr>c_get = rb_get b, c_set = rb_set b, c_delete = rb_delete b,
     c_delete_pattern = rb_delete_pattern b\<rparr>"

locale cache_backend =
  fixes C :: "'db cache" and content :: "'db \<Rightarrow> string \<Rightarrow> (exc + cval) option"
    and up :: "'db \<Rightarrow> bool" and good :: "cval \<Rightarrow> bool"
  assumes get_ok: "up s \<Longrightarrow>
        c_get C k s = ((case content s k of None \<Rightarrow> Inr CNull | Some r \<Rightarrow> r), s)"
    and set_ok: "up s \<Longrightarrow> good v \<Longrightarrow>
        \<exists>t. c_set C k v ttl s = (Inr (), t) \<and> up t \<and> content t = (content s)(k \<mapsto> Inr v)"
    and delete_ok: "up s \<Longrightarrow>
        \<exists>t. c_delete C k s = (Inr (content s k \<noteq> None), t) \<and> up t \<and> content t = (content s)(k := None)"
    and get_fails: "raises_only (\<lambda>e. is_instance e CacheError) (c_get C k)"
    and set_fails: "raises_only (\<lambda>e. is_instance e CacheError) (c_set C k v ttl)"
    and delete_fails: "raises_only (\<lambda>e. is_instance e CacheError) (c_delete C k)"
    and delete_pattern_fails: "raises_only (\<lambda>e. is_instance e CacheError) (c_delete_pattern C p)"
begin

lemma set_obtain:
  assumes "up s" "good v"
  obtains t where "c_set C k v ttl s = (Inr (), t)" "up t" "content t = (content s)(k \<mapsto> Inr v)"
  using set_ok [OF assms, of k ttl] by blast

lemma set_then_get:
  assumes "up s" "good v"
  shows "fst (bind_act (c_set C k v ttl) (\<lambda>_. c_get C k) s) = Inr v"
  using set_ok [OF assms, of k ttl] by (auto simp: bind_act_def get_ok)

lemma delete_then_get:
  assumes "up s"
  shows "fst (bind_act (c_delete C k) (\<lambda>_. c_get C k) s) = Inr CNull"
  using delete_ok [OF assms, of k] by (auto simp: bind_act_def get_ok)

lemma set_other:
  assumes "up s" "good v" "k' \<noteq> k"
  shows "fst (bind_act (c_set C k v ttl) (\<lambda>_. c_get C k') s) = fst (c_get C k' s)"
  using set_ok [OF assms(1,2), of k ttl] assms by (auto simp: bind_act_def get_ok)

end

section \<open>The backend of the source keeps the contract\<close>

definition rb_content ::
  "'db redis_backend \<Rightarrow> ('db \<Rightarrow> entries) \<Rightarrow> 'db \<Rightarrow> string \<Rightarrow> (exc + cval) option" where
  "rb_content b view s k =
     map_option (\<lambda>e. serial_try (ser_loads (rb_serializer b) (fst e))) (view s (rb_key b k))"

lemma rb_key_eq [simp]: "rb_key b k = rb_key b k' \<longleftrightarrow> k = k'"
  by (simp add: rb_key_def)

lemma backend_fields [simp]:
  "rb_pool (RedisCacheBackend pool ns ttl (Some S)) = pool"
  "rb_namespace (RedisCacheBackend pool ns ttl ser) = ns"
  "rb_default_ttl (RedisCacheBackend pool ns ttl ser) = ttl"
  "rb_serializer (RedisCacheBackend pool ns ttl (Some S)) = S"
  "rb_serializer (RedisCacheBackend pool ns ttl None) = JSONSerializer None"
  by (simp_all add: RedisCacheBackend_def)

lemma serial_try_simps [simp]: "serial_try (Inr x) = Inr x"
  by (simp add: serial_try_def)

lemma serial_try_Inl:
  "catches [TypeError, ValueError] e \<Longrightarrow> serial_try (Inl e) = Inl CacheSerializationError"
  by (simp add: serial_try_def)

lemma redis_try_Inr [act_simps]: "m s = (Inr x, t) \<Longrightarrow> redis_try m s = (Inr x, t)"
  by (simp add: redis_try_def act_simps)

lemma redis_try_raises:
  "raises_only (catches redis_infra_errors) m \<Longrightarrow> raises_only (\<lambda>e. e = RedisCacheError) (redis_try m)"
  unfolding redis_try_def by (rule raises_only_handle) (auto intro: raises_only_mono)

lemma cache_error_simps [simp]:
  "is_instance RedisCacheError CacheError" "is_instance CacheSerializationError CacheError"
  by (simp_all add: is_instance_CacheError_iff)

lemma redis_try_cache_error:
  "raises_only (catches redis_infra_errors) m \<Longrightarrow> raises_only (\<lambda>e. is_instance e CacheError) (redis_try m)"
  by (rule raises_only_mono [OF redis_try_raises]) auto

lemma set_command_valid:
  "set_command b t kv = Inr c \<Longrightarrow> valid_ex (snd (snd c))"
  by (cases "ser_dumps (rb_serializer b) (snd kv)")
     (auto simp: set_command_def valid_ex_def split: if_splits)

lemma valid_ex_if [simp]: "valid_ex (if t > 0 then Some t else None)"
  by (simp add: valid_ex_def)

locale redis_cache = redis_store R view up globs + faithful_serializer S good
  for R :: "'db redis" and view :: "'db \<Rightarrow> entries" and up :: "'db \<Rightarrow> bool"
    and globs :: "string \<Rightarrow> string \<Rightarrow> bool" and S :: serializer and good :: "cval \<Rightarrow> bool" +
  fixes ns :: string and dttl :: int
begin

abbreviation backend :: "'db redis_backend" where
  "backend \<equiv> RedisCacheBackend R ns dttl (Some S)"

lemma delete_scanned_raises: "raises_only (catches redis_infra_errors) (delete_scanned R ks n)"
  by (induction ks arbitrary: n) (auto intro: raises)

lemma loads_cache_error: "serial_try (ser_loads S d) = Inl e \<Longrightarrow> e = CacheSerializationError"
  using loads_error [of d] by (cases "ser_loads S d") (auto simp: serial_try_Inl)

lemma dumps_cache_error: "serial_try (ser_dumps S v) = Inl e \<Longrightarrow> e = CacheSerializationError"
  using dumps_error [of v] by (cases "ser_dumps S v") (auto simp: serial_try_Inl)

lemma rb_get_up:
  assumes "up s"
  shows "rb_get backend k s =
    ((case rb_content backend view s k of None \<Rightarrow> Inr CNull | Some r \<Rightarrow> r), s)"
  using get_up [OF assms]
  by (auto simp: rb_get_def rb_content_def act_simps split: option.splits)

lemma rb_set_up:
  assumes "up s" "ser_dumps S v = Inr d"
  shows "\<exists>t. rb_set backend k v ttl s = (Inr (), t) \<and> up t
    \<and> view t = (view s)(rb_key backend k \<mapsto>
        (d, if effective_ttl backend ttl > 0
            then Some (effective_ttl backend ttl) else None))"
  (is "\<exists>t. ?run t \<and> _ \<and> _ t = ?m")
proof -
  obtain t where "r_set R (rb_key backend k) d (if effective_ttl backend ttl > 0 then Some (effective_ttl backend ttl) else None) s
    = (Inr (), t)" "up t" "view t = ?m"
    using set_up [OF assms(1) valid_ex_if, of "rb_key backend k" d] by blast
  then show ?thesis
    by (auto simp: rb_set_def Let_def assms(2) act_simps split: if_splits)
qed

lemma rb_delete_up:
  assumes "up s"
  shows "\<exists>t. rb_delete backend k s
      = (Inr (rb_content backend view s k \<noteq> None), t) \<and> up t
    \<and> view t = (view s)(rb_key backend k := None)"
proof -
  obtain t where "r_delete R (rb_key backend k) s = (Inr (if view s (rb_key backend k) = None then 0 else 1), t)"
    "up t" "view t = (view s)(rb_key backend k := None)"
    using delete_up [OF assms] by blast
  then show ?thesis
    by (auto simp: rb_delete_def rb_content_def act_simps)
qed

end

sublocale redis_cache \<subseteq> cache_backend "cache_of (RedisCacheBackend R ns dttl (Some S))"
  "rb_content (RedisCacheBackend R ns dttl (Some S)) view" up good
proof
  fix s k v ttl
  assume up: "up s"
  show "c_get (cache_of backend) k s =
      ((case rb_content backend view s k of None \<Rightarrow> Inr CNull | Some r \<Rightarrow> r), s)"
    using rb_get_up [OF up] by (simp add: cache_of_def)
  show "\<exists>t. c_delete (cache_of backend) k s = (Inr (rb_content backend view s k \<noteq> None), t) \<and> up t
      \<and> rb_content backend view t = (rb_content backend view s)(k := None)"
    using rb_delete_up [OF up, of k] by (auto simp: cache_of_def rb_content_def fun_eq_iff)
  assume "good v"
  then obtain d where d: "ser_dumps S v = Inr d" "ser_loads S d = Inr v" by (rule good_cases)
  show "\<exists>t. c_set (cache_of backend) k v ttl s = (Inr (), t) \<and> up t
      \<and> rb_content backend view t = (rb_content backend view s)(k \<mapsto> Inr v)"
    using rb_set_up [OF up d(1), of k ttl] d(2) by (auto simp: cache_of_def rb_content_def fun_eq_iff)
next
  fix k v ttl p
  show "raises_only (\<lambda>e. is_instance e CacheError) (c_delete_pattern (cache_of backend) p)"
    unfolding cache_of_def rb_delete_pattern_def cache.simps backend_fields
    by (rule redis_try_cache_error) (auto intro: raises delete_scanned_raises)
  show "raises_only (\<lambda>e. is_instance e CacheError) (c_get (cache_of backend) k)"
    unfolding cache_of_def rb_get_def cache.simps backend_fields
    by (rule raises_only_bind [OF redis_try_cache_error [OF get_raises]])
      (auto intro!: raises_only_lift dest: loads_cache_error split: option.split)
  show "raises_only (\<lambda>e. is_instance e CacheError) (c_set (cache_of backend) k v ttl)"
    unfolding cache_of_def rb_set_def cache.simps backend_fields Let_def
    by (rule raises_only_bind [OF raises_only_lift])
      (auto dest: dumps_cache_error intro!: redis_try_cache_error set_raises)
  show "raises_only (\<lambda>e. is_instance e CacheError) (c_delete (cache_of backend) k)"
    unfolding cache_of_def rb_delete_def cache.simps backend_fields
    by (rule raises_only_bind [OF redis_try_cache_error [OF delete_raises]]) auto
qed

end
