(* ===== verification/Single_Flight.thy ===== *)
theory Single_Flight
  imports Redis_Backend
begin

text \<open>
  Stampede control: \<open>SingleFlight\<close> of \<open>cache/base.py\<close> and the wrapper that \<open>cached\<close>,
  \<open>cached_method\<close> (\<open>cache/decorators.py\<close>) and \<open>CachedQuerySet._execute\<close>
  (\<open>cache/queryset.py\<close>) write around it. The three bodies are the same code up to what a
  \<open>flight\<close> records. Coroutines run on one event loop, so the code between two \<open>await\<close>s is one
  step; a task is at one of the program points of \<open>pc\<close>. A reply of the server and the
  resumption of the task that waits for it are separate steps, so other tasks run between them.
  Cancelling a task cancels what it awaits: a waiter awaits the shared future itself.
\<close>

section \<open>Futures and claims\<close>

datatype future = Pending | Resolved cval | Rejected exc | CancelledFuture

definition future_done :: "future \<Rightarrow> bool" where
  "future_done f = (f \<noteq> Pending)"

text \<open>\<open>claim\<close> answers whether the caller is first, with the future to use; futures are numbered
  in the order of their creation.\<close>

type_synonym claims = "string \<Rightarrow> nat option"

definition claim :: "string \<Rightarrow> nat \<Rightarrow> claims \<Rightarrow> bool \<times> nat \<times> claims" where
  "claim key fresh cl = (case cl key of
       None \<Rightarrow> (True, fresh, cl(key := Some fresh))
     | Some f \<Rightarrow> (False, f, cl))"

definition release :: "string \<Rightarrow> nat \<Rightarrow> claims \<Rightarrow> claims" where
  "release key f cl = (if cl key = Some f then cl(key := None) else cl)"

section \<open>The wrapper\<close>

record 'r flight =
  fl_hit :: "cval \<Rightarrow> exc + 'r"
  fl_publish :: "'r \<Rightarrow> exc + cval"
  fl_stores :: "'r \<Rightarrow> bool"
  fl_wait :: "cval \<Rightarrow> 'r"

text \<open>\<open>@cached\<close> and \<open>@cached_method\<close>: the value itself is cached, published and returned; \<open>None\<close>
  is not stored.\<close>

definition cached_flight :: "cval flight" where
  "cached_flight = \<lparr>fl_hit = Inr, fl_publish = Inr, fl_stores = (\<lambda>v. v \<noteq> CNull), fl_wait = (\<lambda>v. v)\<rparr>"

datatype 'r pc =
    Idle
  | Reading string
  | Got string "exc + cval"
  | Running string nat
  | Storing string nat 'r cval
  | Stored string nat 'r cval "exc + unit"
  | Waiting string nat
  | Finished string "exc + 'r"

record ('db, 'r) loop_state =
  claimed :: claims
  futures :: "nat \<Rightarrow> future"
  fresh :: nat
  tasks :: "nat \<Rightarrow> 'r pc"
  world :: 'db
  produced :: "(string \<times> nat \<times> (exc + 'r)) list"
  returned :: "(string \<times> 'r) list"

datatype 'r event =
    Call nat string | Fetch nat | Resume nat | Return nat "exc + 'r" | Write nat
  | Settle nat | Wake nat | Cancel nat | Invalidate string

definition goto :: "nat \<Rightarrow> 'r pc \<Rightarrow> ('db, 'r) loop_state \<Rightarrow> ('db, 'r) loop_state" where
  "goto t p s = s\<lparr>tasks := (tasks s)(t := p)\<rparr>"

text \<open>After a miss: the first task claims the key and runs the function, the others wait.\<close>

definition enter_flight :: "nat \<Rightarrow> string \<Rightarrow> ('db, 'r) loop_state \<Rightarrow> ('db, 'r) loop_state" where
  "enter_flight t k s = (case claim k (fresh s) (claimed s) of
       (first, f, cl) \<Rightarrow>
         if first then goto t (Running k f)
           (s\<lparr>claimed := cl, futures := (futures s)(f := Pending), fresh := f + 1\<rparr>)
         else goto t (Waiting k f) s)"

text \<open>The value read: \<open>None\<close> or an error that is a \<open>CacheError\<close> counts as a miss, another error
  leaves the call.\<close>

definition after_get :: "'r flight \<Rightarrow> nat \<Rightarrow> string \<Rightarrow> exc + cval \<Rightarrow> ('db, 'r) loop_state \<Rightarrow> ('db, 'r) loop_state" where
  "after_get fl t k r s =
     (case (case r of Inl e \<Rightarrow> Inl e | Inr v \<Rightarrow>
              if v = CNull then Inr None else map_sum id Some (fl_hit fl v)) of
        Inr (Some x) \<Rightarrow> goto t (Finished k (Inr x)) s
      | Inr None \<Rightarrow> enter_flight t k s
      | Inl e \<Rightarrow> if is_instance e CacheError then enter_flight t k s
                 else goto t (Finished k (Inl e)) s)"

text \<open>The end of the owner: resolve or reject the future unless it is done, release the claim,
  return or raise.\<close>

definition finish :: "nat \<Rightarrow> string \<Rightarrow> nat \<Rightarrow> exc + 'r \<times> cval \<Rightarrow> ('db, 'r) loop_state \<Rightarrow> ('db, 'r) loop_state" where
  "finish t k f out s =
     goto t (Finished k (map_sum id fst out))
       (s\<lparr>futures := (if future_done (futures s f) then futures s
                      else (futures s)(f := (case out of Inl e \<Rightarrow> Rejected e | Inr (r, c) \<Rightarrow> Resolved c))),
          claimed := release k f (claimed s),
          produced := (k, f, map_sum id fst out) # produced s\<rparr>)"

text \<open>The function of the owner has returned or raised. \<open>returned\<close> and \<open>produced\<close> are history: what
  the function returned for a key, and the outcome an owner gave its future.\<close>

definition note_return :: "string \<Rightarrow> exc + 'r \<Rightarrow> ('db, 'r) loop_state \<Rightarrow> ('db, 'r) loop_state" where
  "note_return k out s =
     (case out of Inl e \<Rightarrow> s | Inr r \<Rightarrow> s\<lparr>returned := (k, r) # returned s\<rparr>)"

definition after_call :: "'r flight \<Rightarrow> nat \<Rightarrow> string \<Rightarrow> nat \<Rightarrow> exc + 'r \<Rightarrow> ('db, 'r) loop_state \<Rightarrow> ('db, 'r) loop_state" where
  "after_call fl t k f out s =
     (case bind_res out (\<lambda>r. bind_res (fl_publish fl r) (\<lambda>c. Inr (r, c))) of
        Inl e \<Rightarrow> finish t k f (Inl e) s
      | Inr (r, c) \<Rightarrow> if fl_stores fl r then goto t (Storing k f r c) s
                      else finish t k f (Inr (r, c)) s)"

definition after_set :: "nat \<Rightarrow> string \<Rightarrow> nat \<Rightarrow> 'r \<Rightarrow> cval \<Rightarrow> exc + unit \<Rightarrow> ('db, 'r) loop_state \<Rightarrow> ('db, 'r) loop_state" where
  "after_set t k f r c res s =
     (case res of
        Inl e \<Rightarrow> if is_instance e CacheError then finish t k f (Inr (r, c)) s
                 else finish t k f (Inl e) s
      | Inr _ \<Rightarrow> finish t k f (Inr (r, c)) s)"

definition wake :: "'r flight \<Rightarrow> nat \<Rightarrow> string \<Rightarrow> nat \<Rightarrow> ('db, 'r) loop_state \<Rightarrow> ('db, 'r) loop_state option" where
  "wake fl t k f s = (case futures s f of
       Pending \<Rightarrow> None
     | Resolved c \<Rightarrow> Some (goto t (Finished k (Inr (fl_wait fl c))) s)
     | Rejected e \<Rightarrow> Some (goto t (Finished k (Inl e)) s)
     | CancelledFuture \<Rightarrow> Some (goto t (Finished k (Inl CancelledError)) s))"

text \<open>\<open>task.cancel()\<close> raises \<open>CancelledError\<close> at the \<open>await\<close>; at \<open>await future\<close> it cancels the
  future, and the waiter is woken with the others.\<close>

definition cancel :: "nat \<Rightarrow> ('db, 'r) loop_state \<Rightarrow> ('db, 'r) loop_state option" where
  "cancel t s = (case tasks s t of
       Reading k \<Rightarrow> Some (goto t (Finished k (Inl CancelledError)) s)
     | Got k r \<Rightarrow> Some (goto t (Finished k (Inl CancelledError)) s)
     | Running k f \<Rightarrow> Some (finish t k f (Inl CancelledError) s)
     | Storing k f r c \<Rightarrow> Some (finish t k f (Inl CancelledError) s)
     | Stored k f r c res \<Rightarrow> Some (finish t k f (Inl CancelledError) s)
     | Waiting k f \<Rightarrow> if future_done (futures s f) then Some (goto t (Finished k (Inl CancelledError)) s)
                      else Some (s\<lparr>futures := (futures s)(f := CancelledFuture)\<rparr>)
     | _ \<Rightarrow> None)"

definition step :: "'r flight \<Rightarrow> 'db cache \<Rightarrow> int option \<Rightarrow> 'r event \<Rightarrow> ('db, 'r) loop_state \<Rightarrow> ('db, 'r) loop_state option" where
  "step fl C ttl ev s = (case ev of
       Call t k \<Rightarrow> (case tasks s t of Idle \<Rightarrow> Some (goto t (Reading k) s) | _ \<Rightarrow> None)
     | Fetch t \<Rightarrow> (case tasks s t of
           Reading k \<Rightarrow> (case c_get C k (world s) of (r, w) \<Rightarrow> Some (goto t (Got k r) (s\<lparr>world := w\<rparr>)))
         | _ \<Rightarrow> None)
     | Resume t \<Rightarrow> (case tasks s t of Got k r \<Rightarrow> Some (after_get fl t k r s) | _ \<Rightarrow> None)
     | Return t out \<Rightarrow> (case tasks s t of
           Running k f \<Rightarrow> Some (after_call fl t k f out (note_return k out s)) | _ \<Rightarrow> None)
     | Write t \<Rightarrow> (case tasks s t of
           Storing k f r c \<Rightarrow> (case c_set C k c ttl (world s) of (res, w) \<Rightarrow>
             Some (goto t (Stored k f r c res) (s\<lparr>world := w\<rparr>)))
         | _ \<Rightarrow> None)
     | Settle t \<Rightarrow> (case tasks s t of Stored k f r c res \<Rightarrow> Some (after_set t k f r c res s) | _ \<Rightarrow> None)
     | Wake t \<Rightarrow> (case tasks s t of Waiting k f \<Rightarrow> wake fl t k f s | _ \<Rightarrow> None)
     | Cancel t \<Rightarrow> cancel t s
     | Invalidate k \<Rightarrow> Some (s\<lparr>world := snd (c_delete C k (world s))\<rparr>))"

definition initial :: "'db \<Rightarrow> ('db, 'r) loop_state" where
  "initial db = \<lparr>claimed = (\<lambda>_. None), futures = (\<lambda>_. Pending), fresh = 0, tasks = (\<lambda>_. Idle),
     world = db, produced = [], returned = []\<rparr>"

inductive reachable :: "'r flight \<Rightarrow> 'db cache \<Rightarrow> int option \<Rightarrow> 'db \<Rightarrow> ('db, 'r) loop_state \<Rightarrow> bool"
  for fl C ttl db where
  start: "reachable fl C ttl db (initial db)"
| step: "reachable fl C ttl db s \<Longrightarrow> step fl C ttl ev s = Some s' \<Longrightarrow> reachable fl C ttl db s'"

fun run :: "'r flight \<Rightarrow> 'db cache \<Rightarrow> int option \<Rightarrow> 'r event list \<Rightarrow> ('db, 'r) loop_state \<Rightarrow> ('db, 'r) loop_state option" where
  "run fl C ttl [] s = Some s"
| "run fl C ttl (ev # evs) s =
     (case step fl C ttl ev s of None \<Rightarrow> None | Some s' \<Rightarrow> run fl C ttl evs s')"

lemma run_reachable:
  "reachable fl C ttl db s \<Longrightarrow> run fl C ttl evs s = Some s' \<Longrightarrow> reachable fl C ttl db s'"
  by (induction evs arbitrary: s) (auto split: option.splits intro: reachable.step)

end
