(* ===== verification/Single_Flight_Invariant.thy ===== *)
theory Single_Flight_Invariant
  imports Single_Flight
begin

text \<open>
  The invariant of the stampede control and its preservation by every step of every task, in any
  interleaving and under cancellation: claims and owners correspond one to one, a waiter's
  future is either settled or has an owner, and what a future holds is what an owner produced.
\<close>

fun owns :: "'r pc \<Rightarrow> string \<Rightarrow> nat \<Rightarrow> bool" where
  "owns (Running k f) k' f' = (k = k' \<and> f = f')"
| "owns (Storing k f r c) k' f' = (k = k' \<and> f = f')"
| "owns (Stored k f r c res) k' f' = (k = k' \<and> f = f')"
| "owns _ _ _ = False"

definition idle_pc :: "'r pc \<Rightarrow> bool" where
  "idle_pc p = (\<forall>k f. \<not> owns p k f \<and> p \<noteq> Waiting k f)"

fun carries :: "'r flight \<Rightarrow> 'r pc \<Rightarrow> bool" where
  "carries fl (Storing k f r c) = (fl_publish fl r = Inr c)"
| "carries fl (Stored k f r c res) = (fl_publish fl r = Inr c)"
| "carries fl _ = True"

text \<open>The futures that have been settled by an owner record its outcome.\<close>

definition explains :: "'r flight \<Rightarrow> (string \<times> nat \<times> (exc + 'r)) list \<Rightarrow> string \<Rightarrow> nat \<Rightarrow> future \<Rightarrow> bool" where
  "explains fl log k f fut = (case fut of
       Pending \<Rightarrow> True | CancelledFuture \<Rightarrow> True
     | Resolved c \<Rightarrow> (\<exists>r. (k, f, Inr r) \<in> set log \<and> fl_publish fl r = Inr c)
     | Rejected e \<Rightarrow> (k, f, Inl e) \<in> set log)"

definition inv :: "'r flight \<Rightarrow> ('db, 'r) loop_state \<Rightarrow> bool" where
  "inv fl s \<longleftrightarrow>
     (\<forall>t k f. owns (tasks s t) k f \<longrightarrow> claimed s k = Some f)
   \<and> (\<forall>k f. claimed s k = Some f \<longrightarrow> f < fresh s \<and> (\<exists>t. owns (tasks s t) k f))
   \<and> (\<forall>t u k f k'. owns (tasks s t) k f \<longrightarrow> owns (tasks s u) k' f \<longrightarrow> t = u)
   \<and> (\<forall>k f. claimed s k = Some f \<longrightarrow> futures s f = Pending \<or> futures s f = CancelledFuture)
   \<and> (\<forall>t k f. tasks s t = Waiting k f \<longrightarrow>
        f < fresh s \<and> (futures s f = Pending \<longrightarrow> claimed s k = Some f)
        \<and> (\<forall>k'. claimed s k' = Some f \<longrightarrow> k' = k) \<and> explains fl (produced s) k f (futures s f))
   \<and> (\<forall>t. carries fl (tasks s t))"

lemma invI:
  assumes "\<And>t k f. owns (tasks s t) k f \<Longrightarrow> claimed s k = Some f"
    and "\<And>k f. claimed s k = Some f \<Longrightarrow> f < fresh s"
    and "\<And>k f. claimed s k = Some f \<Longrightarrow> \<exists>t. owns (tasks s t) k f"
    and "\<And>t u k f k'. owns (tasks s t) k f \<Longrightarrow> owns (tasks s u) k' f \<Longrightarrow> t = u"
    and "\<And>k f. claimed s k = Some f \<Longrightarrow> futures s f = Pending \<or> futures s f = CancelledFuture"
    and "\<And>t k f. tasks s t = Waiting k f \<Longrightarrow> f < fresh s"
    and "\<And>t k f. tasks s t = Waiting k f \<Longrightarrow> futures s f = Pending \<Longrightarrow> claimed s k = Some f"
    and "\<And>t k f k'. tasks s t = Waiting k f \<Longrightarrow> claimed s k' = Some f \<Longrightarrow> k' = k"
    and "\<And>t k f. tasks s t = Waiting k f \<Longrightarrow> explains fl (produced s) k f (futures s f)"
    and "\<And>t. carries fl (tasks s t)"
  shows "inv fl s"
  unfolding inv_def
  by (intro conjI allI impI) (erule (1) assms | erule assms | rule assms)+

lemma invD:
  assumes "inv fl s"
  shows own_claim: "owns (tasks s t) k f \<Longrightarrow> claimed s k = Some f"
    and claim_fresh: "claimed s k = Some f \<Longrightarrow> f < fresh s"
    and claim_owner: "claimed s k = Some f \<Longrightarrow> \<exists>t. owns (tasks s t) k f"
    and owner_unique: "owns (tasks s t) k f \<Longrightarrow> owns (tasks s u) k' f \<Longrightarrow> t = u"
    and claim_unsettled: "claimed s k = Some f \<Longrightarrow> futures s f = Pending \<or> futures s f = CancelledFuture"
    and wait_fresh: "tasks s t = Waiting k f \<Longrightarrow> f < fresh s"
    and wait_claim: "tasks s t = Waiting k f \<Longrightarrow> futures s f = Pending \<Longrightarrow> claimed s k = Some f"
    and wait_key: "tasks s t = Waiting k f \<Longrightarrow> claimed s k' = Some f \<Longrightarrow> k' = k"
    and wait_explained: "tasks s t = Waiting k f \<Longrightarrow> explains fl (produced s) k f (futures s f)"
    and carried: "carries fl (tasks s t)"
  using assms unfolding inv_def by blast+

lemma owns_fun: "owns p k f \<Longrightarrow> owns p k' f' \<Longrightarrow> k = k' \<and> f = f'"
  by (cases p) auto

text \<open>Two keys never share a future.\<close>

lemma claim_key_unique:
  "inv fl s \<Longrightarrow> claimed s k = Some f \<Longrightarrow> claimed s k' = Some f \<Longrightarrow> k = k'"
  by (metis claim_owner owner_unique owns_fun)

lemma goto_simps [simp]:
  "tasks (goto t p s) = (tasks s)(t := p)" "claimed (goto t p s) = claimed s"
  "futures (goto t p s) = futures s" "fresh (goto t p s) = fresh s"
  "world (goto t p s) = world s" "produced (goto t p s) = produced s"
  by (simp_all add: goto_def)

section \<open>The kinds of step\<close>

lemma inv_initial: "inv fl (initial db)"
  by (auto simp: inv_def initial_def)

lemma inv_world: "inv fl (s\<lparr>world := w\<rparr>) = inv fl s"
  by (simp add: inv_def)

text \<open>A task that neither owns nor starts to own moves to another such point.\<close>

lemma inv_goto_idle:
  assumes "inv fl s" "\<And>k f. \<not> owns (tasks s t) k f" "idle_pc p" "carries fl p"
  shows "inv fl (goto t p s)"
proof (rule invI, goal_cases)
  case (3 k f)
  then obtain u where "owns (tasks s u) k f" using claim_owner [OF assms(1)] by auto
  then show ?case using assms(2) by (auto intro!: exI [of _ u])
qed (use assms invD [OF assms(1)] in \<open>auto simp: idle_pc_def split: if_splits\<close>)

text \<open>An owner moves on and keeps its claim.\<close>

lemma inv_goto_owner:
  assumes "inv fl s" "owns (tasks s t) k f" "owns p k f" "carries fl p"
  shows "inv fl (goto t p s)"
proof -
  have p: "owns p k' f' \<longleftrightarrow> k' = k \<and> f' = f" for k' f' using assms(3) owns_fun by blast
  have old: "owns (tasks s t) k' f' \<longleftrightarrow> k' = k \<and> f' = f" for k' f' using assms(2) owns_fun by blast
  have own: "owns (((tasks s)(t := p)) u) k' f' \<longleftrightarrow> owns (tasks s u) k' f'" for u k' f'
    by (simp add: p old)
  have wait: "((tasks s)(t := p)) u = Waiting k' f' \<Longrightarrow> tasks s u = Waiting k' f'" for u k' f'
    using assms(3) by (auto split: if_splits)
  note D = invD [OF assms(1)]
  show ?thesis
  proof (rule invI, unfold goto_simps own, goal_cases)
    case 1 then show ?case by (rule D(1))
  next
    case 2 then show ?case by (rule D(2))
  next
    case 3 then show ?case by (rule D(3))
  next
    case 4 then show ?case by (rule D(4))
  next
    case 5 then show ?case by (rule D(5))
  next
    case 6 then show ?case using D(6) wait by blast
  next
    case 7 then show ?case using D(7) wait by blast
  next
    case 8 then show ?case using D(8) wait by blast
  next
    case 9 then show ?case using D(9) wait by blast
  next
    case 10 then show ?case using assms(4) D(10) by simp
  qed
qed

lemma inv_claim:
  assumes "inv fl s" "claimed s k = None" "\<And>k f. \<not> owns (tasks s t) k f"
  shows "inv fl (goto t (Running k (fresh s))
    (s\<lparr>claimed := (claimed s)(k := Some (fresh s)), futures := (futures s)(fresh s := Pending),
       fresh := fresh s + 1\<rparr>))"
proof -
  note D = invD [OF assms(1)]
  have new: "claimed s k' \<noteq> Some (fresh s)" for k' using D(2) by blast
  have own: "\<not> owns (tasks s u) k' (fresh s)" "\<not> owns (tasks s u) k f" for u k' f
    using D(1) new assms(2) by force+
  have wait: "tasks s u \<noteq> Waiting k' (fresh s)" for u k' using D(6) by blast
  show ?thesis
  proof (rule invI, goal_cases)
    case (3 k' f)
    show ?case
    proof (cases "k' = k")
      case False
      with 3 obtain u where "owns (tasks s u) k' f" using D(3) [of k' f] by auto
      then show ?thesis using assms(3) by (intro exI [of _ u]) auto
    qed (use 3 in \<open>auto intro: exI [of _ t]\<close>)
  qed (use D new own wait assms(2,3) in \<open>auto simp: less_Suc_eq split: if_splits\<close>)
qed

lemma inv_wait:
  assumes "inv fl s" "claimed s k = Some f" "\<And>k f. \<not> owns (tasks s t) k f"
  shows "inv fl (goto t (Waiting k f) s)"
proof -
  note D = invD [OF assms(1)]
  have ex: "explains fl (produced s) k f (futures s f)"
    using D(5) [OF assms(2)] by (auto simp: explains_def)
  show ?thesis
  proof (rule invI, goal_cases)
    case (3 k' f')
    then obtain u where "owns (tasks s u) k' f'" using D(3) [of k' f'] by auto
    then show ?case using assms(3) by (intro exI [of _ u]) auto
  next
    case (8 u k1 f1 k2)
    then show ?case using D(8) claim_key_unique [OF assms(1) assms(2)] by (auto split: if_splits)
  qed (use D ex assms(2,3) in \<open>auto split: if_splits\<close>)
qed

lemma inv_enter:
  assumes "inv fl s" "\<And>k f. \<not> owns (tasks s t) k f"
  shows "inv fl (enter_flight t k s)"
  using inv_claim [OF assms(1) _ assms(2), of k] inv_wait [OF assms(1) _ assms(2), of k]
  by (auto simp: enter_flight_def claim_def split: option.split)

lemma finish_simps [simp]:
  "tasks (finish t k f out s) = (tasks s)(t := Finished k (map_sum id fst out))"
  "claimed (finish t k f out s) = release k f (claimed s)"
  "futures (finish t k f out s) = (if future_done (futures s f) then futures s
     else (futures s)(f := (case out of Inl e \<Rightarrow> Rejected e | Inr (r, c) \<Rightarrow> Resolved c)))"
  "fresh (finish t k f out s) = fresh s" "world (finish t k f out s) = world s"
  "produced (finish t k f out s) = (k, f, map_sum id fst out) # produced s"
  by (simp_all add: finish_def)

lemma explains_Cons: "explains fl log k f x \<Longrightarrow> explains fl (p # log) k f x"
  by (auto simp: explains_def split: future.splits)

lemma explains_outcome:
  "(\<And>r c. out = Inr (r, c) \<Longrightarrow> fl_publish fl r = Inr c) \<Longrightarrow>
     explains fl ((k, f, map_sum id fst out) # log) k f
       (case out of Inl e \<Rightarrow> Rejected e | Inr (r, c) \<Rightarrow> Resolved c)"
  by (auto simp: explains_def split: sum.splits)

lemma outcome_settled: "(case out of Inl e \<Rightarrow> Rejected e | Inr (r, c) \<Rightarrow> Resolved c) \<noteq> Pending"
  by (auto split: sum.splits)

lemma inv_finish:
  assumes "inv fl s" "owns (tasks s t) k f" "\<And>r c. out = Inr (r, c) \<Longrightarrow> fl_publish fl r = Inr c"
  shows "inv fl (finish t k f out s)"
proof -
  note D = invD [OF assms(1)]
  have cl: "claimed s k = Some f" by (rule D(1) [OF assms(2)])
  have rel: "release k f (claimed s) = (claimed s)(k := None)" using cl by (simp add: release_def)
  have mine: "u = t" if "owns (tasks s u) k f'" for u f'
    using D(1) [OF that] cl D(4) [OF assms(2)] that by auto
  have not_f: "f' \<noteq> f" if "claimed s k' = Some f'" "k' \<noteq> k" for k' f'
    using claim_key_unique [OF assms(1) _ cl] that by blast
  show ?thesis
  proof (rule invI, unfold finish_simps rel, goal_cases)
    case (1 u k' f')
    then have "owns (tasks s u) k' f'" "u \<noteq> t" by (auto split: if_splits)
    then show ?case using D(1) mine by (cases "k' = k") auto
  next
    case (3 k' f')
    then have c: "claimed s k' = Some f'" "k' \<noteq> k" by (auto split: if_splits)
    then obtain u where u: "owns (tasks s u) k' f'" using D(3) by blast
    then have "u \<noteq> t" using c(2) assms(2) owns_fun by blast
    with u show ?case by (intro exI [of _ u]) simp
  next
    case (4 u v k1 f1 k2)
    then show ?case using D(4) by (auto split: if_splits)
  next
    case (5 k' f')
    then have c: "claimed s k' = Some f'" "k' \<noteq> k" by (auto split: if_splits)
    then show ?case using D(5) [OF c(1)] not_f [OF c] by auto
  next
    case (7 u k' f')
    then have w: "tasks s u = Waiting k' f'" by (auto split: if_splits)
    have nf: "f' \<noteq> f" using 7 outcome_settled [of out] by (auto simp: future_done_def split: if_splits)
    then have "claimed s k' = Some f'" using D(7) [OF w] 7 by (auto split: if_splits)
    then show ?case using nf cl by auto
  next
    case (9 u k' f')
    then have w: "tasks s u = Waiting k' f'" by (auto split: if_splits)
    show ?case
    proof (cases "f' = f \<and> \<not> future_done (futures s f)")
      case True
      then have "k' = k" using D(8) [OF w] cl by simp
      then show ?thesis using True explains_outcome [of out fl k f "produced s", OF assms(3)] by simp
    qed (use explains_Cons [OF D(9) [OF w]] in auto)
  qed (use D in \<open>auto split: if_splits\<close>)
qed

lemma inv_cancel_future:
  assumes "inv fl s"
  shows "inv fl (s\<lparr>futures := (futures s)(f := CancelledFuture)\<rparr>)"
proof -
  note D = invD [OF assms]
  show ?thesis
  proof (rule invI, goal_cases)
    case (5 k f')
    then show ?case using D(5) by auto
  next
    case (7 t k f')
    then show ?case using D(7) by (simp split: if_splits)
  next
    case (9 t k f')
    then show ?case using D(9) by (auto simp: explains_def split: if_splits)
  qed (simp_all, (blast intro: D)+)
qed

lemma inv_returned [simp]: "inv fl (s\<lparr>returned := x\<rparr>) = inv fl s"
  by (simp add: inv_def)

lemma note_return_simps [simp]:
  "tasks (note_return k out s) = tasks s" "claimed (note_return k out s) = claimed s"
  "futures (note_return k out s) = futures s" "fresh (note_return k out s) = fresh s"
  "world (note_return k out s) = world s" "produced (note_return k out s) = produced s"
  "inv fl (note_return k out s) = inv fl s"
  by (simp_all add: note_return_def split: sum.split)

section \<open>Every step preserves the invariant\<close>

lemma idle_pc_simps [simp]:
  "idle_pc (Reading k)" "idle_pc (Got k r)" "idle_pc (Finished k o')" "idle_pc Idle"
  by (simp_all add: idle_pc_def)

lemma inv_after_get:
  "inv fl s \<Longrightarrow> (\<And>k f. \<not> owns (tasks s t) k f) \<Longrightarrow> inv fl (after_get fl t k r s)"
  by (auto simp: after_get_def intro: inv_enter inv_goto_idle split: sum.split option.split)

lemma inv_after_call:
  assumes "inv fl s" "tasks s t = Running k f"
  shows "inv fl (after_call fl t k f out s)"
proof (cases "bind_res out (\<lambda>r. bind_res (fl_publish fl r) (\<lambda>c. Inr (r, c)))")
  case (Inl e)
  have "inv fl (finish t k f (Inl e) s)" by (rule inv_finish [OF assms(1)]) (use assms(2) in auto)
  with Inl show ?thesis by (simp add: after_call_def)
next
  case (Inr rc)
  then obtain r c where rc: "rc = (r, c)" "fl_publish fl r = Inr c"
    by (cases rc) (auto simp: bind_res_Inr_iff)
  with Inr assms show ?thesis
    by (auto simp: after_call_def intro: inv_finish inv_goto_owner)
qed

lemma inv_after_set:
  assumes "inv fl s" "tasks s t = Stored k f r c res"
  shows "inv fl (after_set t k f r c x s)"
proof -
  have "fl_publish fl r = Inr c" using carried [OF assms(1), of t] assms(2) by simp
  with assms show ?thesis
    by (auto simp: after_set_def intro!: inv_finish split: sum.split)
qed

lemma inv_cancel:
  assumes "inv fl s" "cancel t s = Some s'"
  shows "inv fl s'"
  using assms by (cases "tasks s t")
    (auto simp: cancel_def intro!: inv_goto_idle inv_finish inv_cancel_future split: if_splits)

lemma inv_step:
  assumes "inv fl s" "step fl C ttl ev s = Some s'"
  shows "inv fl s'"
proof (cases ev)
  case (Call t k)
  with assms show ?thesis by (auto simp: step_def intro: inv_goto_idle split: pc.splits)
next
  case (Fetch t)
  with assms show ?thesis
    by (auto simp: step_def inv_world intro!: inv_goto_idle split: pc.splits prod.splits)
next
  case (Resume t)
  with assms show ?thesis by (auto simp: step_def intro!: inv_after_get split: pc.splits)
next
  case (Return t out)
  with assms show ?thesis by (auto simp: step_def intro!: inv_after_call split: pc.splits)
next
  case (Write t)
  then obtain k f r c res w where t: "tasks s t = Storing k f r c"
    and s': "s' = goto t (Stored k f r c res) (s\<lparr>world := w\<rparr>)"
    using assms by (auto simp: step_def split: pc.splits prod.splits)
  have "fl_publish fl r = Inr c" using carried [OF assms(1), of t] t by simp
  with t s' assms(1) show ?thesis by (auto intro!: inv_goto_owner simp: inv_world)
next
  case (Settle t)
  with assms show ?thesis by (auto simp: step_def intro: inv_after_set split: pc.splits)
next
  case (Wake t)
  with assms show ?thesis
    by (auto simp: step_def wake_def intro!: inv_goto_idle split: pc.splits future.splits)
next
  case (Cancel t)
  with assms show ?thesis by (auto simp: step_def intro: inv_cancel)
next
  case (Invalidate k)
  with assms show ?thesis by (auto simp: step_def inv_world)
qed

theorem reachable_inv: "reachable fl C ttl db s \<Longrightarrow> inv fl s"
  by (induction rule: reachable.induct) (auto intro: inv_initial inv_step)

end
