(* ===== verification/Py_Text.thy ===== *)
theory Py_Text
  imports Prelude
begin

text \<open>
  The text operations of Python that several modules call: white space and \<open>str.strip\<close>,
  \<open>str.lower\<close>, \<open>str.split()\<close>, \<open>str.rstrip(c)\<close>, and \<open>int(text)\<close>.
\<close>

definition is_space :: "char \<Rightarrow> bool" where
  "is_space c = (let k = (of_char c :: nat) in
     (9 \<le> k \<and> k \<le> 13) \<or> (28 \<le> k \<and> k \<le> 32) \<or> k = 133 \<or> k = 160)"

definition py_strip :: "string \<Rightarrow> string" where
  "py_strip s = rev (dropWhile is_space (rev (dropWhile is_space s)))"

definition rstrip_char :: "char \<Rightarrow> string \<Rightarrow> string" where
  "rstrip_char c s = rev (dropWhile (\<lambda>x. x = c) (rev s))"

text \<open>\<open>s.lower()\<close>.\<close>

definition lower_char :: "char \<Rightarrow> char" where
  "lower_char c = (let k = (of_char c :: nat) in
     if (65 \<le> k \<and> k \<le> 90) \<or> (192 \<le> k \<and> k \<le> 222 \<and> k \<noteq> 215) then char_of (k + 32) else c)"

definition py_lower :: "string \<Rightarrow> string" where
  "py_lower s = map lower_char s"

text \<open>\<open>s.split()\<close>: the runs of characters that are no white space.\<close>

fun words_from :: "string \<Rightarrow> string \<Rightarrow> string list" where
  "words_from [] w = (if w = [] then [] else [rev w])"
| "words_from (c # s) w =
     (if is_space c then (if w = [] then words_from s [] else rev w # words_from s [])
      else words_from s (c # w))"

definition py_words :: "string \<Rightarrow> string list" where
  "py_words s = words_from s []"

text \<open>\<open>int(s)\<close>: surrounding white space, a sign, digits in groups joined by single underscores, at
  most 4300 of them.\<close>

definition digit_groups :: "string \<Rightarrow> nat option" where
  "digit_groups s = (let gs = split_on (CHR ''_'') s in
     if list_all (\<lambda>g. g \<noteq> [] \<and> list_all is_digit g) gs \<and> length (concat gs) \<le> 4300
     then Some (nat_of_digits (concat gs)) else None)"

definition int_of_str :: "string \<Rightarrow> int option" where
  "int_of_str s = (let t = py_strip s in
     if t \<noteq> [] \<and> hd t = CHR ''-'' then map_option (\<lambda>n. - int n) (digit_groups (tl t))
     else if t \<noteq> [] \<and> hd t = CHR ''+'' then map_option int (digit_groups (tl t))
     else map_option int (digit_groups t))"

lemma space_free [simp]: "is_digit c \<Longrightarrow> \<not> is_space c"
  by (auto simp: is_digit_def is_space_def Let_def)

lemma words_from_word: "list_all (\<lambda>c. \<not> is_space c) u \<Longrightarrow> words_from (u @ s) w = words_from s (rev u @ w)"
  by (induction u arbitrary: w) auto

lemma words_from_space: "list_all is_space u \<Longrightarrow> words_from (u @ s) [] = words_from s []"
  by (induction u) auto

lemma py_words_two:
  assumes "list_all (\<lambda>c. \<not> is_space c) u" "list_all (\<lambda>c. \<not> is_space c) v" "u \<noteq> []" "v \<noteq> []"
  shows "py_words (u @ CHR '' '' # v) = [u, v]"
  using words_from_word [OF assms(1), of "CHR '' '' # v" "[]"] words_from_word [OF assms(2), of "[]" "[]"] assms(3,4)
  by (simp add: py_words_def is_space_def)

lemma py_strip_ends: "(s = [] \<or> \<not> is_space (hd s) \<and> \<not> is_space (last s)) \<Longrightarrow> py_strip s = s"
proof (cases "s = []")
  case False
  assume "s = [] \<or> \<not> is_space (hd s) \<and> \<not> is_space (last s)"
  with False have s: "\<not> is_space (hd s)" "\<not> is_space (hd (rev s))" by (simp_all add: hd_rev)
  have "dropWhile is_space t = t" if "t \<noteq> []" "\<not> is_space (hd t)" for t using that by (cases t) auto
  with s False show ?thesis by (simp add: py_strip_def)
qed (simp add: py_strip_def)

lemma strip_trimmed: "py_strip s = [] \<or> \<not> is_space (hd (py_strip s)) \<and> \<not> is_space (last (py_strip s))"
proof (cases "py_strip s = []")
  case False
  let ?l = "dropWhile is_space s"
  have ne: "dropWhile is_space (rev ?l) \<noteq> []" using False by (simp add: py_strip_def)
  have "\<not> is_space (last (py_strip s))"
    using hd_dropWhile [of is_space "rev ?l"] ne by (simp add: py_strip_def last_rev)
  moreover obtain u where u: "rev ?l = u @ dropWhile is_space (rev ?l)" by (metis takeWhile_dropWhile_id)
  then have "?l = rev (dropWhile is_space (rev ?l)) @ rev u" by (metis rev_append rev_rev_ident)
  then have "hd (py_strip s) = hd ?l" using ne by (metis hd_append2 py_strip_def rev_is_Nil_conv)
  moreover have "?l \<noteq> []" using ne by (metis dropWhile.simps(1) rev.simps(1))
  then have "\<not> is_space (hd ?l)" using hd_dropWhile by blast
  ultimately show ?thesis by simp
qed simp

lemma py_strip_idem [simp]: "py_strip (py_strip s) = py_strip s"
  using py_strip_ends [OF strip_trimmed] .

lemma lower_char_space [simp]: "is_space (lower_char c) = is_space c"
  by (cases "of_char c :: nat" rule: linorder_cases [of _ 65]) (auto simp: lower_char_def is_space_def Let_def)

lemma lower_char_idem [simp]: "lower_char (lower_char c) = lower_char c"
  by (auto simp: lower_char_def Let_def)

lemma py_lower_idem [simp]: "py_lower (py_lower s) = py_lower s"
  by (simp add: py_lower_def)

lemma strip_lower: "py_strip (py_lower s) = py_lower (py_strip s)"
  by (simp add: py_strip_def py_lower_def dropWhile_map comp_def rev_map)

lemma digit_groups_show: "length (show_nat n) \<le> 4300 \<Longrightarrow> digit_groups (show_nat n) = Some n"
proof -
  have d: "list_all is_digit (show_nat n)" using show_nat_digits by (auto simp: list_all_iff)
  then have "CHR ''_'' \<notin> set (show_nat n)" by (auto simp: list_all_iff is_digit_def)
  then show "length (show_nat n) \<le> 4300 \<Longrightarrow> ?thesis"
    using d by (simp add: digit_groups_def split_on_free)
qed

lemma int_of_show_nat: "length (show_nat n) \<le> 4300 \<Longrightarrow> int_of_str (show_nat n) = Some (int n)"
proof -
  have d: "is_digit (hd (show_nat n))" "is_digit (last (show_nat n))"
    by (simp_all add: show_nat_digits [of _ n])
  then have "py_strip (show_nat n) = show_nat n" by (intro py_strip_ends) simp
  moreover have "hd (show_nat n) \<noteq> CHR ''-''" "hd (show_nat n) \<noteq> CHR ''+''"
    using d(1) by (auto simp: is_digit_def)
  ultimately show "length (show_nat n) \<le> 4300 \<Longrightarrow> ?thesis"
    by (simp add: int_of_str_def digit_groups_show)
qed

end
