(* ===== verification/Redis_Many.thy ===== *)
theory Redis_Many
  imports Redis_Backend Py_Text
begin

text \<open>
  The bulk operations: the default \<open>get_many\<close>, \<open>set_many\<close> and \<open>incr\<close> of \<open>CacheBackend\<close>, which
  go through \<open>get\<close> and \<open>set\<close>, and their agreement with the single-request versions of
  \<open>RedisCacheBackend\<close>; pattern deletion and \<open>flush\<close>; counters. \<open>int(x)\<close> of a float is the
  parameter \<open>float_int\<close> of \<open>base_incr\<close>.
\<close>

section \<open>The default methods\<close>

fun base_get_many_from ::
  "'db cache \<Rightarrow> string list \<Rightarrow> (string \<times> cval) list \<Rightarrow> ('db, (string \<times> cval) list) act" where
  "base_get_many_from C [] result = ret result"
| "base_get_many_from C (k # ks) result =
     bind_act (c_get C k) (\<lambda>v.
       base_get_many_from C ks (if v = CNull then result else dict_put result k v))"

definition base_get_many :: "'db cache \<Rightarrow> string list \<Rightarrow> ('db, (string \<times> cval) list) act" where
  "base_get_many C keys = base_get_many_from C keys []"

definition base_set_many :: "'db cache \<Rightarrow> (string \<times> cval) list \<Rightarrow> int option \<Rightarrow> ('db, unit) act" where
  "base_set_many C mapping ttl = for_each (\<lambda>kv. c_set C (fst kv) (snd kv) ttl) mapping"

fun py_int :: "(string \<Rightarrow> exc + int) \<Rightarrow> cval \<Rightarrow> exc + int" where
  "py_int float_int (CInt i) = Inr i"
| "py_int float_int (CBool x) = Inr (if x then 1 else 0)"
| "py_int float_int (CFloat s) = float_int s"
| "py_int float_int (CStr s) = (case int_of_str s of None \<Rightarrow> Inl ValueError | Some i \<Rightarrow> Inr i)"
| "py_int float_int (CBytes s) = (case int_of_str s of None \<Rightarrow> Inl ValueError | Some i \<Rightarrow> Inr i)"
| "py_int float_int _ = Inl TypeError"

definition base_incr ::
  "(string \<Rightarrow> exc + int) \<Rightarrow> 'db cache \<Rightarrow> string \<Rightarrow> int \<Rightarrow> ('db, int) act" where
  "base_incr float_int C key amount =
     bind_act (c_get C key) (\<lambda>current.
       if current \<noteq> CNull then
         (case py_int float_int current of
            Inl e \<Rightarrow> throw (if catches [TypeError, ValueError] e then CacheError else e)
          | Inr i \<Rightarrow> bind_act (c_set C key (CInt (i + amount)) None) (\<lambda>_. ret (i + amount)))
       else bind_act (c_set C key (CInt amount) None) (\<lambda>_. ret amount))"

text \<open>\<open>flush\<close> must be overridden; \<open>serialize\<close> and \<open>deserialize\<close> are those of the serializer.\<close>

definition base_flush :: "('db, unit) act" where
  "base_flush = throw NotImplementedError"

definition base_serialize :: "serializer \<Rightarrow> cval \<Rightarrow> exc + string" where
  "base_serialize S v = ser_dumps S v"

definition base_deserialize :: "serializer \<Rightarrow> string \<Rightarrow> exc + cval" where
  "base_deserialize S data = ser_loads S data"

lemma base_roundtrip:
  assumes "faithful_serializer S good" "good v" "base_serialize S v = Inr data"
  shows "base_deserialize S data = Inr v"
  using faithful_serializer.dumps_good [OF assms(1,2)] assms(3) by (auto simp: base_serialize_def base_deserialize_def)

section \<open>Lemmas\<close>

definition put_value :: "string \<times> cval \<Rightarrow> (string \<Rightarrow> (exc + cval) option) \<Rightarrow> string \<Rightarrow> (exc + cval) option" where
  "put_value kv m = m(fst kv \<mapsto> Inr (snd kv))"

lemma remove_prefix_append [simp]: "remove_prefix p (p @ s) = s"
  by (simp add: remove_prefix_def)

lemma collect_values_fails:
  "(\<And>d e. serial_try (ser_loads S d) = Inl e \<Longrightarrow> P e) \<Longrightarrow> length ks = length vs \<Longrightarrow>
     collect_values S ks vs acc = Inl e \<Longrightarrow> P e"
  by (induction S ks vs acc rule: collect_values.induct) (auto split: sum.splits)

lemma fold_set_entry_other: "k \<notin> fst ` set cmds \<Longrightarrow> fold set_entry cmds m k = m k"
  by (induction cmds arbitrary: m) (auto simp: set_entry_def)

context cache_backend begin

lemma base_set_many_ok:
  "up s \<Longrightarrow> list_all (\<lambda>kv. good (snd kv)) mapping \<Longrightarrow>
     \<exists>t. base_set_many C mapping ttl s = (Inr (), t) \<and> up t
       \<and> content t = fold put_value mapping (content s)"
proof (induction mapping arbitrary: s)
  case (Cons kv rest)
  obtain s1 where s1: "c_set C (fst kv) (snd kv) ttl s = (Inr (), s1)" "up s1"
    "content s1 = (content s)(fst kv \<mapsto> Inr (snd kv))"
    using set_ok [OF Cons.prems(1), of "snd kv" "fst kv" ttl] Cons.prems(2) by auto
  with Cons.IH [OF s1(2)] Cons.prems(2) show ?case
    by (auto simp: base_set_many_def put_value_def act_simps)
qed (simp add: base_set_many_def act_simps)

lemma incr_counts:
  assumes "up s" "content s k = Some (Inr (CInt i))" "good (CInt (i + n))"
  shows "\<exists>t. base_incr f C k n s = (Inr (i + n), t) \<and> up t
    \<and> content t = (content s)(k \<mapsto> Inr (CInt (i + n)))"
  using set_ok [OF assms(1,3), of k None] assms get_ok [of s k]
  by (auto simp: base_incr_def bind_act_def act_simps)

lemma incr_fails:
  assumes f: "\<And>x e. f x = Inl e \<Longrightarrow> catches [TypeError, ValueError] e"
  shows "raises_only (\<lambda>e. is_instance e CacheError) (base_incr f C k n)"
  unfolding base_incr_def
proof (rule raises_only_bind [OF get_fails])
  fix v
  have "py_int f v = Inl e \<Longrightarrow> catches [TypeError, ValueError] e" for e
    by (cases "(f, v)" rule: py_int.cases)
      (auto dest: f simp: catches_def split: option.splits)
  then show "raises_only (\<lambda>e. is_instance e CacheError) (if v \<noteq> CNull then
         (case py_int f v of
            Inl e \<Rightarrow> throw (if catches [TypeError, ValueError] e then CacheError else e)
          | Inr i \<Rightarrow> bind_act (c_set C k (CInt (i + n)) None) (\<lambda>_. ret (i + n)))
       else bind_act (c_set C k (CInt n) None) (\<lambda>_. ret n))"
    by (auto intro!: raises_only_bind [OF set_fails] split: sum.split)
qed

end

context redis_cache begin

lemma base_get_many_eq_collect:
  "up s \<Longrightarrow> (\<And>k. k \<in> set ks \<Longrightarrow> rb_content backend view s k \<noteq> Some (Inr CNull)) \<Longrightarrow>
     base_get_many_from (cache_of backend) ks acc s
       = (collect_values S ks (map (\<lambda>k. map_option fst (view s (rb_key backend k))) ks) acc, s)"
proof (induction ks arbitrary: acc)
  case (Cons k ks)
  have get: "c_get (cache_of backend) k s =
      ((case rb_content backend view s k of None \<Rightarrow> Inr CNull | Some r \<Rightarrow> r), s)"
    using Cons.prems(1) by (rule get_ok)
  show ?case
  proof (cases "view s (rb_key backend k)")
    case None
    then have "rb_content backend view s k = None" by (simp add: rb_content_def)
    with get Cons None show ?thesis by (simp add: act_simps)
  next
    case (Some e)
    then have c: "rb_content backend view s k = Some (serial_try (ser_loads S (fst e)))"
      by (simp add: rb_content_def)
    then show ?thesis
      using get Cons Some Cons.prems(2) [of k]
      by (cases "serial_try (ser_loads S (fst e))") (auto simp: act_simps)
  qed
qed (simp add: act_simps)

lemma get_many_eq_base:
  assumes "up s" "\<And>k. k \<in> set ks \<Longrightarrow> rb_content backend view s k \<noteq> Some (Inr CNull)"
  shows "rb_get_many backend ks s = base_get_many (cache_of backend) ks s"
  using base_get_many_eq_collect [OF assms] mget_up [OF assms(1), of "map (rb_key backend) ks"]
  by (auto simp: rb_get_many_def base_get_many_def act_simps comp_def)

abbreviation decoded :: "entries \<Rightarrow> string \<Rightarrow> (exc + cval) option" where
  "decoded m k \<equiv> map_option (\<lambda>e. serial_try (ser_loads S (fst e))) (m (rb_key backend k))"

lemma set_commands_total:
  "list_all (\<lambda>kv. good (snd kv)) mapping \<Longrightarrow>
     \<exists>cmds. map_res (set_command backend t) mapping = Inr cmds
       \<and> list_all (\<lambda>c. valid_ex (snd (snd c))) cmds
       \<and> (\<forall>m. decoded (fold set_entry cmds m)
            = fold put_value mapping (decoded m))"
proof (induction mapping)
  case (Cons kv rest)
  then obtain d where d: "ser_dumps S (snd kv) = Inr d" "ser_loads S d = Inr (snd kv)"
    by (auto elim: good_cases)
  let ?c = "(rb_key backend (fst kv), d, if t > 0 then Some t else None)"
  have c: "set_command backend t kv = Inr ?c" using d by (simp add: set_command_def)
  have step: "decoded (set_entry ?c m) = put_value kv (decoded m)" for m
    using d by (auto simp: set_entry_def put_value_def fun_eq_iff)
  from Cons obtain cmds where "map_res (set_command backend t) rest = Inr cmds"
    "list_all (\<lambda>c. valid_ex (snd (snd c))) cmds"
    "\<forall>m. decoded (fold set_entry cmds m)
       = fold put_value rest (decoded m)"
    by auto
  with c step show ?case by (intro exI [of _ "?c # cmds"]) simp
qed simp

lemma set_many_up:
  assumes "up s" "list_all (\<lambda>kv. good (snd kv)) mapping"
  shows "\<exists>t. rb_set_many backend mapping ttl s = (Inr (), t) \<and> up t
    \<and> rb_content backend view t
        = fold put_value mapping (rb_content backend view s)"
proof (cases "mapping = []")
  case False
  obtain cmds where cmds: "map_res (set_command backend (effective_ttl backend ttl)) mapping = Inr cmds"
    "list_all (\<lambda>c. valid_ex (snd (snd c))) cmds"
    "\<forall>m. decoded (fold set_entry cmds m)
       = fold put_value mapping (decoded m)"
    using set_commands_total [OF assms(2)] by blast
  obtain t where "r_pipe R cmds s = (Inr (), t)" "up t" "view t = fold set_entry cmds (view s)"
    using pipe_up [OF assms(1) cmds(2)] by blast
  moreover have "rb_content backend view u = decoded (view u)" for u
    by (simp add: rb_content_def fun_eq_iff)
  ultimately show ?thesis
    using False cmds by (auto simp: rb_set_many_def act_simps)
qed (use assms in \<open>simp add: rb_set_many_def act_simps\<close>)

lemma delete_pattern_star:
  assumes "up s" "no_glob (rb_key backend p)"
  shows "\<exists>t n. rb_delete_pattern backend (p @ ''*'') s = (Inr n, t) \<and> up t
    \<and> view t = (view s) |` {k. \<not> prefix (rb_key backend p) k}
    \<and> n \<ge> card {k \<in> dom (view s). prefix (rb_key backend p) k}"
proof -
  obtain ks where ks: "r_scan R (rb_key backend p @ ''*'') s = (Inr ks, s)"
    "set ks = {k \<in> dom (view s). prefix (rb_key backend p) k}"
    using scan_prefix [OF assms] .
  obtain t where t: "delete_scanned R ks 0 s = (Inr (0 + length ks), t)" "up t"
    "view t = (view s) |` (- set ks)"
    using delete_scanned_up [OF assms(1)] by blast
  have "(view s) |` (- set ks) = (view s) |` {k. \<not> prefix (rb_key backend p) k}"
    using ks(2) by (auto simp: restrict_map_def fun_eq_iff)
  moreover have "card {k \<in> dom (view s). prefix (rb_key backend p) k} \<le> length ks"
    using card_length [of ks] unfolding ks(2) .
  ultimately show ?thesis
    using ks(1) t by (auto simp: rb_delete_pattern_def rb_key_def act_simps)
qed

lemma flush_up:
  assumes "up s" "no_glob ns"
  shows "\<exists>t. rb_flush backend s = (Inr (), t) \<and> up t
    \<and> view t = (view s) |` {k. \<not> prefix (ns @ '':'') k}"
proof -
  have "no_glob (rb_key backend [])" using assms(2) by (simp add: no_glob_def rb_key_def)
  from delete_pattern_star [OF assms(1) this] show ?thesis
    by (auto simp: rb_flush_def rb_key_def act_simps)
qed

lemma keys_star:
  assumes "up s" "no_glob (rb_key backend p)"
  shows "\<exists>ks. rb_keys backend (p @ ''*'') s = (Inr ks, s)
    \<and> set ks = {k. rb_content backend view s k \<noteq> None \<and> prefix p k}"
proof -
  obtain ks where ks: "r_scan R (rb_key backend p @ ''*'') s = (Inr ks, s)"
    "set ks = {k \<in> dom (view s). prefix (rb_key backend p) k}"
    using scan_prefix [OF assms] .
  have "remove_prefix (ns @ '':'') ` set ks = {k. rb_content backend view s k \<noteq> None \<and> prefix p k}"
  proof (intro set_eqI iffI)
    fix k assume "k \<in> {k. rb_content backend view s k \<noteq> None \<and> prefix p k}"
    then have "rb_key backend k \<in> set ks"
      unfolding ks(2) by (auto simp: rb_content_def rb_key_def)
    then show "k \<in> remove_prefix (ns @ '':'') ` set ks"
      by (intro image_eqI [of _ _ "rb_key backend k"])
        (simp_all add: rb_key_def remove_prefix_append [of "ns @ '':''", simplified])
  next
    fix k assume "k \<in> remove_prefix (ns @ '':'') ` set ks"
    then obtain f where f: "f \<in> set ks" "k = remove_prefix (ns @ '':'') f" by blast
    then obtain r where r: "f = rb_key backend (p @ r)" unfolding ks(2) by (auto simp: prefix_def rb_key_def)
    then have "k = p @ r"
      using f(2) remove_prefix_append [of "ns @ '':''" "p @ r"] by (simp add: rb_key_def)
    with f(1) r show "k \<in> {k. rb_content backend view s k \<noteq> None \<and> prefix p k}"
      unfolding ks(2) by (auto simp: rb_content_def)
  qed
  with ks show ?thesis by (auto simp: rb_keys_def rb_key_def act_simps)
qed

lemma contract: "cache_backend (cache_of backend) (rb_content backend view) up good"
  by unfold_locales

lemma driver_errors:
  "raises_only (\<lambda>e. e = RedisCacheError) (rb_delete backend k)"
  "raises_only (\<lambda>e. e = RedisCacheError) (rb_exists backend k)"
  "raises_only (\<lambda>e. e = RedisCacheError) (rb_expire backend k n)"
  "raises_only (\<lambda>e. e = RedisCacheError) (rb_keys backend p)"
  "raises_only (\<lambda>e. e = RedisCacheError) (rb_delete_pattern backend p)"
  "raises_only (\<lambda>e. e = RedisCacheError) (rb_flush backend)"
  "raises_only (\<lambda>e. e = RedisCacheError) (rb_incr backend k n)"
  by (auto simp: rb_delete_def rb_exists_def rb_expire_def rb_keys_def rb_delete_pattern_def
      rb_flush_def rb_incr_def intro!: redis_try_raises raises delete_scanned_raises
      raises_only_bind raises_only_map)

lemma value_errors:
  "raises_only (\<lambda>e. is_instance e CacheError) (rb_get backend k)"
  "raises_only (\<lambda>e. is_instance e CacheError) (rb_set backend k v ttl)"
  using get_fails [of k] set_fails [of k v ttl] by (simp_all add: cache_of_def)

lemma counter:
  assumes "up s" "ser_dumps S (CInt i) = Inr (show_int i)" "int64 i" "int64 (i + n)"
  shows "\<exists>t u. rb_set backend k (CInt i) ttl s = (Inr (), t)
    \<and> rb_incr backend k n t = (Inr (i + n), u) \<and> up u
    \<and> rb_content backend view u k = Some (serial_try (ser_loads S (show_int (i + n))))
    \<and> map_option snd (view u (rb_key backend k)) = map_option snd (view t (rb_key backend k))"
proof -
  obtain t ex where t: "rb_set backend k (CInt i) ttl s = (Inr (), t)" "up t"
    "view t (rb_key backend k) = Some (show_int i, ex)"
    using rb_set_up [OF assms(1,2), of k ttl] by auto
  obtain u where "r_incrby R (rb_key backend k) n t = (Inr (i + n), u)" "up u"
    "view u = (view t)(rb_key backend k \<mapsto> (show_int (i + n), ex))"
    using incr_present [OF t(2,3) assms(3,4)] by blast
  with t show ?thesis by (auto simp: rb_incr_def rb_content_def act_simps)
qed

end

end
