(* ===== verification/Redis_Memory.thy ===== *)
theory Redis_Memory
  imports Redis_Many
begin

text \<open>
  A Redis server in memory: entries with deadlines, a clock, and a switch for an unreachable
  server. It is the concrete client on which \<open>redis_store\<close> is discharged, so that the
  properties of the backend, stated for every client that keeps the documented behaviour, are
  evaluated on one; the properties of \<open>cache/redis.py\<close> follow.
\<close>

record memory =
  m_clock :: int
  m_entries :: "(string \<times> string \<times> int option) list"
  m_reachable :: bool

definition live :: "int \<Rightarrow> int option \<Rightarrow> bool" where
  "live now deadline = (case deadline of None \<Rightarrow> True | Some d \<Rightarrow> now < d)"

definition mem_view :: "memory \<Rightarrow> entries" where
  "mem_view s k = (case map_of (m_entries s) k of None \<Rightarrow> None
     | Some e \<Rightarrow> if live (m_clock s) (snd e)
                 then Some (fst e, map_option (\<lambda>d. d - m_clock s) (snd e)) else None)"

definition tick :: "int \<Rightarrow> memory \<Rightarrow> memory" where
  "tick n s = s\<lparr>m_clock := m_clock s + n\<rparr>"

definition mem_put :: "string \<Rightarrow> string \<Rightarrow> int option \<Rightarrow> memory \<Rightarrow> memory" where
  "mem_put k d ex s = s\<lparr>m_entries :=
     (k, d, map_option (\<lambda>n. m_clock s + n) ex) # filter (\<lambda>e. fst e \<noteq> k) (m_entries s)\<rparr>"

definition mem_drop :: "string \<Rightarrow> memory \<Rightarrow> memory" where
  "mem_drop k s = s\<lparr>m_entries := filter (\<lambda>e. fst e \<noteq> k) (m_entries s)\<rparr>"

text \<open>Redis patterns: star, question mark, an escaped character, and a bracketed set.\<close>

function glob :: "string \<Rightarrow> string \<Rightarrow> bool" where
  "glob [] s = (s = [])"
| "glob (p # ps) [] = (p = CHR ''*'' \<and> glob ps [])"
| "glob (p # ps) (c # cs) =
     (if p = CHR ''*'' then glob ps (c # cs) \<or> glob (p # ps) cs
      else if p = CHR ''?'' then glob ps cs
      else if p = CHR 0x5C \<and> ps \<noteq> [] then c = hd ps \<and> glob (tl ps) cs
      else if p = CHR ''['' then
        c \<in> set (takeWhile (\<lambda>x. x \<noteq> CHR '']'') ps) \<and> glob (drop 1 (dropWhile (\<lambda>x. x \<noteq> CHR '']'') ps)) cs
      else c = p \<and> glob ps cs)"
  by pat_completeness auto
termination
  by (relation "measure (\<lambda>(p, s). length p + length s)")
    (simp_all add: less_Suc_eq_le trans_le_add1 le_SucI le_trans [OF diff_le_self length_dropWhile_le])

declare glob.simps [simp del]

definition mem_call :: "(memory, 'a) act \<Rightarrow> (memory, 'a) act" where
  "mem_call m s = (if m_reachable s then m s else (Inl ConnectionError, s))"

definition mem_incr :: "string \<Rightarrow> int \<Rightarrow> (memory, int) act" where
  "mem_incr k n s = (case mem_view s k of
       None \<Rightarrow> (if int64 n then (Inr n, mem_put k (show_int n) None s) else (Inl RedisError, s))
     | Some e \<Rightarrow> (let i = int_of_text (fst e) in
         if show_int i = fst e \<and> int64 i \<and> int64 (i + n)
         then (Inr (i + n), mem_put k (show_int (i + n)) (snd e) s)
         else (Inl RedisError, s)))"

definition mem_scan :: "string \<Rightarrow> memory \<Rightarrow> string list" where
  "mem_scan p s = filter (\<lambda>k. mem_view s k \<noteq> None \<and> glob p k) (map fst (m_entries s))"

definition mem_redis :: "memory redis" where
  "mem_redis =
    \<lparr>r_get = (\<lambda>k. mem_call (\<lambda>s. (Inr (map_option fst (mem_view s k)), s))),
     r_set = (\<lambda>k d ex. mem_call (\<lambda>s. (Inr (), mem_put k d ex s))),
     r_delete = (\<lambda>k. mem_call (\<lambda>s. (Inr (if mem_view s k = None then 0 else 1), mem_drop k s))),
     r_exists = (\<lambda>k. mem_call (\<lambda>s. (Inr (if mem_view s k = None then 0 else 1), s))),
     r_expire = (\<lambda>k n. mem_call (\<lambda>s. (case mem_view s k of None \<Rightarrow> (Inr False, s)
        | Some e \<Rightarrow> (Inr True, if n > 0 then mem_put k (fst e) (Some n) s else mem_drop k s)))),
     r_scan = (\<lambda>p. mem_call (\<lambda>s. (Inr (mem_scan p s), s))),
     r_mget = (\<lambda>ks. mem_call (\<lambda>s. (Inr (map (\<lambda>k. map_option fst (mem_view s k)) ks), s))),
     r_pipe = (\<lambda>cmds. mem_call (\<lambda>s. (Inr (), fold (\<lambda>(k, d, ex). mem_put k d ex) cmds s))),
     r_incrby = (\<lambda>k n. mem_call (mem_incr k n))\<rparr>"

lemma map_of_filter_key: "map_of (filter (\<lambda>e. fst e \<noteq> k) xs) = (map_of xs)(k := None)"
  by (induction xs) (auto simp: fun_eq_iff)

lemma view_put: "valid_ex ex \<Longrightarrow> mem_view (mem_put k d ex s) = (mem_view s)(k \<mapsto> (d, ex))"
  by (auto simp: mem_view_def mem_put_def map_of_filter_key fun_eq_iff live_def valid_ex_def
      split: option.splits)

lemma view_drop: "mem_view (mem_drop k s) = (mem_view s)(k := None)"
  by (auto simp: mem_view_def mem_drop_def map_of_filter_key fun_eq_iff split: option.splits)

lemma reachable_simps [simp]:
  "m_reachable (mem_put k d ex s) = m_reachable s" "m_reachable (mem_drop k s) = m_reachable s"
  by (simp_all add: mem_put_def mem_drop_def)

lemma view_ex_valid: "mem_view s k = Some e \<Longrightarrow> valid_ex (snd e)"
  by (auto simp: mem_view_def live_def valid_ex_def split: option.splits if_splits)

lemma glob_star: "glob ''*'' s"
  by (induction s) (simp_all add: glob.simps)

lemma glob_prefix: "no_glob p \<Longrightarrow> glob (p @ ''*'') k \<longleftrightarrow> prefix p k"
proof (induction p arbitrary: k)
  case (Cons c p)
  then show ?case by (cases k) (auto simp: glob.simps no_glob_def)
qed (simp add: glob_star)

lemma view_key: "mem_view s k = Some e \<Longrightarrow> k \<in> fst ` set (m_entries s)"
  by (cases "map_of (m_entries s) k") (auto simp: mem_view_def dest!: map_of_SomeD intro: rev_image_eqI)

lemma set_mem_scan: "set (mem_scan p s) = {k \<in> dom (mem_view s). glob p k}"
  by (auto simp: mem_scan_def dest: view_key)

lemma mem_call_up: "m_reachable s \<Longrightarrow> mem_call m s = m s"
  by (simp add: mem_call_def)

lemma mem_call_raises:
  "(\<And>s e t. m s = (Inl e, t) \<Longrightarrow> catches redis_infra_errors e) \<Longrightarrow>
     raises_only (catches redis_infra_errors) (mem_call m)"
  by (auto simp: raises_only_def mem_call_def catches_def redis_infra_errors_def split: if_splits)

lemma view_pipe:
  "list_all (\<lambda>c. valid_ex (snd (snd c))) cmds \<Longrightarrow>
     mem_view (fold (\<lambda>(k, d, ex). mem_put k d ex) cmds s) = fold set_entry cmds (mem_view s)
     \<and> m_reachable (fold (\<lambda>(k, d, ex). mem_put k d ex) cmds s) = m_reachable s"
proof (induction cmds arbitrary: s)
  case (Cons c cmds)
  obtain k d ex where c: "c = (k, d, ex)" by (cases c)
  have "mem_view (mem_put k d ex s) = set_entry c (mem_view s)"
    using Cons.prems c by (simp add: view_put set_entry_def)
  moreover have "list_all (\<lambda>c. valid_ex (snd (snd c))) cmds" using Cons.prems by simp
  ultimately show ?case using Cons.IH [of "mem_put k d ex s"] c by simp
qed simp

interpretation mem: redis_store mem_redis mem_view m_reachable glob
proof
  fix s :: memory and p k d ex n ks cmds and i :: int
  show "no_glob p \<Longrightarrow> glob (p @ ''*'') k = prefix p k" by (rule glob_prefix)
  assume up: "m_reachable s"
  note run = mem_redis_def mem_call_up [OF up]
  show "r_get mem_redis k s = (Inr (map_option fst (mem_view s k)), s)"
    "r_exists mem_redis k s = (Inr (if mem_view s k = None then 0 else 1), s)"
    "r_mget mem_redis ks s = (Inr (map (\<lambda>k. map_option fst (mem_view s k)) ks), s)"
    by (simp_all add: run)
  show "\<exists>t. r_delete mem_redis k s = (Inr (if mem_view s k = None then 0 else 1), t)
      \<and> m_reachable t \<and> mem_view t = (mem_view s)(k := None)"
    by (simp add: run up view_drop)
  show "\<exists>t. r_expire mem_redis k n s = (Inr (mem_view s k \<noteq> None), t) \<and> m_reachable t
      \<and> mem_view t = expire_entry k n (mem_view s)"
    by (auto simp: run up view_drop view_put expire_entry_def valid_ex_def split: option.split)
  show "\<exists>ks. r_scan mem_redis p s = (Inr ks, s) \<and> set ks = {k \<in> dom (mem_view s). glob p k}"
    by (simp add: run set_mem_scan)
  show "list_all (\<lambda>c. valid_ex (snd (snd c))) cmds \<Longrightarrow> \<exists>t. r_pipe mem_redis cmds s = (Inr (), t)
      \<and> m_reachable t \<and> mem_view t = fold set_entry cmds (mem_view s)"
    using view_pipe [of cmds s] by (simp add: run up)
  show "valid_ex ex \<Longrightarrow> \<exists>t. r_set mem_redis k d ex s = (Inr (), t) \<and> m_reachable t
      \<and> mem_view t = (mem_view s)(k \<mapsto> (d, ex))"
    by (simp add: run up view_put)
  show "mem_view s k = None \<Longrightarrow> int64 n \<Longrightarrow> \<exists>t. r_incrby mem_redis k n s = (Inr n, t)
      \<and> m_reachable t \<and> mem_view t = (mem_view s)(k \<mapsto> (show_int n, None))"
    by (simp add: run mem_incr_def up view_put valid_ex_def)
  show "mem_view s k = Some (show_int i, ex) \<Longrightarrow> int64 i \<Longrightarrow> int64 (i + n) \<Longrightarrow>
      \<exists>t. r_incrby mem_redis k n s = (Inr (i + n), t) \<and> m_reachable t
        \<and> mem_view t = (mem_view s)(k \<mapsto> (show_int (i + n), ex))"
    using view_ex_valid [of s k "(show_int i, ex)"]
    by (simp add: run mem_incr_def up view_put int_of_text_show)
next
  fix p k d ex n ks cmds
  show "raises_only (catches redis_infra_errors) (r_get mem_redis k)"
    "raises_only (catches redis_infra_errors) (r_set mem_redis k d ex)"
    "raises_only (catches redis_infra_errors) (r_delete mem_redis k)"
    "raises_only (catches redis_infra_errors) (r_exists mem_redis k)"
    "raises_only (catches redis_infra_errors) (r_expire mem_redis k n)"
    "raises_only (catches redis_infra_errors) (r_scan mem_redis p)"
    "raises_only (catches redis_infra_errors) (r_mget mem_redis ks)"
    "raises_only (catches redis_infra_errors) (r_pipe mem_redis cmds)"
    "raises_only (catches redis_infra_errors) (r_incrby mem_redis k n)"
    by (auto simp: mem_redis_def intro!: mem_call_raises split: option.splits)
      (auto simp: mem_incr_def catches_def redis_infra_errors_def Let_def split: option.splits if_splits)
qed

interpretation mem_cache: redis_cache mem_redis mem_view m_reachable glob "JSONSerializer None"
  wf_json ns dttl for ns dttl
  by unfold_locales

end
