(* ===== verification/Redis_Properties.thy ===== *)
theory Redis_Properties
  imports Redis_Memory
begin

text \<open>
  What \<open>RedisCacheBackend\<close> guarantees, for every client with the documented behaviour
  (\<open>redis_store\<close>) and every serializer that is faithful on the values stored; each property is
  evaluated on the in-memory server.
\<close>

lemma redis_cacheI:
  "redis_store R view up globs \<Longrightarrow> faithful_serializer S good \<Longrightarrow> redis_cache R view up globs S good"
  by (rule redis_cache.intro)

lemma mem_json: "redis_store mem_redis mem_view m_reachable glob"
  "faithful_serializer (JSONSerializer None) wf_json"
  by unfold_locales

definition mem_empty :: memory where
  "mem_empty = \<lparr>m_clock = 0, m_entries = [], m_reachable = True\<rparr>"

lemma utf8_ascii: "\<forall>c \<in> set s. (of_char c :: nat) < 128 \<Longrightarrow> utf8_encode s = s"
  by (induction s) (auto simp: utf8_encode_def utf8_char_def)

lemma json_dumps_int: "ser_dumps (JSONSerializer None) (CInt i) = Inr (show_int i)"
proof -
  have "\<forall>c \<in> set (show_int i). (of_char c :: nat) < 128"
    by (auto simp: show_int_def is_digit_def Let_def dest!: show_nat_digits split: if_splits)
  then show ?thesis by (simp add: JSONSerializer_def json_dumps_bytes_def utf8_ascii)
qed

text \<open>A value that \<open>set\<close> stored is what \<open>get\<close> returns, other keys read as before, and
  the entry expires after the requested ttl: the explicit \<open>ttl\<close> or the default when it is
  positive, never when it is zero or negative, so an explicit 0 is not replaced by the default.\<close>

theorem redis_set_then_get:
  assumes "redis_store R view up globs" "faithful_serializer S good" "up s" "good v"
    and b: "b = RedisCacheBackend R ns dttl (Some S)"
  shows "\<exists>t. rb_set b k v ttl s = (Inr (), t) \<and> up t \<and> rb_get b k t = (Inr v, t)
    \<and> (\<forall>k'. k' \<noteq> k \<longrightarrow> rb_get b k' t = (fst (rb_get b k' s), t))
    \<and> map_option snd (view t (rb_key b k))
        = Some (case ttl of None \<Rightarrow> if dttl > 0 then Some dttl else None
                | Some n \<Rightarrow> if n > 0 then Some n else None)"
proof -
  note rc = redis_cacheI [OF assms(1,2)]
  obtain d where d: "ser_dumps S v = Inr d" "ser_loads S d = Inr v"
    using faithful_serializer.good_cases [OF assms(2,4)] .
  obtain t where t: "rb_set b k v ttl s = (Inr (), t)" "up t"
    "view t = (view s)(rb_key b k \<mapsto>
        (d, if effective_ttl b ttl > 0 then Some (effective_ttl b ttl) else None))"
    using redis_cache.rb_set_up [OF rc assms(3) d(1), of ns dttl k ttl] b by blast
  have get: "up u \<Longrightarrow> rb_get b x u
      = ((case rb_content b view u x of None \<Rightarrow> Inr CNull | Some r \<Rightarrow> r), u)" for u x
    using redis_cache.rb_get_up [OF rc] b by simp
  have "rb_serializer b = S" "rb_default_ttl b = dttl" using b by simp_all
  then show ?thesis
    using t d assms(3) by (intro exI [of _ t])
      (auto simp: get rb_content_def effective_ttl_def split: option.split)
qed

theorem redis_set_then_get_witness:
  "\<exists>t. rb_set (RedisCacheBackend mem_redis ''ns'' 300 (Some (JSONSerializer None))) ''k'' (CInt 7) (Some 0)
        mem_empty = (Inr (), t) \<and> m_reachable t
    \<and> rb_get (RedisCacheBackend mem_redis ''ns'' 300 (Some (JSONSerializer None))) ''k'' t = (Inr (CInt 7), t)
    \<and> map_option snd (mem_view t (rb_key (RedisCacheBackend mem_redis ''ns'' 300
          (Some (JSONSerializer None))) ''k'')) = Some None"
  using redis_set_then_get [OF mem_json, of mem_empty "CInt 7" _ "''ns''" 300 "''k''" "Some 0"]
  by (auto simp: mem_empty_def)




definition mem_two :: memory where
  "mem_two = mem_empty\<lparr>m_entries := [(''a:x'', ''1'', None), (''b:x'', ''2'', None)]\<rparr>"


text \<open>A namespace with a pattern character is not protected: \<open>flush\<close> of the namespace \<open>a*\<close> also
  removes the entries of the namespace \<open>ab\<close>.\<close>

lemma flush_ignores_pattern_characters:
  "mem_view (snd (rb_flush (RedisCacheBackend mem_redis ''a*'' 300 (Some (JSONSerializer None)))
      (mem_empty\<lparr>m_entries := [(''ab:x'', ''1'', None)]\<rparr>))) ''ab:x'' = None"
  by code_simp



text \<open>A counter that was stored as a JSON integer can be incremented by the server: \<open>incr\<close> returns
  the sum, a later \<open>get\<close> reads it, and the expiry the value was stored with is kept.\<close>

theorem redis_incr_after_set:
  assumes "redis_store R view up globs" "up s" "int64 i" "int64 (i + n)"
    and b: "b = RedisCacheBackend R ns dttl None"
  shows "\<exists>t u. rb_set b k (CInt i) ttl s = (Inr (), t) \<and> rb_incr b k n t = (Inr (i + n), u)
    \<and> rb_get b k u = (Inr (CInt (i + n)), u)
    \<and> map_option snd (view u (rb_key b k)) = map_option snd (view t (rb_key b k))"
proof -
  have rc: "redis_cache R view up globs (JSONSerializer None) wf_json"
    using redis_cacheI [OF assms(1) mem_json(2)] .
  have b': "b = RedisCacheBackend R ns dttl (Some (JSONSerializer None))"
    using b by (simp add: RedisCacheBackend_def)
  have reads: "serial_try (ser_loads (JSONSerializer None) (show_int j)) = Inr (CInt j)" for j
    using json_dumps_int [of j] json.dumps_good [of "CInt j" None] by auto
  show ?thesis
    using redis_cache.counter [OF rc assms(2) json_dumps_int assms(3,4), of ns dttl k ttl]
      redis_cache.rb_get_up [OF rc, of _ ns dttl k]
    unfolding b' by (fastforce simp: reads)
qed

theorem redis_incr_after_set_witness:
  "\<exists>t u. rb_set (RedisCacheBackend mem_redis ''n'' 300 None) ''hits'' (CInt 41) (Some 60) mem_empty = (Inr (), t)
    \<and> rb_incr (RedisCacheBackend mem_redis ''n'' 300 None) ''hits'' 1 t = (Inr 42, u)
    \<and> rb_get (RedisCacheBackend mem_redis ''n'' 300 None) ''hits'' u = (Inr (CInt 42), u)"
  using redis_incr_after_set [OF mem_json(1), of mem_empty 41 1 _ "''n''" 300 "''hits''" "Some 60"]
  by (auto simp: mem_empty_def int64_def)

end
