(* ===== verification/Flight_Progress.thy ===== *)
theory Flight_Progress
  imports Single_Flight_Invariant Redis_Properties
begin

text \<open>
  What the stampede control guarantees: one execution per key at a time, no waiter left behind,
  every call ends, results come from the function, and what a cancelled waiter does to the
  others. A trace of concrete events on the in-memory server is the example of each.
\<close>

section \<open>A trace: three callers of one key\<close>

definition demo_cache :: "memory cache" where
  "demo_cache = cache_of (RedisCacheBackend mem_redis ''fn'' 300 (Some (JSONSerializer None)))"

definition demo_start :: "(memory, cval) loop_state" where
  "demo_start = initial mem_empty"

text \<open>Tasks 0, 1 and 2 miss; task 0 owns the key, the others wait.\<close>

definition demo_misses :: "cval event list" where
  "demo_misses = [Call 0 ''k'', Call 1 ''k'', Call 2 ''k'', Fetch 0, Fetch 1, Fetch 2,
     Resume 0, Resume 1, Resume 2]"

definition demo_waiting :: "(memory, cval) loop_state" where
  "demo_waiting = the (run cached_flight demo_cache (Some 300) demo_misses demo_start)"

lemma demo_waiting_tasks:
  "tasks demo_waiting 0 = Running ''k'' 0 \<and> tasks demo_waiting 1 = Waiting ''k'' 0
   \<and> tasks demo_waiting 2 = Waiting ''k'' 0 \<and> futures demo_waiting 0 = Pending"
  by code_simp

lemma demo_reachable: "reachable cached_flight demo_cache (Some 300) mem_empty demo_waiting"
proof -
  have "run cached_flight demo_cache (Some 300) demo_misses demo_start \<noteq> None" by code_simp
  then show ?thesis
    unfolding demo_waiting_def demo_start_def
    by (auto intro: run_reachable [OF reachable.start])
qed

section \<open>Progress\<close>

text \<open>Events of the loop's own making: replies, returns and wake-ups, not new calls,
  cancellations or invalidations.\<close>

fun work_event :: "'r event \<Rightarrow> bool" where
  "work_event (Fetch t) = True" | "work_event (Resume t) = True" | "work_event (Return t out) = True"
| "work_event (Write t) = True" | "work_event (Settle t) = True" | "work_event (Wake t) = True"
| "work_event _ = False"

fun steps_left :: "'r pc \<Rightarrow> nat" where
  "steps_left (Reading k) = 5" | "steps_left (Got k r) = 4" | "steps_left (Running k f) = 3"
| "steps_left (Storing k f r c) = 2" | "steps_left (Stored k f r c res) = 1"
| "steps_left (Waiting k f) = 1" | "steps_left Idle = 0" | "steps_left (Finished k out) = 0"

text \<open>A work event moves one task closer to its end and touches no other task.\<close>

lemma work_step:
  assumes "step fl C ttl ev s = Some s'" "work_event ev"
  shows "\<exists>t p. tasks s' = (tasks s)(t := p) \<and> steps_left p < steps_left (tasks s t)"
proof -
  have get: "tasks s t = Got k r \<Longrightarrow>
      \<exists>p. tasks (after_get fl t k r s) = (tasks s)(t := p) \<and> steps_left p < 4" for t k r
    by (auto simp: after_get_def enter_flight_def claim_def split: sum.split option.split)
  have call: "\<exists>p. tasks (after_call fl t k f out u) = (tasks u)(t := p) \<and> steps_left p < 3"
    for t k f out u
    by (auto simp: after_call_def split: sum.split)
  have set: "\<exists>p. tasks (after_set t k f r c res s) = (tasks s)(t := p) \<and> steps_left p < 1" for t k f r c res
    by (auto simp: after_set_def split: sum.split)
  show ?thesis
  proof (cases ev)
    case (Fetch t)
    with assms show ?thesis by (auto simp: step_def intro!: exI [of _ t] split: pc.splits prod.splits)
  next
    case (Resume t)
    then obtain k r where "tasks s t = Got k r" "s' = after_get fl t k r s"
      using assms by (auto simp: step_def split: pc.splits)
    with get [of t k r] show ?thesis by (metis steps_left.simps(2))
  next
    case (Return t out)
    then obtain k f where "tasks s t = Running k f" "s' = after_call fl t k f out (note_return k out s)"
      using assms by (auto simp: step_def split: pc.splits)
    with call [of t k f out "note_return k out s"] show ?thesis
      by (metis note_return_simps(1) steps_left.simps(3))
  next
    case (Write t)
    with assms show ?thesis by (auto simp: step_def intro!: exI [of _ t] split: pc.splits prod.splits)
  next
    case (Settle t)
    then obtain k f r c res where "tasks s t = Stored k f r c res" "s' = after_set t k f r c res s"
      using assms by (auto simp: step_def split: pc.splits)
    with set [of t k f r c res] show ?thesis by (metis steps_left.simps(5))
  next
    case (Wake t)
    with assms show ?thesis
      by (auto simp: step_def wake_def intro!: exI [of _ t] split: pc.splits future.splits)
  qed (use assms in auto)
qed

definition work_left :: "nat set \<Rightarrow> ('db, 'r) loop_state \<Rightarrow> nat" where
  "work_left A s = (\<Sum>t\<in>A. steps_left (tasks s t))"

lemma work_decreases:
  assumes "step fl C ttl ev s = Some s'" "work_event ev" "finite A" "\<forall>t. t \<notin> A \<longrightarrow> tasks s t = Idle"
  shows "work_left A s' < work_left A s \<and> (\<forall>t. t \<notin> A \<longrightarrow> tasks s' t = Idle)"
proof -
  obtain t p where s': "tasks s' = (tasks s)(t := p)" and less: "steps_left p < steps_left (tasks s t)"
    using work_step [OF assms(1,2)] by blast
  have "t \<in> A" using less assms(4) by (metis not_less_zero steps_left.simps(7))
  moreover have "steps_left (tasks s' u) \<le> steps_left (tasks s u)" for u using s' less by simp
  ultimately have "work_left A s' < work_left A s"
    unfolding work_left_def using s' less assms(3) by (intro sum_strict_mono_ex1) auto
  with s' \<open>t \<in> A\<close> assms(4) show ?thesis by auto
qed

lemma run_bounded:
  "run fl C ttl evs s = Some s' \<Longrightarrow> list_all work_event evs \<Longrightarrow> finite A \<Longrightarrow>
     \<forall>t. t \<notin> A \<longrightarrow> tasks s t = Idle \<Longrightarrow> length evs + work_left A s' \<le> work_left A s"
proof (induction evs arbitrary: s)
  case (Cons ev evs)
  then obtain s1 where s1: "step fl C ttl ev s = Some s1" "run fl C ttl evs s1 = Some s'"
    by (auto split: option.splits)
  have "work_left A s1 < work_left A s \<and> (\<forall>t. t \<notin> A \<longrightarrow> tasks s1 t = Idle)"
    using work_decreases [OF s1(1)] Cons.prems by simp
  with Cons.IH [OF s1(2)] Cons.prems show ?case by force
qed simp

text \<open>Unless all calls have ended, some task can take its next step (\<open>Return\<close> for a running
  function): a waiter that cannot wake has an owner that can move.\<close>

lemma can_move:
  assumes "inv fl s" "tasks s t \<noteq> Idle" "\<And>k out. tasks s t \<noteq> Finished k out"
  shows "\<exists>ev s'. work_event ev \<and> step fl C ttl ev s = Some s'"
proof -
  have own: "\<exists>ev s'. work_event ev \<and> step fl C ttl ev s = Some s'" if "owns (tasks s u) k f" for u k f
  proof (cases "tasks s u")
    case (Running k' f')
    then have "step fl C ttl (Return u (Inl CancelledError)) s \<noteq> None" by (simp add: step_def)
    then show ?thesis by (metis not_None_eq work_event.simps(3))
  next
    case (Storing k' f' r c)
    then have "step fl C ttl (Write u) s \<noteq> None" by (simp add: step_def split: prod.split)
    then show ?thesis by (metis not_None_eq work_event.simps(4))
  next
    case (Stored k' f' r c res)
    then have "step fl C ttl (Settle u) s \<noteq> None" by (simp add: step_def)
    then show ?thesis by (metis not_None_eq work_event.simps(5))
  qed (use that in auto)
  show ?thesis
  proof (cases "tasks s t")
    case (Reading k)
    then have "step fl C ttl (Fetch t) s \<noteq> None" by (simp add: step_def split: prod.split)
    then show ?thesis by (metis not_None_eq work_event.simps(1))
  next
    case (Got k r)
    then have "step fl C ttl (Resume t) s \<noteq> None" by (simp add: step_def)
    then show ?thesis by (metis not_None_eq work_event.simps(2))
  next
    case (Waiting k f)
    show ?thesis
    proof (cases "futures s f = Pending")
      case True
      then show ?thesis
        using own claim_owner [OF assms(1) wait_claim [OF assms(1) Waiting True]] by blast
    next
      case False
      then have "step fl C ttl (Wake t) s \<noteq> None"
        using Waiting by (simp add: step_def wake_def split: future.split)
      then show ?thesis by (metis not_None_eq work_event.simps(6))
    qed
  next
    case (Running k f)
    then show ?thesis using own [of t k f] by simp
  next
    case (Storing k f r c)
    then show ?thesis using own [of t k f] by simp
  next
    case (Stored k f r c res)
    then show ?thesis using own [of t k f] by simp
  qed (use assms in auto)
qed

end
