(* ===== verification/Flight_Results.thy ===== *)
theory Flight_Results
  imports Flight_Progress
begin

text \<open>
  Where the results of a cached call come from: over any backend that keeps the contract
  \<open>cache_backend\<close>, a call that returns gives a value the function returned for the same key.
\<close>

definition known :: "(string \<times> cval) list \<Rightarrow> string \<Rightarrow> cval \<Rightarrow> bool" where
  "known R k v = ((k, v) \<in> set R)"

fun pc_known :: "(cval \<Rightarrow> bool) \<Rightarrow> (string \<times> cval) list \<Rightarrow> cval pc \<Rightarrow> bool" where
  "pc_known good R (Got k r) = (case r of Inl e \<Rightarrow> False | Inr v \<Rightarrow> v = CNull \<or> known R k v)"
| "pc_known good R (Storing k f r c) = (r = c \<and> good r \<and> known R k r)"
| "pc_known good R (Stored k f r c res) = (r = c \<and> known R k r)"
| "pc_known good R (Finished k out) = (case out of Inl e \<Rightarrow> True | Inr v \<Rightarrow> known R k v)"
| "pc_known good R _ = True"

definition returns_good :: "(cval \<Rightarrow> bool) \<Rightarrow> cval event \<Rightarrow> bool" where
  "returns_good good ev = (case ev of Return t (Inr v) \<Rightarrow> good v | _ \<Rightarrow> True)"

definition results_inv ::
  "('db \<Rightarrow> string \<Rightarrow> (exc + cval) option) \<Rightarrow> ('db \<Rightarrow> bool) \<Rightarrow> (cval \<Rightarrow> bool) \<Rightarrow> ('db, cval) loop_state \<Rightarrow> bool" where
  "results_inv content up good s \<longleftrightarrow>
     up (world s)
   \<and> (\<forall>k r. content (world s) k = Some r \<longrightarrow> (\<exists>v. r = Inr v \<and> known (returned s) k v))
   \<and> (\<forall>t. pc_known good (returned s) (tasks s t))
   \<and> (\<forall>k f v. (k, f, Inr v) \<in> set (produced s) \<longrightarrow> known (returned s) k v)"

lemma known_Cons: "known R k v \<Longrightarrow> known (p # R) k v"
  by (simp add: known_def)

lemma pc_known_Cons: "pc_known good R p \<Longrightarrow> pc_known good (x # R) p"
  by (cases p) (auto simp: known_Cons split: sum.splits)

lemma publish_cached [simp]: "fl_publish cached_flight = Inr" "fl_hit cached_flight = Inr"
  "fl_wait cached_flight = (\<lambda>v. v)" "fl_stores cached_flight = (\<lambda>v. v \<noteq> CNull)"
  by (simp_all add: cached_flight_def)

context cache_backend begin

abbreviation ok where
  "ok \<equiv> results_inv content up good"

lemma okD:
  assumes "ok s"
  shows "up (world s)"
    and "content (world s) k = Some r \<Longrightarrow> \<exists>v. r = Inr v \<and> known (returned s) k v"
    and "pc_known good (returned s) (tasks s t)"
    and "(k, f, Inr v) \<in> set (produced s) \<Longrightarrow> known (returned s) k v"
  using assms unfolding results_inv_def by blast+

lemma returned_goto [simp]: "returned (goto t p s) = returned s"
  by (simp add: goto_def)

lemma ok_goto: "ok s \<Longrightarrow> pc_known good (returned s) p \<Longrightarrow> ok (goto t p s)"
  by (simp add: results_inv_def)

lemma ok_bookkeeping:
  "ok (s\<lparr>futures := F\<rparr>) = ok s" "ok (s\<lparr>claimed := cl, futures := F, fresh := n\<rparr>) = ok s"
  by (simp_all add: results_inv_def)

lemma ok_finish:
  assumes "ok s" "\<And>r c. out = Inr (r, c) \<Longrightarrow> known (returned s) k r"
  shows "ok (finish t k f out s)"
proof -
  have "returned (finish t k f out s) = returned s" by (simp add: finish_def goto_def)
  moreover have "map_sum id fst out = Inr x \<Longrightarrow> known (returned s) k x" for x
    using assms(2) by (cases out) auto
  ultimately show ?thesis
    using assms(1) unfolding results_inv_def by (auto split: sum.splits)
qed

lemma ok_enter: "ok s \<Longrightarrow> ok (enter_flight t k s)"
  by (auto simp: enter_flight_def claim_def ok_bookkeeping intro!: ok_goto split: option.split)

lemma ok_after_get:
  "ok s \<Longrightarrow> pc_known good (returned s) (Got k r) \<Longrightarrow> ok (after_get cached_flight t k r s)"
  by (auto simp: after_get_def intro: ok_enter ok_goto split: sum.split option.split if_splits)

lemma ok_note: "ok s \<Longrightarrow> ok (note_return k out s)"
  by (auto simp: note_return_def results_inv_def known_Cons pc_known_Cons split: sum.split)
     (metis known_Cons)

lemma ok_after_call:
  assumes "ok s" "\<And>v. out = Inr v \<Longrightarrow> good v"
  shows "ok (after_call cached_flight t k f out (note_return k out s))"
proof (cases out)
  case (Inl e)
  then show ?thesis using ok_finish [OF assms(1), of "Inl e"] by (simp add: after_call_def note_return_def)
next
  case (Inr v)
  then have "known (returned (note_return k out s)) k v" by (simp add: note_return_def known_def)
  then show ?thesis
    using ok_note [OF assms(1), of k out] assms(2) Inr
    by (auto simp: after_call_def intro!: ok_finish ok_goto)
qed

lemma ok_world:
  assumes "ok s" "up w"
    and "\<And>k r. content w k = Some r \<Longrightarrow> content (world s) k = Some r \<or> (\<exists>v. r = Inr v \<and> known (returned s) k v)"
  shows "ok (s\<lparr>world := w\<rparr>)"
proof -
  have "\<exists>v. r = Inr v \<and> known (returned s) k v" if "content w k = Some r" for k r
    using assms(3) [OF that] okD(2) [OF assms(1)] by blast
  then show ?thesis using assms(1,2) by (simp add: results_inv_def)
qed

lemma ok_cancel: "ok s \<Longrightarrow> cancel t s = Some s' \<Longrightarrow> ok s'"
  by (cases "tasks s t")
     (auto simp: cancel_def ok_bookkeeping intro!: ok_goto ok_finish split: if_splits)

lemma ok_step:
  assumes "ok s" "inv cached_flight s" "step cached_flight C ttl ev s = Some s'" "returns_good good ev"
  shows "ok s'"
proof (cases ev)
  case (Call t k)
  with assms show ?thesis by (auto simp: step_def intro: ok_goto split: pc.splits)
next
  case (Fetch t)
  then obtain k where t: "tasks s t = Reading k" using assms by (auto simp: step_def split: pc.splits)
  have "pc_known good (returned s) (Got k (case content (world s) k of None \<Rightarrow> Inr CNull | Some r \<Rightarrow> r))"
    using okD(2) [OF assms(1), of k] by (auto split: option.split)
  then show ?thesis
    using assms(1,3) Fetch t okD(1) [OF assms(1)] by (auto simp: step_def get_ok intro!: ok_goto)
next
  case (Resume t)
  then show ?thesis
    using assms okD(3) [OF assms(1), of t] by (auto simp: step_def intro!: ok_after_get split: pc.splits)
next
  case (Return t out)
  then show ?thesis
    using assms by (auto simp: step_def returns_good_def intro!: ok_after_call split: pc.splits sum.splits)
next
  case (Write t)
  then obtain k f r c where t: "tasks s t = Storing k f r c"
    using assms by (auto simp: step_def split: pc.splits)
  then have c: "r = c" "good r" "known (returned s) k r" using okD(3) [OF assms(1), of t] by auto
  obtain w where w: "c_set C k c ttl (world s) = (Inr (), w)" "up w"
    "content w = (content (world s))(k \<mapsto> Inr c)"
    using set_ok [OF okD(1) [OF assms(1)]] c by blast
  have "ok (s\<lparr>world := w\<rparr>)"
    using c w by (intro ok_world [OF assms(1)]) (auto split: if_splits)
  then show ?thesis using assms(3) Write t w c by (auto simp: step_def intro!: ok_goto)
next
  case (Settle t)
  then show ?thesis
    using assms okD(3) [OF assms(1), of t]
    by (auto simp: step_def after_set_def intro!: ok_finish split: pc.splits sum.splits)
next
  case (Wake t)
  then obtain k f where t: "tasks s t = Waiting k f" "wake cached_flight t k f s = Some s'"
    using assms by (auto simp: step_def split: pc.splits)
  have "known (returned s) k c" if "futures s f = Resolved c" for c
    using wait_explained [OF assms(2) t(1)] that okD(4) [OF assms(1)] by (auto simp: explains_def)
  with t assms(1) show ?thesis by (auto simp: wake_def intro!: ok_goto split: future.splits)
next
  case (Cancel t)
  with assms show ?thesis by (auto simp: step_def intro: ok_cancel)
next
  case (Invalidate k)
  obtain w where w: "c_delete C k (world s) = (Inr (content (world s) k \<noteq> None), w)" "up w"
    "content w = (content (world s))(k := None)"
    using delete_ok [OF okD(1) [OF assms(1)]] by blast
  have "ok (s\<lparr>world := w\<rparr>)" using w by (intro ok_world [OF assms(1)]) (auto split: if_splits)
  then show ?thesis using assms(3) Invalidate w by (simp add: step_def)
qed

lemma ok_run:
  "run cached_flight C ttl evs s = Some s' \<Longrightarrow> list_all (returns_good good) evs \<Longrightarrow> ok s
     \<Longrightarrow> inv cached_flight s \<Longrightarrow> ok s'"
  by (induction evs arbitrary: s) (auto split: option.splits intro: ok_step inv_step)

lemma ok_initial: "up db \<Longrightarrow> (\<And>k. content db k = None) \<Longrightarrow> ok (initial db)"
  by (simp add: results_inv_def initial_def)

lemma finished_known:
  assumes "run cached_flight C ttl evs (initial db) = Some s" "list_all (returns_good good) evs"
    "up db" "\<And>k. content db k = None" "tasks s t = Finished k (Inr v)"
  shows "(k, v) \<in> set (returned s)"
  using okD(3) [OF ok_run [OF assms(1,2) ok_initial [OF assms(3,4)] inv_initial], of t] assms(5)
  by (simp add: known_def)

end

section \<open>Properties\<close>

lemma demo_contract: "cache_backend demo_cache
    (rb_content (RedisCacheBackend mem_redis ''fn'' 300 (Some (JSONSerializer None))) mem_view)
    m_reachable wf_json"
  unfolding demo_cache_def by (rule mem_cache.contract)

text \<open>C1: Single flight: in every interleaving of any number of calls, cancellations and
  invalidations, at most one task at a time executes the function for a key, and while a task
  waits on an unsettled future there is exactly one owner of its key that will settle it.\<close>

theorem single_flight_one_owner:
  assumes "reachable fl C ttl db s"
  shows "(\<forall>t u k f g. owns (tasks s t) k f \<longrightarrow> owns (tasks s u) k g \<longrightarrow> t = u \<and> f = g)
    \<and> (\<forall>t k f. tasks s t = Waiting k f \<longrightarrow> futures s f = Pending \<longrightarrow> (\<exists>!u. owns (tasks s u) k f))"
proof -
  note D = invD [OF reachable_inv [OF assms]]
  have one: "t = u \<and> f = g" if "owns (tasks s t) k f" "owns (tasks s u) k g" for t u k f g
    using D(1) [OF that(1)] D(1) [OF that(2)] D(4) [of t k f u k] that by auto
  moreover have "\<exists>!u. owns (tasks s u) k f" if "tasks s t = Waiting k f" "futures s f = Pending" for t k f
    using D(3) [OF D(7) [OF that]] one by blast
  ultimately show ?thesis by blast
qed

theorem single_flight_one_owner_witness:
  "tasks demo_waiting 1 = Waiting ''k'' 0 \<and> (\<exists>!u. owns (tasks demo_waiting u) ''k'' 0)"
  using single_flight_one_owner [OF demo_reachable] demo_waiting_tasks by blast

text \<open>C2: Every call ends: with finitely many calls, the loop performs at most five steps per call
  without a new call or cancellation, and as long as some call has not finished, a step is
  possible; no waiter is left behind.\<close>

theorem single_flight_all_calls_end:
  assumes "reachable fl C ttl db s" "finite A" "\<forall>t. t \<notin> A \<longrightarrow> tasks s t = Idle"
  shows "(\<forall>evs s'. run fl C ttl evs s = Some s' \<longrightarrow> list_all work_event evs \<longrightarrow> length evs \<le> 5 * card A)
    \<and> ((\<forall>ev. work_event ev \<longrightarrow> step fl C ttl ev s = None) \<longrightarrow>
         (\<forall>t. tasks s t = Idle \<or> (\<exists>k out. tasks s t = Finished k out)))"
proof -
  have "steps_left p \<le> 5" for p :: "'a pc" by (cases p) auto
  then have "work_left A s \<le> 5 * card A"
    unfolding work_left_def using sum_bounded_above [of A "\<lambda>t. steps_left (tasks s t)" 5] by simp
  then have "length evs \<le> 5 * card A" if "run fl C ttl evs s = Some s'" "list_all work_event evs" for evs s'
    using run_bounded [OF that assms(2,3)] by linarith
  moreover have "tasks s t = Idle \<or> (\<exists>k out. tasks s t = Finished k out)"
    if "\<forall>ev. work_event ev \<longrightarrow> step fl C ttl ev s = None" for t
    using can_move [OF reachable_inv [OF assms(1)], of t C ttl] that by fastforce
  ultimately show ?thesis by blast
qed

lemma demo_idle: "\<forall>t. t \<notin> {0, 1, 2} \<longrightarrow> tasks demo_waiting t = Idle"
proof -
  have "\<exists>s. run cached_flight demo_cache (Some 300) demo_misses demo_start = Some s
      \<and> tasks s = (\<lambda>_. Idle)(0 := tasks s 0, 1 := tasks s 1, 2 := tasks s 2)"
    by (simp add: demo_misses_def demo_start_def initial_def step_def demo_cache_def cache_of_def
        rb_get_def redis_try_def mem_redis_def mem_call_def mem_empty_def mem_view_def
        RedisCacheBackend_def act_defs after_get_def enter_flight_def claim_def goto_def
        Let_def fun_eq_iff)
  then show ?thesis unfolding demo_waiting_def by (auto simp: fun_eq_iff split: if_splits)
qed

definition demo_rest :: "cval event list" where
  "demo_rest = [Return 0 (Inr (CInt 7)), Write 0, Settle 0, Wake 2, Wake 1]"

theorem single_flight_all_calls_end_witness:
  "length demo_rest \<le> 5 * card {0, 1, 2 :: nat}"
proof -
  obtain s' where "run cached_flight demo_cache (Some 300) demo_rest demo_waiting = Some s'"
  proof -
    have "run cached_flight demo_cache (Some 300) demo_rest demo_waiting \<noteq> None" by code_simp
    then show ?thesis using that by blast
  qed
  moreover have "list_all work_event demo_rest" by (simp add: demo_rest_def)
  ultimately show ?thesis
    using single_flight_all_calls_end [OF demo_reachable, of "{0, 1, 2}"] demo_idle by blast
qed


definition demo_hit :: "cval event list" where
  "demo_hit = [Call 0 ''k'', Fetch 0, Resume 0, Return 0 (Inr (CInt 7)), Write 0, Settle 0,
     Call 1 ''k'', Fetch 1, Resume 1]"

definition demo_hit_state :: "(memory, cval) loop_state" where
  "demo_hit_state = the (run cached_flight demo_cache (Some 300) demo_hit demo_start)"


text \<open>Waiters get what the owner produced: a waiter that wakes finishes with a value an owner of
  its key published, with the exception an owner of its key raised, or with
  \<open>CancelledError\<close> when the future was cancelled.\<close>

theorem waiter_gets_owner_outcome:
  assumes "reachable fl C ttl db s" "tasks s t = Waiting k f" "step fl C ttl (Wake t) s = Some s'"
  shows "(\<exists>r c. tasks s' t = Finished k (Inr (fl_wait fl c)) \<and> (k, f, Inr r) \<in> set (produced s)
            \<and> fl_publish fl r = Inr c)
    \<or> (\<exists>e. tasks s' t = Finished k (Inl e) \<and> (k, f, Inl e) \<in> set (produced s))
    \<or> (tasks s' t = Finished k (Inl CancelledError) \<and> futures s f = CancelledFuture)"
  using assms(3) wait_explained [OF reachable_inv [OF assms(1)] assms(2)]
  by (auto simp: step_def assms(2) wake_def explains_def split: future.splits)

definition demo_settled :: "(memory, cval) loop_state" where
  "demo_settled = the (run cached_flight demo_cache (Some 300)
     [Return 0 (Inr (CInt 7)), Write 0, Settle 0] demo_waiting)"

theorem waiter_gets_owner_outcome_witness:
  "\<exists>r. tasks (the (step cached_flight demo_cache (Some 300) (Wake 1) demo_settled)) 1 = Finished ''k'' (Inr r)
     \<and> (''k'', 0, Inr r) \<in> set (produced demo_settled)"
proof -
  have run: "run cached_flight demo_cache (Some 300) [Return 0 (Inr (CInt 7)), Write 0, Settle 0] demo_waiting
      = Some demo_settled"
    unfolding demo_settled_def by (rule option.collapse [symmetric]) code_simp
  have w: "tasks demo_settled 1 = Waiting ''k'' 0" "futures demo_settled 0 = Resolved (CInt 7)" by code_simp+
  have "step cached_flight demo_cache (Some 300) (Wake 1) demo_settled
      = Some (the (step cached_flight demo_cache (Some 300) (Wake 1) demo_settled))"
    using w by (simp add: step_def wake_def)
  from waiter_gets_owner_outcome [OF run_reachable [OF demo_reachable run] w(1) this] w
  show ?thesis by (auto simp: step_def wake_def)
qed

lemma settled_stable:
  assumes "step fl C ttl ev s = Some s'" "futures s f \<noteq> Pending" "f < fresh s"
  shows "futures s' f = futures s f \<and> f < fresh s'"
proof -
  have enter: "futures (enter_flight t k s) f = futures s f \<and> f < fresh (enter_flight t k s)" for t k
    using assms(3) by (auto simp: enter_flight_def claim_def split: option.split)
  have fin: "futures (finish t k g out s) f = futures s f" for t k g out
    using assms(2) by (auto simp: future_done_def)
  have fin': "futures (finish t k g out (note_return k o' s)) f = futures s f" for t k g out o'
    using assms(2) by (auto simp: future_done_def)
  show ?thesis
  proof (cases ev)
    case (Resume t)
    with assms enter show ?thesis by (auto simp: step_def after_get_def split: pc.splits sum.splits option.splits if_splits)
  next
    case (Return t out)
    with assms fin' show ?thesis by (auto simp: step_def after_call_def split: pc.splits sum.splits if_splits)
  next
    case (Settle t)
    with assms fin show ?thesis by (auto simp: step_def after_set_def split: pc.splits sum.splits if_splits)
  next
    case (Cancel t)
    with assms fin show ?thesis
      by (cases "tasks s t") (auto simp: step_def cancel_def future_done_def split: if_splits)
  qed (use assms in \<open>auto simp: step_def wake_def split: pc.splits prod.splits future.splits\<close>)
qed

lemma settled_run:
  "run fl C ttl evs s = Some s' \<Longrightarrow> futures s f \<noteq> Pending \<Longrightarrow> f < fresh s \<Longrightarrow> futures s' f = futures s f"
proof (induction evs arbitrary: s)
  case (Cons ev evs)
  then obtain s1 where s1: "step fl C ttl ev s = Some s1" "run fl C ttl evs s1 = Some s'"
    by (auto split: option.splits)
  with settled_stable [OF s1(1) Cons.prems(2,3)] Cons show ?case by metis
qed simp

text \<open>A cancelled waiter cancels its peers: cancelling one task that awaits the shared future
  cancels the future for good, and whatever happens next, also when the owner returns a value,
  every other task still waiting on it finishes with \<open>CancelledError\<close>, although nobody cancelled
  that task.\<close>

theorem cancelled_waiter_cancels_peers:
  assumes "reachable fl C ttl db s" "tasks s t = Waiting k f" "futures s f = Pending"
  shows "\<exists>s1. step fl C ttl (Cancel t) s = Some s1
    \<and> (\<forall>evs s2 u. run fl C ttl evs s1 = Some s2 \<longrightarrow> tasks s2 u = Waiting k f \<longrightarrow>
         (\<exists>s3. step fl C ttl (Wake u) s2 = Some s3 \<and> tasks s3 u = Finished k (Inl CancelledError)))"
proof -
  let ?s1 = "s\<lparr>futures := (futures s)(f := CancelledFuture)\<rparr>"
  have "step fl C ttl (Cancel t) s = Some ?s1"
    using assms by (simp add: step_def cancel_def future_done_def)
  moreover have "futures s2 f = CancelledFuture" if "run fl C ttl evs ?s1 = Some s2" for evs s2
    using settled_run [OF that, of f] wait_fresh [OF reachable_inv [OF assms(1)] assms(2)] by simp
  ultimately show ?thesis by (fastforce simp: step_def wake_def)
qed

theorem cancelled_waiter_cancels_peers_witness:
  "\<exists>s1. step cached_flight demo_cache (Some 300) (Cancel 1) demo_waiting = Some s1
    \<and> (\<forall>s2. run cached_flight demo_cache (Some 300) [Return 0 (Inr (CInt 7)), Write 0, Settle 0] s1 = Some s2 \<longrightarrow>
         tasks s2 2 = Waiting ''k'' 0 \<longrightarrow>
         (\<exists>s3. step cached_flight demo_cache (Some 300) (Wake 2) s2 = Some s3
            \<and> tasks s3 2 = Finished ''k'' (Inl CancelledError)))"
  using cancelled_waiter_cancels_peers [OF demo_reachable, of 1 "''k''" 0] demo_waiting_tasks by blast

end
