(* ===== verification/Cache_Key.thy ===== *)
theory Cache_Key
  imports Exceptions
begin

text \<open>
  The key builders of \<open>cache/base.py\<close>: \<open>CacheKey\<close> (length-prefixed components joined by a
  separator) and \<open>CacheNamespace\<close> (plain components). \<open>hashlib.sha256\<close> is the parameter
  \<open>sha256_hex\<close>, the hexadecimal digest of a text. The theorems show which keys can collide.
\<close>

section \<open>CacheKey\<close>

text \<open>A component as passed to \<open>add\<close>; a float is given by its \<open>repr\<close> text.\<close>

datatype key_arg = KStr string | KInt int | KFloat string

fun py_str :: "key_arg \<Rightarrow> string" where
  "py_str (KStr s) = s"
| "py_str (KInt i) = show_int i"
| "py_str (KFloat r) = r"

record cache_key =
  key_prefix :: string
  key_separator :: string
  key_parts :: "string list"

definition CacheKey :: "string \<Rightarrow> string \<Rightarrow> cache_key" where
  "CacheKey p s = \<lparr>key_prefix = p, key_separator = s, key_parts = []\<rparr>"

definition length_prefixed :: "string \<Rightarrow> string" where
  "length_prefixed v = show_nat (length v) @ '':'' @ v"

definition key_add :: "cache_key \<Rightarrow> key_arg list \<Rightarrow> cache_key" where
  "key_add k ps = k\<lparr>key_parts := key_parts k @ map (\<lambda>p. length_prefixed (py_str p)) ps\<rparr>"

definition key_build :: "cache_key \<Rightarrow> exc + string" where
  "key_build k =
     (let components = (if key_prefix k \<noteq> '''' then length_prefixed (key_prefix k) # key_parts k else key_parts k)
      in if components = [] then Inl CacheKeyError else Inr (join (key_separator k) components))"

fun add_items :: "cache_key \<Rightarrow> (string \<times> string) list \<Rightarrow> cache_key" where
  "add_items k [] = k"
| "add_items k ((n, v) # r) = add_items (key_add k [KStr n, KStr v]) r"

text \<open>The values arrive as \<open>str(v)\<close>.\<close>

definition key_from_dict :: "string \<Rightarrow> (string \<times> string) list \<Rightarrow> cache_key" where
  "key_from_dict p data = add_items (CacheKey p '':'') (sort_items data)"

definition key_hash :: "(string \<Rightarrow> string) \<Rightarrow> string \<Rightarrow> string" where
  "key_hash sha256_hex v = take 16 (sha256_hex v)"

section \<open>CacheNamespace\<close>

record cache_namespace =
  ns_name :: string
  ns_separator :: string

definition namespace_key :: "cache_namespace \<Rightarrow> key_arg list \<Rightarrow> string" where
  "namespace_key n ps = join (ns_separator n) (ns_name n # map py_str ps)"

definition namespace_pattern :: "cache_namespace \<Rightarrow> key_arg list \<Rightarrow> string" where
  "namespace_pattern n ps = join (ns_separator n) (ns_name n # map py_str ps @ [''*''])"

section \<open>Length prefixes are self-delimiting\<close>

lemma length_prefixed_not_Nil [simp]: "length_prefixed v \<noteq> []" "[] \<noteq> length_prefixed v"
  by (simp_all add: length_prefixed_def)

lemma length_prefixed_append_inj:
  assumes "length_prefixed v @ r = length_prefixed w @ s"
  shows "v = w \<and> r = s"
proof -
  have eq: "show_nat (length v) @ CHR '':'' # v @ r = show_nat (length w) @ CHR '':'' # w @ s"
    using assms by (simp add: length_prefixed_def)
  then have "takeWhile is_digit (show_nat (length v) @ CHR '':'' # v @ r)
           = takeWhile is_digit (show_nat (length w) @ CHR '':'' # w @ s)" by simp
  then have len: "length v = length w" by (simp add: show_nat_inj)
  with eq have "v @ r = w @ s" by simp
  with len show ?thesis by simp
qed

lemma join_length_prefixed_inj:
  "join sep (map length_prefixed xs) = join sep (map length_prefixed ys) \<Longrightarrow> xs = ys"
proof (induction xs arbitrary: ys)
  case Nil
  then show ?case
    by (cases ys; cases "tl ys") (auto simp: join_Cons)
next
  case (Cons x xs)
  show ?case
  proof (cases ys)
    case Nil
    with Cons.prems show ?thesis by (cases xs) auto
  next
    case (Cons y zs)
    let ?t = "\<lambda>l. if l = [] then [] else sep @ join sep (map length_prefixed l)"
    have j: "join sep (map length_prefixed (a # l)) = length_prefixed a @ ?t l" for a l
      by (cases l) auto
    from Cons.prems have "x = y" and t: "?t xs = ?t zs"
      unfolding Cons j by (auto dest: length_prefixed_append_inj)
    have nonempty: "?t (b # l) \<noteq> []" for b l
      by (cases l) auto
    have "xs = zs"
    proof (cases xs)
      case Nil
      with t nonempty show ?thesis by (cases zs) force+
    next
      case (Cons b l)
      with t nonempty have "zs \<noteq> []" by (metis)
      with t Cons have "join sep (map length_prefixed xs) = join sep (map length_prefixed zs)"
        by (simp split: if_splits)
      then show ?thesis by (rule Cons.IH)
    qed
    with \<open>x = y\<close> Cons show ?thesis by simp
  qed
qed

section \<open>The components of a key\<close>

definition key_components :: "string \<Rightarrow> string list \<Rightarrow> string list" where
  "key_components p xs = (if p \<noteq> '''' then p # xs else xs)"

lemma key_build_add:
  "key_build (key_add (CacheKey p s) xs) =
     (if key_components p (map py_str xs) = [] then Inl CacheKeyError
      else Inr (join s (map length_prefixed (key_components p (map py_str xs)))))"
  by (simp add: key_build_def key_add_def CacheKey_def key_components_def o_def)

lemma key_add_add: "key_add (key_add k xs) ys = key_add k (xs @ ys)"
  by (simp add: key_add_def)

lemma key_add_Nil [simp]: "key_add k [] = k"
  by (simp add: key_add_def)

definition item_args :: "(string \<times> string) list \<Rightarrow> key_arg list" where
  "item_args d = concat (map (\<lambda>(n, v). [KStr n, KStr v]) d)"

lemma add_items_eq: "add_items k d = key_add k (item_args d)"
  by (induction k d rule: add_items.induct) (auto simp: key_add_add item_args_def)

lemma item_args_inj: "map py_str (item_args d) = map py_str (item_args e) \<Longrightarrow> d = e"
proof (induction d arbitrary: e)
  case Nil
  then show ?case by (cases e) (auto simp: item_args_def)
next
  case (Cons a d)
  then show ?case by (cases a; cases e) (auto simp: item_args_def)
qed

lemma from_dict_build:
  "p \<noteq> '''' \<Longrightarrow> key_build (key_from_dict p d) =
     Inr (join '':'' (map length_prefixed (p # map py_str (item_args (sort_items d)))))"
  by (simp add: key_from_dict_def add_items_eq key_build_add key_components_def)

section \<open>Properties\<close>

text \<open>C15: Two \<open>CacheKey\<close> builders with the same separator build the same text only when they hold
  the same list of components, even when components contain the separator or look like length
  prefixes; only an empty prefix is dropped from that list.\<close>

theorem cache_key_unambiguous:
  assumes "key_build (key_add (CacheKey p s) xs) = Inr k"
    and "key_build (key_add (CacheKey q s) ys) = Inr k"
  shows "key_components p (map py_str xs) = key_components q (map py_str ys)"
  using assms by (auto simp: key_build_add dest: join_length_prefixed_inj split: if_splits)

theorem cache_key_unambiguous_witness:
  "key_components ''u'' (map py_str [KStr ''1:2'', KInt 3])
     = key_components ''u'' (map py_str [KStr ''1:2'', KStr ''3''])"
  by (rule cache_key_unambiguous [where s = "'':''"])
    (simp_all add: key_build_add key_components_def show_int_def show_nat.simps)

text \<open>\<open>build()\<close> raises \<open>CacheKeyError\<close>, and nothing else, exactly when the prefix is empty and
  no part was added.\<close>

theorem cache_key_build_error:
  "key_build (key_add (CacheKey p s) xs) = Inl e \<longleftrightarrow> p = '''' \<and> xs = [] \<and> e = CacheKeyError"
  by (auto simp: key_build_add key_components_def)

text \<open>\<open>CacheKey.from_dict\<close> is a faithful, order-insensitive key of a dict: two dicts with the
  same non-empty prefix get the same key exactly when they have the same entries.\<close>

theorem key_from_dict_faithful:
  assumes "p \<noteq> ''''" and "distinct (map fst d)" and "distinct (map fst e)"
  shows "key_build (key_from_dict p d) = key_build (key_from_dict p e) \<longleftrightarrow> map_of d = map_of e"
proof -
  have "key_build (key_from_dict p d) = key_build (key_from_dict p e)
      \<longleftrightarrow> sort_items d = sort_items e"
    unfolding from_dict_build [OF assms(1)]
    by (metis item_args_inj join_length_prefixed_inj list.inject sum.inject(2))
  also have "\<dots> \<longleftrightarrow> map_of d = map_of e"
    by (rule sort_items_eq_iff [OF assms(2,3)])
  finally show ?thesis .
qed

theorem key_from_dict_faithful_witness:
  "key_build (key_from_dict ''M'' [(''b'', ''2''), (''a'', ''1'')])
     = key_build (key_from_dict ''M'' [(''a'', ''1''), (''b'', ''2'')])
   \<longleftrightarrow> map_of [(''b'', ''2''), (''a'', ''1'')] = map_of [(''a'', ''1''), (''b'', ''2'')]"
  by (rule key_from_dict_faithful) simp_all

text \<open>\<open>CacheNamespace.key\<close> does not delimit its components: a part that contains the separator
  gives the same key as two parts.\<close>

theorem namespace_key_ambiguous:
  "namespace_key n [KStr (a @ ns_separator n @ b)] = namespace_key n [KStr a, KStr b]"
  by (simp add: namespace_key_def)

end
