(* ===== verification/Cached_Decorators.thy ===== *)
theory Cached_Decorators
  imports Flight_Results Cache_Key
begin

text \<open>
  \<open>cache/decorators.py\<close>: the signature of a call, the cache key of \<open>cached\<close> and
  \<open>cached_method\<close>, invalidation, and the properties of the wrapper modelled in
  \<open>Single_Flight\<close>. The arguments of a call are cache values in which sets may occur; a set is
  given by its elements in iteration order. Functions are given by their module and
  qualified name, \<open>None\<close> where the attribute is missing.
\<close>

section \<open>The signature of a call\<close>

datatype carg =
    ANull | ABool bool | AInt int | AFloat string | AStr string | ABytes string
  | AList "carg list" | ADict "(string \<times> carg) list" | ASet "carg list"

fun normalize_arg :: "carg \<Rightarrow> cval" where
  "normalize_arg (ASet vs) = CList (sort_key py_str_of (map normalize_arg vs))"
| "normalize_arg (ADict d) = CDict (sort_items (map (\<lambda>(k, v). (k, normalize_arg v)) d))"
| "normalize_arg (AList vs) = CList (map normalize_arg vs)"
| "normalize_arg ANull = CNull" | "normalize_arg (ABool b) = CBool b" | "normalize_arg (AInt i) = CInt i"
| "normalize_arg (AFloat r) = CFloat r" | "normalize_arg (AStr s) = CStr s" | "normalize_arg (ABytes s) = CBytes s"

definition signature_value :: "carg list \<Rightarrow> (string \<times> carg) list \<Rightarrow> cval" where
  "signature_value args kwargs =
     CDict [(''args'', CList (map normalize_arg args)),
            (''kwargs'', CDict (map (\<lambda>(k, v). (k, normalize_arg v)) (sort_items kwargs)))]"

definition stable_signature :: "carg list \<Rightarrow> (string \<times> carg) list \<Rightarrow> string" where
  "stable_signature args kwargs = json_dumps True True (signature_value args kwargs)"

section \<open>Cache keys\<close>

record func =
  fn_module :: "string option"
  fn_qualname :: "string option"

definition func_name :: "func \<Rightarrow> string" where
  "func_name f = (case fn_module f of None \<Rightarrow> ''<unknown>'' | Some m \<Rightarrow> m) @ ''.''
     @ (case fn_qualname f of None \<Rightarrow> ''<unknown>'' | Some q \<Rightarrow> q)"

definition prefix_or :: "string option \<Rightarrow> string \<Rightarrow> string" where
  "prefix_or p n = (case p of None \<Rightarrow> n | Some s \<Rightarrow> if s = '''' then n else s)"

definition build_method_cache_key ::
  "(string \<Rightarrow> string) \<Rightarrow> func \<Rightarrow> carg list \<Rightarrow> (string \<times> carg) list \<Rightarrow> string option \<Rightarrow> exc + string" where
  "build_method_cache_key sha256_hex f args kwargs p =
     key_build (key_add (CacheKey (prefix_or p (func_name f)) '':'')
       [KStr (key_hash sha256_hex (stable_signature args kwargs))])"

definition build_cache_key ::
  "(string \<Rightarrow> string) \<Rightarrow> func \<Rightarrow> carg list \<Rightarrow> (string \<times> carg) list \<Rightarrow> string option
     \<Rightarrow> (carg list \<Rightarrow> (string \<times> carg) list \<Rightarrow> exc + string) option \<Rightarrow> exc + string" where
  "build_cache_key sha256_hex f args kwargs p key_builder =
     (case key_builder of Some b \<Rightarrow> b args kwargs
      | None \<Rightarrow> key_build (key_add (CacheKey (prefix_or p (func_name f)) '':'')
                 [KStr (key_hash sha256_hex (stable_signature args kwargs))]))"

text \<open>\<open>wrapper.invalidate(...)\<close> deletes the entry of a call.\<close>

definition invalidate_cached ::
  "(string \<Rightarrow> string) \<Rightarrow> 'db cache \<Rightarrow> func \<Rightarrow> carg list \<Rightarrow> (string \<times> carg) list \<Rightarrow> string option
     \<Rightarrow> (carg list \<Rightarrow> (string \<times> carg) list \<Rightarrow> exc + string) option \<Rightarrow> ('db, unit) act" where
  "invalidate_cached sha256_hex C f args kwargs p kb =
     bind_act (lift_res (build_cache_key sha256_hex f args kwargs p kb))
       (\<lambda>key. map_act (\<lambda>_. ()) (c_delete C key))"

text \<open>\<open>@invalidate(...)\<close>: the function first, then the deletions; an error of the cache is logged.\<close>

definition invalidate_wrapper ::
  "'db cache \<Rightarrow> string list \<Rightarrow> ('a \<Rightarrow> exc + string) option \<Rightarrow> ('a \<Rightarrow> ('db, 'r) act) \<Rightarrow> 'a \<Rightarrow> ('db, 'r) act" where
  "invalidate_wrapper C patterns key_func f args =
     bind_act (f args) (\<lambda>result.
       bind_act
         (handle
           (case key_func of
              Some kf \<Rightarrow> bind_act (lift_res (kf args)) (\<lambda>key. map_act (\<lambda>_. ()) (c_delete C key))
            | None \<Rightarrow> for_each (\<lambda>p. map_act (\<lambda>_. ()) (c_delete_pattern C p)) patterns)
           [CacheError] (\<lambda>_. ret ()))
         (\<lambda>_. ret result))"

section \<open>Signatures are canonical\<close>

lemma insort_Cons_le: "(\<And>y. y \<in> set xs \<Longrightarrow> f x \<le> f y) \<Longrightarrow> insort_key f x xs = x # xs"
  by (cases xs) auto

lemma sort_key_sorted: "sorted (map f xs) \<Longrightarrow> sort_key f xs = xs"
  by (induction xs) (auto simp: insort_Cons_le)

lemma sort_items_idem [simp]: "sort_items (sort_items d) = sort_items d"
  by (simp add: sort_items_def sort_key_sorted)

lemma insort_map_snd:
  "insort_key fst (k, f v) (map (\<lambda>(k, v). (k, f v)) ys)
     = map (\<lambda>(k, v). (k, f v)) (insort_key fst (k, v) ys)"
  by (induction ys) auto

lemma sort_items_map_snd: "sort_items (map (\<lambda>(k, v). (k, f v)) d) = map (\<lambda>(k, v). (k, f v)) (sort_items d)"
  by (induction d) (auto simp: sort_items_def insort_map_snd)

lemma json_sorted_normalize [simp]: "json_sorted (normalize_arg a) = normalize_arg a"
proof (induction a)
  case (ASet vs)
  then have "map json_sorted (map normalize_arg vs) = map normalize_arg vs" by (auto intro: map_idI)
  then have "json_sorted x = x" if "x \<in> set (map normalize_arg vs)" for x
    using that by (metis map_eq_conv map_ident)
  then show ?case by (auto intro!: map_idI)
next
  case (ADict d)
  then have "map (\<lambda>(k, v). (k, json_sorted v)) (map (\<lambda>(k, v). (k, normalize_arg v)) d)
    = map (\<lambda>(k, v). (k, normalize_arg v)) d" by (auto simp: snds.simps)
  moreover have "json_sorted (normalize_arg (ADict d)) =
      CDict (sort_items (map (\<lambda>(k, v). (k, json_sorted v)) (map (\<lambda>(k, v). (k, normalize_arg v)) d)))"
    by (simp only: normalize_arg.simps json_sorted.simps) (simp only: sort_items_map_snd [symmetric] sort_items_idem)
  ultimately show ?case by (simp only: normalize_arg.simps)
qed (auto intro: map_idI)

lemma sort_signature: "sort_items [(''args'', x), (''kwargs'', y)] = [(''args'', x), (''kwargs'', y)]"
  by (simp add: sort_items_def)

lemma json_sorted_signature:
  "json_sorted (signature_value a k) = CDict [(''args'', CList (map normalize_arg a)),
     (''kwargs'', CDict (map (\<lambda>(n, v). (n, normalize_arg v)) (sort_items k)))]"
  by (simp add: signature_value_def sort_signature sort_items_map_snd del: map_map)
     (simp add: o_def case_prod_unfold)

section \<open>Properties of the keys\<close>

definition clean_call :: "carg list \<Rightarrow> (string \<times> carg) list \<Rightarrow> bool" where
  "clean_call args kwargs \<longleftrightarrow> wf_json (signature_value args kwargs) \<and> distinct (map fst kwargs)"



text \<open>Elements of a set that have the same \<open>str\<close> keep their iteration order: the sets of 1 and
  \<open>"1"\<close> have two signatures.\<close>

lemma set_order_leaks:
  "normalize_arg (ASet [AInt 1, AStr ''1'']) \<noteq> normalize_arg (ASet [AStr ''1'', AInt 1])"
  by code_simp

lemma func_name_not_Nil [simp]: "func_name f \<noteq> []"
  by (simp add: func_name_def)

lemma prefix_or_not_Nil [simp]: "n \<noteq> [] \<Longrightarrow> prefix_or p n \<noteq> []"
  by (simp add: prefix_or_def split: option.split)

lemma build_key_eq:
  "build_cache_key h f a k p None
     = Inr (join '':'' (map length_prefixed [prefix_or p (func_name f), key_hash h (stable_signature a k)]))"
  by (simp add: build_cache_key_def key_build_add key_components_def)

text \<open>Keys of cached calls collide only through the truncated hash: the key is always built, and two
  calls have the same key exactly when they use the same prefix (or function name) and the
  digests of their signatures agree; \<open>cached\<close> and \<open>cached_method\<close> build the same keys.\<close>

theorem cached_keys_separate:
  "(\<exists>key. build_cache_key h f a k p None = Inr key)
   \<and> build_method_cache_key h f a k p = build_cache_key h f a k p None
   \<and> (build_cache_key h f a k p None = build_cache_key h g a' k' q None \<longleftrightarrow>
        prefix_or p (func_name f) = prefix_or q (func_name g)
        \<and> key_hash h (stable_signature a k) = key_hash h (stable_signature a' k'))"
proof -
  have "join '':'' (map length_prefixed [u, v]) = join '':'' (map length_prefixed [u', v']) \<longleftrightarrow> u = u' \<and> v = v'"
    for u v u' v' using join_length_prefixed_inj [of "'':''" "[u, v]" "[u', v']"] by auto
  then have "build_cache_key h f a k p None = build_cache_key h g a' k' q None \<longleftrightarrow>
      prefix_or p (func_name f) = prefix_or q (func_name g)
      \<and> key_hash h (stable_signature a k) = key_hash h (stable_signature a' k')"
    unfolding build_key_eq by simp
  moreover have "build_method_cache_key h f a k p = build_cache_key h f a k p None"
    by (simp add: build_method_cache_key_def build_cache_key_def)
  ultimately show ?thesis using build_key_eq by blast
qed

lemma suppressed_returns:
  "raises_only (\<lambda>e. is_instance e CacheError) m \<Longrightarrow>
     fst (bind_act (handle m [CacheError] (\<lambda>_. ret ())) (\<lambda>_. ret x) s) = Inr x"
  by (cases "m s") (auto simp: bind_act_def handle_def ret_def catches_def raises_only_def split: sum.split)

text \<open>\<open>wrapper.invalidate(...)\<close> removes the entry its call reads: afterwards the call's key is
  absent and every other key is untouched. A function decorated with \<open>@invalidate\<close> returns its
  result whatever the cache does.\<close>

theorem invalidate_targets_call:
  assumes "cache_backend C content up good" "up s"
  shows "(\<exists>t key. build_cache_key h f a k p None = Inr key
      \<and> invalidate_cached h C f a k p None s = (Inr (), t) \<and> up t
      \<and> content t = (content s)(key := None))
    \<and> (\<forall>g x r u v ps. g x u = (Inr r, v) \<longrightarrow> fst (invalidate_wrapper C ps None g x u) = Inr r)
    \<and> (\<forall>g x r u v kf key. g x u = (Inr r, v) \<longrightarrow> kf x = Inr key \<longrightarrow>
          fst (invalidate_wrapper C [] (Some kf) g x u) = Inr r)"
proof -
  note raises = cache_backend.delete_fails [OF assms(1)] cache_backend.delete_pattern_fails [OF assms(1)]
  obtain key where key: "build_cache_key h f a k p None = Inr key" using build_key_eq by blast
  obtain t where t: "c_delete C key s = (Inr (content s key \<noteq> None), t)" "up t"
    "content t = (content s)(key := None)"
    using cache_backend.delete_ok [OF assms] by blast
  have "raises_only (\<lambda>e. is_instance e CacheError) (for_each (\<lambda>p. map_act (\<lambda>_. ()) (c_delete_pattern C p)) ps)"
    for ps by (intro raises_only_for_each raises_only_map raises)
  moreover have "raises_only (\<lambda>e. is_instance e CacheError) (map_act (\<lambda>_. ()) (c_delete C k))" for k
    by (intro raises_only_map raises)
  ultimately show ?thesis
    using key t
    by (intro conjI)
      (auto simp: invalidate_cached_def act_simps,
       auto simp: invalidate_wrapper_def run_bind_Inr bind_lift suppressed_returns)
qed

theorem invalidate_targets_call_witness:
  "\<exists>t. invalidate_cached (\<lambda>_. ''0123456789abcdef'') demo_cache \<lparr>fn_module = Some ''m'', fn_qualname = Some ''f''\<rparr>
     [AInt 1] [] None None mem_empty = (Inr (), t)"
  using invalidate_targets_call [OF mem_cache.contract [of "''fn''" 300], folded demo_cache_def, of mem_empty]
  by (fastforce simp: mem_empty_def)

end
