(* ===== verification/Orm.thy ===== *)
theory Orm
  imports Effects
begin

text \<open>
  The table operations of Tortoise ORM that the models use, as a record of functions on the state
  of the database. \<open>orm_table\<close> states what they are documented to do in terms of the multiset of
  rows; \<open>list_table\<close>, a list of rows, keeps it.
\<close>

record ('db, 'row) table_ops =
  t_select :: "('row \<Rightarrow> bool) \<Rightarrow> 'db \<Rightarrow> 'row list"
  t_update :: "('row \<Rightarrow> bool) \<Rightarrow> ('row \<Rightarrow> 'row) \<Rightarrow> 'db \<Rightarrow> nat \<times> 'db"
  t_delete :: "('row \<Rightarrow> bool) \<Rightarrow> 'db \<Rightarrow> nat \<times> 'db"
  t_insert :: "'row \<Rightarrow> 'db \<Rightarrow> 'db"

locale orm_table =
  fixes T :: "('db, 'row) table_ops" and rows :: "'db \<Rightarrow> 'row multiset"
  assumes select_rows: "mset (t_select T p db) = filter_mset p (rows db)"
    and update_rows: "t_update T p f db = (n, db') \<Longrightarrow>
        rows db' = image_mset (\<lambda>r. if p r then f r else r) (rows db) \<and> n = size (filter_mset p (rows db))"
    and delete_rows: "t_delete T p db = (n, db') \<Longrightarrow>
        rows db' = filter_mset (\<lambda>r. \<not> p r) (rows db) \<and> n = size (filter_mset p (rows db))"
    and insert_rows: "rows (t_insert T r db) = add_mset r (rows db)"
begin

lemma select_set: "set (t_select T p db) = {r \<in> set_mset (rows db). p r}"
  by (simp flip: set_mset_mset add: select_rows)

lemma select_length: "length (t_select T p db) = size (filter_mset p (rows db))"
  by (simp flip: size_mset add: select_rows)

lemma update_snd: "rows (snd (t_update T p f db)) = image_mset (\<lambda>r. if p r then f r else r) (rows db)"
  and update_fst: "fst (t_update T p f db) = size (filter_mset p (rows db))"
  using update_rows [of p f db] by (cases "t_update T p f db"; simp)+

lemma delete_snd: "rows (snd (t_delete T p db)) = filter_mset (\<lambda>r. \<not> p r) (rows db)"
  and delete_fst: "fst (t_delete T p db) = size (filter_mset p (rows db))"
  using delete_rows [of p db] by (cases "t_delete T p db"; simp)+

lemmas table_simps = select_rows update_snd update_fst delete_snd delete_fst insert_rows

lemma update_size: "size (rows (snd (t_update T p f db))) = size (rows db)"
  by (simp add: update_snd)

end

text \<open>A table whose rows have distinct keys.\<close>

definition keyed :: "('row \<Rightarrow> 'k) \<Rightarrow> 'row multiset \<Rightarrow> bool" where
  "keyed key M \<longleftrightarrow> (\<forall>i. count (image_mset key M) i \<le> 1)"

lemma keyed_single:
  assumes "keyed key M" "r \<in># M"
  shows "{# x \<in># M. key x = key r #} = {# r #}"
proof -
  obtain S where M: "M = add_mset r S" using assms(2) by (metis multi_member_split)
  then have "count (image_mset key S) (key r) = 0"
    using assms(1) by (auto simp: keyed_def dest!: spec [of _ "key r"])
  then have "\<forall>x \<in># S. key x \<noteq> key r" by (metis count_eq_zero_iff imageI set_image_mset)
  then have "{# x \<in># S. key x = key r #} = {#}" by auto
  with M show ?thesis by simp
qed

lemma keyed_inj: "keyed key M \<Longrightarrow> inj_on key (set_mset M)"
proof (rule inj_onI)
  fix x y assume "keyed key M" "x \<in># M" "y \<in># M" "key x = key y"
  then have "x \<in># {# x \<in># M. key x = key y #}" by simp
  then show "x = y" using keyed_single [OF \<open>keyed key M\<close> \<open>y \<in># M\<close>] by simp
qed

lemma keyed_image: "(\<And>r. r \<in># M \<Longrightarrow> key (f r) = key r) \<Longrightarrow> keyed key (image_mset f M) = keyed key M"
proof -
  assume "\<And>r. r \<in># M \<Longrightarrow> key (f r) = key r"
  then have "image_mset key (image_mset f M) = image_mset key M"
    unfolding multiset.map_comp comp_def by (rule image_mset_cong)
  then show ?thesis by (simp add: keyed_def)
qed

context orm_table begin

lemma select_single:
  assumes "keyed key (rows db)" "r \<in># rows db"
  shows "t_select T (\<lambda>x. key x = key r) db = [r]"
proof -
  have "mset (t_select T (\<lambda>x. key x = key r) db) = {# r #}"
    by (simp add: select_rows keyed_single [OF assms])
  then show ?thesis by simp
qed

end

definition list_table :: "('row list, 'row) table_ops" where
  "list_table =
    \<lparr>t_select = filter,
     t_update = (\<lambda>p f db. (length (filter p db), map (\<lambda>r. if p r then f r else r) db)),
     t_delete = (\<lambda>p db. (length (filter p db), filter (\<lambda>r. \<not> p r) db)),
     t_insert = (\<lambda>r db. db @ [r])\<rparr>"

interpretation list_orm: orm_table list_table mset
  by unfold_locales (auto simp: list_table_def simp flip: size_mset)

end
