(* ===== verification/Soft_Delete.thy ===== *)
theory Soft_Delete
  imports Orm
begin

text \<open>
  \<open>models/soft_delete.py\<close>: a queryset that keeps its deleted-rows condition at a remembered
  index of \<open>_q_objects\<close> (\<open>_sd_index\<close>) next to the filters of the caller, and a mode
  (\<open>_sd_mode\<close>) that decides what \<open>delete\<close> does. A Q object is the predicate it selects rows by.
  The model class has the column \<open>deleted_at\<close>; the time is an argument.
\<close>

record 'd soft_row =
  row_pk :: int
  deleted_at :: "int option"
  payload :: 'd

type_synonym 'd q_object = "'d soft_row \<Rightarrow> bool"

record 'd soft_queryset =
  q_objects :: "'d q_object list"
  sd_index :: "nat option"
  sd_mode :: nat

definition is_live :: "'d q_object" where
  "is_live r = (deleted_at r = None)"

definition is_gone :: "'d q_object" where
  "is_gone r = (deleted_at r \<noteq> None)"

definition SoftDeleteQuerySet :: "bool \<Rightarrow> 'd soft_queryset" where
  "SoftDeleteQuerySet has_column =
     (if has_column then \<lparr>q_objects = [is_live], sd_index = Some 0, sd_mode = 0\<rparr>
      else \<lparr>q_objects = [], sd_index = None, sd_mode = 0\<rparr>)"

text \<open>\<open>filter\<close> and \<open>exclude\<close> of the base class append a Q object to a clone; \<open>_clone\<close> copies the
  list, the index and the mode.\<close>

definition qs_filter :: "'d q_object \<Rightarrow> 'd soft_queryset \<Rightarrow> 'd soft_queryset" where
  "qs_filter p qs = qs\<lparr>q_objects := q_objects qs @ [p]\<rparr>"

definition qs_exclude :: "'d q_object \<Rightarrow> 'd soft_queryset \<Rightarrow> 'd soft_queryset" where
  "qs_exclude p qs = qs\<lparr>q_objects := q_objects qs @ [\<lambda>r. \<not> p r]\<rparr>"

definition del_nth :: "nat \<Rightarrow> 'a list \<Rightarrow> 'a list" where
  "del_nth i xs = take i xs @ drop (i + 1) xs"

definition with_deleted :: "'d soft_queryset \<Rightarrow> 'd soft_queryset" where
  "with_deleted qs = (case sd_index qs of
       Some i \<Rightarrow> qs\<lparr>q_objects := del_nth i (q_objects qs), sd_index := None, sd_mode := 1\<rparr>
     | None \<Rightarrow> qs\<lparr>sd_mode := 1\<rparr>)"

definition only_deleted :: "'d soft_queryset \<Rightarrow> 'd soft_queryset" where
  "only_deleted qs = (case sd_index qs of
       Some i \<Rightarrow> qs\<lparr>q_objects := (q_objects qs)[i := is_gone], sd_mode := 2\<rparr>
     | None \<Rightarrow> qs\<lparr>q_objects := q_objects qs @ [is_gone], sd_index := Some (length (q_objects qs)), sd_mode := 2\<rparr>)"

definition qs_matches :: "'d soft_queryset \<Rightarrow> 'd q_object" where
  "qs_matches qs r = list_all (\<lambda>q. q r) (q_objects qs)"

definition qs_fetch :: "('db, 'd soft_row) table_ops \<Rightarrow> 'd soft_queryset \<Rightarrow> 'db \<Rightarrow> 'd soft_row list" where
  "qs_fetch T qs db = t_select T (qs_matches qs) db"

definition qs_delete ::
  "('db, 'd soft_row) table_ops \<Rightarrow> int \<Rightarrow> 'd soft_queryset \<Rightarrow> 'db \<Rightarrow> nat \<times> 'db" where
  "qs_delete T now qs db =
     (if sd_mode qs = 0 then t_update T (qs_matches qs) (\<lambda>r. r\<lparr>deleted_at := Some now\<rparr>) db
      else t_delete T (qs_matches qs) db)"

definition qs_restore :: "('db, 'd soft_row) table_ops \<Rightarrow> 'd soft_queryset \<Rightarrow> 'db \<Rightarrow> nat \<times> 'db" where
  "qs_restore T qs db =
     t_update T (qs_matches (only_deleted qs)) (\<lambda>r. r\<lparr>deleted_at := None\<rparr>) db"

definition qs_hard_delete ::
  "('db, 'd soft_row) table_ops \<Rightarrow> int \<Rightarrow> 'd soft_queryset \<Rightarrow> 'db \<Rightarrow> nat \<times> 'db" where
  "qs_hard_delete T now qs db = qs_delete T now (with_deleted qs) db"

text \<open>The class methods start from a fresh queryset.\<close>

definition model_all :: "'d soft_queryset" where
  "model_all = SoftDeleteQuerySet True"

definition model_filter :: "'d q_object \<Rightarrow> 'd soft_queryset" where
  "model_filter p = qs_filter p model_all"

definition model_exclude :: "'d q_object \<Rightarrow> 'd soft_queryset" where
  "model_exclude p = qs_exclude p model_all"

definition model_with_deleted :: "'d soft_queryset" where
  "model_with_deleted = with_deleted model_all"

definition model_only_deleted :: "'d soft_queryset" where
  "model_only_deleted = only_deleted model_all"

text \<open>\<open>get\<close> raises when not exactly one row matches; \<open>get_or_none\<close> gives \<open>None\<close> for no row.
  More than one row is \<open>MultipleObjectsReturned\<close>, an \<open>OperationalError\<close>.\<close>

definition model_get :: "('db, 'd soft_row) table_ops \<Rightarrow> 'd q_object \<Rightarrow> 'db \<Rightarrow> exc + 'd soft_row" where
  "model_get T p db = (case qs_fetch T (model_filter p) db of
       [] \<Rightarrow> Inl DoesNotExist | [r] \<Rightarrow> Inr r | _ \<Rightarrow> Inl OperationalError)"

definition model_get_or_none ::
  "('db, 'd soft_row) table_ops \<Rightarrow> 'd q_object \<Rightarrow> 'db \<Rightarrow> exc + 'd soft_row option" where
  "model_get_or_none T p db = (case qs_fetch T (model_filter p) db of
       [] \<Rightarrow> Inr None | [r] \<Rightarrow> Inr (Some r) | _ \<Rightarrow> Inl OperationalError)"

text \<open>\<open>save(update_fields=["deleted_at"])\<close> writes that column of the row with the instance's key.\<close>

definition save_deleted_at ::
  "('db, 'd soft_row) table_ops \<Rightarrow> 'd soft_row \<Rightarrow> 'db \<Rightarrow> 'db" where
  "save_deleted_at T self db =
     snd (t_update T (\<lambda>r. row_pk r = row_pk self) (\<lambda>r. r\<lparr>deleted_at := deleted_at self\<rparr>) db)"

definition instance_delete ::
  "('db, 'd soft_row) table_ops \<Rightarrow> int \<Rightarrow> 'd soft_row \<Rightarrow> 'db \<Rightarrow> 'd soft_row \<times> 'db" where
  "instance_delete T now self db =
     (if deleted_at self \<noteq> None then (self, db)
      else (let self = self\<lparr>deleted_at := Some now\<rparr> in (self, save_deleted_at T self db)))"

definition instance_restore ::
  "('db, 'd soft_row) table_ops \<Rightarrow> 'd soft_row \<Rightarrow> 'db \<Rightarrow> 'd soft_row \<times> 'db" where
  "instance_restore T self db =
     (if deleted_at self = None then (self, db)
      else (let self = self\<lparr>deleted_at := None\<rparr> in (self, save_deleted_at T self db)))"

section \<open>What a queryset selects\<close>

text \<open>A queryset as its users see it: the filters they gave, and which rows it looks at.\<close>

datatype view = Live_rows | All_rows | Deleted_rows

definition in_view :: "view \<Rightarrow> 'd q_object" where
  "in_view v r = (case v of Live_rows \<Rightarrow> is_live r | All_rows \<Rightarrow> True | Deleted_rows \<Rightarrow> is_gone r)"

definition view_of :: "'d soft_queryset \<Rightarrow> view" where
  "view_of qs = (if sd_mode qs = 0 then Live_rows else if sd_mode qs = 1 then All_rows else Deleted_rows)"

definition user_filters :: "'d soft_queryset \<Rightarrow> 'd q_object list" where
  "user_filters qs = (case sd_index qs of None \<Rightarrow> q_objects qs | Some i \<Rightarrow> del_nth i (q_objects qs))"

definition well_placed :: "'d soft_queryset \<Rightarrow> bool" where
  "well_placed qs \<longleftrightarrow>
     (case sd_index qs of
        None \<Rightarrow> sd_mode qs = 1
      | Some i \<Rightarrow> i < length (q_objects qs)
          \<and> (sd_mode qs = 0 \<and> q_objects qs ! i = is_live \<or> sd_mode qs = 2 \<and> q_objects qs ! i = is_gone))"

datatype 'd build = B_filter "'d q_object" | B_exclude "'d q_object" | B_with | B_only

fun build_step :: "'d build \<Rightarrow> 'd soft_queryset \<Rightarrow> 'd soft_queryset" where
  "build_step (B_filter p) qs = qs_filter p qs"
| "build_step (B_exclude p) qs = qs_exclude p qs"
| "build_step B_with qs = with_deleted qs"
| "build_step B_only qs = only_deleted qs"

fun abs_step :: "'d build \<Rightarrow> 'd q_object list \<times> view \<Rightarrow> 'd q_object list \<times> view" where
  "abs_step (B_filter p) (fs, v) = (fs @ [p], v)"
| "abs_step (B_exclude p) (fs, v) = (fs @ [\<lambda>r. \<not> p r], v)"
| "abs_step B_with (fs, v) = (fs, All_rows)"
| "abs_step B_only (fs, v) = (fs, Deleted_rows)"

lemma length_del_nth [simp]: "i < length xs \<Longrightarrow> length (del_nth i xs) = length xs - 1"
  by (simp add: del_nth_def)

lemma del_nth_append [simp]: "i < length xs \<Longrightarrow> del_nth i (xs @ ys) = del_nth i xs @ ys"
  by (simp add: del_nth_def)

lemma del_nth_last [simp]: "del_nth (length xs) (xs @ [x]) = xs"
  by (simp add: del_nth_def)

lemma del_nth_update [simp]: "del_nth i (xs[i := x]) = del_nth i xs"
  by (simp add: del_nth_def)

lemma list_all_del_nth: "i < length xs \<Longrightarrow> list_all P xs \<longleftrightarrow> P (xs ! i) \<and> list_all P (del_nth i xs)"
  by (subst (1) id_take_nth_drop [of i xs]) (auto simp: del_nth_def)

lemma well_placed_new: "well_placed (SoftDeleteQuerySet True)"
  by (simp add: well_placed_def SoftDeleteQuerySet_def)

lemma well_placed_step: "well_placed qs \<Longrightarrow> well_placed (build_step b qs)"
  by (cases b) (auto simp: well_placed_def qs_filter_def qs_exclude_def with_deleted_def only_deleted_def
      nth_append split: option.splits)

lemma step_refines:
  "well_placed qs \<Longrightarrow> (user_filters (build_step b qs), view_of (build_step b qs))
     = abs_step b (user_filters qs, view_of qs)"
  by (cases b) (auto simp: well_placed_def qs_filter_def qs_exclude_def with_deleted_def only_deleted_def
      user_filters_def view_of_def split: option.splits)

lemma matches_view:
  "well_placed qs \<Longrightarrow> qs_matches qs r \<longleftrightarrow> in_view (view_of qs) r \<and> list_all (\<lambda>q. q r) (user_filters qs)"
  by (auto simp: well_placed_def qs_matches_def view_of_def in_view_def user_filters_def list_all_del_nth
      split: option.splits)

lemma builds:
  "well_placed (fold build_step bs (SoftDeleteQuerySet True))
   \<and> (user_filters (fold build_step bs (SoftDeleteQuerySet True)), view_of (fold build_step bs (SoftDeleteQuerySet True)))
       = fold abs_step bs ([], Live_rows)"
proof (induction bs rule: rev_induct)
  case Nil
  show ?case
    by (simp add: well_placed_new) (simp add: SoftDeleteQuerySet_def user_filters_def view_of_def del_nth_def)
next
  case (snoc b bs)
  then show ?case by (simp add: well_placed_step step_refines)
qed

section \<open>Properties\<close>

text \<open>C21: Chaining querysets does what it says: after any chain of \<open>filter\<close>, \<open>exclude\<close>,
  \<open>with_deleted\<close> and \<open>only_deleted\<close>, the rows selected are those that satisfy every filter given
  and lie in the view of the last view-changing call, the live rows when there was none; the
  condition of the class is never lost, doubled or confused with a filter.\<close>

theorem soft_queryset_refines:
  assumes "fold abs_step bs ([], Live_rows) = (fs, v)"
  shows "qs_matches (fold build_step bs (SoftDeleteQuerySet True)) r
    \<longleftrightarrow> in_view v r \<and> list_all (\<lambda>q. q r) fs"
  using builds [of bs] assms matches_view by (metis prod.inject)

theorem soft_queryset_refines_witness:
  "qs_matches (fold build_step [B_filter (\<lambda>r. row_pk r = 1), B_with, B_filter (\<lambda>r. payload r), B_only]
      (SoftDeleteQuerySet True)) \<lparr>row_pk = 1, deleted_at = Some 5, payload = True\<rparr>"
  using soft_queryset_refines [of "[B_filter (\<lambda>r. row_pk r = 1), B_with, B_filter (\<lambda>r. payload r), B_only]"
      "[\<lambda>r. row_pk r = 1, \<lambda>r. payload r]" Deleted_rows]
  by (simp add: in_view_def is_gone_def)

definition ignores_mark :: "'d q_object \<Rightarrow> bool" where
  "ignores_mark p = (\<forall>r t. p (r\<lparr>deleted_at := t\<rparr>) = p r)"

text \<open>Querysets of the default mode, built from filters that do not read \<open>deleted_at\<close>.\<close>

definition live_chain :: "'d q_object list \<Rightarrow> 'd soft_queryset" where
  "live_chain fs = fold (\<lambda>p. build_step (B_filter p)) fs model_all"

lemma live_chain_view:
  "well_placed (live_chain fs) \<and> user_filters (live_chain fs) = fs \<and> sd_mode (live_chain fs) = 0"
proof (induction fs rule: rev_induct)
  case Nil
  show ?case by (simp add: live_chain_def model_all_def well_placed_new)
     (simp add: SoftDeleteQuerySet_def user_filters_def del_nth_def)
next
  case (snoc p fs)
  have s: "live_chain (fs @ [p]) = build_step (B_filter p) (live_chain fs)" by (simp add: live_chain_def)
  show ?case
    unfolding s using snoc well_placed_step [of "live_chain fs" "B_filter p"]
    by (auto simp: user_filters_def well_placed_def qs_filter_def split: option.splits)
qed

lemma live_chain_matches: "qs_matches (live_chain fs) r \<longleftrightarrow> is_live r \<and> list_all (\<lambda>q. q r) fs"
  using live_chain_view [of fs] matches_view [of "live_chain fs" r] by (simp add: view_of_def in_view_def)

lemma only_deleted_matches:
  assumes "well_placed qs"
  shows "qs_matches (only_deleted qs) r \<longleftrightarrow> is_gone r \<and> list_all (\<lambda>q. q r) (user_filters qs)"
  using matches_view [OF well_placed_step [OF assms, of B_only], of r] step_refines [OF assms, of B_only]
  by (simp add: in_view_def)

lemma ignores_all: "list_all ignores_mark fs \<Longrightarrow> list_all (\<lambda>q. q (r\<lparr>deleted_at := t\<rparr>)) fs \<longleftrightarrow> list_all (\<lambda>q. q r) fs"
  by (auto simp: list_all_iff ignores_mark_def)

text \<open>Deleting through a live queryset is reversible: the rows it matches are marked and none is
  removed, the count is their number, the queryset selects nothing afterwards; restoring through
  the same queryset makes every row its filters select live again and leaves the others as they
  were.\<close>

theorem soft_delete_then_restore:
  assumes "orm_table T rows" "list_all ignores_mark fs" "qs_delete T now (live_chain fs) db = (n, db1)"
    and "qs_restore T (live_chain fs) db1 = (m, db2)"
  shows "n = size {# r \<in># rows db. is_live r \<and> list_all (\<lambda>q. q r) fs #}
    \<and> rows db1 = image_mset (\<lambda>r. if is_live r \<and> list_all (\<lambda>q. q r) fs then r\<lparr>deleted_at := Some now\<rparr> else r) (rows db)
    \<and> qs_fetch T (live_chain fs) db1 = []
    \<and> rows db2 = image_mset (\<lambda>r. if list_all (\<lambda>q. q r) fs then r\<lparr>deleted_at := None\<rparr> else r) (rows db)"
proof -
  note upd = orm_table.update_rows [OF assms(1)]
  let ?all = "\<lambda>r. list_all (\<lambda>q. q r) fs"
  let ?mark = "\<lambda>r. if is_live r \<and> ?all r then r\<lparr>deleted_at := Some now\<rparr> else r"
  let ?unmark = "\<lambda>r. if is_gone r \<and> ?all r then r\<lparr>deleted_at := None\<rparr> else r"
  have d: "rows db1 = image_mset ?mark (rows db)" "n = size {# r \<in># rows db. is_live r \<and> ?all r #}"
    using upd [of "qs_matches (live_chain fs)" _ db n db1] assms(3) live_chain_view [of fs]
    by (simp_all add: qs_delete_def live_chain_matches [abs_def])
  have "rows db2 = image_mset ?unmark (rows db1)"
    using upd [of "qs_matches (only_deleted (live_chain fs))" _ db1 m db2] assms(4) live_chain_view [of fs]
    by (simp add: qs_restore_def only_deleted_matches)
  also have "\<dots> = image_mset (\<lambda>r. ?unmark (?mark r)) (rows db)" unfolding d(1) multiset.map_comp comp_def ..
  also have "(\<lambda>r. ?unmark (?mark r)) = (\<lambda>r. if ?all r then r\<lparr>deleted_at := None\<rparr> else r)"
    using ignores_all [OF assms(2)] by (auto simp: fun_eq_iff is_live_def is_gone_def)
  finally have restored: "rows db2 = image_mset (\<lambda>r. if ?all r then r\<lparr>deleted_at := None\<rparr> else r) (rows db)" .
  have "qs_fetch T (live_chain fs) db1 = []"
  proof -
    have "set (qs_fetch T (live_chain fs) db1) = {r \<in> set_mset (rows db1). is_live r \<and> ?all r}"
      by (simp add: qs_fetch_def orm_table.select_set [OF assms(1)] live_chain_matches)
    also have "\<dots> = {}" using ignores_all [OF assms(2)] by (auto simp: d(1) is_live_def split: if_splits)
    finally show ?thesis by simp
  qed
  with d restored show ?thesis by simp
qed

definition two_rows :: "bool soft_row list" where
  "two_rows = [\<lparr>row_pk = 1, deleted_at = None, payload = True\<rparr>,
               \<lparr>row_pk = 2, deleted_at = Some 3, payload = True\<rparr>]"

theorem soft_delete_then_restore_witness:
  "fst (qs_delete list_table 9 (live_chain [payload]) two_rows) = 1
   \<and> mset (snd (qs_restore list_table (live_chain [payload])
        (snd (qs_delete list_table 9 (live_chain [payload]) two_rows))))
     = image_mset (\<lambda>r. r\<lparr>deleted_at := None\<rparr>) (mset two_rows)"
  using soft_delete_then_restore [OF list_orm.orm_table_axioms, of "[payload]" 9 two_rows _ _ _ _,
      OF _ surjective_pairing surjective_pairing]
  by (simp add: ignores_mark_def two_rows_def is_live_def)

datatype 'd soft_op =
    Op_delete "'d soft_queryset" | Op_restore "'d soft_queryset"
  | Op_instance_delete "'d soft_row" | Op_instance_restore "'d soft_row"

fun run_soft :: "('db, 'd soft_row) table_ops \<Rightarrow> int \<Rightarrow> 'd soft_op \<Rightarrow> 'db \<Rightarrow> 'db" where
  "run_soft T now (Op_delete qs) db = snd (qs_delete T now qs db)"
| "run_soft T now (Op_restore qs) db = snd (qs_restore T qs db)"
| "run_soft T now (Op_instance_delete r) db = snd (instance_delete T now r db)"
| "run_soft T now (Op_instance_restore r) db = snd (instance_restore T r db)"

definition default_mode :: "'d soft_op \<Rightarrow> bool" where
  "default_mode op = (case op of Op_delete qs \<Rightarrow> sd_mode qs = 0 | _ \<Rightarrow> True)"

text \<open>C22: Soft deletion never loses a row: any sequence of deletions through default querysets and
  instances, and of restorations, in any order and with any filters, keeps the keys and the data
  of all rows; only \<open>deleted_at\<close> changes.\<close>

theorem soft_operations_keep_rows:
  assumes "orm_table T rows" "list_all default_mode ops"
  shows "image_mset (\<lambda>r. (row_pk r, payload r)) (rows (fold (run_soft T now) ops db))
       = image_mset (\<lambda>r. (row_pk r, payload r)) (rows db)"
proof -
  have upd: "image_mset (\<lambda>r. (row_pk r, payload r)) (rows (snd (t_update T p (\<lambda>r. r\<lparr>deleted_at := t\<rparr>) db)))
      = image_mset (\<lambda>r. (row_pk r, payload r)) (rows db)" for p t db
    unfolding orm_table.update_snd [OF assms(1)] multiset.map_comp comp_def
    by (rule image_mset_cong) simp
  have "image_mset (\<lambda>r. (row_pk r, payload r)) (rows (run_soft T now op db))
      = image_mset (\<lambda>r. (row_pk r, payload r)) (rows db)" if "default_mode op" for op db
    using that by (cases op) (auto simp: default_mode_def qs_delete_def qs_restore_def instance_delete_def
        instance_restore_def save_deleted_at_def upd Let_def)
  then show ?thesis using assms(2) by (induction ops arbitrary: db) auto
qed

theorem soft_operations_keep_rows_witness:
  "image_mset (\<lambda>r. (row_pk r, payload r))
      (mset (fold (run_soft list_table 9) [Op_delete model_all, Op_restore model_with_deleted] two_rows))
    = {#(1, True), (2, True)#}"
  by (subst soft_operations_keep_rows [OF list_orm.orm_table_axioms])
    (simp_all add: default_mode_def model_all_def SoftDeleteQuerySet_def two_rows_def)

text \<open>\<open>hard_delete\<close> on \<open>only_deleted()\<close> purges live rows: it drops the deleted-rows condition, so
  every row the filters select is physically removed, live or not, while the queryset itself
  selects only deleted rows.\<close>

theorem only_deleted_hard_delete_purges_live:
  assumes "orm_table T rows" "qs_hard_delete T now (only_deleted (live_chain fs)) db = (n, db')"
  shows "rows db' = {# r \<in># rows db. \<not> list_all (\<lambda>q. q r) fs #}
    \<and> (\<forall>r. qs_matches (only_deleted (live_chain fs)) r \<longrightarrow> is_gone r)"
proof -
  let ?qs = "only_deleted (live_chain fs)"
  have wp: "well_placed ?qs" "user_filters ?qs = fs"
    using live_chain_view [of fs] well_placed_step [of "live_chain fs" B_only]
      step_refines [of "live_chain fs" B_only] by simp_all
  have m: "qs_matches (with_deleted ?qs) r \<longleftrightarrow> list_all (\<lambda>q. q r) fs" for r
    using matches_view [OF well_placed_step [OF wp(1), of B_with], of r] step_refines [OF wp(1), of B_with] wp(2)
    by (simp add: in_view_def)
  have "sd_mode (with_deleted ?qs) = 1" by (simp add: with_deleted_def split: option.split)
  then have "rows db' = {# r \<in># rows db. \<not> list_all (\<lambda>q. q r) fs #}"
    using assms orm_table.delete_rows [OF assms(1), of "qs_matches (with_deleted ?qs)" db n db']
    by (simp add: qs_hard_delete_def qs_delete_def m)
  then show ?thesis using live_chain_view only_deleted_matches by blast
qed

theorem only_deleted_hard_delete_purges_live_witness:
  "snd (qs_hard_delete list_table 9 model_only_deleted two_rows) = []"
  using only_deleted_hard_delete_purges_live [OF list_orm.orm_table_axioms surjective_pairing, of 9 "[]" two_rows]
  by (simp add: live_chain_def model_only_deleted_def)

end
