(* ===== verification/Graph_Node.thy ===== *)
theory Graph_Node
  imports Orm
begin

text \<open>
  \<open>models/graph_node.py\<close>: the rows of a graph-node table, \<open>save\<close> and \<open>delete\<close> with the counter
  \<open>child_count\<close> they maintain on the parent, and the queries by parent and depth. The table is a
  \<open>table_ops\<close>; identifiers (UUIDs in the code) are natural numbers, the columns that no
  operation reads are \<open>g_data\<close>. The base \<open>save\<close> inserts the row or updates the columns named in
  \<open>update_fields\<close>, all of them without \<open>update_fields\<close>, of the row with the key of the instance.
\<close>

record 'd gnode =
  g_id :: nat
  g_name :: string
  g_parent :: "nat option"
  g_depth :: int
  g_child_count :: int
  g_namespace :: string
  g_data :: 'd

type_synonym ('db, 'd) node_table = "('db, 'd gnode) table_ops"

definition is_leaf :: "'d gnode \<Rightarrow> bool" where
  "is_leaf n = (g_child_count n = 0)"

definition write_columns :: "string list option \<Rightarrow> 'd gnode \<Rightarrow> 'd gnode \<Rightarrow> 'd gnode" where
  "write_columns fs self r = (case fs of
       None \<Rightarrow> self
     | Some cols \<Rightarrow> r\<lparr>g_name := if ''name'' \<in> set cols then g_name self else g_name r,
         g_parent := if ''parent_id'' \<in> set cols then g_parent self else g_parent r,
         g_depth := if ''depth'' \<in> set cols then g_depth self else g_depth r,
         g_child_count := if ''child_count'' \<in> set cols then g_child_count self else g_child_count r,
         g_namespace := if ''namespace'' \<in> set cols then g_namespace self else g_namespace r,
         g_data := if ''metadata_json'' \<in> set cols then g_data self else g_data r\<rparr>)"

definition base_save ::
  "('db, 'd) node_table \<Rightarrow> bool \<Rightarrow> 'd gnode \<Rightarrow> string list option \<Rightarrow> bool \<Rightarrow> bool \<Rightarrow> 'db \<Rightarrow> 'db" where
  "base_save T saved self fs force_create force_update db =
     (if force_create \<or> (\<not> force_update \<and> \<not> saved \<and> (fs = None \<or> fs = Some []))
      then t_insert T self db
      else snd (t_update T (\<lambda>r. g_id r = g_id self) (write_columns fs self) db))"

definition previous_parent_id :: "('db, 'd) node_table \<Rightarrow> 'd gnode \<Rightarrow> 'db \<Rightarrow> nat option" where
  "previous_parent_id T self db = (case t_select T (\<lambda>r. g_id r = g_id self) db of
       [] \<Rightarrow> None | r # _ \<Rightarrow> g_parent r)"

definition bump :: "('db, 'd) node_table \<Rightarrow> int \<Rightarrow> nat option \<Rightarrow> 'db \<Rightarrow> 'db" where
  "bump T d p db = (case p of None \<Rightarrow> db
     | Some i \<Rightarrow> snd (t_update T (\<lambda>r. g_id r = i) (\<lambda>r. r\<lparr>g_child_count := g_child_count r + d\<rparr>) db))"

text \<open>\<open>saved\<close> is \<open>_saved_in_db\<close>.\<close>

definition save ::
  "('db, 'd) node_table \<Rightarrow> bool \<Rightarrow> 'd gnode \<Rightarrow> string list option \<Rightarrow> bool \<Rightarrow> bool \<Rightarrow> 'db \<Rightarrow> 'db" where
  "save T saved self fs force_create force_update db =
     (let is_create = (force_create \<or> (\<not> saved \<and> fs = None \<and> \<not> force_update));
          old_parent_id = (if is_create then None else previous_parent_id T self db);
          db = base_save T saved self fs force_create force_update db
      in if is_create then bump T 1 (g_parent self) db
         else if fs = None \<or> ''parent_id'' \<in> set (the fs)
         then bump T 1 (g_parent self) (bump T (-1) old_parent_id db)
         else db)"

text \<open>The base \<open>delete\<close> removes the row with the key of the instance.\<close>

definition delete :: "('db, 'd) node_table \<Rightarrow> bool \<Rightarrow> 'd gnode \<Rightarrow> 'db \<Rightarrow> (exc + unit) \<times> 'db" where
  "delete T block_orphan_delete self db =
     (if block_orphan_delete \<and> length (t_select T (\<lambda>r. g_parent r = Some (g_id self)) db) \<noteq> 0
      then (Inl GraphError, db)
      else (Inr (), bump T (-1) (g_parent self) (snd (t_delete T (\<lambda>r. g_id r = g_id self) db))))"

section \<open>Queries\<close>

definition children :: "('db, 'd) node_table \<Rightarrow> 'd gnode \<Rightarrow> 'db \<Rightarrow> 'd gnode list" where
  "children T self db = sort_key g_name (t_select T (\<lambda>r. g_parent r = Some (g_id self)) db)"

definition descendants :: "('db, 'd) node_table \<Rightarrow> 'd gnode \<Rightarrow> int option \<Rightarrow> 'db \<Rightarrow> 'd gnode list" where
  "descendants T self max_depth db =
     (let limit = (case max_depth of None \<Rightarrow> 1000 | Some m \<Rightarrow> m) in
      sort_key g_depth (sort_key g_name (t_select T (\<lambda>r. g_namespace r = g_namespace self
        \<and> g_depth r > g_depth self \<and> g_depth r \<le> g_depth self + limit) db)))"

definition ancestors :: "('db, 'd) node_table \<Rightarrow> 'd gnode \<Rightarrow> 'db \<Rightarrow> 'd gnode list" where
  "ancestors T self db = sort_key g_depth (t_select T (\<lambda>r. g_namespace r = g_namespace self
     \<and> g_depth r < g_depth self) db)"

definition siblings :: "('db, 'd) node_table \<Rightarrow> 'd gnode \<Rightarrow> 'db \<Rightarrow> 'd gnode list" where
  "siblings T self db =
     sort_key g_name (t_select T (\<lambda>r. g_parent r = g_parent self \<and> g_id r \<noteq> g_id self) db)"

section \<open>The counter\<close>

definition child_number :: "'d gnode multiset \<Rightarrow> nat \<Rightarrow> int" where
  "child_number R i = int (size {# c \<in># R. g_parent c = Some i #})"

definition counts_ok :: "'d gnode multiset \<Rightarrow> bool" where
  "counts_ok R \<longleftrightarrow> (\<forall>r \<in># R. g_child_count r = child_number R (g_id r))"

definition unique_ids :: "'d gnode multiset \<Rightarrow> bool" where
  "unique_ids R \<longleftrightarrow> (\<forall>i. count (image_mset g_id R) i \<le> 1)"

text \<open>The effect of the operations on the multiset of rows.\<close>

definition bumped :: "int \<Rightarrow> nat option \<Rightarrow> 'd gnode multiset \<Rightarrow> 'd gnode multiset" where
  "bumped d p R = image_mset (\<lambda>r. if Some (g_id r) = p
     then r\<lparr>g_child_count := g_child_count r + d\<rparr> else r) R"

lemma child_number_bumped [simp]: "child_number (bumped d p R) i = child_number R i"
proof -
  have "{# c \<in># bumped d p R. g_parent c = Some i #}
    = image_mset (\<lambda>r. if Some (g_id r) = p then r\<lparr>g_child_count := g_child_count r + d\<rparr> else r)
        {# c \<in># R. g_parent c = Some i #}"
    unfolding bumped_def by (induction R) auto
  then show ?thesis by (simp add: child_number_def)
qed

lemma ids_bumped [simp]: "image_mset g_id (bumped d p R) = image_mset g_id R"
  by (auto simp: bumped_def multiset.map_comp comp_def intro!: image_mset_cong)

lemma unique_bumped [simp]: "unique_ids (bumped d p R) = unique_ids R"
  by (simp add: unique_ids_def)

lemma unique_row:
  assumes "unique_ids R" "r \<in># R"
  shows "{# x \<in># R. g_id x = g_id r #} = {# r #}"
proof -
  obtain S where R: "R = add_mset r S" using assms(2) by (metis multi_member_split)
  then have "count (image_mset g_id S) (g_id r) = 0"
    using assms(1) by (auto simp: unique_ids_def dest!: spec [of _ "g_id r"])
  then have "\<forall>x \<in># S. g_id x \<noteq> g_id r" by (metis count_eq_zero_iff imageI set_image_mset)
  then have "{# x \<in># S. g_id x = g_id r #} = {#}" by auto
  with R show ?thesis by simp
qed

lemma unique_same: "unique_ids R \<Longrightarrow> r \<in># R \<Longrightarrow> x \<in># R \<Longrightarrow> g_id x = g_id r \<Longrightarrow> x = r"
proof -
  assume u: "unique_ids R" "r \<in># R" and x: "x \<in># R" "g_id x = g_id r"
  then have "x \<in># {# x \<in># R. g_id x = g_id r #}" by simp
  then show "x = r" by (simp add: unique_row [OF u])
qed

text \<open>Counters that are off by a known amount.\<close>

definition counts_off :: "(nat \<Rightarrow> int) \<Rightarrow> 'd gnode multiset \<Rightarrow> bool" where
  "counts_off \<delta> R \<longleftrightarrow> (\<forall>r \<in># R. g_child_count r = child_number R (g_id r) + \<delta> (g_id r))"

definition points :: "nat option \<Rightarrow> nat \<Rightarrow> int" where
  "points p i = (if p = Some i then 1 else 0)"

lemma counts_ok_off: "counts_ok R = counts_off (\<lambda>_. 0) R"
  by (simp add: counts_ok_def counts_off_def)

lemma child_number_add [simp]: "child_number (add_mset r R) i = child_number R i + points (g_parent r) i"
  by (simp add: child_number_def points_def)

definition shift :: "int \<Rightarrow> nat option \<Rightarrow> 'd gnode \<Rightarrow> 'd gnode" where
  "shift d p r = (if Some (g_id r) = p then r\<lparr>g_child_count := g_child_count r + d\<rparr> else r)"

lemma bumped_shift: "bumped d p R = image_mset (shift d p) R"
  by (simp add: bumped_def shift_def [abs_def])

lemma shift_simps [simp]:
  "g_id (shift d p r) = g_id r" "g_child_count (shift d p r) = g_child_count r + d * points p (g_id r)"
  by (auto simp: shift_def points_def)

lemma counts_bumped: "counts_off \<delta> R \<Longrightarrow> counts_off (\<lambda>i. \<delta> i + d * points p i) (bumped d p R)"
  unfolding counts_off_def child_number_bumped by (auto simp: bumped_shift)

lemma counts_insert:
  "counts_ok R \<Longrightarrow> g_child_count r = child_number R (g_id r) \<Longrightarrow>
     counts_off (\<lambda>i. - points (g_parent r) i) (add_mset r R)"
  by (simp add: counts_off_def counts_ok_def)

lemma counts_replace:
  assumes "counts_ok (add_mset r0 S)" "g_id r1 = g_id r0" "g_child_count r1 = g_child_count r0"
  shows "counts_off (\<lambda>i. points (g_parent r0) i - points (g_parent r1) i) (add_mset r1 S)"
  using assms by (auto simp: counts_off_def counts_ok_def)

lemma counts_remove:
  "counts_ok (add_mset r0 S) \<Longrightarrow> counts_off (points (g_parent r0)) S"
  by (auto simp: counts_off_def counts_ok_def)

lemma image_mset_fix: "\<forall>x \<in># S. f x = x \<Longrightarrow> image_mset f S = S"
  by (induction S) auto

lemma filter_mset_all: "\<forall>x \<in># S. P x \<Longrightarrow> filter_mset P S = S"
  by (induction S) auto

lemma bump_rows:
  "orm_table T rows \<Longrightarrow> rows (bump T d p db) = bumped d p (rows db)"
  by (cases p) (auto simp: bump_def bumped_def orm_table.update_snd)

lemma update_row:
  assumes "orm_table T rows" "unique_ids (rows db)" "rows db = add_mset r0 S" "g_id r0 = i"
  shows "rows (snd (t_update T (\<lambda>r. g_id r = i) f db)) = add_mset (f r0) S"
proof -
  have "\<forall>x \<in># S. g_id x \<noteq> i"
    using unique_row [OF assms(2), of r0] assms(3,4) by auto
  then have "image_mset (\<lambda>r. if g_id r = i then f r else r) S = S"
    by (auto intro: image_mset_fix)
  then show ?thesis by (simp add: orm_table.update_snd [OF assms(1)] assms(3,4))
qed

lemma delete_row:
  assumes "orm_table T rows" "unique_ids (rows db)" "rows db = add_mset r0 S" "g_id r0 = i"
  shows "rows (snd (t_delete T (\<lambda>r. g_id r = i) db)) = S"
proof -
  have "\<forall>x \<in># S. g_id x \<noteq> i"
    using unique_row [OF assms(2), of r0] assms(3,4) by auto
  then have "filter_mset (\<lambda>r. g_id r \<noteq> i) S = S" by (rule filter_mset_all)
  moreover have "rows (snd (t_delete T (\<lambda>r. g_id r = i) db)) = filter_mset (\<lambda>r. g_id r \<noteq> i) (rows db)"
    by (rule orm_table.delete_snd [OF assms(1)])
  ultimately show ?thesis using assms(3,4) by simp
qed

lemma previous_parent:
  assumes "orm_table T rows" "unique_ids (rows db)" "r0 \<in># rows db" "g_id r0 = g_id self"
  shows "previous_parent_id T self db = g_parent r0"
proof -
  have "mset (t_select T (\<lambda>r. g_id r = g_id self) db) = {# r0 #}"
    using unique_row [OF assms(2,3)] by (simp add: orm_table.select_rows [OF assms(1)] assms(4))
  then have "t_select T (\<lambda>r. g_id r = g_id self) db = [r0]" by simp
  then show ?thesis by (simp add: previous_parent_id_def)
qed

lemma create_keeps_counts:
  assumes "orm_table T rows" "counts_ok (rows db)"
    and "g_child_count self = child_number (rows db) (g_id self)"
  shows "counts_ok (rows (save T False self None False False db))"
proof -
  have "rows (save T False self None False False db) = bumped 1 (g_parent self) (add_mset self (rows db))"
    by (simp add: save_def base_save_def bump_rows [OF assms(1)] orm_table.insert_rows [OF assms(1)])
  then show ?thesis
    using counts_bumped [OF counts_insert [OF assms(2,3)], of 1 "g_parent self"] by (simp add: counts_ok_off)
qed

lemma update_keeps_counts:
  assumes "orm_table T rows" "unique_ids (rows db)" "counts_ok (rows db)"
    and "rows db = add_mset r0 S" "g_id r0 = g_id self" "g_child_count r0 = g_child_count self"
  shows "counts_ok (rows (save T True self fs False False db))"
proof -
  let ?r1 = "write_columns fs self r0"
  have r1: "g_id ?r1 = g_id r0" "g_child_count ?r1 = g_child_count r0"
    using assms(5,6) by (auto simp: write_columns_def split: option.split)
  have rows1: "rows (snd (t_update T (\<lambda>r. g_id r = g_id self) (write_columns fs self) db)) = add_mset ?r1 S"
    using update_row [OF assms(1,2,4,5)] .
  have off: "counts_off (\<lambda>i. points (g_parent r0) i - points (g_parent ?r1) i) (add_mset ?r1 S)"
    using counts_replace [OF _ r1] assms(3,4) by simp
  have prev: "previous_parent_id T self db = g_parent r0"
    using previous_parent [OF assms(1,2)] assms(4,5) by simp
  show ?thesis
  proof (cases "fs = None \<or> ''parent_id'' \<in> set (the fs)")
    case True
    then have p: "g_parent ?r1 = g_parent self" by (auto simp: write_columns_def split: option.split)
    have "rows (save T True self fs False False db)
        = bumped 1 (g_parent self) (bumped (-1) (g_parent r0) (add_mset ?r1 S))"
      using True by (simp add: save_def base_save_def bump_rows [OF assms(1)] rows1 prev)
    then show ?thesis
      using counts_bumped [OF counts_bumped [OF off, of "-1" "g_parent r0"], of 1 "g_parent self"] p
      by (simp add: counts_ok_off)
  next
    case False
    then have p: "g_parent ?r1 = g_parent r0" by (auto simp: write_columns_def split: option.split)
    have "rows (save T True self fs False False db) = add_mset ?r1 S"
      using False by (auto simp: save_def base_save_def rows1 Let_def)
    then show ?thesis using off p by (simp add: counts_ok_off)
  qed
qed

lemma delete_keeps_counts:
  assumes "orm_table T rows" "unique_ids (rows db)" "counts_ok (rows db)"
    and "rows db = add_mset r0 S" "g_id r0 = g_id self" "g_parent r0 = g_parent self"
  shows "counts_ok (rows (snd (delete T block self db)))"
proof (cases "fst (delete T block self db)")
  case (Inl e)
  then have "snd (delete T block self db) = db" by (auto simp: delete_def split: if_splits)
  with assms(3) show ?thesis by simp
next
  case (Inr u)
  then have "rows (snd (delete T block self db)) = bumped (-1) (g_parent r0) S"
    using delete_row [OF assms(1,2,4,5)] assms(6)
    by (auto simp: delete_def bump_rows [OF assms(1)] split: if_splits)
  then show ?thesis
    using counts_bumped [OF counts_remove, of r0 S "-1" "g_parent r0"] assms(3,4) by (simp add: counts_ok_off)
qed

section \<open>Properties\<close>

text \<open>A step of a client: create a node under a fresh key, save a loaded instance whose counter is
  the stored one, or delete a loaded instance.\<close>

datatype 'd node_op = Create "'d gnode" | Update "'d gnode" "string list option" | Delete bool "'d gnode"

fun node_run :: "('db, 'd) node_table \<Rightarrow> 'd node_op \<Rightarrow> 'db \<Rightarrow> 'db" where
  "node_run T (Create n) db = save T False n None False False db"
| "node_run T (Update n fs) db = save T True n fs False False db"
| "node_run T (Delete block n) db = snd (delete T block n db)"

text \<open>The instance agrees with its row where the operation writes or reads it blindly.\<close>

fun up_to_date :: "'d gnode multiset \<Rightarrow> 'd node_op \<Rightarrow> bool" where
  "up_to_date R (Create n) \<longleftrightarrow> (\<forall>r \<in># R. g_id r \<noteq> g_id n) \<and> g_child_count n = child_number R (g_id n)"
| "up_to_date R (Update n fs) \<longleftrightarrow> (\<exists>r \<in># R. g_id r = g_id n \<and> g_child_count r = g_child_count n)"
| "up_to_date R (Delete block n) \<longleftrightarrow> (\<exists>r \<in># R. g_id r = g_id n \<and> g_parent r = g_parent n)"

text \<open>\<open>child_count\<close> is the number of children: if it is for every row, it still is after creating a
  node, after saving a node whose in-memory counter is current, whether or not it moves to
  another parent and with or without \<open>update_fields\<close>, and after deleting a node, also when the
  orphan guard refuses.\<close>

theorem child_count_maintained:
  assumes "orm_table T rows" "unique_ids (rows db)" "counts_ok (rows db)" "up_to_date (rows db) op"
  shows "counts_ok (rows (node_run T op db))"
proof (cases op)
  case (Create n)
  then show ?thesis using create_keeps_counts [OF assms(1,3)] assms(4) by simp
next
  case (Update n fs)
  then obtain r0 where r0: "r0 \<in># rows db" "g_id r0 = g_id n" "g_child_count r0 = g_child_count n"
    using assms(4) by auto
  then obtain S where "rows db = add_mset r0 S" by (metis multi_member_split)
  then show ?thesis using update_keeps_counts [OF assms(1-3) _ r0(2,3)] Update by simp
next
  case (Delete block n)
  then obtain r0 where r0: "r0 \<in># rows db" "g_id r0 = g_id n" "g_parent r0 = g_parent n"
    using assms(4) by auto
  then obtain S where "rows db = add_mset r0 S" by (metis multi_member_split)
  then show ?thesis using delete_keeps_counts [OF assms(1-3) _ r0(2,3)] Delete by simp
qed

definition node :: "nat \<Rightarrow> nat option \<Rightarrow> int \<Rightarrow> int \<Rightarrow> unit gnode" where
  "node i p d c = \<lparr>g_id = i, g_name = [], g_parent = p, g_depth = d, g_child_count = c,
     g_namespace = ''default'', g_data = ()\<rparr>"

lemma node_simps [simp]:
  "g_id (node i p d c) = i" "g_parent (node i p d c) = p" "g_child_count (node i p d c) = c"
  "g_depth (node i p d c) = d" "g_name (node i p d c) = []"
  by (simp_all add: node_def)

theorem child_count_maintained_witness:
  "counts_ok (mset (node_run list_table (Update (node 2 None 0 0) None)
      [node 1 None 0 1, node 2 (Some 1) 1 0]))"
  by (rule child_count_maintained [OF list_orm.orm_table_axioms])
    (simp_all add: counts_ok_def child_number_def unique_ids_def)

text \<open>Saving a stale instance destroys the counter: an instance created as a parent still holds
  the counter 0 after a child was added, and saving it writes 0 over the stored 1, so the row
  has a child and is reported as a leaf.\<close>

theorem stale_save_loses_count:
  assumes "orm_table T rows" "rows db = {#}"
  shows "rows (node_run T (Update (node 1 None 0 0) None)
      (node_run T (Create (node 2 (Some 1) 1 0)) (node_run T (Create (node 1 None 0 0)) db)))
    = {# node 1 None 0 0, node 2 (Some 1) 1 0 #}
    \<and> is_leaf (node 1 None 0 0) \<and> \<not> counts_ok {# node 1 None 0 0, node 2 (Some 1) 1 0 #}"
proof -
  let ?db1 = "node_run T (Create (node 1 None 0 0)) db"
  let ?db2 = "node_run T (Create (node 2 (Some 1) 1 0)) ?db1"
  have r1: "rows ?db1 = {# node 1 None 0 0 #}"
    by (simp add: save_def base_save_def bump_def orm_table.insert_rows [OF assms(1)] assms(2))
  have r2: "rows ?db2 = {# node 1 None 0 1, node 2 (Some 1) 1 0 #}"
    using r1 by (simp add: save_def base_save_def bump_rows [OF assms(1)] bumped_def
        orm_table.insert_rows [OF assms(1)]) (simp add: node_def)
  have u: "unique_ids (rows ?db2)" unfolding r2 by (simp add: unique_ids_def)
  have prev: "previous_parent_id T (node 1 None 0 0) ?db2 = None"
    using previous_parent [OF assms(1) u, of "node 1 None 0 1" "node 1 None 0 0"] r2 by simp
  have "rows (save T True (node 1 None 0 0) None False False ?db2) = {# node 1 None 0 0, node 2 (Some 1) 1 0 #}"
    using update_row [OF assms(1) u, of "node 1 None 0 1" "{# node 2 (Some 1) 1 0 #}" 1] r2 prev
    by (simp add: save_def base_save_def bump_def write_columns_def [abs_def])
  then show ?thesis by (simp add: counts_ok_def child_number_def is_leaf_def)
qed

theorem stale_save_loses_count_witness:
  "\<not> counts_ok (mset (node_run list_table (Update (node 1 None 0 0) None)
      (node_run list_table (Create (node 2 (Some 1) 1 0)) (node_run list_table (Create (node 1 None 0 0)) []))))"
  using stale_save_loses_count [OF list_orm.orm_table_axioms, of "[]"] by simp

end
