(* ===== verification/Graph_Walk.thy ===== *)
theory Graph_Walk
  imports Graph_Node
begin

text \<open>
  The walks of \<open>models/graph_node.py\<close>: \<open>path_to_root\<close>, which follows parent links with a guard
  against cycles, and \<open>subtree\<close>, a breadth-first search over child links. Each loop has fuel; the
  number of rows plus two, and plus one, is shown to be enough.
\<close>

section \<open>path_to_root\<close>

definition get_or_none :: "('db, 'd) node_table \<Rightarrow> nat \<Rightarrow> 'db \<Rightarrow> 'd gnode option" where
  "get_or_none T i db = (case t_select T (\<lambda>r. g_id r = i) db of [] \<Rightarrow> None | r # _ \<Rightarrow> Some r)"

fun path_walk ::
  "(nat \<Rightarrow> 'd gnode option) \<Rightarrow> nat \<Rightarrow> nat list \<Rightarrow> 'd gnode list \<Rightarrow> 'd gnode \<Rightarrow> (exc + 'd gnode list) option" where
  "path_walk look 0 visited path current = None"
| "path_walk look (Suc n) visited path current =
     (if g_id current \<in> set visited then Some (Inr path)
      else (case g_parent current of
              None \<Rightarrow> Some (Inr (path @ [current]))
            | Some p \<Rightarrow> (case look p of
                  None \<Rightarrow> Some (Inl GraphError)
                | Some parent \<Rightarrow> path_walk look n (g_id current # visited) (path @ [current]) parent)))"

definition path_to_root :: "('db, 'd) node_table \<Rightarrow> nat \<Rightarrow> 'd gnode \<Rightarrow> 'db \<Rightarrow> (exc + 'd gnode list) option" where
  "path_to_root T fuel self db =
     map_option (map_sum id (sort_key g_depth)) (path_walk (\<lambda>p. get_or_none T p db) fuel [] [] self)"

section \<open>subtree\<close>

text \<open>The inner loop over the children of one node: \<open>visited\<close>, \<open>result\<close> and \<open>queue\<close>.\<close>

fun visit_children ::
  "('d gnode \<Rightarrow> bool) \<Rightarrow> 'd gnode list \<Rightarrow> nat list \<Rightarrow> 'd gnode list \<Rightarrow> 'd gnode list
     \<Rightarrow> nat list \<times> 'd gnode list \<times> 'd gnode list" where
  "visit_children deep [] visited result queue = (visited, result, queue)"
| "visit_children deep (c # cs) visited result queue =
     (if g_id c \<notin> set visited
      then visit_children deep cs (g_id c # visited) (result @ [c]) (if deep c then queue @ [c] else queue)
      else visit_children deep cs visited result queue)"

fun bfs ::
  "('d gnode \<Rightarrow> 'd gnode list) \<Rightarrow> ('d gnode \<Rightarrow> bool) \<Rightarrow> nat \<Rightarrow> nat list \<Rightarrow> 'd gnode list \<Rightarrow> 'd gnode list
     \<Rightarrow> 'd gnode list option" where
  "bfs kids deep fuel visited result [] = Some result"
| "bfs kids deep 0 visited result (x # queue) = None"
| "bfs kids deep (Suc n) visited result (x # queue) =
     (case visit_children deep (kids x) visited result queue of
        (visited, result, queue) \<Rightarrow> bfs kids deep n visited result queue)"

definition within :: "'d gnode \<Rightarrow> int option \<Rightarrow> 'd gnode \<Rightarrow> bool" where
  "within self max_depth c = (case max_depth of None \<Rightarrow> True | Some m \<Rightarrow> g_depth c < g_depth self + m)"

definition subtree :: "('db, 'd) node_table \<Rightarrow> nat \<Rightarrow> int option \<Rightarrow> 'd gnode \<Rightarrow> 'db \<Rightarrow> 'd gnode list option" where
  "subtree T fuel max_depth self db =
     bfs (\<lambda>x. children T x db) (within self max_depth) fuel [g_id self] [self] [self]"

section \<open>Following parent links\<close>

definition looks_up :: "(nat \<Rightarrow> 'd gnode option) \<Rightarrow> 'd gnode set \<Rightarrow> bool" where
  "looks_up look R \<longleftrightarrow> (\<forall>p y. look p = Some y \<longrightarrow> y \<in> R \<and> g_id y = p)
     \<and> (\<forall>p. look p = None \<longrightarrow> (\<forall>y \<in> R. g_id y \<noteq> p))"

lemma looks_upD:
  "looks_up look R \<Longrightarrow> look p = Some y \<Longrightarrow> y \<in> R \<and> g_id y = p"
  "looks_up look R \<Longrightarrow> look p = None \<Longrightarrow> y \<in> R \<Longrightarrow> g_id y \<noteq> p"
  by (auto simp: looks_up_def)

lemma get_or_none_looks_up:
  assumes "orm_table T rows"
  shows "looks_up (\<lambda>p. get_or_none T p db) (set_mset (rows db))"
proof -
  have sel: "set (t_select T (\<lambda>r. g_id r = p) db) = {r \<in> set_mset (rows db). g_id r = p}" for p
    by (rule orm_table.select_set [OF assms])
  show ?thesis
    unfolding looks_up_def
  proof (rule conjI; intro allI impI ballI)
    fix p y assume "get_or_none T p db = Some y"
    then have "y \<in> set (t_select T (\<lambda>r. g_id r = p) db)"
      by (auto simp: get_or_none_def split: list.splits)
    then show "y \<in> set_mset (rows db) \<and> g_id y = p" unfolding sel by simp
  next
    fix p y assume "get_or_none T p db = None" "y \<in># rows db"
    then have "y \<notin> {r \<in> set_mset (rows db). g_id r = p}"
      unfolding sel [symmetric] by (auto simp: get_or_none_def split: list.splits)
    then show "g_id y \<noteq> p" using \<open>y \<in># rows db\<close> by simp
  qed
qed

lemma path_walk_ends:
  assumes "looks_up look R" "finite J" "g_id ` R \<subseteq> J"
  shows "g_id current \<in> J \<Longrightarrow> card (J - set visited) < n \<Longrightarrow> path_walk look n visited path current \<noteq> None"
proof (induction n arbitrary: visited path current)
  case (Suc n)
  show ?case
  proof (cases "g_id current \<in> set visited")
    case False
    then have "J - set (g_id current # visited) \<subset> J - set visited" using Suc.prems(1) by auto
    then have "card (J - set (g_id current # visited)) < n"
      using psubset_card_mono [of "J - set visited"] assms(2) Suc.prems(2) by fastforce
    then have "path_walk look n (g_id current # visited) (path @ [current]) parent \<noteq> None"
      if "look p = Some parent" for p parent
      using Suc.IH looks_upD(1) [OF assms(1) that] assms(3) by blast
    then show ?thesis using False by (auto split: option.splits)
  qed simp
qed simp

definition depth_drops :: "'d gnode set \<Rightarrow> bool" where
  "depth_drops R \<longleftrightarrow> (\<forall>x \<in> R. \<forall>y \<in> R. g_parent x = Some (g_id y) \<longrightarrow> g_depth y < g_depth x)"

definition upward :: "'d gnode list \<Rightarrow> bool" where
  "upward xs \<longleftrightarrow> successively (\<lambda>x y. g_parent x = Some (g_id y)) xs
     \<and> sorted_wrt (\<lambda>x y. g_depth y < g_depth x) xs"

lemma path_walk_correct:
  assumes "looks_up look R" "inj_on g_id R" "depth_drops R"
  shows "current \<in> R \<Longrightarrow> set visited = g_id ` set path \<Longrightarrow> set path \<subseteq> R \<Longrightarrow>
    (\<forall>x \<in> set path. g_depth current < g_depth x) \<Longrightarrow>
    path_walk look n visited path current = Some res \<Longrightarrow>
    (case res of
       Inr xs \<Rightarrow> \<exists>new. xs = path @ new \<and> new \<noteq> [] \<and> hd new = current \<and> g_parent (last new) = None
         \<and> upward new \<and> set new \<subseteq> R \<and> (\<forall>x \<in> set new. g_depth x \<le> g_depth current)
     | Inl e \<Rightarrow> e = GraphError \<and> (\<exists>x \<in> R. \<exists>p. g_parent x = Some p \<and> (\<forall>y \<in> R. g_id y \<noteq> p)))"
proof (induction n arbitrary: visited path current)
  case (Suc n)
  have fresh: "g_id current \<notin> set visited"
  proof
    assume "g_id current \<in> set visited"
    then obtain x where x: "x \<in> set path" "g_id x = g_id current" using Suc.prems(2) by force
    then have "x = current" using assms(2) Suc.prems(1,3) by (auto dest: inj_onD)
    then show False using x(1) Suc.prems(4) by auto
  qed
  show ?case
  proof (cases "g_parent current")
    case None
    then have "res = Inr (path @ [current])" using Suc.prems(5) fresh by simp
    then show ?thesis using None Suc.prems(1) by (auto intro!: exI [of _ "[current]"] simp: upward_def)
  next
    case (Some p)
    show ?thesis
    proof (cases "look p")
      case None
      then have "\<forall>y \<in> R. g_id y \<noteq> p" using looks_upD(2) [OF assms(1)] by blast
      moreover have "res = Inl GraphError" using Suc.prems(5) fresh Some None by simp
      ultimately show ?thesis using Suc.prems(1) Some by auto
    next
      case (Some parent)
      have parent: "parent \<in> R" "g_id parent = p" using looks_upD(1) [OF assms(1) Some] by auto
      then have drop: "g_depth parent < g_depth current"
        using assms(3) Suc.prems(1) \<open>g_parent current = Some p\<close> by (auto simp: depth_drops_def)
      have run: "path_walk look n (g_id current # visited) (path @ [current]) parent = Some res"
        using Suc.prems(5) fresh Some \<open>g_parent current = Some p\<close> by simp
      have "\<forall>x \<in> set (path @ [current]). g_depth parent < g_depth x"
        using Suc.prems(4) drop by auto
      from Suc.IH [OF parent(1) _ _ this run] Suc.prems(1-3)
      have ih: "case res of
         Inr xs \<Rightarrow> \<exists>new. xs = (path @ [current]) @ new \<and> new \<noteq> [] \<and> hd new = parent \<and> g_parent (last new) = None
           \<and> upward new \<and> set new \<subseteq> R \<and> (\<forall>x \<in> set new. g_depth x \<le> g_depth parent)
       | Inl e \<Rightarrow> e = GraphError \<and> (\<exists>x \<in> R. \<exists>p. g_parent x = Some p \<and> (\<forall>y \<in> R. g_id y \<noteq> p))"
        by simp
      show ?thesis
      proof (cases res)
        case (Inr xs)
        then obtain new where new: "xs = (path @ [current]) @ new" "new \<noteq> []" "hd new = parent"
          "g_parent (last new) = None" "upward new" "set new \<subseteq> R" "\<forall>x \<in> set new. g_depth x \<le> g_depth parent"
          using ih by auto
        have "upward (current # new)"
          using new drop parent \<open>g_parent current = Some p\<close>
          by (cases new) (force simp: upward_def)+
        then show ?thesis
          using new drop Suc.prems(1) Inr by (auto intro!: exI [of _ "current # new"])
      qed (use ih in simp)
    qed
  qed
qed simp

lemma upward_sorted:
  assumes "upward xs"
  shows "sort_key g_depth xs = rev xs"
proof (rule sort_key_inj_key_eq)
  have "sorted_wrt (\<lambda>x y. g_depth y < g_depth x) xs" using assms by (simp add: upward_def)
  then have s: "sorted_wrt (<) (map g_depth (rev xs))" by (simp only: sorted_wrt_map sorted_wrt_rev)
  then show "sorted (map g_depth (rev xs))" by (rule strict_sorted_imp_sorted)
  have "distinct (map g_depth (rev xs))" using s by (simp only: strict_sorted_iff)
  then show "inj_on g_depth (set xs)" by (simp add: distinct_map)
qed simp

lemma upward_nth: "upward xs \<Longrightarrow> Suc i < length xs \<Longrightarrow> g_parent (xs ! i) = Some (g_id (xs ! Suc i))"
  by (auto simp: upward_def successively_conv_nth)

section \<open>The breadth-first search\<close>

text \<open>Edges of the search: from the start, or from a row that \<open>deep\<close> admits, to its children.\<close>

definition search_rel :: "'d gnode set \<Rightarrow> ('d gnode \<Rightarrow> bool) \<Rightarrow> nat \<Rightarrow> (nat \<times> nat) set" where
  "search_rel R deep i0 = {(p, g_id c) | p c. c \<in> R \<and> g_parent c = Some p
     \<and> (p = i0 \<or> (\<exists>y \<in> R. g_id y = p \<and> deep y))}"

definition bfs_inv ::
  "'d gnode set \<Rightarrow> ('d gnode \<Rightarrow> bool) \<Rightarrow> 'd gnode \<Rightarrow> nat list \<Rightarrow> 'd gnode list \<Rightarrow> 'd gnode list \<Rightarrow> bool" where
  "bfs_inv R deep self visited result queue \<longleftrightarrow>
     set visited = g_id ` set result \<and> distinct (map g_id result) \<and> result \<noteq> [] \<and> hd result = self
   \<and> set queue \<subseteq> set result \<and> set (tl result) \<subseteq> R
   \<and> (\<forall>x \<in> set queue. g_id x = g_id self \<or> deep x)
   \<and> (\<forall>i \<in> set visited. (g_id self, i) \<in> (search_rel R deep (g_id self))\<^sup>*)"

definition bfs_closed ::
  "('d gnode \<Rightarrow> 'd gnode list) \<Rightarrow> ('d gnode \<Rightarrow> bool) \<Rightarrow> 'd gnode \<Rightarrow> nat list \<Rightarrow> 'd gnode list \<Rightarrow> 'd gnode list \<Rightarrow> bool" where
  "bfs_closed kids deep self visited result queue \<longleftrightarrow>
     (\<forall>x \<in> set result. x \<notin> set queue \<longrightarrow> g_id x = g_id self \<or> deep x \<longrightarrow> g_id ` set (kids x) \<subseteq> set visited)"

lemma visit_children_sets:
  "visit_children deep cs visited result queue = (v, r, q) \<Longrightarrow>
     set v = set visited \<union> g_id ` set cs \<and> set queue \<subseteq> set q \<and> set result \<subseteq> set r
     \<and> (\<forall>x \<in> set r. x \<in> set result \<or> x \<in> set cs \<and> (deep x \<longrightarrow> x \<in> set q))"
  by (induction deep cs visited result queue rule: visit_children.induct) (force split: if_splits)+

lemma visit_children_measure:
  "visit_children deep cs visited result queue = (v, r, q) \<Longrightarrow> finite J \<Longrightarrow> g_id ` set cs \<subseteq> J \<Longrightarrow>
     length q + card (J - set v) \<le> length queue + card (J - set visited)"
proof (induction deep cs visited result queue rule: visit_children.induct)
  case (2 deep c cs visited result queue)
  show ?case
  proof (cases "g_id c \<in> set visited")
    case False
    have "J - set (g_id c # visited) = (J - set visited) - {g_id c}" by auto
    moreover have "g_id c \<in> J - set visited" using 2 False by simp
    ultimately have "card (J - set visited) = Suc (card (J - set (g_id c # visited)))"
      using card_Suc_Diff1 [of "J - set visited" "g_id c"] 2 by simp
    then show ?thesis using 2 False by (auto split: if_splits)
  qed (use 2 in simp)
qed simp

lemma bfs_inv_add:
  assumes "bfs_inv R deep self visited result queue" "g_id c \<notin> set visited" "c \<in> R"
    and "(g_id self, g_id c) \<in> (search_rel R deep (g_id self))\<^sup>*"
  shows "bfs_inv R deep self (g_id c # visited) (result @ [c]) (if deep c then queue @ [c] else queue)"
  using assms unfolding bfs_inv_def by (simp split: if_splits) blast

lemma visit_children_inv:
  "visit_children deep cs visited result queue = (v, r, q) \<Longrightarrow> bfs_inv R deep self visited result queue \<Longrightarrow>
     set cs \<subseteq> R \<Longrightarrow> \<forall>c \<in> set cs. (g_id self, g_id c) \<in> (search_rel R deep (g_id self))\<^sup>* \<Longrightarrow>
     bfs_inv R deep self v r q"
proof (induction deep cs visited result queue rule: visit_children.induct)
  case (2 deep c cs visited result queue)
  show ?case
  proof (cases "g_id c \<in> set visited")
    case False
    have "bfs_inv R deep self (g_id c # visited) (result @ [c]) (if deep c then queue @ [c] else queue)"
      by (rule bfs_inv_add [OF 2(4) False]) (use 2(5,6) in auto)
    then show ?thesis using 2 False by simp
  qed (use 2 in simp)
qed simp

lemma hd_or_tl: "x \<in> set xs \<Longrightarrow> x = hd xs \<or> x \<in> set (tl xs)"
  by (cases xs) auto

lemma bfs_step:
  assumes "bfs_inv R deep self visited result (x # queue)" "bfs_closed kids deep self visited result (x # queue)"
    and kids: "\<And>x. set (kids x) = {c \<in> R. g_parent c = Some (g_id x)}"
    and run: "visit_children deep (kids x) visited result queue = (v, r, q)"
  shows "bfs_inv R deep self v r q \<and> bfs_closed kids deep self v r q"
proof
  have x: "x \<in> set result" "g_id x = g_id self \<or> deep x" "x \<in> R \<or> x = self"
    "(g_id self, g_id x) \<in> (search_rel R deep (g_id self))\<^sup>*"
    using assms(1) hd_or_tl [of x result] by (auto simp: bfs_inv_def)
  have "(g_id self, g_id c) \<in> (search_rel R deep (g_id self))\<^sup>*" if "c \<in> set (kids x)" for c
  proof -
    have "(g_id x, g_id c) \<in> search_rel R deep (g_id self)"
      using that x(2,3) by (auto simp: kids search_rel_def)
    with x(4) show ?thesis by (rule rtrancl.rtrancl_into_rtrancl)
  qed
  moreover have "bfs_inv R deep self visited result queue" using assms(1) by (auto simp: bfs_inv_def)
  ultimately show "bfs_inv R deep self v r q"
    using visit_children_inv [OF run] by (auto simp: kids)
  have s: "set v = set visited \<union> g_id ` set (kids x)" "set queue \<subseteq> set q" "set result \<subseteq> set r"
    "\<forall>y \<in> set r. y \<in> set result \<or> y \<in> set (kids x) \<and> (deep y \<longrightarrow> y \<in> set q)"
    using visit_children_sets [OF run] by auto
  have "g_id ` set (kids y) \<subseteq> set v" if y: "y \<in> set r" "y \<notin> set q" "g_id y = g_id self \<or> deep y" for y
  proof (cases "g_id y = g_id x")
    case True
    then have "set (kids y) = set (kids x)" by (simp add: kids)
    then show ?thesis using s(1) by auto
  next
    case False
    show ?thesis
    proof (cases "y \<in> set result")
      case True
      have "y \<notin> set (x # queue)" using False y(2) s(2) by auto
      then have "g_id ` set (kids y) \<subseteq> set visited"
        using assms(2) y(3) True unfolding bfs_closed_def by blast
      then show ?thesis using s(1) by blast
    next
      case new: False
      then have "y \<in> set (kids x)" "\<not> deep y" using s(4) y by auto
      then have "g_id y = g_id self" using y(3) by simp
      moreover have "self \<in> set result" using assms(1) by (auto simp: bfs_inv_def)
      moreover have "distinct (map g_id r)" using \<open>bfs_inv R deep self v r q\<close> by (simp add: bfs_inv_def)
      ultimately have "y = self" using y(1) s(3) by (auto simp: distinct_map dest: inj_onD)
      with \<open>self \<in> set result\<close> new show ?thesis by simp
    qed
  qed
  then show "bfs_closed kids deep self v r q" by (simp add: bfs_closed_def)
qed

lemma bfs_correct:
  "(\<And>x. set (kids x) = {c \<in> R. g_parent c = Some (g_id x)}) \<Longrightarrow>
     bfs_inv R deep self visited result queue \<Longrightarrow> bfs_closed kids deep self visited result queue \<Longrightarrow>
     bfs kids deep n visited result queue = Some res \<Longrightarrow>
     \<exists>v. bfs_inv R deep self v res [] \<and> bfs_closed kids deep self v res []"
proof (induction kids deep n visited result queue rule: bfs.induct)
  case (3 kids deep n visited result x queue)
  obtain v r q where run: "visit_children deep (kids x) visited result queue = (v, r, q)"
    by (cases "visit_children deep (kids x) visited result queue")
  have "bfs_inv R deep self v r q \<and> bfs_closed kids deep self v r q"
    by (rule bfs_step [OF 3(3,4,2) run])
  then show ?case using 3 run by simp
qed auto

lemma bfs_ends:
  "(\<And>x. g_id ` set (kids x) \<subseteq> J) \<Longrightarrow> finite J \<Longrightarrow> length queue + card (J - set visited) \<le> n \<Longrightarrow>
     bfs kids deep n visited result queue \<noteq> None"
proof (induction kids deep n visited result queue rule: bfs.induct)
  case (3 kids deep n visited result x queue)
  obtain v r q where run: "visit_children deep (kids x) visited result queue = (v, r, q)"
    by (cases "visit_children deep (kids x) visited result queue")
  have "length q + card (J - set v) \<le> length queue + card (J - set visited)"
    by (rule visit_children_measure [OF run 3(3) 3(2)])
  then show ?case using 3 run by simp
qed auto

lemma search_complete:
  assumes "bfs_inv R deep self v res []" "bfs_closed kids deep self v res []" "inj_on g_id R"
    and kids: "\<And>x. set (kids x) = {c \<in> R. g_parent c = Some (g_id x)}"
  shows "g_id ` set res = {i. (g_id self, i) \<in> (search_rel R deep (g_id self))\<^sup>*}"
proof
  have inv: "set v = g_id ` set res" "res \<noteq> []" "hd res = self" "set (tl res) \<subseteq> R"
    using assms(1) by (auto simp: bfs_inv_def)
  show "g_id ` set res \<subseteq> {i. (g_id self, i) \<in> (search_rel R deep (g_id self))\<^sup>*}"
    using assms(1) inv(1) by (auto simp: bfs_inv_def)
  have "i \<in> set v" if "(g_id self, i) \<in> (search_rel R deep (g_id self))\<^sup>*" for i
    using that
  proof (induction rule: rtrancl_induct)
    case base
    show ?case using inv by (metis hd_in_set imageI)
  next
    case (step p i)
    then obtain x where x: "x \<in> set res" "g_id x = p" using inv(1) by auto
    obtain c where c: "c \<in> R" "g_parent c = Some p" "i = g_id c"
      and ok: "p = g_id self \<or> (\<exists>y \<in> R. g_id y = p \<and> deep y)"
      using step(2) by (auto simp: search_rel_def)
    have "g_id x = g_id self \<or> deep x"
    proof (cases "p = g_id self")
      case False
      then have "x \<in> R" using x hd_or_tl [OF x(1)] inv(3,4) by auto
      then show ?thesis using ok False x(2) assms(3) by (auto dest: inj_onD)
    qed (use x in simp)
    then have "g_id ` set (kids x) \<subseteq> set v"
      using assms(2) x(1) unfolding bfs_closed_def list.set by blast
    then show ?case using c x(2) by (auto simp: kids)
  qed
  then show "{i. (g_id self, i) \<in> (search_rel R deep (g_id self))\<^sup>*} \<subseteq> g_id ` set res" using inv(1) by auto
qed

lemma set_children:
  "orm_table T rows \<Longrightarrow> set (children T x db) = {c \<in> set_mset (rows db). g_parent c = Some (g_id x)}"
  by (simp add: children_def orm_table.select_set)

lemma unique_inj: "unique_ids R \<Longrightarrow> inj_on g_id (set_mset R)"
  using unique_same by (blast intro: inj_onI)

definition child_rel :: "'d gnode set \<Rightarrow> (nat \<times> nat) set" where
  "child_rel R = {(p, g_id c) | p c. c \<in> R \<and> g_parent c = Some p}"

lemma search_rel_all: "search_rel R (\<lambda>_. True) i0 \<subseteq> child_rel R"
  by (auto simp: search_rel_def child_rel_def)

lemma search_rel_unlimited:
  "(i0, i) \<in> (search_rel R (\<lambda>_. True) i0)\<^sup>* \<longleftrightarrow> (i0, i) \<in> (child_rel R)\<^sup>*"
proof
  assume "(i0, i) \<in> (child_rel R)\<^sup>*"
  then show "(i0, i) \<in> (search_rel R (\<lambda>_. True) i0)\<^sup>*"
  proof (induction rule: rtrancl_induct)
    case (step p i)
    have "p = i0 \<or> (\<exists>y \<in> R. g_id y = p)"
      using step(1) by (induction rule: rtrancl_induct) (auto simp: child_rel_def)
    then have "(p, i) \<in> search_rel R (\<lambda>_. True) i0"
      using step(2) by (auto simp: search_rel_def child_rel_def)
    with step(3) show ?case by (rule rtrancl.rtrancl_into_rtrancl)
  qed simp
qed (use search_rel_all rtrancl_mono in blast)

section \<open>Depth limits\<close>

definition depth_steps :: "'d gnode set \<Rightarrow> bool" where
  "depth_steps R \<longleftrightarrow> (\<forall>x \<in> R. \<forall>y \<in> R. g_parent y = Some (g_id x) \<longrightarrow> g_depth y = g_depth x + 1)"

lemma at_distance:
  assumes "inj_on g_id R" "depth_steps R" "self \<in> R"
  shows "(g_id self, p) \<in> child_rel R ^^ n \<Longrightarrow> \<exists>y \<in> R. g_id y = p \<and> g_depth y = g_depth self + int n"
proof (induction n arbitrary: p)
  case 0
  then show ?case using assms(3) by auto
next
  case (Suc n)
  then obtain q where q: "(g_id self, q) \<in> child_rel R ^^ n" "(q, p) \<in> child_rel R" by auto
  obtain x where x: "x \<in> R" "g_id x = q" "g_depth x = g_depth self + int n" using Suc.IH [OF q(1)] by auto
  obtain c where c: "c \<in> R" "g_parent c = Some q" "p = g_id c" using q(2) by (auto simp: child_rel_def)
  have "g_depth c = g_depth x + 1" using assms(2) x c unfolding depth_steps_def by blast
  with x c show ?case by auto
qed

lemma limited_search:
  assumes "inj_on g_id R" "depth_steps R" "self \<in> R" "0 \<le> m"
  shows "(g_id self, i) \<in> (search_rel R (within self (Some m)) (g_id self))\<^sup>*
    \<longleftrightarrow> (\<exists>n \<le> max 1 (nat m). (g_id self, i) \<in> child_rel R ^^ n)"
proof
  assume "(g_id self, i) \<in> (search_rel R (within self (Some m)) (g_id self))\<^sup>*"
  then show "\<exists>n \<le> max 1 (nat m). (g_id self, i) \<in> child_rel R ^^ n"
  proof (induction rule: rtrancl_induct)
    case base
    show ?case by (intro exI [of _ 0]) simp
  next
    case (step p i)
    have e: "(p, i) \<in> child_rel R" using step(2) unfolding search_rel_def child_rel_def by blast
    show ?case
    proof (cases "p = g_id self")
      case True
      then show ?thesis using e by (intro exI [of _ 1]) simp
    next
      case False
      obtain n where n: "(g_id self, p) \<in> child_rel R ^^ n" using step(3) by blast
      obtain y where y: "y \<in> R" "g_id y = p" "g_depth y < g_depth self + m"
        using step(2) False by (auto simp: search_rel_def within_def)
      obtain z where z: "z \<in> R" "g_id z = p" "g_depth z = g_depth self + int n"
        using at_distance [OF assms(1-3) n] by blast
      have "z = y" using inj_onD [OF assms(1), of z y] y z by simp
      then have "int n < m" using y z by simp
      then have "Suc n \<le> nat m" by linarith
      then have "Suc n \<le> max 1 (nat m)" by simp
      then show ?thesis using relpow_Suc_I [OF n e] by blast
    qed
  qed
next
  assume "\<exists>n \<le> max 1 (nat m). (g_id self, i) \<in> child_rel R ^^ n"
  then obtain n where "n \<le> max 1 (nat m)" "(g_id self, i) \<in> child_rel R ^^ n" by blast
  then show "(g_id self, i) \<in> (search_rel R (within self (Some m)) (g_id self))\<^sup>*"
  proof (induction n arbitrary: i)
    case (Suc n)
    then obtain p where p: "(g_id self, p) \<in> child_rel R ^^ n" "(p, i) \<in> child_rel R" by auto
    obtain y where y: "y \<in> R" "g_id y = p" "g_depth y = g_depth self + int n"
      using at_distance [OF assms(1-3) p(1)] by blast
    have "p = g_id self \<or> within self (Some m) y"
      using Suc.prems(1) y p(1) by (cases n) (auto simp: within_def)
    then have "(p, i) \<in> search_rel R (within self (Some m)) (g_id self)"
      using p(2) y by (auto simp: search_rel_def child_rel_def)
    moreover have "(g_id self, p) \<in> (search_rel R (within self (Some m)) (g_id self))\<^sup>*"
      using Suc.IH [OF _ p(1)] Suc.prems(1) by simp
    ultimately show ?case by (rule rtrancl.rtrancl_into_rtrancl [rotated])
  qed simp
qed

lemma card_set_mset_le: "card (set_mset M) \<le> size M"
  by (induction M) (auto simp: card_insert_if)

lemma subtree_search:
  assumes "orm_table T rows" "unique_ids (rows db)" "size (rows db) + 1 \<le> fuel"
  shows "\<exists>res. subtree T fuel max_depth self db = Some res \<and> hd res = self \<and> distinct (map g_id res)
    \<and> g_id ` set res
        = {i. (g_id self, i) \<in> (search_rel (set_mset (rows db)) (within self max_depth) (g_id self))\<^sup>*}"
proof -
  let ?R = "set_mset (rows db)"
  let ?kids = "\<lambda>x. children T x db"
  let ?deep = "within self max_depth"
  have kids: "set (?kids x) = {c \<in> ?R. g_parent c = Some (g_id x)}" for x by (rule set_children [OF assms(1)])
  have "card (g_id ` ?R - set [g_id self]) \<le> card (g_id ` ?R)" by (rule card_mono) auto
  also have "\<dots> \<le> card ?R" by (rule card_image_le) simp
  also have "\<dots> \<le> size (rows db)" by (rule card_set_mset_le)
  finally have "length [self] + card (g_id ` ?R - set [g_id self]) \<le> fuel" using assms(3) by simp
  moreover have "g_id ` set (?kids x) \<subseteq> g_id ` ?R" for x unfolding kids by blast
  ultimately have "subtree T fuel max_depth self db \<noteq> None"
    unfolding subtree_def by (intro bfs_ends [of _ "g_id ` ?R"]) simp_all
  then obtain res where res: "subtree T fuel max_depth self db = Some res" by blast
  have "bfs_inv ?R ?deep self [g_id self] [self] [self]" by (simp add: bfs_inv_def)
  moreover have "bfs_closed ?kids ?deep self [g_id self] [self] [self]" by (simp add: bfs_closed_def)
  ultimately obtain v where v: "bfs_inv ?R ?deep self v res []" "bfs_closed ?kids ?deep self v res []"
    using bfs_correct [OF kids] res unfolding subtree_def by blast
  then have "g_id ` set res = {i. (g_id self, i) \<in> (search_rel ?R ?deep (g_id self))\<^sup>*}"
    using search_complete [OF _ _ unique_inj [OF assms(2)] kids] by blast
  moreover have "hd res = self" "distinct (map g_id res)" using v(1) by (simp_all add: bfs_inv_def)
  ultimately show ?thesis using res by blast
qed

section \<open>Properties\<close>


definition family :: "unit gnode list" where
  "family = [node 1 None 0 1, node 2 (Some 1) 1 1, node 3 (Some 2) 2 0]"

lemma family_ok: "unique_ids (mset family)" "size (mset family) = 3" "depth_steps (set_mset (mset family))"
  "node 1 None 0 1 \<in># mset family" "node 3 (Some 2) 2 0 \<in># mset family"
  by (auto simp: family_def unique_ids_def depth_steps_def)


text \<open>C20: \<open>subtree()\<close> is the set of descendants: without a limit the search ends and returns the node
  itself first and then every node reachable over child links exactly once, on any table,
  cycles included.\<close>

theorem subtree_is_descendants:
  assumes "orm_table T rows" "unique_ids (rows db)" "size (rows db) + 1 \<le> fuel"
  shows "\<exists>res. subtree T fuel None self db = Some res \<and> hd res = self \<and> distinct (map g_id res)
    \<and> g_id ` set res = {i. (g_id self, i) \<in> (child_rel (set_mset (rows db)))\<^sup>*}"
  using subtree_search [OF assms, of None self]
  by (simp add: within_def [abs_def] search_rel_unlimited)

theorem subtree_is_descendants_witness:
  "\<exists>res. subtree list_table 4 None (node 1 None 0 1) family = Some res \<and> distinct (map g_id res)"
  using subtree_is_descendants [OF list_orm.orm_table_axioms family_ok(1), of 4 "node 1 None 0 1"]
    family_ok(2) by auto

text \<open>\<open>subtree(max_depth=m)\<close> on a table with consistent depths returns the nodes at distance at most
  m, but at least 1: with \<open>max_depth=0\<close> it returns the children too, because the limit only stops a
  child from being expanded, not from being returned.\<close>

theorem subtree_depth_limit:
  assumes "orm_table T rows" "unique_ids (rows db)" "size (rows db) + 1 \<le> fuel"
    and "depth_steps (set_mset (rows db))" "self \<in># rows db" "0 \<le> m"
  shows "\<exists>res. subtree T fuel (Some m) self db = Some res
    \<and> g_id ` set res = {i. \<exists>n \<le> max 1 (nat m). (g_id self, i) \<in> child_rel (set_mset (rows db)) ^^ n}"
  using subtree_search [OF assms(1-3), of "Some m" self]
    limited_search [OF unique_inj [OF assms(2)] assms(4-6)] by auto

theorem subtree_depth_limit_witness:
  "\<exists>res. subtree list_table 4 (Some 0) (node 1 None 0 1) family = Some res \<and> 2 \<in> g_id ` set res"
proof -
  have "(1, 2) \<in> child_rel (set_mset (mset family)) ^^ 1"
    by (auto simp: family_def child_rel_def intro!: exI [of _ "node 2 (Some 1) 1 1"])
  moreover have "\<exists>res. subtree list_table 4 (Some 0) (node 1 None 0 1) family = Some res
    \<and> g_id ` set res = {i. \<exists>n \<le> max 1 (nat 0). (g_id (node 1 None 0 1), i) \<in> child_rel (set_mset (mset family)) ^^ n}"
    by (rule subtree_depth_limit [OF list_orm.orm_table_axioms family_ok(1) _ family_ok(3,4)])
      (simp_all add: family_def)
  ultimately show ?thesis by fastforce
qed

end
