(* ===== verification/Hierarchy.thy ===== *)
theory Hierarchy
  imports Orm
begin

text \<open>
  \<open>models/hierarchy_model.py\<close>: nodes with a materialized ltree path next to \<open>parent_id\<close> and
  \<open>depth\<close>. A path is its dotted text; PostgreSQL's \<open>@>\<close> and \<open><@\<close> compare label sequences.
  \<open>SUBSTRING(s FROM n)\<close> of \<open>_PrefixReplace\<close> drops the first n - 1 characters. Queries that the
  code returns lazily are given by the rows they select; \<open>order_by("path")\<close> compares label
  sequences.
\<close>

record hnode =
  h_id :: nat
  h_path :: string
  h_name :: string
  h_parent :: "nat option"
  h_depth :: int
  h_namespace :: string

type_synonym 'db htable = "('db, hnode) table_ops"

text \<open>The attribute \<open>path\<close> of an instance: the list of labels after a read, a text when it was
  assigned, or \<open>None\<close>.\<close>

datatype path_value = P_labels "string list" | P_text string | P_none

definition path_to_str :: "path_value \<Rightarrow> string" where
  "path_to_str p = (case p of P_none \<Rightarrow> '''' | P_text s \<Rightarrow> s
     | P_labels ls \<Rightarrow> if ls = [] then '''' else join ''.'' ls)"

definition labels :: "string \<Rightarrow> string list" where
  "labels s = split_on (CHR ''.'') s"

definition descendant_of :: "string \<Rightarrow> string \<Rightarrow> bool" where
  "descendant_of anc p = prefix (labels anc) (labels p)"

definition ancestor_of :: "string \<Rightarrow> string \<Rightarrow> bool" where
  "ancestor_of desc p = prefix (labels p) (labels desc)"

definition prefix_replace :: "string \<Rightarrow> string \<Rightarrow> string \<Rightarrow> string" where
  "prefix_replace old_prefix new_prefix field =
     (let start = length old_prefix + 1 in new_prefix @ drop (start - 1) field)"

text \<open>\<open>__init_subclass__\<close>: a class body has a \<open>Meta\<close> or not; \<open>Meta\<close> may be abstract and may
  declare indexes.\<close>

record meta_class =
  meta_abstract :: bool
  meta_declares_indexes :: bool

definition init_subclass :: "meta_class option \<Rightarrow> exc + unit" where
  "init_subclass m = (case m of
       None \<Rightarrow> Inl NotImplementedError
     | Some c \<Rightarrow> if meta_abstract c then Inr ()
                 else if \<not> meta_declares_indexes c then Inl NotImplementedError else Inr ())"

definition is_root :: "hnode \<Rightarrow> bool" where
  "is_root n = (h_depth n = 0 \<and> h_parent n = None)"

definition path_str :: "path_value \<Rightarrow> string" where
  "path_str p = path_to_str p"

text \<open>\<open>__str__\<close> of an instance with this attribute \<open>path\<close>.\<close>

definition node_str :: "hnode \<Rightarrow> path_value \<Rightarrow> string" where
  "node_str n p = h_name n @ '' ('' @ path_to_str p @ '')''"

section \<open>Queries\<close>

definition by_path :: "hnode list \<Rightarrow> hnode list" where
  "by_path = sort_key (\<lambda>n. labels (h_path n))"

definition scope :: "hnode \<Rightarrow> string option \<Rightarrow> string" where
  "scope self ns = (case ns of None \<Rightarrow> h_namespace self | Some s \<Rightarrow> s)"

definition get_ancestors :: "'db htable \<Rightarrow> hnode \<Rightarrow> bool \<Rightarrow> string option \<Rightarrow> 'db \<Rightarrow> hnode list" where
  "get_ancestors T self include_self ns db =
     (if h_path self = '''' then []
      else by_path (t_select T (\<lambda>r. ancestor_of (h_path self) (h_path r) \<and> h_namespace r = scope self ns
             \<and> (include_self \<or> h_id r \<noteq> h_id self)) db))"

definition get_descendants :: "'db htable \<Rightarrow> hnode \<Rightarrow> bool \<Rightarrow> string option \<Rightarrow> 'db \<Rightarrow> hnode list" where
  "get_descendants T self include_self ns db =
     (if h_path self = '''' then []
      else by_path (t_select T (\<lambda>r. descendant_of (h_path self) (h_path r) \<and> h_namespace r = scope self ns
             \<and> (include_self \<or> h_id r \<noteq> h_id self)) db))"

definition get_children :: "'db htable \<Rightarrow> hnode \<Rightarrow> 'db \<Rightarrow> hnode list" where
  "get_children T self db = sort_key h_name (t_select T (\<lambda>r. h_parent r = Some (h_id self)) db)"

definition get_siblings :: "'db htable \<Rightarrow> hnode \<Rightarrow> bool \<Rightarrow> 'db \<Rightarrow> hnode list" where
  "get_siblings T self include_self db =
     (case h_parent self of None \<Rightarrow> []
      | Some p \<Rightarrow> sort_key h_name (t_select T (\<lambda>r. h_parent r = Some p \<and> h_depth r = h_depth self
          \<and> (include_self \<or> h_id r \<noteq> h_id self)) db))"

definition one_or_none :: "'a list \<Rightarrow> exc + 'a option" where
  "one_or_none xs = (case xs of [] \<Rightarrow> Inr None | [x] \<Rightarrow> Inr (Some x) | _ \<Rightarrow> Inl OperationalError)"

definition get_root :: "'db htable \<Rightarrow> hnode \<Rightarrow> 'db \<Rightarrow> exc + hnode option" where
  "get_root T self db =
     (if h_path self = '''' then Inr None
      else if CHR ''.'' \<notin> set (h_path self) then Inr (Some self)
      else one_or_none (t_select T (\<lambda>r. h_path r = hd (split_on (CHR ''.'') (h_path self))
             \<and> h_namespace r = h_namespace self) db))"

definition ancestor_paths :: "string \<Rightarrow> string list" where
  "ancestor_paths p = (let components = split_on (CHR ''.'') p
     in map (\<lambda>i. join ''.'' (take (i + 1) components)) [0 ..< length components])"

definition get_path_to_root :: "'db htable \<Rightarrow> hnode \<Rightarrow> 'db \<Rightarrow> hnode list" where
  "get_path_to_root T self db =
     (if h_path self = '''' then [self]
      else (let nodes = by_path (t_select T (\<lambda>r. h_path r \<in> set (ancestor_paths (h_path self))
                          \<and> h_namespace r = h_namespace self) db);
                res = (if \<not> list_ex (\<lambda>n. h_id n = h_id self) nodes then nodes @ [self] else nodes)
            in sort_key h_depth res))"

section \<open>Moving a subtree\<close>

definition move_checks :: "hnode \<Rightarrow> hnode \<Rightarrow> exc + unit" where
  "move_checks self new_parent =
     (if h_path self = '''' \<or> h_path new_parent = '''' then Inl HierarchyError
      else if h_namespace new_parent \<noteq> h_namespace self then Inl HierarchyError
      else if h_id new_parent = h_id self then Inl HierarchyError
      else if prefix (h_path self @ ''.'') (h_path new_parent) then Inl HierarchyError
      else Inr ())"

definition moved_self :: "hnode \<Rightarrow> hnode \<Rightarrow> hnode \<Rightarrow> hnode" where
  "moved_self self new_parent r =
     r\<lparr>h_path := h_path new_parent @ ''.'' @ h_name self, h_parent := Some (h_id new_parent),
       h_depth := h_depth new_parent + 1\<rparr>"

definition moved_descendant :: "hnode \<Rightarrow> hnode \<Rightarrow> hnode \<Rightarrow> hnode" where
  "moved_descendant self new_parent r =
     r\<lparr>h_path := prefix_replace (h_path self) (h_path new_parent @ ''.'' @ h_name self) (h_path r),
       h_depth := h_depth r + (h_depth new_parent - h_depth self + 1)\<rparr>"

text \<open>The two updates run in one transaction; \<open>refresh_from_db\<close> reads the row back.\<close>

definition move_to :: "'db htable \<Rightarrow> hnode \<Rightarrow> hnode \<Rightarrow> 'db \<Rightarrow> (exc + hnode) \<times> 'db" where
  "move_to T self new_parent db =
     (case move_checks self new_parent of
        Inl e \<Rightarrow> (Inl e, db)
      | Inr _ \<Rightarrow>
         (let db1 = snd (t_update T (\<lambda>r. h_id r = h_id self) (moved_self self new_parent) db);
              db2 = snd (t_update T (\<lambda>r. descendant_of (h_path self) (h_path r)
                       \<and> h_namespace r = h_namespace self \<and> h_id r \<noteq> h_id self)
                       (moved_descendant self new_parent) db1)
          in (case t_select T (\<lambda>r. h_id r = h_id self) db2 of
                [] \<Rightarrow> (Inl DoesNotExist, db) | r # _ \<Rightarrow> (Inr r, db2))))"

section \<open>Validation\<close>

datatype hierarchy_problem =
    No_path | Path_mismatch | Depth_mismatch | Parent_missing | Parent_not_prefix

definition validate_hierarchy :: "'db htable \<Rightarrow> hnode \<Rightarrow> 'db \<Rightarrow> exc + hierarchy_problem list" where
  "validate_hierarchy T self db =
     (let p = h_path self; components = split_on (CHR ''.'') p in
      if p = '''' then Inr [No_path]
      else (let errs = (if last components \<noteq> h_name self then [Path_mismatch] else [])
              @ (if h_depth self \<noteq> int (length components) - 1 then [Depth_mismatch] else [])
            in case h_parent self of
                 None \<Rightarrow> Inr errs
               | Some pid \<Rightarrow>
                   (case one_or_none (t_select T (\<lambda>r. h_id r = pid \<and> h_namespace r = h_namespace self) db) of
                      Inl e \<Rightarrow> Inl e
                    | Inr None \<Rightarrow> Inr (errs @ [Parent_missing])
                    | Inr (Some parent) \<Rightarrow>
                        Inr (errs @ (if h_path parent \<noteq> '''' \<and> \<not> prefix (h_path parent @ ''.'') p
                                     then [Parent_not_prefix] else [])))))"

section \<open>Paths as label sequences\<close>

lemma labels_not_Nil [simp]: "labels p \<noteq> []"
  by (simp add: labels_def)

lemma join_labels [simp]: "join ''.'' (labels p) = p"
  by (simp add: labels_def)

lemma labels_inj: "labels p = labels q \<longleftrightarrow> p = q"
  by (metis join_labels)

lemma split_on_dot: "split_on c (a @ c # b) = split_on c a @ split_on c b"
  by (induction a) (auto split: list.splits)

lemma labels_dot: "labels (a @ ''.'' @ b) = labels a @ labels b"
  by (simp add: labels_def split_on_dot)

lemma labels_dot': "labels (a @ CHR ''.'' # b) = labels a @ labels b"
  by (simp add: labels_def split_on_dot)

lemma label_single: "CHR ''.'' \<notin> set n \<Longrightarrow> labels n = [n]"
  by (simp add: labels_def split_on_free)

lemma labels_prefix_text:
  assumes "labels p = labels a @ rest" "rest \<noteq> []"
  shows "p = a @ ''.'' @ join ''.'' rest \<and> labels (join ''.'' rest) = rest"
proof -
  have "p = join ''.'' (labels a @ rest)" using assms(1) by (metis join_labels)
  also have "\<dots> = a @ ''.'' @ join ''.'' rest" using assms(2) by (simp add: join_append)
  finally have p: "p = a @ ''.'' @ join ''.'' rest" .
  then have "labels a @ labels (join ''.'' rest) = labels a @ rest" using assms(1) labels_dot by metis
  with p show ?thesis by simp
qed

lemma text_prefix_labels: "prefix (a @ ''.'') p \<longleftrightarrow> strict_prefix (labels a) (labels p)"
proof
  assume "prefix (a @ ''.'') p"
  then obtain b where "p = a @ ''.'' @ b" by (auto simp: prefix_def)
  then show "strict_prefix (labels a) (labels p)" by (simp add: labels_dot' strict_prefix_def)
next
  assume "strict_prefix (labels a) (labels p)"
  then obtain rest where "labels p = labels a @ rest" "rest \<noteq> []"
    by (auto simp: strict_prefix_def prefix_def)
  then show "prefix (a @ ''.'') p" using labels_prefix_text by (auto simp: prefix_def)
qed

lemma prefix_replace_labels:
  assumes "labels p = labels a @ rest" "rest \<noteq> []"
  shows "labels (prefix_replace a b p) = labels b @ rest"
  using labels_prefix_text [OF assms] by (simp add: prefix_replace_def labels_dot')

end
