(* ===== verification/Hierarchy_Move.thy ===== *)
theory Hierarchy_Move
  imports Hierarchy
begin

text \<open>
  The invariant that ties paths, names, depths and parents of a hierarchy together, its
  preservation by \<open>move_to\<close>, and what the validation and the path queries say of such a table.
\<close>

definition hier_row :: "hnode set \<Rightarrow> hnode \<Rightarrow> bool" where
  "hier_row R r \<longleftrightarrow> h_name r \<noteq> '''' \<and> last (labels (h_path r)) = h_name r
     \<and> h_depth r = int (length (labels (h_path r))) - 1
     \<and> (case h_parent r of None \<Rightarrow> length (labels (h_path r)) = 1
        | Some p \<Rightarrow> \<exists>q \<in> R. h_id q = p \<and> h_namespace q = h_namespace r
            \<and> labels (h_path r) = labels (h_path q) @ [h_name r])"

definition paths_unique :: "hnode set \<Rightarrow> bool" where
  "paths_unique R \<longleftrightarrow> (\<forall>r \<in> R. \<forall>s \<in> R. h_namespace r = h_namespace s \<longrightarrow> h_path r = h_path s \<longrightarrow> r = s)"

definition hier_ok :: "hnode set \<Rightarrow> bool" where
  "hier_ok R \<longleftrightarrow> (\<forall>r \<in> R. hier_row R r) \<and> paths_unique R"

lemma label_free: "x \<in> set (labels p) \<Longrightarrow> CHR ''.'' \<notin> set x"
  by (auto simp: labels_def dest: split_on_parts_free)

lemma hier_name_free: "hier_row R r \<Longrightarrow> labels (h_name r) = [h_name r]"
  using label_free [of "h_name r" "h_path r"] last_in_set [of "labels (h_path r)"]
  by (auto simp: hier_row_def label_single)

lemma hier_path_not_empty: "hier_row R r \<Longrightarrow> h_path r \<noteq> ''''"
  by (auto simp: hier_row_def labels_def)

text \<open>Every prefix of a path belongs to a node.\<close>

lemma ancestor_exists:
  assumes "hier_ok R"
  shows "r \<in> R \<Longrightarrow> prefix ls (labels (h_path r)) \<Longrightarrow> ls \<noteq> [] \<Longrightarrow>
     \<exists>a \<in> R. h_namespace a = h_namespace r \<and> labels (h_path a) = ls"
proof (induction "length (labels (h_path r))" arbitrary: r rule: less_induct)
  case less
  have row: "hier_row R r" using assms less.prems(1) by (simp add: hier_ok_def)
  show ?case
  proof (cases "ls = labels (h_path r)")
    case False
    then obtain rest where rest: "labels (h_path r) = ls @ rest" "rest \<noteq> []"
      using less.prems(2) by (auto simp: prefix_def)
    then have "length (labels (h_path r)) \<noteq> 1" using less.prems(3) by (cases ls; cases rest) auto
    then obtain q where q: "q \<in> R" "h_namespace q = h_namespace r"
      "labels (h_path r) = labels (h_path q) @ [h_name r]"
      using row by (auto simp: hier_row_def split: option.splits)
    have "prefix ls (labels (h_path q))"
      using less.prems(2) False by (simp add: q(3) prefix_snoc)
    then show ?thesis using less.hyps [of q] q less.prems(3) by auto
  qed (use less.prems in auto)
qed

section \<open>The row map of a move\<close>

definition in_subtree :: "hnode \<Rightarrow> hnode \<Rightarrow> bool" where
  "in_subtree self r \<longleftrightarrow> h_namespace r = h_namespace self \<and> prefix (labels (h_path self)) (labels (h_path r))"

definition move_row :: "hnode \<Rightarrow> hnode \<Rightarrow> hnode \<Rightarrow> hnode" where
  "move_row self np r =
     (if h_id r = h_id self then moved_self self np r
      else if in_subtree self r then moved_descendant self np r else r)"

definition target :: "hnode \<Rightarrow> hnode \<Rightarrow> string list" where
  "target self np = labels (h_path np) @ [h_name self]"

lemma move_row_simps [simp]:
  "h_id (move_row self np r) = h_id r" "h_namespace (move_row self np r) = h_namespace r"
  "h_name (move_row self np r) = h_name r"
  by (simp_all add: move_row_def moved_self_def moved_descendant_def)

text \<open>A table of this kind with distinct keys, and a move on it.\<close>

locale hier_table =
  fixes R :: "hnode set"
  assumes ok: "hier_ok R" and ids: "inj_on h_id R"

locale move = hier_table +
  fixes self np :: hnode
  assumes self: "self \<in> R" and np: "np \<in> R"
    and checks: "move_checks self np = Inr ()"
    and free: "\<And>r. r \<in> R \<Longrightarrow> h_namespace r = h_namespace self \<Longrightarrow> labels (h_path r) = target self np \<Longrightarrow> r = self"
begin

lemma row: "r \<in> R \<Longrightarrow> hier_row R r"
  using ok by (simp add: hier_ok_def)

lemma same_id: "r \<in> R \<Longrightarrow> h_id r = h_id self \<longleftrightarrow> r = self"
  using ids self by (auto dest: inj_onD)

lemma same_path: "r \<in> R \<Longrightarrow> s \<in> R \<Longrightarrow> h_namespace r = h_namespace s \<Longrightarrow>
    labels (h_path r) = labels (h_path s) \<Longrightarrow> r = s"
  using ok by (auto simp: hier_ok_def paths_unique_def labels_inj)

lemma np_outside: "h_namespace np = h_namespace self" "\<not> in_subtree self np" "h_id np \<noteq> h_id self"
proof -
  have c: "h_namespace np = h_namespace self" "h_id np \<noteq> h_id self"
    "\<not> strict_prefix (labels (h_path self)) (labels (h_path np))"
    using checks by (auto simp: move_checks_def text_prefix_labels split: if_splits)
  moreover have "labels (h_path self) \<noteq> labels (h_path np)" using c(1,2) same_path self np by metis
  ultimately show "h_namespace np = h_namespace self" "\<not> in_subtree self np" "h_id np \<noteq> h_id self"
    by (auto simp: in_subtree_def strict_prefix_def)
qed

lemma name_label: "labels (h_name self) = [h_name self]"
  using hier_name_free [OF row [OF self]] .

text \<open>Inside the subtree the old path is exchanged for the target, outside nothing changes.\<close>

lemma move_inside:
  assumes "r \<in> R" "in_subtree self r"
  obtains rest where "labels (h_path r) = labels (h_path self) @ rest"
    "labels (h_path (move_row self np r)) = target self np @ rest"
    "h_depth (move_row self np r) = h_depth r + int (length (target self np)) - int (length (labels (h_path self)))"
    "h_parent (move_row self np r) = (if rest = [] then Some (h_id np) else h_parent r)"
proof -
  obtain rest where rest: "labels (h_path r) = labels (h_path self) @ rest"
    using assms(2) by (auto simp: in_subtree_def prefix_def)
  have d: "h_depth np = int (length (labels (h_path np))) - 1" "h_depth self = int (length (labels (h_path self))) - 1"
    using row [OF np] row [OF self] by (auto simp: hier_row_def)
  show ?thesis
  proof (cases "rest = []")
    case True
    then have "r = self" using same_path [OF assms(1) self] assms(2) rest by (simp add: in_subtree_def)
    then show ?thesis
      using that [of "[]"] rest True d
      by (simp add: move_row_def moved_self_def labels_dot' target_def name_label)
  next
    case False
    then have "r \<noteq> self" using rest by auto
    then have "h_id r \<noteq> h_id self" using same_id [OF assms(1)] by simp
    moreover have "labels (prefix_replace (h_path self) (h_path np @ ''.'' @ h_name self) (h_path r)) = target self np @ rest"
      using prefix_replace_labels [OF rest False, of "h_path np @ ''.'' @ h_name self"]
      by (simp add: labels_dot' target_def name_label)
    ultimately show ?thesis
      using that [of rest] rest False d assms(2)
      by (simp add: move_row_def moved_descendant_def target_def)
  qed
qed

lemma move_outside: "r \<in> R \<Longrightarrow> \<not> in_subtree self r \<Longrightarrow> move_row self np r = r"
  using same_id [of r] by (auto simp: move_row_def in_subtree_def)

lemma target_not_inside: "prefix (labels (h_path self)) (target self np) \<Longrightarrow> labels (h_path self) = target self np"
  using np_outside by (auto simp: target_def in_subtree_def prefix_snoc)

text \<open>A node outside the subtree has no path at or below the target, unless the move is to the old
  place.\<close>

lemma outside_target:
  assumes "r \<in> R" "\<not> in_subtree self r" "h_namespace r = h_namespace self" "prefix (target self np) (labels (h_path r))"
  shows False
proof -
  obtain a where a: "a \<in> R" "h_namespace a = h_namespace r" "labels (h_path a) = target self np"
    using ancestor_exists [OF ok assms(1,4)] by (auto simp: target_def)
  then have "a = self" using free assms(3) by simp
  then show False using a assms by (auto simp: in_subtree_def)
qed

lemma moved_paths_unique: "paths_unique (move_row self np ` R)"
  unfolding paths_unique_def
proof (intro ballI impI)
  fix x y assume "x \<in> move_row self np ` R" "y \<in> move_row self np ` R"
  then obtain r s where r: "r \<in> R" "x = move_row self np r" and s: "s \<in> R" "y = move_row self np s" by auto
  assume "h_namespace x = h_namespace y" "h_path x = h_path y"
  then have ns: "h_namespace r = h_namespace s"
    and p: "labels (h_path (move_row self np r)) = labels (h_path (move_row self np s))"
    using r s by simp_all
  have cross: False if "in_subtree self r'" "\<not> in_subtree self s'" "r' \<in> R" "s' \<in> R"
    "h_namespace r' = h_namespace s'"
    "labels (h_path (move_row self np r')) = labels (h_path (move_row self np s'))" for r' s'
  proof -
    note a = that
    obtain rest where "labels (h_path (move_row self np r')) = target self np @ rest"
      using move_inside [OF a(3,1)] .
    then have "prefix (target self np) (labels (h_path s'))"
      using a(6) move_outside [OF a(4,2)] by (auto simp: prefix_def)
    then show False using outside_target [OF a(4,2)] a(1,5) by (simp add: in_subtree_def)
  qed
  have "r = s"
  proof (cases "in_subtree self r")
    case True
    then have s_in: "in_subtree self s" using cross [OF True _ r(1) s(1) ns p] by blast
    obtain rest where a: "labels (h_path r) = labels (h_path self) @ rest"
      "labels (h_path (move_row self np r)) = target self np @ rest" using move_inside [OF r(1) True] .
    obtain rest' where b: "labels (h_path s) = labels (h_path self) @ rest'"
      "labels (h_path (move_row self np s)) = target self np @ rest'" using move_inside [OF s(1) s_in] .
    show ?thesis using same_path [OF r(1) s(1) ns] a b p by simp
  next
    case False
    then have "\<not> in_subtree self s" using cross [OF _ False s(1) r(1) ns [symmetric] p [symmetric]] by blast
    then show ?thesis using same_path [OF r(1) s(1) ns] p move_outside r s False by simp
  qed
  then show "x = y" using r s by simp
qed

lemma moved_row_ok:
  assumes "r \<in> R"
  shows "hier_row (move_row self np ` R) (move_row self np r)"
proof (cases "in_subtree self r")
  case True
  obtain rest where m: "labels (h_path r) = labels (h_path self) @ rest"
    "labels (h_path (move_row self np r)) = target self np @ rest"
    "h_depth (move_row self np r) = h_depth r + int (length (target self np)) - int (length (labels (h_path self)))"
    "h_parent (move_row self np r) = (if rest = [] then Some (h_id np) else h_parent r)"
    using move_inside [OF assms True] .
  have old: "h_name r \<noteq> ''''" "last (labels (h_path r)) = h_name r" "h_depth r = int (length (labels (h_path r))) - 1"
    using row [OF assms] by (auto simp: hier_row_def)
  show ?thesis
  proof (cases "rest = []")
    case True
    then have "r = self" using same_path [OF assms self] m(1) \<open>in_subtree self r\<close> by (simp add: in_subtree_def)
    have "move_row self np np = np" by (rule move_outside [OF np np_outside(2)])
    then show ?thesis
      using m old True \<open>r = self\<close> np_outside(1) np
      by (auto simp: hier_row_def target_def intro!: bexI [of _ np])
  next
    case False
    obtain x where x: "rest = x @ [h_name r]"
      using old(2) m(1) False by (metis append_butlast_last_id last_appendR)
    have "length (labels (h_path r)) \<noteq> 1" using m(1) False by (cases "labels (h_path self)"; cases rest) auto
    then obtain p q where q: "h_parent r = Some p" "q \<in> R" "h_id q = p" "h_namespace q = h_namespace r"
      "labels (h_path r) = labels (h_path q) @ [h_name r]"
      using row [OF assms] by (auto simp: hier_row_def split: option.splits)
    then have lq: "labels (h_path q) = labels (h_path self) @ x" using m(1) x by simp
    then have "in_subtree self q" using True q(4) by (simp add: in_subtree_def)
    then obtain rq where "labels (h_path q) = labels (h_path self) @ rq"
      "labels (h_path (move_row self np q)) = target self np @ rq"
      using move_inside [OF q(2)] by metis
    then have "labels (h_path (move_row self np q)) = target self np @ x" using lq by simp
    then show ?thesis
      using m old False x q by (auto simp: hier_row_def intro!: bexI [of _ q])
  qed
next
  case False
  have r: "hier_row R r" by (rule row [OF assms])
  have "\<exists>q' \<in> move_row self np ` R. h_id q' = p \<and> h_namespace q' = h_namespace r
      \<and> labels (h_path r) = labels (h_path q') @ [h_name r]" if p: "h_parent r = Some p" for p
  proof -
    obtain q where q: "q \<in> R" "h_id q = p" "h_namespace q = h_namespace r"
      "labels (h_path r) = labels (h_path q) @ [h_name r]"
      using r p by (auto simp: hier_row_def)
    then have "\<not> in_subtree self q" using False by (auto simp: in_subtree_def)
    then have "move_row self np q = q" by (rule move_outside [OF q(1)])
    then show ?thesis using q by (metis imageI)
  qed
  then show ?thesis
    using r unfolding move_outside [OF assms False]
    by (auto simp: hier_row_def split: option.splits)
qed

theorem moved_ok: "hier_ok (move_row self np ` R)"
  using moved_row_ok moved_paths_unique by (auto simp: hier_ok_def)

end

section \<open>The operation\<close>

lemma move_rows:
  assumes "orm_table T rows" "keyed h_id (rows db)" "self \<in># rows db" "move_checks self np = Inr ()"
  shows "\<exists>db'. move_to T self np db = (Inr (moved_self self np self), db')
    \<and> rows db' = image_mset (move_row self np) (rows db)"
proof -
  let ?db1 = "snd (t_update T (\<lambda>r. h_id r = h_id self) (moved_self self np) db)"
  let ?db2 = "snd (t_update T (\<lambda>r. descendant_of (h_path self) (h_path r)
                       \<and> h_namespace r = h_namespace self \<and> h_id r \<noteq> h_id self)
                       (moved_descendant self np) ?db1)"
  have rows2: "rows ?db2 = image_mset (move_row self np) (rows db)"
    unfolding orm_table.update_snd [OF assms(1)] multiset.map_comp comp_def
    by (rule image_mset_cong) (auto simp: move_row_def moved_self_def in_subtree_def descendant_of_def)
  then have "keyed h_id (rows ?db2)" using assms(2) by (simp add: keyed_image)
  moreover have "moved_self self np self \<in># rows ?db2"
    unfolding rows2 using assms(3) by (auto simp: move_row_def intro!: rev_image_eqI [of self])
  ultimately have "t_select T (\<lambda>x. h_id x = h_id (moved_self self np self)) ?db2 = [moved_self self np self]"
    by (rule orm_table.select_single [OF assms(1)])
  then have "t_select T (\<lambda>x. h_id x = h_id self) ?db2 = [moved_self self np self]"
    by (simp add: moved_self_def)
  then show ?thesis using rows2 assms(4) by (simp add: move_to_def Let_def)
qed

definition small_tree :: "hnode list" where
  "small_tree =
    [\<lparr>h_id = 1, h_path = ''r'', h_name = ''r'', h_parent = None, h_depth = 0, h_namespace = ''n''\<rparr>,
     \<lparr>h_id = 2, h_path = ''r.a'', h_name = ''a'', h_parent = Some 1, h_depth = 1, h_namespace = ''n''\<rparr>,
     \<lparr>h_id = 3, h_path = ''r.a.r'', h_name = ''r'', h_parent = Some 2, h_depth = 2, h_namespace = ''n''\<rparr>,
     \<lparr>h_id = 4, h_path = ''r.b'', h_name = ''b'', h_parent = Some 1, h_depth = 1, h_namespace = ''n''\<rparr>]"

lemma small_tree_ok: "hier_ok (set small_tree)" "keyed h_id (mset small_tree)"
  "move_checks (small_tree ! 1) (small_tree ! 3) = Inr ()"
  "\<forall>r \<in> set small_tree. labels (h_path r) = target (small_tree ! 1) (small_tree ! 3) \<longrightarrow> r = small_tree ! 1"
proof -
  have l: "labels ''r'' = [''r'']" "labels ''r.a'' = [''r'', ''a'']" "labels ''r.a.r'' = [''r'', ''a'', ''r'']"
    "labels ''r.b'' = [''r'', ''b'']" by (simp_all add: labels_def)
  show "hier_ok (set small_tree)"
    by (simp add: hier_ok_def paths_unique_def hier_row_def small_tree_def l)
  show "keyed h_id (mset small_tree)" by (simp add: keyed_def small_tree_def)
  show "move_checks (small_tree ! 1) (small_tree ! 3) = Inr ()"
    by (simp add: move_checks_def small_tree_def)
  show "\<forall>r \<in> set small_tree. labels (h_path r) = target (small_tree ! 1) (small_tree ! 3) \<longrightarrow> r = small_tree ! 1"
    by (simp add: small_tree_def target_def l)
qed

interpretation small_move: move "set small_tree" "small_tree ! 1" "small_tree ! 3"
proof
  show "inj_on h_id (set small_tree)" using keyed_inj [OF small_tree_ok(2)] by simp
qed (use small_tree_ok in \<open>auto simp: small_tree_def\<close>)

section \<open>Properties\<close>

text \<open>C16: \<open>move_to\<close> keeps the hierarchy: on a table where every node's name, depth and path fit its
  parent's and no two nodes of a namespace share a path, moving a node under a parent that the
  checks accept, to a path no other node has, succeeds, gives every node of the subtree the path
  below the new parent with the old prefix exchanged once, and leaves a table of the same kind;
  the returned instance is the moved row.\<close>

theorem move_to_keeps_hierarchy:
  assumes "orm_table T rows" "keyed h_id (rows db)" "hier_ok (set_mset (rows db))"
    and "self \<in># rows db" "np \<in># rows db" "move_checks self np = Inr ()"
    and "\<And>r. r \<in># rows db \<Longrightarrow> h_namespace r = h_namespace self \<Longrightarrow> labels (h_path r) = target self np \<Longrightarrow> r = self"
  shows "\<exists>db'. move_to T self np db = (Inr (moved_self self np self), db')
    \<and> rows db' = image_mset (move_row self np) (rows db)
    \<and> hier_ok (set_mset (rows db'))
    \<and> (\<forall>r \<in># rows db. \<not> in_subtree self r \<longrightarrow> r \<in># rows db')
    \<and> (\<forall>r \<in># rows db. \<forall>rest. h_namespace r = h_namespace self \<longrightarrow> labels (h_path r) = labels (h_path self) @ rest \<longrightarrow>
         labels (h_path (move_row self np r)) = target self np @ rest)"
proof -
  have m: "move (set_mset (rows db)) self np"
    by unfold_locales (use assms keyed_inj in auto)
  obtain db' where db': "move_to T self np db = (Inr (moved_self self np self), db')"
    "rows db' = image_mset (move_row self np) (rows db)"
    using move_rows [OF assms(1,2,4,6)] by blast
  have "hier_ok (set_mset (rows db'))" using move.moved_ok [OF m] db'(2) by simp
  moreover have "r \<in># rows db'" if "r \<in># rows db" "\<not> in_subtree self r" for r
    using move.move_outside [OF m that] that(1) db'(2) by (metis in_image_mset imageI)
  moreover have "labels (h_path (move_row self np r)) = target self np @ rest"
    if "r \<in># rows db" "h_namespace r = h_namespace self" "labels (h_path r) = labels (h_path self) @ rest" for r rest
  proof -
    have "in_subtree self r" using that by (simp add: in_subtree_def)
    then show ?thesis using move.move_inside [OF m that(1)] that(3) by (metis same_append_eq)
  qed
  ultimately show ?thesis using db' by blast
qed

theorem move_to_keeps_hierarchy_witness:
  "\<exists>db'. move_to list_table (small_tree ! 1) (small_tree ! 3) small_tree
      = (Inr (moved_self (small_tree ! 1) (small_tree ! 3) (small_tree ! 1)), db') \<and> hier_ok (set_mset (mset db'))"
  using move_to_keeps_hierarchy [OF list_orm.orm_table_axioms small_tree_ok(2), of "small_tree ! 1" "small_tree ! 3"]
    small_tree_ok by (force simp: small_tree_def)

text \<open>Without that condition \<open>move_to\<close> makes two nodes share a path: it does not check whether the new
  parent already has a child of that name.\<close>

theorem move_to_can_duplicate_path:
  assumes "orm_table T rows" "keyed h_id (rows db)" "self \<in># rows db" "move_checks self np = Inr ()"
    and "r \<in># rows db" "h_id r \<noteq> h_id self" "\<not> in_subtree self r" "h_path r = h_path np @ ''.'' @ h_name self"
    and "h_namespace r = h_namespace self"
  shows "\<exists>db' n. move_to T self np db = (Inr n, db') \<and> \<not> paths_unique (set_mset (rows db'))"
proof -
  obtain db' where db': "move_to T self np db = (Inr (moved_self self np self), db')"
    "rows db' = image_mset (move_row self np) (rows db)"
    using move_rows [OF assms(1-4)] by blast
  have "move_row self np r = r" using assms(6,7) by (simp add: move_row_def)
  then have "r \<in># rows db'" using assms(5) db'(2) by (metis in_image_mset imageI)
  moreover have "moved_self self np self \<in># rows db'"
    using assms(3) db'(2) by (auto simp: move_row_def intro!: rev_image_eqI [of self])
  moreover have "h_path (moved_self self np self) = h_path r" "h_namespace (moved_self self np self) = h_namespace r"
    "h_id (moved_self self np self) \<noteq> h_id r"
    using assms(6,8,9) by (auto simp: moved_self_def)
  ultimately have "\<not> paths_unique (set_mset (rows db'))" by (metis paths_unique_def)
  with db' show ?thesis by blast
qed

definition twin_tree :: "hnode list" where
  "twin_tree = small_tree @
    [\<lparr>h_id = 5, h_path = ''r.b.a'', h_name = ''a'', h_parent = Some 4, h_depth = 2, h_namespace = ''n''\<rparr>]"

theorem move_to_can_duplicate_path_witness:
  "\<exists>db' n. move_to list_table (twin_tree ! 1) (twin_tree ! 3) twin_tree = (Inr n, db')
     \<and> \<not> paths_unique (set_mset (mset db'))"
  by (rule move_to_can_duplicate_path [OF list_orm.orm_table_axioms, of _ _ _ "twin_tree ! 4"])
    (simp_all add: twin_tree_def small_tree_def keyed_def move_checks_def in_subtree_def labels_def)

end
