(* ===== verification/Cte.thy ===== *)
theory Cte
  imports Quote
begin

text \<open>
  \<open>WITH RECURSIVE ... UNION\<close> as PostgreSQL evaluates it: the result starts as the rows of the
  anchor without duplicates; the recursive term is evaluated on the working table, rows already in
  the result are dropped, the rest becomes the next working table, until it is empty. The number
  of rounds is the fuel. Then the hop-wise graph search that the queries of \<open>expressions/\<close> share:
  nodes, edges, an edge-to-node join condition, an optional edge type, a hop limit, and the
  array of visited ids that keeps paths simple.
\<close>

section \<open>Evaluation of the recursive union\<close>

fun rec_union :: "('r \<Rightarrow> 'r list) \<Rightarrow> nat \<Rightarrow> 'r list \<Rightarrow> 'r list \<Rightarrow> 'r list option" where
  "rec_union step fuel [] result = Some result"
| "rec_union step 0 (w # working) result = None"
| "rec_union step (Suc n) (w # working) result =
     (let new = filter (\<lambda>r. r \<notin> set result) (remdups (concat (map step (w # working))))
      in rec_union step n new (result @ new))"

definition rec_cte :: "('r \<Rightarrow> 'r list) \<Rightarrow> nat \<Rightarrow> 'r list \<Rightarrow> 'r list option" where
  "rec_cte step fuel anchor = rec_union step fuel (remdups anchor) (remdups anchor)"

definition derives :: "('r \<Rightarrow> 'r list) \<Rightarrow> ('r \<times> 'r) set" where
  "derives step = {(x, y). y \<in> set (step x)}"

lemma rec_union_sound:
  "rec_union step n working result = Some out \<Longrightarrow> set working \<subseteq> set result \<Longrightarrow>
     set result \<subseteq> set out \<and> (\<forall>y \<in> set out. \<exists>x \<in> set result. (x, y) \<in> (derives step)\<^sup>*)"
proof (induction step n working result rule: rec_union.induct)
  case (3 step n w working result)
  let ?new = "filter (\<lambda>r. r \<notin> set result) (remdups (concat (map step (w # working))))"
  have run: "rec_union step n ?new (result @ ?new) = Some out" using 3 by (simp add: Let_def)
  have ih: "set (result @ ?new) \<subseteq> set out"
    "\<And>y. y \<in> set out \<Longrightarrow> \<exists>x \<in> set (result @ ?new). (x, y) \<in> (derives step)\<^sup>*"
    using 3(1) [OF refl run] by auto
  have new: "\<exists>x \<in> set result. (x, y) \<in> derives step" if "y \<in> set ?new" for y
    using that 3(3) by (auto simp: derives_def)
  have "\<exists>x \<in> set result. (x, y) \<in> (derives step)\<^sup>*" if y: "y \<in> set out" for y
  proof -
    obtain x where x: "x \<in> set (result @ ?new)" "(x, y) \<in> (derives step)\<^sup>*" using ih(2) [OF y] by blast
    show ?thesis
    proof (cases "x \<in> set result")
      case False
      then obtain z where "z \<in> set result" "(z, x) \<in> derives step" using x(1) new by auto
      with x(2) show ?thesis by (meson converse_rtrancl_into_rtrancl)
    qed (use x in blast)
  qed
  with ih(1) show ?case by auto
qed auto

lemma rec_union_closed:
  "rec_union step n working result = Some out \<Longrightarrow>
     (\<forall>x \<in> set result. x \<notin> set working \<longrightarrow> set (step x) \<subseteq> set result) \<Longrightarrow> set working \<subseteq> set result \<Longrightarrow>
     (\<forall>x \<in> set out. set (step x) \<subseteq> set out)"
proof (induction step n working result rule: rec_union.induct)
  case (3 step n w working result)
  let ?new = "filter (\<lambda>r. r \<notin> set result) (remdups (concat (map step (w # working))))"
  have run: "rec_union step n ?new (result @ ?new) = Some out" using 3 by (simp add: Let_def)
  have "\<forall>x \<in> set (result @ ?new). x \<notin> set ?new \<longrightarrow> set (step x) \<subseteq> set (result @ ?new)"
  proof (intro ballI impI)
    fix x assume "x \<in> set (result @ ?new)" "x \<notin> set ?new"
    then have x: "x \<in> set result" by (metis UnE set_append)
    show "set (step x) \<subseteq> set (result @ ?new)"
    proof (cases "x \<in> set (w # working)")
      case False
      then show ?thesis using 3(3) x by auto
    qed auto
  qed
  then show ?case using 3(1) [OF refl run] by auto
qed auto

lemma rec_union_ends:
  "(\<And>x y. y \<in> set (step x) \<Longrightarrow> m y < m x) \<Longrightarrow> (\<And>x. x \<in> set working \<Longrightarrow> m x < n) \<Longrightarrow>
     rec_union step n working result \<noteq> None"
proof (induction step n working result rule: rec_union.induct)
  case (3 step n w working result)
  let ?new = "filter (\<lambda>r. r \<notin> set result) (remdups (concat (map step (w # working))))"
  have "m x < n" if new: "x \<in> set ?new" for x
  proof -
    obtain y where y: "y \<in> set (w # working)" "x \<in> set (step y)" using new by auto
    have "m x < m y" by (rule 3(2) [OF y(2)])
    moreover have "m y < Suc n" by (rule 3(3) [OF y(1)])
    ultimately show ?thesis by simp
  qed
  then have "rec_union step n ?new (result @ ?new) \<noteq> None" using 3(1) [OF refl 3(2)] by blast
  then show ?case by (simp add: Let_def)
qed auto

theorem rec_cte_set:
  assumes "\<And>x y. y \<in> set (step x) \<Longrightarrow> m y < m x" "\<And>x. x \<in> set anchor \<Longrightarrow> m x < n"
  obtains out where "rec_cte step n anchor = Some out"
    "set out = {y. \<exists>x \<in> set anchor. (x, y) \<in> (derives step)\<^sup>*}"
proof -
  obtain out where out: "rec_cte step n anchor = Some out"
    using rec_union_ends [of step m "remdups anchor" n] assms by (force simp: rec_cte_def)
  have sound: "set anchor \<subseteq> set out" "\<forall>y \<in> set out. \<exists>x \<in> set anchor. (x, y) \<in> (derives step)\<^sup>*"
    using rec_union_sound [of step n "remdups anchor" "remdups anchor" out] out by (auto simp: rec_cte_def)
  have closed: "\<forall>x \<in> set out. set (step x) \<subseteq> set out"
    using rec_union_closed [of step n "remdups anchor" "remdups anchor" out] out by (auto simp: rec_cte_def)
  have "y \<in> set out" if "x \<in> set anchor" "(x, y) \<in> (derives step)\<^sup>*" for x y
    using that(2) by (induction rule: rtrancl_induct) (use sound(1) that(1) closed in \<open>auto simp: derives_def\<close>)
  then have "set out = {y. \<exists>x \<in> set anchor. (x, y) \<in> (derives step)\<^sup>*}" using sound(2) by blast
  with out that show ?thesis by blast
qed

section \<open>Bound parameters\<close>

text \<open>The values bound to \<open>$1\<close>, \<open>$2\<close>, ... of a statement, and how the statement reads them. The
  edge-type fragment names its own placeholder.\<close>

datatype qparam = PInt int | PText string

definition bound_int :: "qparam list \<Rightarrow> nat \<Rightarrow> int" where
  "bound_int params k = (case params ! (k - 1) of PInt i \<Rightarrow> i | PText _ \<Rightarrow> 0)"

definition bound_text :: "qparam list \<Rightarrow> nat \<Rightarrow> string" where
  "bound_text params k = (case params ! (k - 1) of PText t \<Rightarrow> t | PInt _ \<Rightarrow> [])"

definition placeholder :: "string \<Rightarrow> nat" where
  "placeholder sql = nat_of_digits (takeWhile is_digit (drop 1 (dropWhile (\<lambda>c. c \<noteq> CHR ''$'') sql)))"

definition clause_type :: "string \<Rightarrow> qparam list \<Rightarrow> string option" where
  "clause_type clause params = (if clause = [] then None else Some (bound_text params (placeholder clause)))"

lemma placeholder_et: "placeholder (''AND e.edge_type = $'' @ show_int (int k)) = k"
proof -
  have "takeWhile is_digit (show_nat k) = show_nat k" using show_nat_digits by (metis takeWhile_eq_all_conv)
  then show ?thesis by (simp add: placeholder_def show_int_def del: takeWhile_eq_all_conv)
qed

lemma clause_type_et:
  assumes "length pre + 1 = k"
  shows "clause_type (fst (et_clause et (int k))) (pre @ map PText (snd (et_clause et (int k))) @ post) = et"
proof (cases et)
  case (Some t)
  then show ?thesis using assms
    by (auto simp: clause_type_def et_clause_def placeholder_et [simplified] bound_text_def nth_append)
qed (simp add: clause_type_def et_clause_def)

section \<open>Graphs and hops\<close>

record vnode =
  v_id :: int
  v_name :: string
  v_depth :: int

text \<open>The two foreign keys of an edge are named by the caller, so an edge row gives the value of a
  column by name.\<close>

record edge =
  e_id :: int
  e_fk :: "string \<Rightarrow> int"
  e_bidirectional :: bool
  e_type :: string

record graph =
  g_nodes :: "vnode list"
  g_edges :: "edge list"
  g_edge_fields :: "string list"

text \<open>A row: the node reached, the array of ids from the start, the hop number, and what else the
  query carries along.\<close>

record 'x hop_row =
  r_node :: vnode
  r_ids :: "int list"
  r_hops :: nat
  r_extra :: 'x

definition type_ok :: "string option \<Rightarrow> edge \<Rightarrow> bool" where
  "type_ok et e = (case et of None \<Rightarrow> True | Some t \<Rightarrow> e_type e = t)"

definition hop_step ::
  "graph \<Rightarrow> (edge \<Rightarrow> int \<Rightarrow> int \<Rightarrow> bool) \<Rightarrow> string option \<Rightarrow> int \<Rightarrow> (vnode \<Rightarrow> 'x \<Rightarrow> 'x)
     \<Rightarrow> 'x hop_row \<Rightarrow> 'x hop_row list" where
  "hop_step g joins et limit carry row =
     [\<lparr>r_node = n, r_ids = r_ids row @ [v_id n], r_hops = r_hops row + 1, r_extra = carry n (r_extra row)\<rparr>.
        e \<leftarrow> g_edges g, n \<leftarrow> g_nodes g,
        joins e (v_id (r_node row)) (v_id n) \<and> int (r_hops row) < limit \<and> type_ok et e
          \<and> v_id n \<notin> set (r_ids row)]"

definition hop_anchor :: "graph \<Rightarrow> (vnode \<Rightarrow> 'x) \<Rightarrow> int \<Rightarrow> 'x hop_row list" where
  "hop_anchor g start i =
     [\<lparr>r_node = n, r_ids = [v_id n], r_hops = 0, r_extra = start n\<rparr>. n \<leftarrow> g_nodes g, v_id n = i]"

text \<open>One hop of the search, as a relation on ids.\<close>

definition arcs :: "graph \<Rightarrow> (edge \<Rightarrow> int \<Rightarrow> int \<Rightarrow> bool) \<Rightarrow> string option \<Rightarrow> (int \<times> int) set" where
  "arcs g joins et = {(u, v). v \<in> v_id ` set (g_nodes g)
     \<and> (\<exists>e \<in> set (g_edges g). type_ok et e \<and> joins e u v)}"

definition simple_path :: "(int \<times> int) set \<Rightarrow> int \<Rightarrow> int list \<Rightarrow> bool" where
  "simple_path A a xs \<longleftrightarrow> xs \<noteq> [] \<and> hd xs = a \<and> distinct xs \<and> successively (\<lambda>u v. (u, v) \<in> A) xs"

lemma set_hop_step:
  "set (hop_step g joins et limit carry row) =
     {\<lparr>r_node = n, r_ids = r_ids row @ [v_id n], r_hops = r_hops row + 1, r_extra = carry n (r_extra row)\<rparr> | n.
        n \<in> set (g_nodes g) \<and> (\<exists>e \<in> set (g_edges g). type_ok et e \<and> joins e (v_id (r_node row)) (v_id n))
        \<and> int (r_hops row) < limit \<and> v_id n \<notin> set (r_ids row)}"
  by (auto simp: hop_step_def split: if_splits)

lemma set_hop_anchor:
  "set (hop_anchor g start i) =
     {\<lparr>r_node = n, r_ids = [v_id n], r_hops = 0, r_extra = start n\<rparr> | n. n \<in> set (g_nodes g) \<and> v_id n = i}"
  by (auto simp: hop_anchor_def split: if_splits)

section \<open>The rows of a hop search are the simple paths\<close>

text \<open>Every row records a list of nodes: their ids, the last of them, one hop less than nodes, and
  the carried value folded over them.\<close>

definition records :: "graph \<Rightarrow> (vnode \<Rightarrow> 'x) \<Rightarrow> (vnode \<Rightarrow> 'x \<Rightarrow> 'x) \<Rightarrow> 'x hop_row \<Rightarrow> vnode list \<Rightarrow> bool" where
  "records g start carry r ns \<longleftrightarrow> ns \<noteq> [] \<and> set ns \<subseteq> set (g_nodes g) \<and> r_ids r = map v_id ns
     \<and> last ns = r_node r \<and> r_hops r + 1 = length ns \<and> r_extra r = fold carry (tl ns) (start (hd ns))"

definition row_ok :: "graph \<Rightarrow> (vnode \<Rightarrow> 'x) \<Rightarrow> (vnode \<Rightarrow> 'x \<Rightarrow> 'x) \<Rightarrow> 'x hop_row \<Rightarrow> bool" where
  "row_ok g start carry r \<longleftrightarrow> (\<exists>ns. records g start carry r ns)"

lemma row_okD:
  assumes "row_ok g start carry r"
  shows "r_node r \<in> set (g_nodes g)" "r_ids r \<noteq> []" "last (r_ids r) = v_id (r_node r)"
    "r_hops r + 1 = length (r_ids r)"
proof -
  obtain ns where ns: "records g start carry r ns" using assms by (auto simp: row_ok_def)
  then show "r_node r \<in> set (g_nodes g)" unfolding records_def by (metis last_in_set subsetD)
  show "r_ids r \<noteq> []" "last (r_ids r) = v_id (r_node r)" "r_hops r + 1 = length (r_ids r)"
    using ns by (auto simp: records_def last_map)
qed

lemma records_anchor:
  "n \<in> set (g_nodes g) \<Longrightarrow>
     records g start carry \<lparr>r_node = n, r_ids = [v_id n], r_hops = 0, r_extra = start n\<rparr> [n]"
  by (simp add: records_def)

lemma records_snoc:
  "records g start carry r ns \<Longrightarrow> n \<in> set (g_nodes g) \<Longrightarrow>
     records g start carry
       \<lparr>r_node = n, r_ids = r_ids r @ [v_id n], r_hops = r_hops r + 1, r_extra = carry n (r_extra r)\<rparr> (ns @ [n])"
  by (cases ns) (auto simp: records_def)

lemma simple_path_snoc:
  assumes "simple_path A a xs"
  shows "simple_path A a (xs @ [v]) \<longleftrightarrow> (last xs, v) \<in> A \<and> v \<notin> set xs"
  using assms by (auto simp: simple_path_def successively_append_iff)

lemma derived_rows:
  assumes "a0 \<in> set (hop_anchor g start i)" "(a0, r) \<in> (derives (hop_step g joins et limit carry))\<^sup>*"
  shows "row_ok g start carry r \<and> simple_path (arcs g joins et) i (r_ids r) \<and> length (r_ids r) \<le> nat limit + 1"
  using assms(2)
proof (induction rule: rtrancl_induct)
  case base
  obtain n where n: "n \<in> set (g_nodes g)" "v_id n = i"
    "a0 = \<lparr>r_node = n, r_ids = [v_id n], r_hops = 0, r_extra = start n\<rparr>"
    using assms(1) unfolding set_hop_anchor by blast
  have "row_ok g start carry a0" unfolding row_ok_def n(3) by (rule exI, rule records_anchor [OF n(1)])
  then show ?case by (simp add: n simple_path_def)
next
  case (step r r')
  then obtain n where n: "n \<in> set (g_nodes g)" "\<exists>e \<in> set (g_edges g). type_ok et e \<and> joins e (v_id (r_node r)) (v_id n)"
    "int (r_hops r) < limit" "v_id n \<notin> set (r_ids r)"
    "r' = \<lparr>r_node = n, r_ids = r_ids r @ [v_id n], r_hops = r_hops r + 1, r_extra = carry n (r_extra r)\<rparr>"
    unfolding derives_def set_hop_step by blast
  have ok: "row_ok g start carry r" and sp: "simple_path (arcs g joins et) i (r_ids r)" using step.IH by auto
  have "(v_id (r_node r), v_id n) \<in> arcs g joins et" using n(1,2) by (simp add: arcs_def)
  then have "simple_path (arcs g joins et) i (r_ids r @ [v_id n])"
    using simple_path_snoc [OF sp] row_okD(3) [OF ok] n(4) by simp
  moreover have "length (r_ids r') \<le> nat limit + 1"
    using n(3) row_okD(4) [OF ok] by (simp add: n(5))
  moreover have "row_ok g start carry r'"
    using ok records_snoc [OF _ n(1)] unfolding row_ok_def n(5) by blast
  ultimately show ?case by (simp add: n(5))
qed

lemma path_derived:
  assumes "i \<in> v_id ` set (g_nodes g)"
  shows "simple_path (arcs g joins et) i xs \<Longrightarrow> length xs \<le> nat limit + 1 \<Longrightarrow>
    \<exists>a0 \<in> set (hop_anchor g start i). \<exists>r. (a0, r) \<in> (derives (hop_step g joins et limit carry))\<^sup>* \<and> r_ids r = xs"
proof (induction xs rule: rev_induct)
  case Nil
  then show ?case by (simp add: simple_path_def)
next
  case (snoc v xs)
  show ?case
  proof (cases "xs = []")
    case True
    then have "v = i" using snoc.prems(1) by (simp add: simple_path_def)
    obtain n where n: "n \<in> set (g_nodes g)" "v_id n = i" using assms by auto
    let ?a0 = "\<lparr>r_node = n, r_ids = [v_id n], r_hops = 0, r_extra = start n\<rparr>"
    have "?a0 \<in> set (hop_anchor g start i)" unfolding set_hop_anchor using n by blast
    moreover have "r_ids ?a0 = xs @ [v]" using True n(2) \<open>v = i\<close> by simp
    ultimately show ?thesis by blast
  next
    case False
    then have p: "simple_path (arcs g joins et) i xs"
      using snoc.prems(1) by (auto simp: simple_path_def successively_append_iff)
    have v: "(last xs, v) \<in> arcs g joins et" "v \<notin> set xs" using simple_path_snoc [OF p] snoc.prems(1) by auto
    obtain a0 r where r: "a0 \<in> set (hop_anchor g start i)" "(a0, r) \<in> (derives (hop_step g joins et limit carry))\<^sup>*"
      "r_ids r = xs"
      using snoc.IH [OF p] snoc.prems(2) by auto
    have ok: "last xs = v_id (r_node r)" "r_hops r + 1 = length xs"
      using derived_rows [OF r(1,2)] r(3) row_okD(3,4) by metis+
    obtain n where n: "n \<in> set (g_nodes g)" "v = v_id n" using v(1) by (auto simp: arcs_def)
    define r' where "r' = \<lparr>r_node = n, r_ids = r_ids r @ [v_id n], r_hops = r_hops r + 1, r_extra = carry n (r_extra r)\<rparr>"
    have lim: "int (r_hops r) < limit" using snoc.prems(2) ok(2) by auto
    have "r' \<in> set (hop_step g joins et limit carry r)"
      unfolding set_hop_step r'_def using n v ok(1) r(3) lim by (auto simp: arcs_def)
    then have "(a0, r') \<in> (derives (hop_step g joins et limit carry))\<^sup>*"
      using r(2) by (auto simp: derives_def intro: rtrancl.rtrancl_into_rtrancl)
    moreover have "r_ids r' = xs @ [v]" using r(3) n(2) by (simp add: r'_def)
    ultimately show ?thesis using r(1) by blast
  qed
qed

text \<open>The limit plus two rounds are enough, and the result is exactly the set of simple paths.\<close>

lemma hop_cte:
  assumes "nat limit + 2 \<le> fuel"
  obtains out where "rec_cte (hop_step g joins et limit carry) fuel (hop_anchor g start i) = Some out"
    "\<forall>r \<in> set out. row_ok g start carry r"
    "i \<in> v_id ` set (g_nodes g) \<Longrightarrow>
       r_ids ` set out = {xs. simple_path (arcs g joins et) i xs \<and> length xs \<le> nat limit + 1}"
    "i \<notin> v_id ` set (g_nodes g) \<Longrightarrow> out = []"
proof -
  let ?step = "hop_step g joins et limit carry"
  have dec: "nat limit + 1 - r_hops y < nat limit + 1 - r_hops x" if "y \<in> set (?step x)" for x y :: "'a hop_row"
    using that by (auto simp: set_hop_step)
  have "nat limit + 1 - r_hops x < fuel" for x :: "'a hop_row" using assms by simp
  then obtain out where out: "rec_cte ?step fuel (hop_anchor g start i) = Some out"
    "set out = {y. \<exists>x \<in> set (hop_anchor g start i). (x, y) \<in> (derives ?step)\<^sup>*}"
    using rec_cte_set [of ?step "\<lambda>r. nat limit + 1 - r_hops r" "hop_anchor g start i" fuel, OF dec] by blast
  have "\<forall>r \<in> set out. row_ok g start carry r \<and> simple_path (arcs g joins et) i (r_ids r) \<and> length (r_ids r) \<le> nat limit + 1"
    using out(2) derived_rows by blast
  moreover have "r_ids ` set out = {xs. simple_path (arcs g joins et) i xs \<and> length xs \<le> nat limit + 1}"
    if "i \<in> v_id ` set (g_nodes g)"
    using calculation path_derived [OF that, of joins et _ limit start carry] out(2) by (auto simp: image_iff) blast
  moreover have "out = []" if "i \<notin> v_id ` set (g_nodes g)"
  proof -
    have "hop_anchor g start i = []" using that by (auto simp: hop_anchor_def)
    then show ?thesis using out(2) by simp
  qed
  ultimately show ?thesis using that out(1) by blast
qed

lemma hop_cte_stored:
  assumes "i \<in> v_id ` set (g_nodes g)"
  shows "\<exists>out. rec_cte (hop_step g joins et limit carry) (nat limit + 2) (hop_anchor g start i) = Some out
    \<and> (\<forall>r \<in> set out. row_ok g start carry r)
    \<and> r_ids ` set out = {xs. simple_path (arcs g joins et) i xs \<and> length xs \<le> nat limit + 1}"
  by (rule hop_cte [of limit "nat limit + 2" g joins et carry start i, OF order_refl]) (use assms in blast)

section \<open>Distances\<close>

lemma walk_shorten:
  assumes "xs \<noteq> []" "successively (\<lambda>u v. (u, v) \<in> A) xs"
  shows "\<exists>ys. simple_path A (hd xs) ys \<and> last ys = last xs \<and> length ys \<le> length xs"
  using assms
proof (induction "length xs" arbitrary: xs rule: less_induct)
  case less
  show ?case
  proof (cases "distinct xs")
    case True
    then show ?thesis using less.prems by (intro exI [of _ xs]) (simp add: simple_path_def)
  next
    case False
    then obtain as y bs cs where xs: "xs = as @ [y] @ bs @ [y] @ cs" using not_distinct_decomp by blast
    let ?zs = "as @ [y] @ cs"
    have "successively (\<lambda>u v. (u, v) \<in> A) ?zs"
      using less.prems(2) unfolding xs by (auto simp: successively_append_iff successively_Cons)
    moreover have "hd ?zs = hd xs" "last ?zs = last xs" "length ?zs < length xs"
      unfolding xs by (auto simp: hd_append)
    ultimately show ?thesis using less.hyps [of ?zs] by (metis append_is_Nil_conv le_trans less_imp_le not_Cons_self2)
  qed
qed

lemma relpow_walk:
  "(a, b) \<in> A ^^ n \<longleftrightarrow> (\<exists>xs. length xs = n + 1 \<and> hd xs = a \<and> last xs = b \<and> successively (\<lambda>u v. (u, v) \<in> A) xs)"
proof (induction n arbitrary: b)
  case 0
  show ?case by (auto intro!: exI [of _ "[a]"] simp: length_Suc_conv)
next
  case (Suc n)
  show ?case
  proof
    assume "(a, b) \<in> A ^^ Suc n"
    then obtain c where "(a, c) \<in> A ^^ n" "(c, b) \<in> A" by auto
    then obtain xs where "length xs = n + 1" "hd xs = a" "last xs = c" "successively (\<lambda>u v. (u, v) \<in> A) xs"
      using Suc.IH by blast
    then show "\<exists>xs. length xs = Suc n + 1 \<and> hd xs = a \<and> last xs = b \<and> successively (\<lambda>u v. (u, v) \<in> A) xs"
      using \<open>(c, b) \<in> A\<close> by (intro exI [of _ "xs @ [b]"]) (auto simp: successively_append_iff hd_append)
  next
    assume "\<exists>xs. length xs = Suc n + 1 \<and> hd xs = a \<and> last xs = b \<and> successively (\<lambda>u v. (u, v) \<in> A) xs"
    then obtain xs where xs: "length xs = Suc n + 1" "hd xs = a" "last xs = b" "successively (\<lambda>u v. (u, v) \<in> A) xs"
      by blast
    then obtain ys where ys: "xs = ys @ [b]" "ys \<noteq> []"
      by (metis add_is_0 append_butlast_last_id butlast.simps(2) length_0_conv length_butlast add_diff_cancel_right' nat.distinct(1))
    then have "(a, last ys) \<in> A ^^ n"
      using Suc.IH xs by (intro Suc.IH [THEN iffD2] exI [of _ ys]) (auto simp: successively_append_iff hd_append)
    moreover have "(last ys, b) \<in> A" using xs(4) ys by (auto simp: successively_append_iff)
    ultimately show "(a, b) \<in> A ^^ Suc n" by auto
  qed
qed

lemma reachable_simple:
  "(\<exists>n \<le> k. (a, b) \<in> A ^^ n) \<longleftrightarrow> (\<exists>xs. simple_path A a xs \<and> last xs = b \<and> length xs \<le> k + 1)"
proof
  assume "\<exists>n \<le> k. (a, b) \<in> A ^^ n"
  then obtain n xs where "n \<le> k" "length xs = n + 1" "hd xs = a" "last xs = b" "successively (\<lambda>u v. (u, v) \<in> A) xs"
    unfolding relpow_walk by blast
  then show "\<exists>xs. simple_path A a xs \<and> last xs = b \<and> length xs \<le> k + 1"
    using walk_shorten [of xs A] by force
next
  assume "\<exists>xs. simple_path A a xs \<and> last xs = b \<and> length xs \<le> k + 1"
  then obtain xs where xs: "simple_path A a xs" "last xs = b" "length xs \<le> k + 1" by blast
  then have "(a, b) \<in> A ^^ (length xs - 1)"
    unfolding relpow_walk by (intro exI [of _ xs]) (auto simp: simple_path_def)
  then show "\<exists>n \<le> k. (a, b) \<in> A ^^ n" using xs(3) by (intro exI [of _ "length xs - 1"]) auto
qed

section \<open>A sample graph\<close>

text \<open>A graph of three nodes, one edge of it bidirectional, at which the theorems are applied.\<close>

definition sample_edge :: "int \<Rightarrow> int \<Rightarrow> int \<Rightarrow> bool \<Rightarrow> edge" where
  "sample_edge i a b both =
     \<lparr>e_id = i, e_fk = (\<lambda>f. if f = ''source_id'' then a else b), e_bidirectional = both, e_type = ''k''\<rparr>"

definition sample_graph :: graph where
  "sample_graph =
     \<lparr>g_nodes = [\<lparr>v_id = 1, v_name = ''a'', v_depth = 0\<rparr>, \<lparr>v_id = 2, v_name = ''b'', v_depth = 1\<rparr>,
                 \<lparr>v_id = 3, v_name = ''c'', v_depth = 2\<rparr>],
      g_edges = [sample_edge 1 1 2 False, sample_edge 2 2 3 True, sample_edge 3 3 1 False],
      g_edge_fields = [''source_id'', ''target_id'']\<rparr>"

lemma sample_hyps:
  "{''source_id'', ''target_id''} \<subseteq> set (g_edge_fields sample_graph)"
  "1 \<in> v_id ` set (g_nodes sample_graph)" "3 \<in> v_id ` set (g_nodes sample_graph)"
  "distinct (map v_id (g_nodes sample_graph))"
  by (simp_all add: sample_graph_def)

end
