(* ===== verification/Pathfinding.thy ===== *)
theory Pathfinding
  imports Cte Exceptions
begin

text \<open>
  \<open>expressions/pathfinding.py\<close>: the shared walk, \<open>shortest_path\<close>, \<open>all_paths\<close> and
  \<open>find_cycles\<close>. A query is the evaluation of its statement on the two tables with the list of
  bound parameters; the Python code around it validates the field names, numbers the
  placeholders and turns rows into lists of id and name. \<open>None\<close> stands for a query that does not
  end within its fuel, which the theorems exclude. Rows of equal \<open>hops\<close> keep the order in which
  they were produced; SQL leaves it open and no property depends on it.
\<close>

section \<open>Helpers\<close>

definition validate_edge_fields :: "graph \<Rightarrow> string \<Rightarrow> string \<Rightarrow> exc + unit" where
  "validate_edge_fields g source_field target_field =
     (if \<exists>name \<in> set [source_field, target_field]. name \<notin> set (g_edge_fields g)
      then Inl GraphTraversalError else Inr ())"

text \<open>The two \<open>JOIN ... ON\<close> conditions of the walk.\<close>

definition walk_joins :: "string \<Rightarrow> string \<Rightarrow> edge \<Rightarrow> int \<Rightarrow> int \<Rightarrow> bool" where
  "walk_joins src tgt e p n \<longleftrightarrow>
     (e_fk e src = p \<or> (e_bidirectional e \<and> e_fk e tgt = p))
     \<and> ((e_fk e src = p \<and> n = e_fk e tgt)
        \<or> (e_bidirectional e \<and> e_fk e tgt = p \<and> n = e_fk e src))"

definition walk_cte :: "graph \<Rightarrow> string \<Rightarrow> string \<Rightarrow> string \<Rightarrow> qparam list \<Rightarrow> string list hop_row list option" where
  "walk_cte g source_field target_field clause params =
     rec_cte
       (hop_step g (walk_joins source_field target_field) (clause_type clause params) (bound_int params 2)
          (\<lambda>n names. names @ [v_name n]))
       (nat (bound_int params 2) + 2)
       (hop_anchor g (\<lambda>n. [v_name n]) (bound_int params 1))"

record path_row =
  path_ids :: "int list"
  path_names :: "string list"
  hops :: nat

definition as_path_row :: "string list hop_row \<Rightarrow> path_row" where
  "as_path_row r = \<lparr>path_ids = r_ids r, path_names = r_extra r, hops = r_hops r\<rparr>"

definition path_from_row :: "bool \<Rightarrow> path_row \<Rightarrow> (int \<times> string) list" where
  "path_from_row strip_closing row =
     (let ids = (if strip_closing then butlast (path_ids row) else path_ids row);
          names = (if strip_closing then butlast (path_names row) else path_names row)
      in zip ids names)"

text \<open>\<open>LIMIT n\<close>: PostgreSQL refuses a negative count.\<close>

definition sql_limit :: "int \<Rightarrow> 'a list \<Rightarrow> exc + 'a list" where
  "sql_limit n rows = (if n < 0 then Inl OperationalError else Inr (take (nat n) rows))"

section \<open>The three queries\<close>

definition shortest_path ::
  "graph \<Rightarrow> int \<Rightarrow> int \<Rightarrow> int \<Rightarrow> string option \<Rightarrow> string \<Rightarrow> string \<Rightarrow> (exc + (int \<times> string) list option) option" where
  "shortest_path g from_id to_id max_hops edge_type source_field target_field =
     (case validate_edge_fields g source_field target_field of
        Inl e \<Rightarrow> Some (Inl e)
      | Inr _ \<Rightarrow>
         (let (clause, et_params) = et_clause edge_type 4;
              params = [PInt from_id, PInt max_hops, PInt to_id] @ map PText et_params
          in map_option
               (\<lambda>paths.
                  let results = take 1 (sort_key hops
                        (map as_path_row (filter (\<lambda>r. v_id (r_node r) = bound_int params 3) paths)))
                  in Inr (if results = [] then None else Some (path_from_row False (hd results))))
               (walk_cte g source_field target_field clause params)))"

definition all_paths ::
  "graph \<Rightarrow> int \<Rightarrow> int \<Rightarrow> int \<Rightarrow> int \<Rightarrow> string option \<Rightarrow> string \<Rightarrow> string
     \<Rightarrow> (exc + (int \<times> string) list list) option" where
  "all_paths g from_id to_id max_hops max_paths edge_type source_field target_field =
     (case validate_edge_fields g source_field target_field of
        Inl e \<Rightarrow> Some (Inl e)
      | Inr _ \<Rightarrow>
         (let (clause, et_params) = et_clause edge_type 5;
              params = [PInt from_id, PInt max_hops, PInt to_id, PInt max_paths] @ map PText et_params
          in map_option
               (\<lambda>paths.
                  bind_res
                    (sql_limit (bound_int params 4) (sort_key hops
                       (remdups (map as_path_row (filter (\<lambda>r. v_id (r_node r) = bound_int params 3) paths)))))
                    (\<lambda>results. Inr (map (path_from_row False) results)))
               (walk_cte g source_field target_field clause params)))"

record cycle_row =
  start_id :: int
  curr_id :: int
  cyc_ids :: "int list"
  cyc_names :: "string list"
  cyc_depth :: nat

definition cycle_anchor :: "graph \<Rightarrow> cycle_row list" where
  "cycle_anchor g =
     map (\<lambda>n. \<lparr>start_id = v_id n, curr_id = v_id n, cyc_ids = [v_id n], cyc_names = [v_name n], cyc_depth = 0\<rparr>)
       (g_nodes g)"

definition cycle_step ::
  "graph \<Rightarrow> string \<Rightarrow> string \<Rightarrow> string option \<Rightarrow> int \<Rightarrow> cycle_row \<Rightarrow> cycle_row list" where
  "cycle_step g source_field target_field et limit w =
     [\<lparr>start_id = start_id w, curr_id = v_id n, cyc_ids = cyc_ids w @ [v_id n],
       cyc_names = cyc_names w @ [v_name n], cyc_depth = cyc_depth w + 1\<rparr>.
        e \<leftarrow> g_edges g, n \<leftarrow> g_nodes g,
        walk_joins source_field target_field e (curr_id w) (v_id n)
          \<and> int (cyc_depth w) < limit \<and> type_ok et e
          \<and> (cyc_depth w = 0 \<or> curr_id w \<noteq> start_id w)
          \<and> (v_id n = start_id w \<or> (v_id n \<notin> set (cyc_ids w) \<and> v_id n > start_id w))]"

definition find_cycles ::
  "graph \<Rightarrow> int \<Rightarrow> string option \<Rightarrow> string \<Rightarrow> string \<Rightarrow> int option \<Rightarrow> (exc + (int \<times> string) list list) option" where
  "find_cycles g max_depth edge_type source_field target_field max_cycles =
     (case validate_edge_fields g source_field target_field of
        Inl e \<Rightarrow> Some (Inl e)
      | Inr _ \<Rightarrow>
         (let (clause, et_params) = et_clause edge_type 2;
              limit_at = 2 + length et_params;
              params = PInt max_depth # map PText et_params
                         @ (case max_cycles of None \<Rightarrow> [] | Some m \<Rightarrow> [PInt m])
          in map_option
               (\<lambda>walk.
                  let rows = sort_key hops (remdups
                        (map (\<lambda>w. \<lparr>path_ids = cyc_ids w, path_names = cyc_names w, hops = cyc_depth w\<rparr>)
                          (filter (\<lambda>w. cyc_depth w > 0 \<and> curr_id w = cyc_ids w ! 0) walk)))
                  in bind_res
                       (if max_cycles = None then Inr rows else sql_limit (bound_int params limit_at) rows)
                       (\<lambda>results. Inr (map (path_from_row True) results)))
               (rec_cte
                  (cycle_step g source_field target_field (clause_type clause params) (bound_int params 1))
                  (nat (bound_int params 1) + 2)
                  (cycle_anchor g))))"

section \<open>What the rows hold\<close>

text \<open>The links of the edge table that a path may follow: from source to target, a bidirectional
  edge also from target to source, to a stored node.\<close>

definition walk_arcs :: "graph \<Rightarrow> string \<Rightarrow> string \<Rightarrow> string option \<Rightarrow> (int \<times> int) set" where
  "walk_arcs g source_field target_field et =
     {(u, v). v \<in> v_id ` set (g_nodes g) \<and> (\<exists>e \<in> set (g_edges g). type_ok et e
        \<and> ((e_fk e source_field = u \<and> e_fk e target_field = v)
           \<or> (e_bidirectional e \<and> e_fk e target_field = u \<and> e_fk e source_field = v)))}"

lemma walk_arcs_joins: "arcs g (walk_joins sf tf) et = walk_arcs g sf tf et"
  by (auto simp: arcs_def walk_arcs_def walk_joins_def)

definition node_items :: "graph \<Rightarrow> (int \<times> string) set" where
  "node_items g = (\<lambda>n. (v_id n, v_name n)) ` set (g_nodes g)"

definition good_row :: "graph \<Rightarrow> path_row \<Rightarrow> bool" where
  "good_row g q \<longleftrightarrow> (\<exists>ns. ns \<noteq> [] \<and> set ns \<subseteq> set (g_nodes g) \<and> path_ids q = map v_id ns
     \<and> path_names q = map v_name ns \<and> hops q + 1 = length ns)"

lemma fold_names: "fold (\<lambda>n names. names @ [v_name n]) ns acc = acc @ map v_name ns"
  by (induction ns arbitrary: acc) auto

lemma good_as_path_row:
  assumes "row_ok g (\<lambda>n. [v_name n]) (\<lambda>n names. names @ [v_name n]) r"
  shows "good_row g (as_path_row r)"
proof -
  obtain ns where ns: "records g (\<lambda>n. [v_name n]) (\<lambda>n names. names @ [v_name n]) r ns"
    using assms by (auto simp: row_ok_def)
  have "[v_name (hd ns)] @ map v_name (tl ns) = map v_name ns" if "ns \<noteq> []" by (cases ns) (use that in auto)
  with ns show ?thesis
    unfolding good_row_def records_def fold_names as_path_row_def by (intro exI [of _ ns]) simp
qed

lemma path_from_good_row:
  assumes "good_row g q"
  shows "map fst (path_from_row False q) = path_ids q" "set (path_from_row False q) \<subseteq> node_items g"
    "length (path_from_row False q) = hops q + 1"
proof -
  obtain ns where ns: "set ns \<subseteq> set (g_nodes g)" "path_ids q = map v_id ns" "path_names q = map v_name ns"
      "hops q + 1 = length ns"
    using assms by (auto simp: good_row_def)
  then have "path_from_row False q = map (\<lambda>n. (v_id n, v_name n)) ns"
    by (simp add: path_from_row_def zip_map_map zip_same_conv_map)
  with ns show "map fst (path_from_row False q) = path_ids q" "set (path_from_row False q) \<subseteq> node_items g"
    "length (path_from_row False q) = hops q + 1"
    by (auto simp: node_items_def o_def)
qed

lemma good_row_ids_inj:
  assumes "distinct (map v_id (g_nodes g))" "good_row g q" "good_row g q'" "path_ids q = path_ids q'"
  shows "q = q'"
proof -
  obtain ns ms where n: "set ns \<subseteq> set (g_nodes g)" "path_ids q = map v_id ns" "path_names q = map v_name ns"
      "hops q + 1 = length ns"
    and m: "set ms \<subseteq> set (g_nodes g)" "path_ids q' = map v_id ms" "path_names q' = map v_name ms"
      "hops q' + 1 = length ms"
    using assms(2,3) by (auto simp: good_row_def)
  have "inj_on v_id (set (g_nodes g))" using assms(1) by (simp add: distinct_map)
  then have "ns = ms"
    using n(1,2) m(1,2) assms(4) by (intro map_inj_on [of v_id]) (auto intro: inj_on_subset)
  with n m show ?thesis by (intro path_row.equality) auto
qed

lemma walk_cte_rows:
  assumes "length mid + 3 = k"
  obtains out where
    "walk_cte g sf tf (fst (et_clause et (int k)))
        ([PInt a, PInt m] @ mid @ map PText (snd (et_clause et (int k)))) = Some out"
    "\<forall>r \<in> set out. good_row g (as_path_row r) \<and> last (r_ids r) = v_id (r_node r)"
    "r_ids ` set out = (if a \<in> v_id ` set (g_nodes g)
       then {xs. simple_path (walk_arcs g sf tf et) a xs \<and> length xs \<le> nat m + 1} else {})"
proof -
  let ?ps = "[PInt a, PInt m] @ mid @ map PText (snd (et_clause et (int k)))"
  let ?start = "\<lambda>n. [v_name n]" let ?carry = "\<lambda>n names. names @ [v_name n]"
  have ps: "bound_int ?ps 1 = a" "bound_int ?ps 2 = m" by (simp_all add: bound_int_def)
  have et: "clause_type (fst (et_clause et (int k))) ?ps = et"
    using clause_type_et [of "[PInt a, PInt m] @ mid" k et "[]"] assms by simp
  obtain out where out:
    "rec_cte (hop_step g (walk_joins sf tf) et m ?carry) (nat m + 2) (hop_anchor g ?start a) = Some out"
    "\<forall>r \<in> set out. row_ok g ?start ?carry r"
    "a \<in> v_id ` set (g_nodes g) \<Longrightarrow>
       r_ids ` set out = {xs. simple_path (walk_arcs g sf tf et) a xs \<and> length xs \<le> nat m + 1}"
    "a \<notin> v_id ` set (g_nodes g) \<Longrightarrow> out = []"
    using hop_cte [of m "nat m + 2" g "walk_joins sf tf" et ?carry ?start a] unfolding walk_arcs_joins by blast
  have "walk_cte g sf tf (fst (et_clause et (int k))) ?ps = Some out"
    unfolding walk_cte_def ps et using out(1) .
  moreover have "\<forall>r \<in> set out. good_row g (as_path_row r) \<and> last (r_ids r) = v_id (r_node r)"
    using out(2) good_as_path_row row_okD(3) by blast
  ultimately show ?thesis using that [of out] out(3,4) by auto
qed

text \<open>The rows that end at the target, as path rows.\<close>

lemma rows_at_target:
  fixes b :: int
  assumes "\<forall>r \<in> set out. good_row g (as_path_row r) \<and> last (r_ids r) = v_id (r_node r)"
  defines "rows \<equiv> map as_path_row (filter (\<lambda>r. v_id (r_node r) = b) out)"
  shows "\<forall>q \<in> set rows. good_row g q" "path_ids ` set rows = {xs \<in> r_ids ` set out. last xs = b}"
  using assms(1) by (auto simp: rows_def as_path_row_def image_iff)

lemma valid_fields:
  "{sf, tf} \<subseteq> set (g_edge_fields g) \<Longrightarrow> validate_edge_fields g sf tf = Inr ()"
  by (auto simp: validate_edge_fields_def)

lemma hd_sort_key_least:
  fixes f :: "'a \<Rightarrow> nat"
  assumes "q \<in> set xs"
  shows "f (hd (sort_key f xs)) \<le> f q"
proof (cases "sort_key f xs")
  case Nil
  then show ?thesis using assms by (metis empty_iff empty_set set_sort)
next
  case (Cons y ys)
  have "q \<in> set (y # ys)" using assms Cons by (metis set_sort)
  moreover have "sorted (map f (y # ys))" using Cons by (metis sorted_sort_key)
  ultimately show ?thesis using Cons by auto
qed

section \<open>Shortest and all paths\<close>

text \<open>Both queries in terms of the target rows of the walk.\<close>

lemma target_rows:
  assumes "length mid + 4 = k"
  obtains rows where
    "map_option f (map_option
       (\<lambda>paths. map as_path_row (filter (\<lambda>r. v_id (r_node r) = b) paths))
       (walk_cte g sf tf (fst (et_clause et (int k)))
         ([PInt a, PInt m] @ (PInt b # mid) @ map PText (snd (et_clause et (int k)))))) = Some (f rows)"
    "\<forall>q \<in> set rows. good_row g q"
    "path_ids ` set rows = (if a \<in> v_id ` set (g_nodes g)
       then {xs. simple_path (walk_arcs g sf tf et) a xs \<and> last xs = b \<and> length xs \<le> nat m + 1} else {})"
proof -
  have "length (PInt b # mid) + 3 = k" using assms by simp
  then obtain out where out:
    "walk_cte g sf tf (fst (et_clause et (int k)))
        ([PInt a, PInt m] @ (PInt b # mid) @ map PText (snd (et_clause et (int k)))) = Some out"
    "\<forall>r \<in> set out. good_row g (as_path_row r) \<and> last (r_ids r) = v_id (r_node r)"
    "r_ids ` set out = (if a \<in> v_id ` set (g_nodes g)
       then {xs. simple_path (walk_arcs g sf tf et) a xs \<and> length xs \<le> nat m + 1} else {})"
    using walk_cte_rows [of "PInt b # mid" k g sf tf et a m] by blast
  let ?rows = "map as_path_row (filter (\<lambda>r. v_id (r_node r) = b) out)"
  have "path_ids ` set ?rows = (if a \<in> v_id ` set (g_nodes g)
       then {xs. simple_path (walk_arcs g sf tf et) a xs \<and> last xs = b \<and> length xs \<le> nat m + 1} else {})"
    unfolding rows_at_target(2) [OF out(2)] out(3) by auto
  then show ?thesis using that [of ?rows] out(1) rows_at_target(1) [OF out(2)] by simp
qed

lemma shortest_path_unfold:
  assumes "{sf, tf} \<subseteq> set (g_edge_fields g)"
  shows "shortest_path g a b m et sf tf =
    map_option (\<lambda>rows. Inr (if rows = [] then None else Some (path_from_row False (hd (sort_key hops rows)))))
      (map_option (\<lambda>paths. map as_path_row (filter (\<lambda>r. v_id (r_node r) = b) paths))
         (walk_cte g sf tf (fst (et_clause et (int 4)))
           ([PInt a, PInt m] @ (PInt b # []) @ map PText (snd (et_clause et (int 4))))))"
proof -
  have nil: "sort_key hops xs = [] \<longleftrightarrow> xs = []" for xs :: "path_row list"
    by (metis length_0_conv length_sort)
  have "bound_int ([PInt a, PInt m, PInt b] @ ps) 3 = b" for ps by (simp add: bound_int_def)
  then have target: "bound_int (PInt a # PInt m # PInt b # ps) 3 = b" for ps by simp
  show ?thesis
    by (simp add: shortest_path_def valid_fields [OF assms] split_beta option.map_comp o_def Let_def nil hd_take target
        cong: if_cong)
qed

text \<open>C23: \<open>shortest_path\<close> ends and finds a path exactly when one of at most \<open>max_hops\<close> hops
  exists; the path it returns starts at the source, ends at the target, visits no node twice,
  follows matching edges (bidirectional ones both ways) and no walk between the two nodes is
  shorter.\<close>

theorem shortest_path_correct:
  assumes "{source_field, target_field} \<subseteq> set (g_edge_fields g)" "a \<in> v_id ` set (g_nodes g)"
  shows "\<exists>r. shortest_path g a b max_hops et source_field target_field = Some (Inr r)
    \<and> (r = None \<longleftrightarrow> \<not> (\<exists>n \<le> nat max_hops. (a, b) \<in> walk_arcs g source_field target_field et ^^ n))
    \<and> (\<forall>p. r = Some p \<longrightarrow>
         simple_path (walk_arcs g source_field target_field et) a (map fst p)
         \<and> last (map fst p) = b \<and> set p \<subseteq> node_items g
         \<and> (\<forall>n. (a, b) \<in> walk_arcs g source_field target_field et ^^ n \<longrightarrow> length p \<le> n + 1))"
proof -
  let ?A = "walk_arcs g source_field target_field et"
  let ?f = "\<lambda>rows. Inr (if rows = [] then None else Some (path_from_row False (hd (sort_key hops rows))))"
  obtain rows where run: "shortest_path g a b max_hops et source_field target_field = Some (?f rows)"
    and good: "\<forall>q \<in> set rows. good_row g q"
    and ids: "path_ids ` set rows = {xs. simple_path ?A a xs \<and> last xs = b \<and> length xs \<le> nat max_hops + 1}"
    using target_rows [of "[]" 4 ?f b g source_field target_field et a max_hops] assms(2)
    unfolding shortest_path_unfold [OF assms(1)] by auto
  have none: "rows = [] \<longleftrightarrow> \<not> (\<exists>n \<le> nat max_hops. (a, b) \<in> ?A ^^ n)"
  proof -
    have "rows = [] \<longleftrightarrow> path_ids ` set rows = {}" by simp
    then show ?thesis unfolding ids reachable_simple [of "nat max_hops" a b ?A] by blast
  qed
  show ?thesis
  proof (cases "rows = []")
    case True
    then show ?thesis using run none by auto
  next
    case False
    let ?q = "hd (sort_key hops rows)"
    have q: "?q \<in> set rows" using False by (metis hd_in_set length_0_conv length_sort set_sort)
    note path = path_from_good_row [OF good [rule_format, OF q]]
    have sp: "simple_path ?A a (path_ids ?q)" "last (path_ids ?q) = b" "length (path_ids ?q) \<le> nat max_hops + 1"
      using q ids by auto
    have len: "length (path_ids ?q) = hops ?q + 1" using path(1,3) by (metis length_map)
    have "hops ?q + 1 \<le> n + 1" if n: "(a, b) \<in> ?A ^^ n" for n
    proof (cases "n \<le> nat max_hops")
      case True
      then obtain xs where xs: "simple_path ?A a xs" "last xs = b" "length xs \<le> n + 1"
        using n reachable_simple [of n a b ?A] by auto
      have "xs \<in> path_ids ` set rows" unfolding ids using xs True by simp
      then obtain q' where q': "q' \<in> set rows" "path_ids q' = xs" by blast
      have "hops q' + 1 = length xs"
        using path_from_good_row(1,3) [OF good [rule_format, OF q'(1)]] q'(2) by (metis length_map)
      then show ?thesis using hd_sort_key_least [OF q'(1), of hops] xs(3) by simp
    qed (use len sp(3) in simp)
    then show ?thesis using run none False sp path by simp
  qed
qed

lemma all_paths_unfold:
  assumes "{sf, tf} \<subseteq> set (g_edge_fields g)"
  shows "all_paths g a b m limit et sf tf =
    map_option (\<lambda>rows. bind_res (sql_limit limit (sort_key hops (remdups rows))) (\<lambda>rs. Inr (map (path_from_row False) rs)))
      (map_option (\<lambda>paths. map as_path_row (filter (\<lambda>r. v_id (r_node r) = b) paths))
         (walk_cte g sf tf (fst (et_clause et (int 5)))
           ([PInt a, PInt m] @ (PInt b # [PInt limit]) @ map PText (snd (et_clause et (int 5))))))"
proof -
  have "bound_int ([PInt a, PInt m, PInt b, PInt limit] @ ps) 3 = b"
    "bound_int ([PInt a, PInt m, PInt b, PInt limit] @ ps) 4 = limit" for ps
    by (simp_all add: bound_int_def)
  then have params: "bound_int (PInt a # PInt m # PInt b # PInt limit # ps) 3 = b"
    "bound_int (PInt a # PInt m # PInt b # PInt limit # ps) 4 = limit" for ps by simp_all
  show ?thesis
    by (simp add: all_paths_def valid_fields [OF assms] split_beta option.map_comp o_def Let_def params)
qed

lemma path_from_row_inj:
  assumes "distinct (map v_id (g_nodes g))" "\<forall>q \<in> set rows. good_row g q" "distinct rows"
  shows "distinct (map (map fst) (map (path_from_row False) rows))"
proof -
  have "map (map fst) (map (path_from_row False) rows) = map path_ids rows"
    using assms(2) by (simp add: path_from_good_row(1) [of g])
  moreover have "inj_on path_ids (set rows)"
    using good_row_ids_inj [OF assms(1)] assms(2) by (intro inj_onI) blast
  ultimately show ?thesis using assms(3) by (metis distinct_map)
qed

lemma limited_rows:
  fixes limit :: int
  defines "answer full \<equiv> (if limit < 0 then Inl OperationalError else Inr (take (nat limit) full))"
  shows "bind_res (sql_limit limit rows) (\<lambda>rs. Inr (map f rs)) = answer (map f rows)"
  by (simp add: answer_def sql_limit_def take_map)

text \<open>C24: \<open>all_paths\<close> ends and returns the first \<open>max_paths\<close> of the complete list of simple
  paths of at most \<open>max_hops\<close> hops between the two nodes, each of them once, shortest first; only
  a negative \<open>max_paths\<close> is an error of the database.\<close>

theorem all_paths_complete:
  assumes "{source_field, target_field} \<subseteq> set (g_edge_fields g)" "a \<in> v_id ` set (g_nodes g)"
    "distinct (map v_id (g_nodes g))"
  shows "\<exists>full. all_paths g a b max_hops max_paths et source_field target_field
        = Some (if max_paths < 0 then Inl OperationalError else Inr (take (nat max_paths) full))
    \<and> sorted (map length full) \<and> distinct (map (map fst) full) \<and> (\<forall>p \<in> set full. set p \<subseteq> node_items g)
    \<and> map fst ` set full =
        {xs. simple_path (walk_arcs g source_field target_field et) a xs \<and> last xs = b
           \<and> length xs \<le> nat max_hops + 1}"
proof -
  let ?A = "walk_arcs g source_field target_field et"
  let ?f = "\<lambda>rows. bind_res (sql_limit max_paths (sort_key hops (remdups rows)))
    (\<lambda>rs. Inr (map (path_from_row False) rs)) :: exc + (int \<times> string) list list"
  obtain rows where run: "all_paths g a b max_hops max_paths et source_field target_field = Some (?f rows)"
    and good: "\<forall>q \<in> set rows. good_row g q"
    and ids: "path_ids ` set rows = {xs. simple_path ?A a xs \<and> last xs = b \<and> length xs \<le> nat max_hops + 1}"
    using target_rows [of "[PInt max_paths]" 5 ?f b g source_field target_field et a max_hops] assms(2)
    unfolding all_paths_unfold [OF assms(1)] by auto
  let ?sorted = "sort_key hops (remdups rows)"
  let ?full = "map (path_from_row False) ?sorted"
  have good': "\<forall>q \<in> set ?sorted. good_row g q" using good by simp
  have len: "map length ?full = map (\<lambda>q. hops q + 1) ?sorted"
    using good' by (simp add: path_from_good_row(3) [of g])
  have sorted: "sorted (map length ?full)"
    unfolding len using sorted_sort_key [of hops "remdups rows"] by (simp add: sorted_map)
  have ids_full: "map fst ` set ?full = path_ids ` set rows"
    using path_from_good_row(1) good by (force simp: image_image)
  have items: "\<forall>p \<in> set ?full. set p \<subseteq> node_items g" using path_from_good_row(2) good by auto
  have dist: "distinct (map (map fst) ?full)" by (rule path_from_row_inj [OF assms(3) good']) simp
  show ?thesis
    unfolding run limited_rows by (intro exI [of _ ?full] conjI refl sorted dist items) (simp only: ids_full ids)
qed

section \<open>Cycles\<close>

text \<open>A cycle as the query reports it: the ids of a closed walk without the repeated closing node,
  no node twice, starting at its smallest id.\<close>

definition simple_cycle :: "(int \<times> int) set \<Rightarrow> int list \<Rightarrow> bool" where
  "simple_cycle A xs \<longleftrightarrow> simple_path A (hd xs) xs \<and> (last xs, hd xs) \<in> A \<and> (\<forall>x \<in> set (tl xs). hd xs < x)"

text \<open>A row of the walk is open (not yet back at the start) or closed.\<close>

definition open_walk :: "(int \<times> int) set \<Rightarrow> int list \<Rightarrow> bool" where
  "open_walk A xs \<longleftrightarrow> simple_path A (hd xs) xs \<and> (\<forall>x \<in> set (tl xs). hd xs < x)"

definition cycle_nodes :: "graph \<Rightarrow> cycle_row \<Rightarrow> vnode list \<Rightarrow> bool" where
  "cycle_nodes g w ns \<longleftrightarrow> ns \<noteq> [] \<and> set ns \<subseteq> set (g_nodes g) \<and> cyc_ids w = map v_id ns
     \<and> cyc_names w = map v_name ns \<and> cyc_depth w + 1 = length ns
     \<and> start_id w = v_id (hd ns) \<and> curr_id w = v_id (last ns)"

definition walk_inv :: "graph \<Rightarrow> (int \<times> int) set \<Rightarrow> int \<Rightarrow> cycle_row \<Rightarrow> bool" where
  "walk_inv g A limit w \<longleftrightarrow> (\<exists>ns. cycle_nodes g w ns) \<and> cyc_depth w \<le> nat limit
     \<and> (if cyc_depth w = 0 \<or> curr_id w \<noteq> start_id w then open_walk A (cyc_ids w)
        else \<exists>xs. simple_cycle A xs \<and> cyc_ids w = xs @ [hd xs])"

lemma set_cycle_step:
  "set (cycle_step g sf tf et limit w) =
     {\<lparr>start_id = start_id w, curr_id = v_id n, cyc_ids = cyc_ids w @ [v_id n],
       cyc_names = cyc_names w @ [v_name n], cyc_depth = cyc_depth w + 1\<rparr> | n.
        n \<in> set (g_nodes g) \<and> (curr_id w, v_id n) \<in> walk_arcs g sf tf et
        \<and> int (cyc_depth w) < limit
        \<and> (cyc_depth w = 0 \<or> curr_id w \<noteq> start_id w)
        \<and> (v_id n = start_id w \<or> (v_id n \<notin> set (cyc_ids w) \<and> v_id n > start_id w))}"
  (is "?L = ?R")
proof
  show "?L \<subseteq> ?R" by (auto simp: cycle_step_def arcs_def simp flip: walk_arcs_joins split: if_splits)
  show "?R \<subseteq> ?L" by (auto simp: cycle_step_def arcs_def simp flip: walk_arcs_joins split: if_splits)
qed

lemma cycle_nodes_ids:
  "cycle_nodes g w ns \<Longrightarrow> cyc_ids w \<noteq> [] \<and> hd (cyc_ids w) = start_id w \<and> last (cyc_ids w) = curr_id w
     \<and> length (cyc_ids w) = cyc_depth w + 1"
  by (auto simp: cycle_nodes_def hd_map last_map)

lemma walk_inv_anchor: "w \<in> set (cycle_anchor g) \<Longrightarrow> walk_inv g A limit w"
proof -
  assume "w \<in> set (cycle_anchor g)"
  then obtain n where n: "n \<in> set (g_nodes g)"
    "w = \<lparr>start_id = v_id n, curr_id = v_id n, cyc_ids = [v_id n], cyc_names = [v_name n], cyc_depth = 0\<rparr>"
    by (auto simp: cycle_anchor_def)
  then have "cycle_nodes g w [n]" by (simp add: cycle_nodes_def)
  then show ?thesis using n(2) by (auto simp: walk_inv_def open_walk_def simple_path_def)
qed

lemma walk_inv_step:
  assumes "walk_inv g (walk_arcs g sf tf et) limit w" "w' \<in> set (cycle_step g sf tf et limit w)"
  shows "walk_inv g (walk_arcs g sf tf et) limit w'"
proof -
  let ?A = "walk_arcs g sf tf et"
  obtain n where n: "n \<in> set (g_nodes g)" "(curr_id w, v_id n) \<in> ?A" "int (cyc_depth w) < limit"
    "cyc_depth w = 0 \<or> curr_id w \<noteq> start_id w"
    "v_id n = start_id w \<or> (v_id n \<notin> set (cyc_ids w) \<and> v_id n > start_id w)"
    "w' = \<lparr>start_id = start_id w, curr_id = v_id n, cyc_ids = cyc_ids w @ [v_id n],
       cyc_names = cyc_names w @ [v_name n], cyc_depth = cyc_depth w + 1\<rparr>"
    using assms(2) unfolding set_cycle_step by blast
  obtain ns where ns: "cycle_nodes g w ns" using assms(1) by (auto simp: walk_inv_def)
  have "cycle_nodes g w' (ns @ [n])" using ns n(1) by (auto simp: cycle_nodes_def n(6))
  moreover have "cyc_depth w' \<le> nat limit" using n(3) by (simp add: n(6))
  moreover have open_w: "open_walk ?A (cyc_ids w)" using assms(1) n(4) by (simp add: walk_inv_def)
  note ids = cycle_nodes_ids [OF ns]
  have "if cyc_depth w' = 0 \<or> curr_id w' \<noteq> start_id w' then open_walk ?A (cyc_ids w')
        else \<exists>xs. simple_cycle ?A xs \<and> cyc_ids w' = xs @ [hd xs]"
  proof (cases "v_id n = start_id w")
    case True
    have "simple_cycle ?A (cyc_ids w)"
      using open_w n(2) ids True by (simp add: simple_cycle_def open_walk_def)
    then show ?thesis using True ids by (auto simp: n(6))
  next
    case False
    then have "open_walk ?A (cyc_ids w @ [v_id n])"
      using open_w n(2,5) ids by (auto simp: open_walk_def simple_path_snoc)
    then show ?thesis using False by (simp add: n(6))
  qed
  ultimately show ?thesis unfolding walk_inv_def by blast
qed

lemma walk_inv_derived:
  assumes "w0 \<in> set (cycle_anchor g)" "(w0, w) \<in> (derives (cycle_step g sf tf et limit))\<^sup>*"
  shows "walk_inv g (walk_arcs g sf tf et) limit w"
  using assms(2)
  by (induction rule: rtrancl_induct)
    (auto simp: walk_inv_anchor [OF assms(1)] derives_def intro: walk_inv_step)

lemma open_walk_derived:
  "open_walk (walk_arcs g sf tf et) xs \<Longrightarrow> hd xs \<in> v_id ` set (g_nodes g) \<Longrightarrow> length xs \<le> nat limit + 1 \<Longrightarrow>
    \<exists>a0 \<in> set (cycle_anchor g). \<exists>w. (a0, w) \<in> (derives (cycle_step g sf tf et limit))\<^sup>* \<and> cyc_ids w = xs
      \<and> (cyc_depth w = 0 \<or> curr_id w \<noteq> start_id w)"
proof (induction xs rule: rev_induct)
  case Nil
  then show ?case by (simp add: open_walk_def simple_path_def)
next
  case (snoc v xs)
  let ?A = "walk_arcs g sf tf et"
  show ?case
  proof (cases "xs = []")
    case True
    obtain n where n: "n \<in> set (g_nodes g)" "v_id n = v" using snoc.prems(2) True by auto
    let ?a0 = "\<lparr>start_id = v_id n, curr_id = v_id n, cyc_ids = [v_id n], cyc_names = [v_name n], cyc_depth = 0\<rparr>"
    have "?a0 \<in> set (cycle_anchor g)" using n(1) by (auto simp: cycle_anchor_def)
    moreover have "cyc_ids ?a0 = xs @ [v]" using True n(2) by simp
    ultimately show ?thesis by (metis (no_types, lifting) cycle_row.select_convs(5) rtrancl.rtrancl_refl)
  next
    case False
    then have p: "open_walk ?A xs" and v: "(last xs, v) \<in> ?A" "v \<notin> set xs" "hd xs < v"
      using snoc.prems(1) by (auto simp: open_walk_def simple_path_def successively_append_iff)
    obtain a0 w where w: "a0 \<in> set (cycle_anchor g)" "(a0, w) \<in> (derives (cycle_step g sf tf et limit))\<^sup>*"
      "cyc_ids w = xs" "cyc_depth w = 0 \<or> curr_id w \<noteq> start_id w"
      using snoc.IH [OF p] snoc.prems(2,3) False by auto
    have "walk_inv g ?A limit w" by (rule walk_inv_derived [OF w(1,2)])
    then obtain ns where ns: "cycle_nodes g w ns" by (auto simp: walk_inv_def)
    note ids = cycle_nodes_ids [OF ns, unfolded w(3)]
    obtain n where n: "n \<in> set (g_nodes g)" "v = v_id n" using v(1) by (auto simp: walk_arcs_def)
    let ?w = "\<lparr>start_id = start_id w, curr_id = v_id n, cyc_ids = cyc_ids w @ [v_id n],
       cyc_names = cyc_names w @ [v_name n], cyc_depth = cyc_depth w + 1\<rparr>"
    have lim: "int (cyc_depth w) < limit" using snoc.prems(3) ids by auto
    have "?w \<in> set (cycle_step g sf tf et limit w)"
      unfolding set_cycle_step using n v lim ids w(3,4) by auto
    then have "(a0, ?w) \<in> (derives (cycle_step g sf tf et limit))\<^sup>*"
      using w(2) by (auto simp: derives_def intro: rtrancl.rtrancl_into_rtrancl)
    moreover have "cyc_ids ?w = xs @ [v]" "curr_id ?w \<noteq> start_id ?w" using w(3) n(2) v(3) ids by auto
    ultimately show ?thesis using w(1) by blast
  qed
qed

lemma cycle_derived:
  assumes "simple_cycle (walk_arcs g sf tf et) xs" "length xs \<le> nat limit"
  shows "\<exists>a0 \<in> set (cycle_anchor g). \<exists>w. (a0, w) \<in> (derives (cycle_step g sf tf et limit))\<^sup>*
      \<and> cyc_ids w = xs @ [hd xs] \<and> 0 < cyc_depth w \<and> curr_id w = start_id w"
proof -
  let ?A = "walk_arcs g sf tf et"
  have o: "open_walk ?A xs" and c: "(last xs, hd xs) \<in> ?A"
    using assms(1) by (auto simp: simple_cycle_def open_walk_def)
  obtain n where n: "n \<in> set (g_nodes g)" "hd xs = v_id n" using c by (auto simp: walk_arcs_def)
  obtain a0 w where w: "a0 \<in> set (cycle_anchor g)" "(a0, w) \<in> (derives (cycle_step g sf tf et limit))\<^sup>*"
    "cyc_ids w = xs" "cyc_depth w = 0 \<or> curr_id w \<noteq> start_id w"
    using open_walk_derived [of g sf tf et xs limit] o n assms(2) by auto
  have "walk_inv g ?A limit w" by (rule walk_inv_derived [OF w(1,2)])
  then obtain ns where ns: "cycle_nodes g w ns" by (auto simp: walk_inv_def)
  note ids = cycle_nodes_ids [OF ns, unfolded w(3)]
  let ?w = "\<lparr>start_id = start_id w, curr_id = v_id n, cyc_ids = cyc_ids w @ [v_id n],
       cyc_names = cyc_names w @ [v_name n], cyc_depth = cyc_depth w + 1\<rparr>"
  have lim: "int (cyc_depth w) < limit" using assms(2) ids by auto
  have "?w \<in> set (cycle_step g sf tf et limit w)"
    unfolding set_cycle_step using n c lim ids w(4) by auto
  then have "(a0, ?w) \<in> (derives (cycle_step g sf tf et limit))\<^sup>*"
    using w(2) by (auto simp: derives_def intro: rtrancl.rtrancl_into_rtrancl)
  moreover have "cyc_ids ?w = xs @ [hd xs]" "0 < cyc_depth ?w" "curr_id ?w = start_id ?w"
    using w(3) n(2) ids by auto
  ultimately show ?thesis using w(1) by blast
qed

lemma cycle_rows:
  obtains out where "rec_cte (cycle_step g sf tf et limit) (nat limit + 2) (cycle_anchor g) = Some out"
    "\<forall>w \<in> set out. walk_inv g (walk_arcs g sf tf et) limit w"
    "\<And>xs. simple_cycle (walk_arcs g sf tf et) xs \<Longrightarrow> length xs \<le> nat limit \<Longrightarrow>
       \<exists>w \<in> set out. cyc_ids w = xs @ [hd xs] \<and> 0 < cyc_depth w \<and> curr_id w = start_id w"
proof -
  let ?step = "cycle_step g sf tf et limit"
  have dec: "nat limit + 1 - cyc_depth y < nat limit + 1 - cyc_depth x" if "y \<in> set (?step x)" for x y
    using that by (auto simp: set_cycle_step)
  obtain out where out: "rec_cte ?step (nat limit + 2) (cycle_anchor g) = Some out"
    "set out = {y. \<exists>x \<in> set (cycle_anchor g). (x, y) \<in> (derives ?step)\<^sup>*}"
    by (rule rec_cte_set [of ?step "\<lambda>w. nat limit + 1 - cyc_depth w" "cycle_anchor g" "nat limit + 2", OF dec]) auto
  show ?thesis
  proof (rule that [OF out(1)])
    show "\<forall>w \<in> set out. walk_inv g (walk_arcs g sf tf et) limit w"
      unfolding out(2) using walk_inv_derived by blast
    show "\<exists>w \<in> set out. cyc_ids w = xs @ [hd xs] \<and> 0 < cyc_depth w \<and> curr_id w = start_id w"
      if "simple_cycle (walk_arcs g sf tf et) xs" "length xs \<le> nat limit" for xs
      unfolding out(2) using cycle_derived [OF that] by blast
  qed
qed

definition cycle_path_row :: "cycle_row \<Rightarrow> path_row" where
  "cycle_path_row w = \<lparr>path_ids = cyc_ids w, path_names = cyc_names w, hops = cyc_depth w\<rparr>"

definition closed_rows :: "cycle_row list \<Rightarrow> path_row list" where
  "closed_rows walk = map cycle_path_row (filter (\<lambda>w. cyc_depth w > 0 \<and> curr_id w = cyc_ids w ! 0) walk)"

lemma walk_inv_good: "walk_inv g A limit w \<Longrightarrow> good_row g (cycle_path_row w)"
  by (auto simp: walk_inv_def good_row_def cycle_path_row_def cycle_nodes_def)

lemma closed_rows_ids:
  assumes "\<forall>w \<in> set out. walk_inv g A limit w"
    "\<And>xs. simple_cycle A xs \<Longrightarrow> length xs \<le> nat limit \<Longrightarrow>
       \<exists>w \<in> set out. cyc_ids w = xs @ [hd xs] \<and> 0 < cyc_depth w \<and> curr_id w = start_id w"
  shows "\<forall>q \<in> set (closed_rows out). good_row g q"
    "path_ids ` set (closed_rows out) = {xs @ [hd xs] | xs. simple_cycle A xs \<and> length xs \<le> nat limit}"
proof -
  have start: "cyc_ids w ! 0 = start_id w" if "walk_inv g A limit w" for w
    using that cycle_nodes_ids by (fastforce simp: walk_inv_def hd_conv_nth)
  show "\<forall>q \<in> set (closed_rows out). good_row g q"
    using assms(1) walk_inv_good by (auto simp: closed_rows_def)
  have "\<exists>xs. cyc_ids w = xs @ [hd xs] \<and> simple_cycle A xs \<and> length xs \<le> nat limit"
    if closed: "w \<in> set out" "0 < cyc_depth w" "curr_id w = cyc_ids w ! 0" for w
  proof -
    have w: "walk_inv g A limit w" using assms(1) closed(1) by blast
    then obtain ns where ns: "cycle_nodes g w ns" by (auto simp: walk_inv_def)
    obtain xs where "simple_cycle A xs" "cyc_ids w = xs @ [hd xs]"
      using w closed(2,3) start [OF w] by (auto simp: walk_inv_def)
    moreover have "length xs \<le> nat limit"
      using cycle_nodes_ids [OF ns] w calculation(2) by (simp add: walk_inv_def)
    ultimately show ?thesis by blast
  qed
  moreover have "\<exists>w \<in> set out. cyc_ids w = xs @ [hd xs] \<and> 0 < cyc_depth w \<and> curr_id w = cyc_ids w ! 0"
    if "simple_cycle A xs" "length xs \<le> nat limit" for xs
    using assms(2) [OF that] start assms(1) by metis
  ultimately show "path_ids ` set (closed_rows out) = {xs @ [hd xs] | xs. simple_cycle A xs \<and> length xs \<le> nat limit}"
    by (force simp: closed_rows_def cycle_path_row_def image_iff)
qed

lemma path_from_cycle_row:
  assumes "good_row g q"
  shows "map fst (path_from_row True q) = butlast (path_ids q)" "set (path_from_row True q) \<subseteq> node_items g"
    "length (path_from_row True q) = hops q"
proof -
  obtain ns where ns: "set ns \<subseteq> set (g_nodes g)" "path_ids q = map v_id ns" "path_names q = map v_name ns"
      "hops q + 1 = length ns"
    using assms by (auto simp: good_row_def)
  then have row: "path_from_row True q = map (\<lambda>n. (v_id n, v_name n)) (butlast ns)"
    by (simp add: path_from_row_def zip_map_map zip_same_conv_map map_butlast [symmetric])
  moreover have "set (butlast ns) \<subseteq> set (g_nodes g)" using ns(1) by (meson in_set_butlastD subset_code(1))
  ultimately show "map fst (path_from_row True q) = butlast (path_ids q)" "set (path_from_row True q) \<subseteq> node_items g"
    "length (path_from_row True q) = hops q"
    using ns by (auto simp: row node_items_def o_def map_butlast [symmetric])
qed

lemma find_cycles_unfold:
  assumes "{sf, tf} \<subseteq> set (g_edge_fields g)"
  shows "find_cycles g limit et sf tf max_cycles =
    map_option (\<lambda>walk. bind_res
        (case max_cycles of None \<Rightarrow> Inr (sort_key hops (remdups (closed_rows walk)))
         | Some m \<Rightarrow> sql_limit m (sort_key hops (remdups (closed_rows walk))))
        (\<lambda>rs. Inr (map (path_from_row True) rs)))
      (rec_cte (cycle_step g sf tf et limit) (nat limit + 2) (cycle_anchor g))"
proof -
  let ?et = "et_clause et 2"
  let ?post = "case max_cycles of None \<Rightarrow> [] | Some m \<Rightarrow> [PInt m]"
  let ?ps = "PInt limit # map PText (snd ?et) @ ?post"
  have "clause_type (fst ?et) ?ps = et" using clause_type_et [of "[PInt limit]" 2 et ?post] by simp
  moreover have "bound_int ?ps 1 = limit" by (simp add: bound_int_def)
  moreover have "bound_int ?ps (2 + length (snd ?et)) = m" if "max_cycles = Some m" for m
    using that by (simp add: bound_int_def nth_append)
  ultimately show ?thesis
    by (cases max_cycles)
      (simp_all add: find_cycles_def valid_fields [OF assms] split_beta Let_def closed_rows_def cycle_path_row_def [abs_def])
qed

lemma cycle_lists_inj:
  assumes "distinct (map v_id (g_nodes g))" "\<forall>q \<in> set rows. good_row g q" "distinct rows"
    "\<forall>q \<in> set rows. \<exists>xs. xs \<noteq> [] \<and> path_ids q = xs @ [hd xs]"
  shows "distinct (map (map fst) (map (path_from_row True) rows))"
proof -
  have "path_ids q = path_ids q'"
    if "q \<in> set rows" "q' \<in> set rows" "butlast (path_ids q) = butlast (path_ids q')" for q q'
    using assms(4) that by (metis butlast_snoc)
  then have "inj_on (\<lambda>q. butlast (path_ids q)) (set rows)"
    using good_row_ids_inj [OF assms(1)] assms(2) by (intro inj_onI) blast
  moreover have "map (map fst) (map (path_from_row True) rows) = map (\<lambda>q. butlast (path_ids q)) rows"
    using assms(2) by (simp add: path_from_cycle_row(1) [of g])
  ultimately show ?thesis using assms(3) by (metis distinct_map)
qed

text \<open>C25: \<open>find_cycles\<close> ends and returns the first \<open>max_cycles\<close> (all, without a limit) of the
  complete list of the simple directed cycles of at most \<open>max_depth\<close> edges: each of them exactly
  once, from its smallest node, without the closing node, shortest first.\<close>

theorem find_cycles_complete:
  assumes "{source_field, target_field} \<subseteq> set (g_edge_fields g)" "distinct (map v_id (g_nodes g))"
  shows "\<exists>full. find_cycles g max_depth et source_field target_field max_cycles
        = Some (case max_cycles of None \<Rightarrow> Inr full
                | Some m \<Rightarrow> if m < 0 then Inl OperationalError else Inr (take (nat m) full))
    \<and> sorted (map length full) \<and> distinct (map (map fst) full) \<and> (\<forall>p \<in> set full. set p \<subseteq> node_items g)
    \<and> map fst ` set full =
        {xs. simple_cycle (walk_arcs g source_field target_field et) xs \<and> length xs \<le> nat max_depth}"
proof -
  let ?A = "walk_arcs g source_field target_field et"
  obtain out where run:
    "rec_cte (cycle_step g source_field target_field et max_depth) (nat max_depth + 2) (cycle_anchor g) = Some out"
    and inv: "\<forall>w \<in> set out. walk_inv g ?A max_depth w"
    and all: "\<And>xs. simple_cycle ?A xs \<Longrightarrow> length xs \<le> nat max_depth \<Longrightarrow>
       \<exists>w \<in> set out. cyc_ids w = xs @ [hd xs] \<and> 0 < cyc_depth w \<and> curr_id w = start_id w"
    using cycle_rows by blast
  let ?sorted = "sort_key hops (remdups (closed_rows out))"
  let ?full = "map (path_from_row True) ?sorted"
  have rows: "\<forall>q \<in> set (closed_rows out). good_row g q"
    "path_ids ` set (closed_rows out) = {xs @ [hd xs] | xs. simple_cycle ?A xs \<and> length xs \<le> nat max_depth}"
    by (rule closed_rows_ids [OF inv], rule all, assumption+)+
  have good: "\<forall>q \<in> set ?sorted. good_row g q" using rows(1) by simp
  have len: "map length ?full = map hops ?sorted" using good by (simp add: path_from_cycle_row(3) [of g])
  have sorted: "sorted (map length ?full)" unfolding len by simp
  have items: "\<forall>p \<in> set ?full. set p \<subseteq> node_items g" using path_from_cycle_row(2) good by auto
  have shape: "\<forall>q \<in> set ?sorted. \<exists>xs. xs \<noteq> [] \<and> path_ids q = xs @ [hd xs]"
  proof
    fix q assume "q \<in> set ?sorted"
    then have "path_ids q \<in> path_ids ` set (closed_rows out)" by simp
    then obtain xs where "path_ids q = xs @ [hd xs]" "simple_cycle ?A xs" unfolding rows(2) by blast
    then show "\<exists>xs. xs \<noteq> [] \<and> path_ids q = xs @ [hd xs]" by (auto simp: simple_cycle_def simple_path_def)
  qed
  have dist: "distinct (map (map fst) ?full)" by (rule cycle_lists_inj [OF assms(2) good _ shape]) simp
  have "map fst ` set ?full = (\<lambda>q. butlast (path_ids q)) ` set (closed_rows out)"
    using rows(1) by (simp add: path_from_cycle_row(1) [of g] image_image)
  also have "\<dots> = butlast ` path_ids ` set (closed_rows out)" by (simp add: image_image)
  also have "\<dots> = {xs. simple_cycle ?A xs \<and> length xs \<le> nat max_depth}"
    unfolding rows(2) by (simp add: setcompr_eq_image image_image)
  finally have ids: "map fst ` set ?full = {xs. simple_cycle ?A xs \<and> length xs \<le> nat max_depth}" .
  have "find_cycles g max_depth et source_field target_field max_cycles
        = Some (case max_cycles of None \<Rightarrow> Inr ?full
                | Some m \<Rightarrow> if m < 0 then Inl OperationalError else Inr (take (nat m) ?full))"
    unfolding find_cycles_unfold [OF assms(1)] run by (cases max_cycles) (simp_all add: limited_rows)
  then show ?thesis using sorted dist items ids by blast
qed

lemma sample_runs:
  "shortest_path sample_graph 1 3 6 None ''source_id'' ''target_id''
     = Some (Inr (Some [(1, ''a''), (2, ''b''), (3, ''c'')]))"
  "all_paths sample_graph 3 2 6 10 None ''source_id'' ''target_id''
     = Some (Inr [[(3, ''c''), (2, ''b'')], [(3, ''c''), (1, ''a''), (2, ''b'')]])"
  "find_cycles sample_graph 6 None ''source_id'' ''target_id'' (Some 100)
     = Some (Inr [[(2, ''b''), (3, ''c'')], [(1, ''a''), (2, ''b''), (3, ''c'')]])"
  "shortest_path sample_graph 1 3 6 None ''source_id'' ''target'' = Some (Inl GraphTraversalError)"
  by code_simp+

theorem shortest_path_correct_witness:
  "\<exists>r. shortest_path sample_graph 1 3 6 None ''source_id'' ''target_id'' = Some (Inr r) \<and> r \<noteq> None
     \<and> \<not> (1, 3) \<in> walk_arcs sample_graph ''source_id'' ''target_id'' None ^^ 1"
proof -
  have "(1, 3) \<in> walk_arcs sample_graph ''source_id'' ''target_id'' None ^^ n \<Longrightarrow> 3 \<le> n + 1" for n
    using shortest_path_correct [OF sample_hyps(1,2), of 3 6 None] by (fastforce simp: sample_runs(1))
  from this [of 1] show ?thesis by (auto simp: sample_runs(1))
qed

theorem all_paths_complete_witness:
  "simple_path (walk_arcs sample_graph ''source_id'' ''target_id'' None) 3 [3, 1, 2]"
proof -
  obtain full where full: "Inr (take 10 full) = (Inr [[(3, ''c''), (2, ''b'')], [(3, ''c''), (1, ''a''), (2, ''b'')]]
      :: exc + (int \<times> string) list list)"
    "map fst ` set full = {xs. simple_path (walk_arcs sample_graph ''source_id'' ''target_id'' None) 3 xs
       \<and> last xs = 2 \<and> length xs \<le> 7}"
    using all_paths_complete [OF sample_hyps(1,3,4), of 2 6 10 None] by (auto simp: sample_runs(2))
  have "[(3, ''c''), (1, ''a''), (2, ''b'')] \<in> set full" using full(1) by (auto intro: in_set_takeD [of _ 10])
  then have "[3, 1, 2] \<in> map fst ` set full" by force
  then show ?thesis unfolding full(2) by simp
qed

theorem find_cycles_complete_witness:
  "simple_cycle (walk_arcs sample_graph ''source_id'' ''target_id'' None) [1, 2, 3]"
proof -
  obtain full where full: "Inr (take 100 full) = (Inr [[(2, ''b''), (3, ''c'')], [(1, ''a''), (2, ''b''), (3, ''c'')]]
      :: exc + (int \<times> string) list list)"
    "map fst ` set full = {xs. simple_cycle (walk_arcs sample_graph ''source_id'' ''target_id'' None) xs \<and> length xs \<le> 6}"
    using find_cycles_complete [OF sample_hyps(1,4), of 6 None "Some 100"] by (auto simp: sample_runs(3))
  have "[(1, ''a''), (2, ''b''), (3, ''c'')] \<in> set full" using full(1) by (auto intro: in_set_takeD [of _ 100])
  then have "[1, 2, 3] \<in> map fst ` set full" by force
  then show ?thesis unfolding full(2) by simp
qed

end
