(* ===== verification/Graph_Traversal.thy ===== *)
theory Graph_Traversal
  imports Cte Exceptions "HOL-Library.Product_Lexorder"
begin

text \<open>
  \<open>expressions/graph_traversal.py\<close>: the class \<open>GraphTraversal\<close> with its constructor check,
  \<open>ancestors\<close>, \<open>descendants\<close>, \<open>neighbors\<close> and \<open>has_cycle\<close>. A query is the evaluation of its
  statement on the node and edge tables with the bound parameters; text is compared by code
  point, as under the collation \<open>C\<close>. The specification is the relation \<^term>\<open>within A n u v\<close>: \<open>v\<close> can
  be reached from \<open>u\<close> in at most \<open>n\<close> steps of \<open>A\<close>.
\<close>

section \<open>The class\<close>

record traversal =
  t_graph :: graph
  t_source :: string
  t_target :: string

definition GraphTraversal :: "graph \<Rightarrow> string \<Rightarrow> string \<Rightarrow> exc + traversal" where
  "GraphTraversal g source_field target_field =
     (if \<exists>name \<in> set [source_field, target_field]. name \<notin> set (g_edge_fields g) then Inl GraphTraversalError
      else Inr \<lparr>t_graph = g, t_source = source_field, t_target = target_field\<rparr>)"

text \<open>\<open>SELECT id, MIN(name), MIN(depth), MIN(hops) ... WHERE id != $1 GROUP BY id
  ORDER BY MIN(hops), MIN(name)\<close>.\<close>

record hop_result =
  hr_id :: int
  hr_name :: string
  hr_depth :: int
  hr_hops :: nat

definition hop_group :: "unit hop_row list \<Rightarrow> int \<Rightarrow> hop_result" where
  "hop_group rows i =
     (let grp = filter (\<lambda>r. v_id (r_node r) = i) rows
      in \<lparr>hr_id = i, hr_name = Min (set (map (\<lambda>r. v_name (r_node r)) grp)),
          hr_depth = Min (set (map (\<lambda>r. v_depth (r_node r)) grp)), hr_hops = Min (set (map r_hops grp))\<rparr>)"

definition select_hops :: "int \<Rightarrow> unit hop_row list \<Rightarrow> hop_result list" where
  "select_hops start rows =
     sort_key (\<lambda>r. (hr_hops r, hr_name r))
       (map (hop_group rows) (remdups (filter (\<lambda>i. i \<noteq> start) (map (\<lambda>r. v_id (r_node r)) rows))))"

definition hop_query ::
  "traversal \<Rightarrow> (edge \<Rightarrow> int \<Rightarrow> int \<Rightarrow> bool) \<Rightarrow> string \<Rightarrow> qparam list \<Rightarrow> hop_result list option" where
  "hop_query t joins clause params =
     map_option (select_hops (bound_int params 1))
       (rec_cte
          (hop_step (t_graph t) joins (clause_type clause params) (bound_int params 2) (\<lambda>_ _. ()))
          (nat (bound_int params 2) + 2)
          (hop_anchor (t_graph t) (\<lambda>_. ()) (bound_int params 1)))"

definition ancestor_joins :: "traversal \<Rightarrow> edge \<Rightarrow> int \<Rightarrow> int \<Rightarrow> bool" where
  "ancestor_joins t e a n \<longleftrightarrow>
     (e_fk e (t_target t) = a \<or> (e_bidirectional e \<and> e_fk e (t_source t) = a))
     \<and> (n = e_fk e (t_source t) \<or> (e_bidirectional e \<and> n = e_fk e (t_target t)))"

definition ancestors :: "traversal \<Rightarrow> int \<Rightarrow> int \<Rightarrow> string option \<Rightarrow> hop_result list option" where
  "ancestors t node_id max_depth edge_type =
     (let (clause, et_params) = et_clause edge_type 3
      in hop_query t (ancestor_joins t) clause ([PInt node_id, PInt max_depth] @ map PText et_params))"

definition descendant_joins :: "traversal \<Rightarrow> edge \<Rightarrow> int \<Rightarrow> int \<Rightarrow> bool" where
  "descendant_joins t e d n \<longleftrightarrow>
     (e_fk e (t_source t) = d \<or> (e_bidirectional e \<and> e_fk e (t_target t) = d))
     \<and> (n = e_fk e (t_target t) \<or> (e_bidirectional e \<and> n = e_fk e (t_source t)))"

definition descendants :: "traversal \<Rightarrow> int \<Rightarrow> int \<Rightarrow> string option \<Rightarrow> hop_result list option" where
  "descendants t node_id max_depth edge_type =
     (let (clause, et_params) = et_clause edge_type 3
      in hop_query t (descendant_joins t) clause ([PInt node_id, PInt max_depth] @ map PText et_params))"

definition neighbor_joins :: "traversal \<Rightarrow> string \<Rightarrow> edge \<Rightarrow> int \<Rightarrow> int \<Rightarrow> bool" where
  "neighbor_joins t direction e b n \<longleftrightarrow>
     (let src = e_fk e (t_source t); tgt = e_fk e (t_target t) in
      if direction = ''outgoing'' then
        (src = b \<or> (e_bidirectional e \<and> tgt = b))
        \<and> ((src = b \<and> n = tgt) \<or> (e_bidirectional e \<and> tgt = b \<and> n = src))
      else if direction = ''incoming'' then
        (tgt = b \<or> (e_bidirectional e \<and> src = b))
        \<and> ((tgt = b \<and> n = src) \<or> (e_bidirectional e \<and> src = b \<and> n = tgt))
      else
        (src = b \<or> tgt = b) \<and> ((src = b \<and> n = tgt) \<or> (tgt = b \<and> n = src)))"

definition DIRECTIONS :: "string list" where
  "DIRECTIONS = [''outgoing'', ''incoming'', ''both'']"

definition neighbors ::
  "traversal \<Rightarrow> int \<Rightarrow> string \<Rightarrow> string option \<Rightarrow> int \<Rightarrow> (exc + hop_result list) option" where
  "neighbors t node_id direction edge_type max_depth =
     (if direction \<notin> set DIRECTIONS then Some (Inl GraphTraversalError)
      else
        let (clause, et_params) = et_clause edge_type 3
        in map_option Inr
             (hop_query t (neighbor_joins t direction) clause
                ([PInt node_id, PInt max_depth] @ map PText et_params)))"

section \<open>Cycle check\<close>

record reach_row =
  rr_eid :: int
  rr_from :: int
  rr_to :: int
  rr_depth :: nat

definition reach_anchor :: "traversal \<Rightarrow> string option \<Rightarrow> reach_row list" where
  "reach_anchor t et =
     [\<lparr>rr_eid = e_id e, rr_from = e_fk e (t_source t), rr_to = e_fk e (t_target t), rr_depth = 1\<rparr>.
        e \<leftarrow> g_edges (t_graph t), type_ok et e]"

definition reach_step :: "traversal \<Rightarrow> string option \<Rightarrow> int \<Rightarrow> reach_row \<Rightarrow> reach_row list" where
  "reach_step t et limit r =
     [r\<lparr>rr_to := (if e_fk e (t_source t) = rr_to r then e_fk e (t_target t) else e_fk e (t_source t)),
        rr_depth := rr_depth r + 1\<rparr>.
        e \<leftarrow> g_edges (t_graph t),
        (e_fk e (t_source t) = rr_to r \<or> (e_bidirectional e \<and> e_fk e (t_target t) = rr_to r))
        \<and> int (rr_depth r) < limit \<and> type_ok et e]"

definition has_cycle :: "traversal \<Rightarrow> string option \<Rightarrow> int \<Rightarrow> bool option" where
  "has_cycle t edge_type max_depth =
     (let (clause, et_params) = et_clause edge_type 2;
          params = PInt max_depth # map PText et_params;
          anchor_type = (if edge_type \<noteq> None then Some (bound_text params 2) else None)
      in map_option (list_ex (\<lambda>r. rr_from r = rr_to r))
           (rec_cte (reach_step t (clause_type clause params) (bound_int params 1))
              (nat (bound_int params 1) + 2)
              (reach_anchor t anchor_type)))"

section \<open>Reaching within a number of steps\<close>

definition within :: "('a \<times> 'a) set \<Rightarrow> nat \<Rightarrow> 'a \<Rightarrow> 'a \<Rightarrow> bool" where
  "within A n u v \<longleftrightarrow> (\<exists>m \<le> n. (u, v) \<in> A ^^ m)"

lemma within_mono: "within A n u v \<Longrightarrow> n \<le> m \<Longrightarrow> within A m u v"
  by (auto simp: within_def intro: order_trans)

lemma relpow_subset:
  fixes A B :: "('a \<times> 'a) set"
  shows "A \<subseteq> B \<Longrightarrow> (u, v) \<in> A ^^ n \<Longrightarrow> (u, v) \<in> B ^^ n"
  by (induction n arbitrary: v) auto

lemma within_loops:
  assumes "B \<subseteq> A" "A \<subseteq> B \<union> Id"
  shows "within A = within B"
proof (intro ext iffI)
  fix n u v assume "within B n u v"
  then show "within A n u v" using relpow_subset [OF assms(1)] by (auto simp: within_def)
next
  have "\<exists>m \<le> n. (u, v) \<in> B ^^ m" if "(u, v) \<in> A ^^ n" for n u v
    using that
  proof (induction n arbitrary: v)
    case (Suc n)
    then obtain w where "(u, w) \<in> A ^^ n" "(w, v) \<in> A" by auto
    with Suc.IH obtain m where w: "(w, v) \<in> A" "m \<le> n" "(u, w) \<in> B ^^ m" by blast
    show ?case
    proof (cases "w = v")
      case True
      then show ?thesis using w(2,3) le_SucI by blast
    next
      case False
      then have "(u, v) \<in> B ^^ Suc m" using w(1,3) assms(2) by auto
      then show ?thesis using w(2) by (meson Suc_le_mono)
    qed
  qed auto
  then show "within B n u v" if "within A n u v" for n u v
    using that unfolding within_def by (meson order_trans)
qed

text \<open>Steps that stay in a set of nodes can be walked backwards.\<close>

lemma relpow_backwards:
  assumes "\<And>u v. (u, v) \<in> A \<longleftrightarrow> v \<in> N \<and> (v, u) \<in> E" "\<And>u v. (u, v) \<in> B \<longleftrightarrow> v \<in> N \<and> (u, v) \<in> E" "a \<in> N"
  shows "(a, v) \<in> A ^^ n \<longleftrightarrow> v \<in> N \<and> (v, a) \<in> B ^^ n"
proof (induction n arbitrary: v)
  case 0
  then show ?case using assms(3) by auto
next
  case (Suc n)
  have "(a, v) \<in> A ^^ Suc n \<longleftrightarrow> (\<exists>w. (a, w) \<in> A ^^ n \<and> (w, v) \<in> A)" by auto
  also have "\<dots> \<longleftrightarrow> (\<exists>w. w \<in> N \<and> (w, a) \<in> B ^^ n \<and> v \<in> N \<and> (v, w) \<in> E)"
    unfolding Suc.IH assms(1) by blast
  also have "\<dots> \<longleftrightarrow> v \<in> N \<and> (\<exists>w. (v, w) \<in> B \<and> (w, a) \<in> B ^^ n)"
    unfolding assms(2) by blast
  also have "\<dots> \<longleftrightarrow> v \<in> N \<and> (v, a) \<in> B ^^ Suc n"
    by (metis relpow_Suc_D2 relpow_Suc_I2)
  finally show ?case .
qed

section \<open>The result of a hop query\<close>

text \<open>What a traversal promises: every reachable node but the start exactly once, with its own name
  and depth and its distance, ordered by distance and name.\<close>

definition reach_rows :: "graph \<Rightarrow> (nat \<Rightarrow> int \<Rightarrow> bool) \<Rightarrow> int \<Rightarrow> nat \<Rightarrow> hop_result list \<Rightarrow> bool" where
  "reach_rows g reach a k out \<longleftrightarrow>
     distinct (map hr_id out)
     \<and> sorted (map (\<lambda>r. (hr_hops r, hr_name r)) out)
     \<and> hr_id ` set out = {v. v \<noteq> a \<and> reach k v}
     \<and> (\<forall>r \<in> set out. (\<exists>n \<in> set (g_nodes g). v_id n = hr_id r \<and> v_name n = hr_name r \<and> v_depth n = hr_depth r)
          \<and> (\<forall>n. reach n (hr_id r) \<longleftrightarrow> hr_hops r \<le> n))"

lemma rows_within:
  assumes ok: "\<forall>r \<in> set out. row_ok g (\<lambda>_. ()) (\<lambda>_ _. ()) r"
    and ids: "r_ids ` set out = {xs. simple_path A a xs \<and> length xs \<le> k + 1}" and n: "n \<le> k"
  shows "within A n a v \<longleftrightarrow> (\<exists>r \<in> set out. v_id (r_node r) = v \<and> r_hops r \<le> n)"
proof -
  have row: "last (r_ids r) = v_id (r_node r)" "length (r_ids r) = r_hops r + 1" if "r \<in> set out" for r
    using row_okD(3,4) [OF ok [rule_format, OF that]] by auto
  have "within A n a v \<longleftrightarrow> (\<exists>xs. simple_path A a xs \<and> last xs = v \<and> length xs \<le> n + 1)"
    unfolding within_def by (rule reachable_simple)
  also have "\<dots> \<longleftrightarrow> (\<exists>xs \<in> r_ids ` set out. last xs = v \<and> length xs \<le> n + 1)"
    unfolding ids using n by auto
  also have "\<dots> \<longleftrightarrow> (\<exists>r \<in> set out. v_id (r_node r) = v \<and> r_hops r \<le> n)"
    using row by auto
  finally show ?thesis .
qed

lemma Min_set_le: "xs \<noteq> [] \<Longrightarrow> Min (set xs) \<le> n \<longleftrightarrow> (\<exists>x \<in> set xs. x \<le> (n :: nat))"
  by (simp add: Min_le_iff)

lemma Min_constant: "xs \<noteq> [] \<Longrightarrow> \<forall>x \<in> set xs. x = c \<Longrightarrow> Min (set xs) = (c :: 'b :: linorder)"
  by (metis Min_in List.finite_set set_empty)

lemma hop_group_node:
  assumes "distinct (map v_id (g_nodes g))" "\<forall>r \<in> set out. r_node r \<in> set (g_nodes g)"
    "n \<in> set (g_nodes g)" "\<exists>r \<in> set out. v_id (r_node r) = v_id n"
  shows "hr_name (hop_group out (v_id n)) = v_name n" "hr_depth (hop_group out (v_id n)) = v_depth n"
proof -
  let ?grp = "filter (\<lambda>r. v_id (r_node r) = v_id n) out"
  have node: "\<forall>r \<in> set ?grp. r_node r = n"
    using assms(1-3) by (simp add: distinct_map inj_on_def)
  have ne: "?grp \<noteq> []" using assms(4) by (simp add: filter_empty_conv)
  have const: "Min (set (map (\<lambda>r. f (r_node r)) ?grp)) = f n" for f :: "vnode \<Rightarrow> 'c :: linorder"
    by (rule Min_constant) (use node ne in auto)
  show "hr_name (hop_group out (v_id n)) = v_name n" "hr_depth (hop_group out (v_id n)) = v_depth n"
    unfolding hop_group_def Let_def hop_result.select_convs const by (rule refl)+
qed

lemma select_hops_reach:
  assumes uniq: "distinct (map v_id (g_nodes g))"
    and ok: "\<forall>r \<in> set out. row_ok g (\<lambda>_. ()) (\<lambda>_ _. ()) r"
    and ids: "r_ids ` set out = {xs. simple_path A a xs \<and> length xs \<le> k + 1}"
    and hops: "\<forall>r \<in> set out. r_hops r \<le> k"
  shows "reach_rows g (\<lambda>n v. within A n a v) a k (select_hops a out)"
proof -
  let ?ids = "remdups (filter (\<lambda>i. i \<noteq> a) (map (\<lambda>r. v_id (r_node r)) out))"
  have node: "\<forall>r \<in> set out. r_node r \<in> set (g_nodes g)" using row_okD(1) ok by blast
  have id: "hr_id (hop_group out i) = i" for i by (simp add: hop_group_def Let_def)
  have mset: "mset (map hr_id (select_hops a out)) = mset ?ids"
    by (simp add: select_hops_def id multiset.map_comp o_def)
  have "distinct (map hr_id (select_hops a out))" using mset mset_eq_imp_distinct_iff by (metis distinct_remdups)
  moreover have "sorted (map (\<lambda>r. (hr_hops r, hr_name r)) (select_hops a out))"
    unfolding select_hops_def by (rule sorted_sort_key)
  moreover have "hr_id ` set (select_hops a out) = {v. v \<noteq> a \<and> within A k a v}"
    using mset_eq_setD [OF mset] rows_within [OF ok ids order_refl] hops by auto
  moreover have "(\<exists>n \<in> set (g_nodes g). v_id n = hr_id r \<and> v_name n = hr_name r \<and> v_depth n = hr_depth r)
          \<and> (\<forall>n. within A n a (hr_id r) \<longleftrightarrow> hr_hops r \<le> n)"
    if r: "r \<in> set (select_hops a out)" for r
  proof -
    obtain r0 where r0: "r0 \<in> set out" "r = hop_group out (v_id (r_node r0))"
      using r by (auto simp: select_hops_def)
    let ?hops = "map r_hops (filter (\<lambda>r. v_id (r_node r) = v_id (r_node r0)) out)"
    have ne: "?hops \<noteq> []" using r0(1) by (auto simp: filter_empty_conv)
    have min: "hr_hops r \<le> n \<longleftrightarrow> (\<exists>r \<in> set out. v_id (r_node r) = v_id (r_node r0) \<and> r_hops r \<le> n)" for n
      using Min_set_le [OF ne, of n] by (auto simp: r0(2) hop_group_def Let_def)
    have "within A n a (v_id (r_node r0)) \<longleftrightarrow> hr_hops r \<le> n" for n
    proof (cases "n \<le> k")
      case True
      show ?thesis unfolding min by (rule rows_within [OF ok ids True])
    next
      case False
      have "hr_hops r \<le> k" unfolding min using r0(1) hops by blast
      moreover have "within A k a (v_id (r_node r0))"
        unfolding rows_within [OF ok ids order_refl] using r0(1) hops by blast
      ultimately show ?thesis using False within_mono [of A k a _ n] by auto
    qed
    moreover have "hr_id r = v_id (r_node r0)" by (simp add: r0(2) id)
    moreover have "hr_name r = v_name (r_node r0)" "hr_depth r = v_depth (r_node r0)"
      using hop_group_node [OF uniq node, of "r_node r0"] r0 node by blast+
    ultimately show ?thesis using node r0(1) by metis
  qed
  ultimately show ?thesis unfolding reach_rows_def by blast
qed

section \<open>Edges\<close>

text \<open>The directed links of the edge table, a bidirectional edge giving both, and the links that
  lead to a stored node.\<close>

definition link :: "traversal \<Rightarrow> string option \<Rightarrow> (int \<times> int) set" where
  "link t et = {(u, v). \<exists>e \<in> set (g_edges (t_graph t)). type_ok et e
     \<and> ((e_fk e (t_source t) = u \<and> e_fk e (t_target t) = v)
        \<or> (e_bidirectional e \<and> e_fk e (t_target t) = u \<and> e_fk e (t_source t) = v))}"

definition stored :: "traversal \<Rightarrow> int set" where
  "stored t = v_id ` set (g_nodes (t_graph t))"

definition follow :: "traversal \<Rightarrow> string option \<Rightarrow> (int \<times> int) set" where
  "follow t et = {(u, v). v \<in> stored t \<and> (u, v) \<in> link t et}"

definition follow_rev :: "traversal \<Rightarrow> string option \<Rightarrow> (int \<times> int) set" where
  "follow_rev t et = {(u, v). v \<in> stored t \<and> (v, u) \<in> link t et}"

lemma in_link:
  "(u, v) \<in> link t et \<longleftrightarrow> (\<exists>e \<in> set (g_edges (t_graph t)). type_ok et e
     \<and> ((e_fk e (t_source t) = u \<and> e_fk e (t_target t) = v)
        \<or> (e_bidirectional e \<and> e_fk e (t_target t) = u \<and> e_fk e (t_source t) = v)))"
  by (simp add: link_def)

lemma in_follow: "(u, v) \<in> follow t et \<longleftrightarrow> v \<in> stored t \<and> (u, v) \<in> link t et"
  by (simp add: follow_def)

lemma in_follow_rev: "(u, v) \<in> follow_rev t et \<longleftrightarrow> v \<in> stored t \<and> (v, u) \<in> link t et"
  by (simp add: follow_rev_def)

lemma in_arcs:
  "(u, v) \<in> arcs (t_graph t) joins et \<longleftrightarrow> v \<in> stored t \<and> (\<exists>e \<in> set (g_edges (t_graph t)). type_ok et e \<and> joins e u v)"
  by (simp add: arcs_def stored_def)

lemmas edge_simps = in_link in_follow in_follow_rev in_arcs

lemma within_rev:
  assumes "a \<in> stored t"
  shows "within (follow_rev t et) n a v \<longleftrightarrow> v \<in> stored t \<and> within (follow t et) n v a"
proof -
  have "(a, v) \<in> follow_rev t et ^^ m \<longleftrightarrow> v \<in> stored t \<and> (v, a) \<in> follow t et ^^ m" for m
    by (rule relpow_backwards [where E = "link t et"]) (simp_all add: in_follow in_follow_rev assms)
  then show ?thesis by (auto simp: within_def)
qed

lemma descendant_arcs: "within (arcs (t_graph t) (descendant_joins t) et) = within (follow t et)"
  by (rule within_loops) (auto simp: edge_simps descendant_joins_def)

lemma ancestor_arcs: "within (arcs (t_graph t) (ancestor_joins t) et) = within (follow_rev t et)"
  by (rule within_loops) (auto simp: edge_simps ancestor_joins_def)

lemma outgoing_arcs: "arcs (t_graph t) (neighbor_joins t ''outgoing'') et = follow t et"
  by (auto simp: edge_simps neighbor_joins_def Let_def)

lemma incoming_arcs: "arcs (t_graph t) (neighbor_joins t ''incoming'') et = follow_rev t et"
  by (auto simp: edge_simps neighbor_joins_def Let_def)

lemma both_arcs:
  "arcs (t_graph t) (neighbor_joins t ''both'') et = follow t et \<union> follow_rev t et"
  by (auto simp: edge_simps neighbor_joins_def Let_def)

lemma hop_query_reach:
  assumes "distinct (map v_id (g_nodes (t_graph t)))" "a \<in> stored t"
  shows "\<exists>out. hop_query t joins (fst (et_clause et 3)) ([PInt a, PInt m] @ map PText (snd (et_clause et 3))) = Some out
    \<and> reach_rows (t_graph t) (\<lambda>n v. within (arcs (t_graph t) joins et) n a v) a (nat m) out"
proof -
  let ?g = "t_graph t"
  let ?ps = "[PInt a, PInt m] @ map PText (snd (et_clause et 3))"
  have ps: "bound_int ?ps 1 = a" "bound_int ?ps 2 = m" by (simp_all add: bound_int_def)
  have et: "clause_type (fst (et_clause et 3)) ?ps = et"
    using clause_type_et [of "[PInt a, PInt m]" 3 et "[]"] by simp
  obtain out where out:
    "rec_cte (hop_step ?g joins et m (\<lambda>_ _. ())) (nat m + 2) (hop_anchor ?g (\<lambda>_. ()) a) = Some out"
    "\<forall>r \<in> set out. row_ok ?g (\<lambda>_. ()) (\<lambda>_ _. ()) r"
    and ids: "r_ids ` set out = {xs. simple_path (arcs ?g joins et) a xs \<and> length xs \<le> nat m + 1}"
    using hop_cte_stored [OF assms(2) [unfolded stored_def], of joins et m "\<lambda>_ _. ()" "\<lambda>_. ()"] by (elim exE conjE)
  have "r_hops r \<le> nat m" if r: "r \<in> set out" for r
  proof -
    have "length (r_ids r) \<le> nat m + 1" using ids r by blast
    then show ?thesis using row_okD(4) [OF out(2) [rule_format, OF r]] by simp
  qed
  then have "reach_rows ?g (\<lambda>n v. within (arcs ?g joins et) n a v) a (nat m) (select_hops a out)"
    using select_hops_reach [OF assms(1) out(2) ids] by blast
  then show ?thesis unfolding hop_query_def ps et out(1) by simp
qed

text \<open>C26: \<open>descendants\<close> ends and returns every node that matching edges lead to from the start
  within \<open>max_depth\<close> steps (a bidirectional edge followed both ways), each once, never the start,
  with the length of the shortest way, closest first and then by name.\<close>

theorem descendants_exact:
  assumes "distinct (map v_id (g_nodes (t_graph t)))" "a \<in> stored t"
  shows "\<exists>out. descendants t a max_depth et = Some out
    \<and> reach_rows (t_graph t) (\<lambda>n v. within (follow t et) n a v) a (nat max_depth) out"
  using hop_query_reach [OF assms, of "descendant_joins t" et max_depth]
  by (simp add: descendants_def split_beta descendant_arcs)

text \<open>\<open>ancestors\<close> ends and returns every node from which matching edges lead to the start
  within \<open>max_depth\<close> steps, each once, with the length of the shortest way, closest first: it is
  the mirror image of \<open>descendants\<close>.\<close>

theorem ancestors_exact:
  assumes "distinct (map v_id (g_nodes (t_graph t)))" "a \<in> stored t"
  shows "\<exists>out. ancestors t a max_depth et = Some out
    \<and> reach_rows (t_graph t) (\<lambda>n v. v \<in> stored t \<and> within (follow t et) n v a) a (nat max_depth) out"
  using hop_query_reach [OF assms, of "ancestor_joins t" et max_depth]
  by (simp add: ancestors_def split_beta ancestor_arcs within_rev [OF assms(2)])

definition direction_links :: "traversal \<Rightarrow> string option \<Rightarrow> string \<Rightarrow> (int \<times> int) set" where
  "direction_links t et direction =
     (if direction = ''outgoing'' then follow t et
      else if direction = ''incoming'' then follow_rev t et else follow t et \<union> follow_rev t et)"

text \<open>\<open>neighbors\<close> rejects an unknown direction with \<open>GraphTraversalError\<close>; with a known one it
  ends and returns what is reachable within \<open>max_depth\<close> steps along edges (outgoing), against
  them (incoming) or either way (both), with distances.\<close>

theorem neighbors_exact:
  assumes "distinct (map v_id (g_nodes (t_graph t)))" "a \<in> stored t"
  shows "if direction \<in> {''outgoing'', ''incoming'', ''both''}
    then \<exists>out. neighbors t a direction et max_depth = Some (Inr out)
      \<and> reach_rows (t_graph t) (\<lambda>n v. within (direction_links t et direction) n a v) a (nat max_depth) out
    else neighbors t a direction et max_depth = Some (Inl GraphTraversalError)"
proof (cases "direction \<in> set DIRECTIONS")
  case True
  have dir: "direction \<in> {''outgoing'', ''incoming'', ''both''}" using True unfolding DIRECTIONS_def by (simp only: list.set)
  have "arcs (t_graph t) (neighbor_joins t direction) et = direction_links t et direction"
    using dir
  proof (elim insertE emptyE)
    assume "direction = ''outgoing''"
    then show ?thesis by (simp only: outgoing_arcs direction_links_def if_True simp_thms)
  next
    assume "direction = ''incoming''"
    then show ?thesis by (simp add: incoming_arcs direction_links_def)
  next
    assume "direction = ''both''"
    then show ?thesis by (simp add: both_arcs direction_links_def)
  qed
  then obtain out where "hop_query t (neighbor_joins t direction) (fst (et_clause et 3))
      ([PInt a, PInt max_depth] @ map PText (snd (et_clause et 3))) = Some out"
    "reach_rows (t_graph t) (\<lambda>n v. within (direction_links t et direction) n a v) a (nat max_depth) out"
    using hop_query_reach [OF assms, of "neighbor_joins t direction" et max_depth] by metis
  then show ?thesis unfolding if_P [OF dir] neighbors_def using True by (simp add: split_beta)
next
  case False
  then have "direction \<notin> {''outgoing'', ''incoming'', ''both''}" unfolding DIRECTIONS_def by (simp only: list.set not_False_eq_True)
  then show ?thesis unfolding neighbors_def using False by (simp only: if_False if_True not_False_eq_True)
qed

section \<open>Closed walks\<close>

text \<open>The forward links only, as the anchor of \<open>has_cycle\<close> takes them.\<close>

definition forward :: "traversal \<Rightarrow> string option \<Rightarrow> (int \<times> int) set" where
  "forward t et = {(u, v). \<exists>e \<in> set (g_edges (t_graph t)). type_ok et e \<and> e_fk e (t_source t) = u \<and> e_fk e (t_target t) = v}"

lemma forward_link: "forward t et \<subseteq> link t et" "link t et \<subseteq> forward t et \<union> (forward t et)\<inverse>"
  by (auto simp: forward_def link_def)

lemma walk_uses_forward:
  fixes F B :: "('a \<times> 'a) set"
  assumes "B \<subseteq> F \<union> F\<inverse>"
  shows "(u, v) \<in> B ^^ n \<Longrightarrow>
    (v, u) \<in> F ^^ n \<or> (\<exists>i j x y. i + j + 1 = n \<and> (u, x) \<in> B ^^ i \<and> (x, y) \<in> F \<and> (y, v) \<in> B ^^ j)"
proof (induction n arbitrary: v)
  case (Suc n)
  then obtain w where w: "(u, w) \<in> B ^^ n" "(w, v) \<in> B" by auto
  show ?case
  proof (cases "(w, v) \<in> F")
    case True
    have "n + 0 + 1 = Suc n \<and> (u, w) \<in> B ^^ n \<and> (w, v) \<in> F \<and> (v, v) \<in> B ^^ 0" using w True by simp
    then show ?thesis by blast
  next
    case False
    then have vw: "(v, w) \<in> F" using w(2) assms by auto
    from Suc.IH [OF w(1)] show ?thesis
    proof
      assume "(w, u) \<in> F ^^ n"
      then show ?thesis using vw relpow_Suc_I2 by metis
    next
      assume "\<exists>i j x y. i + j + 1 = n \<and> (u, x) \<in> B ^^ i \<and> (x, y) \<in> F \<and> (y, w) \<in> B ^^ j"
      then obtain i j x y where "i + j + 1 = n" "(u, x) \<in> B ^^ i" "(x, y) \<in> F" "(y, w) \<in> B ^^ j" by blast
      then have "i + Suc j + 1 = Suc n \<and> (u, x) \<in> B ^^ i \<and> (x, y) \<in> F \<and> (y, v) \<in> B ^^ Suc j"
        using w(2) by auto
      then show ?thesis by blast
    qed
  qed
qed simp

lemma closed_walk_forward:
  fixes F B :: "('a \<times> 'a) set"
  assumes "F \<subseteq> B" "B \<subseteq> F \<union> F\<inverse>"
  shows "(\<exists>v. (v, v) \<in> B ^^ Suc n) \<longleftrightarrow> (\<exists>x y. (x, y) \<in> F \<and> (y, x) \<in> B ^^ n)"
proof
  assume "\<exists>v. (v, v) \<in> B ^^ Suc n"
  then obtain v where v: "(v, v) \<in> B ^^ Suc n" by blast
  from walk_uses_forward [OF assms(2) v] show "\<exists>x y. (x, y) \<in> F \<and> (y, x) \<in> B ^^ n"
  proof
    assume "(v, v) \<in> F ^^ Suc n"
    then obtain y where "(v, y) \<in> F" "(y, v) \<in> F ^^ n" by (meson relpow_Suc_D2)
    then show ?thesis using relpow_subset [OF assms(1)] by blast
  next
    assume "\<exists>i j x y. i + j + 1 = Suc n \<and> (v, x) \<in> B ^^ i \<and> (x, y) \<in> F \<and> (y, v) \<in> B ^^ j"
    then obtain i j x y where ij: "j + i = n" "(v, x) \<in> B ^^ i" "(x, y) \<in> F" "(y, v) \<in> B ^^ j"
      by (metis Suc_eq_plus1 add.commute old.nat.inject)
    then have "(y, x) \<in> B ^^ (j + i)" unfolding relpow_add by blast
    then show ?thesis using ij by blast
  qed
next
  assume "\<exists>x y. (x, y) \<in> F \<and> (y, x) \<in> B ^^ n"
  then show "\<exists>v. (v, v) \<in> B ^^ Suc n" using assms(1) by (meson relpow_Suc_I2 subsetD)
qed

section \<open>The rows of the cycle check\<close>

lemma set_reach_step:
  "set (reach_step t et limit r) =
     {r\<lparr>rr_to := v, rr_depth := rr_depth r + 1\<rparr> | v. (rr_to r, v) \<in> link t et \<and> int (rr_depth r) < limit}"
  (is "?L = ?R")
proof
  show "?L \<subseteq> ?R"
  proof
    fix r' assume "r' \<in> ?L"
    then obtain e where e: "e \<in> set (g_edges (t_graph t))" "type_ok et e" "int (rr_depth r) < limit"
      "e_fk e (t_source t) = rr_to r \<or> (e_bidirectional e \<and> e_fk e (t_target t) = rr_to r)"
      "r' = r\<lparr>rr_to := (if e_fk e (t_source t) = rr_to r then e_fk e (t_target t) else e_fk e (t_source t)),
        rr_depth := rr_depth r + 1\<rparr>"
      by (auto simp: reach_step_def)
    then have "(rr_to r, if e_fk e (t_source t) = rr_to r then e_fk e (t_target t) else e_fk e (t_source t)) \<in> link t et"
      by (auto simp: link_def)
    then show "r' \<in> ?R" using e(3,5) by blast
  qed
  show "?R \<subseteq> ?L"
  proof
    fix r' assume "r' \<in> ?R"
    then obtain v e where v: "r' = r\<lparr>rr_to := v, rr_depth := rr_depth r + 1\<rparr>" "int (rr_depth r) < limit"
      "e \<in> set (g_edges (t_graph t))" "type_ok et e"
      "(e_fk e (t_source t) = rr_to r \<and> e_fk e (t_target t) = v)
        \<or> (e_bidirectional e \<and> e_fk e (t_target t) = rr_to r \<and> e_fk e (t_source t) = v)"
      by (auto simp: link_def)
    then have "v = (if e_fk e (t_source t) = rr_to r then e_fk e (t_target t) else e_fk e (t_source t))" by auto
    then show "r' \<in> ?L" using v by (auto simp: reach_step_def)
  qed
qed

lemma set_reach_anchor:
  "set (reach_anchor t et) = {\<lparr>rr_eid = e_id e, rr_from = e_fk e (t_source t), rr_to = e_fk e (t_target t), rr_depth = 1\<rparr> | e.
     e \<in> set (g_edges (t_graph t)) \<and> type_ok et e}"
  by (auto simp: reach_anchor_def)

lemma reach_rows_sound:
  assumes "r0 \<in> set (reach_anchor t et)" "(r0, r) \<in> (derives (reach_step t et limit))\<^sup>*"
  shows "\<exists>n y. rr_depth r = Suc n \<and> (n = 0 \<or> int (Suc n) \<le> limit) \<and> (rr_from r, y) \<in> forward t et \<and> (y, rr_to r) \<in> link t et ^^ n"
  using assms(2)
proof (induction rule: rtrancl_induct)
  case base
  then show ?case using assms(1) unfolding set_reach_anchor forward_def by auto
next
  case (step r r')
  then obtain n y where n: "rr_depth r = Suc n" "(rr_from r, y) \<in> forward t et" "(y, rr_to r) \<in> link t et ^^ n" by blast
  obtain v where v: "r' = r\<lparr>rr_to := v, rr_depth := rr_depth r + 1\<rparr>" "(rr_to r, v) \<in> link t et" "int (rr_depth r) < limit"
    using step.hyps(2) unfolding derives_def set_reach_step by blast
  have "(y, v) \<in> link t et ^^ Suc n" using n(3) v(2) by auto
  then show ?case using n(1,2) v by (intro exI [of _ "Suc n"] exI [of _ y]) simp
qed

lemma reach_rows_complete:
  assumes "(x, y) \<in> forward t et"
  shows "(y, v) \<in> link t et ^^ n \<Longrightarrow> n = 0 \<or> int (Suc n) \<le> limit \<Longrightarrow>
    \<exists>r0 \<in> set (reach_anchor t et). \<exists>r. (r0, r) \<in> (derives (reach_step t et limit))\<^sup>*
      \<and> rr_from r = x \<and> rr_to r = v \<and> rr_depth r = Suc n"
proof (induction n arbitrary: v)
  case 0
  obtain e where e: "e \<in> set (g_edges (t_graph t))" "type_ok et e" "e_fk e (t_source t) = x" "e_fk e (t_target t) = y"
    using assms by (auto simp: forward_def)
  let ?r = "\<lparr>rr_eid = e_id e, rr_from = e_fk e (t_source t), rr_to = e_fk e (t_target t), rr_depth = 1\<rparr>"
  have "?r \<in> set (reach_anchor t et)" unfolding set_reach_anchor using e by blast
  moreover have "rr_from ?r = x" "rr_to ?r = v" "rr_depth ?r = Suc 0" using e 0 by auto
  ultimately show ?case by blast
next
  case (Suc n)
  then obtain w where w: "(y, w) \<in> link t et ^^ n" "(w, v) \<in> link t et" by auto
  obtain r0 r where r: "r0 \<in> set (reach_anchor t et)" "(r0, r) \<in> (derives (reach_step t et limit))\<^sup>*"
    "rr_from r = x" "rr_to r = w" "rr_depth r = Suc n"
    using Suc.IH [OF w(1)] Suc.prems(2) by auto
  let ?r = "r\<lparr>rr_to := v, rr_depth := rr_depth r + 1\<rparr>"
  have "?r \<in> set (reach_step t et limit r)" unfolding set_reach_step using w(2) r Suc.prems(2) by auto
  then have "(r0, ?r) \<in> (derives (reach_step t et limit))\<^sup>*"
    using r(2) by (auto simp: derives_def intro: rtrancl.rtrancl_into_rtrancl)
  moreover have "rr_from ?r = x" "rr_to ?r = v" "rr_depth ?r = Suc (Suc n)" using r by auto
  ultimately show ?case using r(1) by blast
qed

text \<open>C27: \<open>has_cycle\<close> ends and answers true exactly when some node can come back to itself in at
  least one and at most \<open>max_depth\<close> steps along matching edges, bidirectional edges taken both
  ways (self-loops are found for every \<open>max_depth\<close>), although the search only starts along the
  stored direction of an edge.\<close>

theorem has_cycle_exact:
  "has_cycle t et max_depth =
     Some (\<exists>n v. 0 < n \<and> n \<le> max 1 (nat max_depth) \<and> (v, v) \<in> link t et ^^ n)"
proof -
  let ?step = "reach_step t et max_depth"
  let ?ps = "PInt max_depth # map PText (snd (et_clause et 2))"
  have clause: "clause_type (fst (et_clause et 2)) ?ps = et"
    using clause_type_et [of "[PInt max_depth]" 2 et "[]"] by simp
  have anchor: "(if et \<noteq> None then Some (bound_text ?ps 2) else None) = et"
    by (cases et) (simp_all add: bound_text_def et_clause_def)
  have limit: "bound_int ?ps 1 = max_depth" by (simp add: bound_int_def)
  have dec: "nat max_depth + 1 - rr_depth y < nat max_depth + 1 - rr_depth x" if "y \<in> set (?step x)" for x y
    using that by (auto simp: set_reach_step)
  obtain out where out: "rec_cte ?step (nat max_depth + 2) (reach_anchor t et) = Some out"
    "set out = {y. \<exists>x \<in> set (reach_anchor t et). (x, y) \<in> (derives ?step)\<^sup>*}"
    by (rule rec_cte_set [of ?step "\<lambda>r. nat max_depth + 1 - rr_depth r" "reach_anchor t et" "nat max_depth + 2", OF dec]) auto
  have "list_ex (\<lambda>r. rr_from r = rr_to r) out \<longleftrightarrow> (\<exists>r \<in> set out. rr_from r = rr_to r)" by (simp add: list_ex_iff)
  also have "\<dots> \<longleftrightarrow> (\<exists>n x y. (n = 0 \<or> int (Suc n) \<le> max_depth) \<and> (x, y) \<in> forward t et \<and> (y, x) \<in> link t et ^^ n)"
    (is "?found \<longleftrightarrow> ?walk")
  proof
    assume ?found
    then obtain r0 r where r: "r0 \<in> set (reach_anchor t et)" "(r0, r) \<in> (derives ?step)\<^sup>*" "rr_from r = rr_to r"
      unfolding out(2) by blast
    show ?walk using reach_rows_sound [OF r(1,2)] r(3) by auto
  next
    assume ?walk
    then obtain n x y where w: "n = 0 \<or> int (Suc n) \<le> max_depth" "(x, y) \<in> forward t et" "(y, x) \<in> link t et ^^ n" by blast
    then show ?found unfolding out(2) using reach_rows_complete [OF w(2,3,1)] by fastforce
  qed
  also have "\<dots> \<longleftrightarrow> (\<exists>n v. (n = 0 \<or> int (Suc n) \<le> max_depth) \<and> (v, v) \<in> link t et ^^ Suc n)"
    using closed_walk_forward [OF forward_link] by metis
  also have "\<dots> \<longleftrightarrow> (\<exists>n v. 0 < n \<and> n \<le> max 1 (nat max_depth) \<and> (v, v) \<in> link t et ^^ n)"
  proof -
    have "(n = 0 \<or> int (Suc n) \<le> max_depth) \<longleftrightarrow> Suc n \<le> max 1 (nat max_depth)" for n by auto
    then show ?thesis by (metis Suc_pred zero_less_Suc)
  qed
  finally have "list_ex (\<lambda>r. rr_from r = rr_to r) out
    = (\<exists>n v. 0 < n \<and> n \<le> max 1 (nat max_depth) \<and> (v, v) \<in> link t et ^^ n)" .
  moreover have "has_cycle t et max_depth = Some (list_ex (\<lambda>r. rr_from r = rr_to r) out)"
    unfolding has_cycle_def split_beta Let_def clause anchor limit out(1) by simp
  ultimately show ?thesis by simp
qed

definition sample_traversal :: traversal where
  "sample_traversal = \<lparr>t_graph = sample_graph, t_source = ''source_id'', t_target = ''target_id''\<rparr>"

lemma traversal_created:
  "GraphTraversal sample_graph ''source_id'' ''target_id'' = Inr sample_traversal"
  "GraphTraversal sample_graph ''source'' ''target_id'' = Inl GraphTraversalError"
  by (simp_all add: GraphTraversal_def sample_graph_def sample_traversal_def)

lemma sample_traversal_hyps:
  "distinct (map v_id (g_nodes (t_graph sample_traversal)))" "3 \<in> stored sample_traversal" "1 \<in> stored sample_traversal"
  using sample_hyps by (simp_all add: sample_traversal_def stored_def)

lemma sample_traversal_runs:
  "descendants sample_traversal 1 1 None
     = Some [\<lparr>hr_id = 2, hr_name = ''b'', hr_depth = 1, hr_hops = 1\<rparr>]"
  "ancestors sample_traversal 1 10 None
     = Some [\<lparr>hr_id = 3, hr_name = ''c'', hr_depth = 2, hr_hops = 1\<rparr>, \<lparr>hr_id = 2, hr_name = ''b'', hr_depth = 1, hr_hops = 2\<rparr>]"
  "neighbors sample_traversal 3 ''both'' None 1
     = Some (Inr [\<lparr>hr_id = 1, hr_name = ''a'', hr_depth = 0, hr_hops = 1\<rparr>, \<lparr>hr_id = 2, hr_name = ''b'', hr_depth = 1, hr_hops = 1\<rparr>])"
  "has_cycle sample_traversal None 20 = Some True"
  by code_simp+

theorem descendants_exact_witness:
  "within (follow sample_traversal None) 1 1 2 \<and> \<not> within (follow sample_traversal None) 1 1 3"
proof -
  have "{2} = {v. v \<noteq> 1 \<and> within (follow sample_traversal None) (nat 1) 1 v}"
    using descendants_exact [OF sample_traversal_hyps(1,3), of 1 None]
    by (auto simp: sample_traversal_runs(1) reach_rows_def)
  then have "v \<in> {2} \<longleftrightarrow> v \<noteq> 1 \<and> within (follow sample_traversal None) (nat 1) 1 v" for v by blast
  from this [of 2] this [of 3] show ?thesis by simp
qed

theorem ancestors_exact_witness:
  "within (follow sample_traversal None) 10 2 1"
proof -
  have "{3, 2} = {v. v \<noteq> 1 \<and> v \<in> stored sample_traversal \<and> within (follow sample_traversal None) (nat 10) v 1}"
    using ancestors_exact [OF sample_traversal_hyps(1,3), of 10 None]
    by (auto simp: sample_traversal_runs(2) reach_rows_def)
  then have "v \<in> {3, 2} \<longleftrightarrow> v \<noteq> 1 \<and> v \<in> stored sample_traversal \<and> within (follow sample_traversal None) (nat 10) v 1" for v by blast
  from this [of 2] show ?thesis by simp
qed

theorem neighbors_exact_witness:
  "within (follow sample_traversal None \<union> follow_rev sample_traversal None) 1 3 1
   \<and> neighbors sample_traversal 3 ''up'' None 1 = Some (Inl GraphTraversalError)"
proof
  have "{1, 2} = {v. v \<noteq> 3 \<and> within (direction_links sample_traversal None ''both'') (nat 1) 3 v}"
    using neighbors_exact [OF sample_traversal_hyps(1,2), of "''both''" None 1]
    by (auto simp: sample_traversal_runs(3) reach_rows_def)
  then have "v \<in> {1, 2} \<longleftrightarrow> v \<noteq> 3 \<and> within (direction_links sample_traversal None ''both'') (nat 1) 3 v" for v by blast
  from this [of 1] show "within (follow sample_traversal None \<union> follow_rev sample_traversal None) 1 3 1"
    by (simp add: direction_links_def)
  show "neighbors sample_traversal 3 ''up'' None 1 = Some (Inl GraphTraversalError)"
    using neighbors_exact [OF sample_traversal_hyps(1,2), of "''up''" None 1] by simp
qed

end
