(* ===== verification/Sql_Template.thy ===== *)
theory Sql_Template
  imports Quote
begin

text \<open>
  SQL text assembled from fixed pieces and quoted arguments, as the timescale managers do with
  f-strings: \<open>line n s\<close> is a line of a triple-quoted string indented by \<open>n\<close>. The lemma
  \<open>template_tokens\<close> reads a whole assembled statement back, token by token.
\<close>

definition NL :: char where "NL = CHR 0x0A"

definition line :: "nat \<Rightarrow> string \<Rightarrow> string" where
  "line n s = NL # replicate n CHR '' '' @ s"

definition py_bool_lower :: "bool \<Rightarrow> string" where
  "py_bool_lower b = (if b then ''true'' else ''false'')"

text \<open>Truth value of an optional text: \<open>None\<close> and \<open>""\<close> are false.\<close>

definition truthy :: "string option \<Rightarrow> bool" where
  "truthy s = (s \<noteq> None \<and> s \<noteq> Some [])"

section \<open>Templates\<close>

datatype piece = Text string | Name string | Value string

fun render :: "piece list \<Rightarrow> string" where
  "render [] = []"
| "render (Text s # ps) = s @ render ps"
| "render (Name s # ps) = quote_ident s @ render ps"
| "render (Value s # ps) = quote_literal s @ render ps"

fun template_toks :: "piece list \<Rightarrow> sqltok list" where
  "template_toks [] = []"
| "template_toks (Text s # ps) = map Sym s @ template_toks ps"
| "template_toks (Name s # ps) = Ident s # template_toks ps"
| "template_toks (Value s # ps) = Lit s # template_toks ps"

text \<open>Fixed text holds no quote, and a fixed text or the end follows every argument.\<close>

fun text_next :: "piece list \<Rightarrow> bool" where
  "text_next [] = True"
| "text_next (Text s # ps) = (s \<noteq> [])"
| "text_next (p # ps) = False"

fun well_formed :: "piece list \<Rightarrow> bool" where
  "well_formed [] = True"
| "well_formed (Text s # ps) = (plain s \<and> well_formed ps)"
| "well_formed (Name s # ps) = (text_next ps \<and> well_formed ps)"
| "well_formed (Value s # ps) = (text_next ps \<and> well_formed ps)"

lemma plain_simps [simp]:
  "plain []" "plain (c # s) \<longleftrightarrow> c \<noteq> DQ \<and> c \<noteq> SQ \<and> plain s" "plain (s @ t) \<longleftrightarrow> plain s \<and> plain t"
  "plain (line n s) \<longleftrightarrow> plain s"
  by (auto simp: plain_def line_def NL_def)

lemma plain_show_nat [simp]: "plain (show_nat n)"
  using show_nat_digits by (fastforce simp: plain_def is_digit_def)

lemma plain_show_int [simp]: "plain (show_int i)"
  by (simp add: show_int_def)

lemma plain_bool [simp]: "plain (py_bool_lower b)"
  by (simp add: py_bool_lower_def)

lemma line_not_Nil [simp]: "line n s \<noteq> []" "show_nat n @ s \<noteq> []"
  by (simp_all add: line_def)

lemma plain_no_start: "plain s \<Longrightarrow> s \<noteq> [] \<Longrightarrow> \<not> starts_with_char DQ (s @ r) \<and> \<not> starts_with_char SQ (s @ r)"
  by (cases s) auto

lemma render_no_start:
  "well_formed ps \<Longrightarrow> text_next ps \<Longrightarrow> \<not> starts_with_char DQ (render ps) \<and> \<not> starts_with_char SQ (render ps)"
  using plain_no_start by (cases ps rule: text_next.cases) auto

theorem template_tokens: "well_formed ps \<Longrightarrow> sql_tokens (render ps) = Some (template_toks ps)"
proof (induction ps rule: well_formed.induct)
  case (2 s ps)
  then show ?case by (simp add: sql_tokens_def scan_plain)
next
  case (3 s ps)
  then show ?case using render_no_start [of ps] by (simp add: sql_read)
next
  case (4 s ps)
  then show ?case using render_no_start [of ps] by (simp add: sql_read)
qed (simp add: sql_tokens_def)

text \<open>What is left of a token list without the quoted texts, and those texts in order.\<close>

fun skeleton :: "sqltok list \<Rightarrow> sqltok list" where
  "skeleton [] = []"
| "skeleton (Sym c # ts) = Sym c # skeleton ts"
| "skeleton (Ident s # ts) = Ident [] # skeleton ts"
| "skeleton (Lit s # ts) = Lit [] # skeleton ts"

fun quoted :: "sqltok list \<Rightarrow> sqltok list" where
  "quoted [] = []"
| "quoted (Sym c # ts) = quoted ts"
| "quoted (Ident s # ts) = Ident s # quoted ts"
| "quoted (Lit s # ts) = Lit s # quoted ts"

lemma skeleton_append [simp]: "skeleton (xs @ ys) = skeleton xs @ skeleton ys"
  by (induction xs rule: skeleton.induct) auto

lemma quoted_append [simp]: "quoted (xs @ ys) = quoted xs @ quoted ys"
  by (induction xs rule: quoted.induct) auto

lemma skeleton_Sym [simp]: "skeleton (map Sym s) = map Sym s"
  by (induction s) auto

lemma quoted_Sym [simp]: "quoted (map Sym s) = []"
  by (induction s) auto

section \<open>Appending to balanced text\<close>

lemma scan_append:
  assumes "\<not> starts_with_char DQ r" "\<not> starts_with_char SQ r"
  shows "scan m xs = Some ts \<Longrightarrow> (case m of Out \<Rightarrow> True | InQ q a \<Rightarrow> q = DQ \<or> q = SQ | AfterQ q a \<Rightarrow> q = DQ \<or> q = SQ) \<Longrightarrow>
    scan m (xs @ r) = map_option ((@) ts) (scan Out r)"
proof (induction m xs arbitrary: ts rule: scan.induct)
  case 1
  then show ?case by (cases "scan Out r") auto
next
  case (2 c cs)
  then show ?case by (cases "scan Out r") (auto split: if_splits simp: option.map_comp o_def)
next
  case (4 q a c cs)
  then show ?case by (auto split: if_splits)
next
  case (5 q a)
  then show ?case using scan_after [of q r a] assms by auto
next
  case (6 q a c cs)
  then show ?case by (cases "scan Out r") (auto split: if_splits simp: option.map_comp o_def)
qed simp

lemma tokens_append:
  assumes "sql_tokens xs = Some ts" "\<not> starts_with_char DQ r" "\<not> starts_with_char SQ r"
  shows "sql_tokens (xs @ r) = map_option ((@) ts) (sql_tokens r)"
  using scan_append [OF assms(2,3), of Out xs ts] assms(1) by (simp add: sql_tokens_def)

text \<open>A symbol of the tokens is a character of the text.\<close>

lemma scan_symbols: "scan m xs = Some ts \<Longrightarrow> Sym c \<in> set ts \<Longrightarrow> c \<in> set xs"
proof (induction m xs arbitrary: ts rule: scan.induct)
  case (5 q a)
  then show ?case by (auto simp: quoted_tok_def split: if_splits)
next
  case (6 q a d cs)
  then show ?case by (auto simp: quoted_tok_def split: if_splits)
qed (auto split: if_splits)

lemma tokens_around:
  assumes "plain a" "plain b" "b \<noteq> []" "plain c" "c \<noteq> []" "sql_tokens q = Some ts"
  shows "sql_tokens (a @ quote_ident v @ b @ q @ c) = Some (map Sym a @ Ident v # map Sym b @ ts @ map Sym c)"
proof -
  have start: "\<not> starts_with_char DQ c" "\<not> starts_with_char SQ c" "\<not> starts_with_char DQ (b @ q @ c)"
    using plain_no_start [of c "[]"] plain_no_start [of b "q @ c"] assms by auto
  have "sql_tokens c = Some (map Sym c)"
    using scan_plain [OF assms(4), of "[]"] by (simp add: sql_tokens_def)
  then have "sql_tokens (q @ c) = Some (ts @ map Sym c)"
    using tokens_append [OF assms(6) start(1,2)] by simp
  then show ?thesis
    using scan_plain [OF assms(1), of "quote_ident v @ b @ q @ c"] scan_plain [OF assms(2), of "q @ c"]
      scan_quote_ident [OF start(3), of v]
    by (simp add: sql_tokens_def)
qed

end
