(* ===== verification/Timescale.thy ===== *)
theory Timescale
  imports Sql_Template Effects "HOL-Library.AList"
begin

text \<open>
  \<open>timescale/hypertable.py\<close>, \<open>timescale/retention.py\<close> and \<open>timescale/compression.py\<close>: every method
  of \<open>HypertableManager\<close>, \<open>RetentionPolicy\<close> and \<open>CompressionManager\<close>. The connection is a
  parameter: an action that runs one statement and gives the driver's result. An f-string is a
  list of pieces: \<open>Value x\<close> is \<open>{quote_literal(x)}\<close>, \<open>Name x\<close> is \<open>{quote_ident(x)}\<close>, \<open>line n s\<close> a
  line of a triple-quoted string.
\<close>

section \<open>Driver results\<close>

text \<open>A row is a dict, a plain tuple, or an asyncpg record, which has keys and positions but is no
  dict. A result is the pair of row number and rows, or the rows alone.\<close>

datatype tval = TNull | TBool bool | TInt int | TText string | TNumeric string | TFloat string

datatype dbrow = DictRow "(string \<times> tval) list" | TupleRow "tval list" | RecordRow "(string \<times> tval) list"

datatype query_result = CountRows int "dbrow list" | PlainRows "dbrow list"

type_synonym 's connection = "string \<Rightarrow> ('s, query_result) act"

definition result_rows :: "query_result \<Rightarrow> dbrow list" where
  "result_rows result = (case result of CountRows _ rows \<Rightarrow> rows | PlainRows rows \<Rightarrow> rows)"

fun truth :: "tval \<Rightarrow> bool" where
  "truth TNull = False"
| "truth (TBool b) = b"
| "truth (TInt i) = (i \<noteq> 0)"
| "truth (TText s) = (s \<noteq> [])"
| "truth (TNumeric s) = (\<exists>c \<in> set s. is_digit c \<and> c \<noteq> CHR ''0'')"
| "truth (TFloat s) = (\<exists>c \<in> set s. is_digit c \<and> c \<noteq> CHR ''0'')"

text \<open>\<open>row[0]\<close>: a dict has no key 0, a tuple or record needs one element.\<close>

fun first_column :: "dbrow \<Rightarrow> exc + tval" where
  "first_column (DictRow d) = Inl KeyError"
| "first_column (TupleRow []) = Inl IndexError"
| "first_column (TupleRow (v # vs)) = Inr v"
| "first_column (RecordRow []) = Inl IndexError"
| "first_column (RecordRow ((k, v) # kvs)) = Inr v"

text \<open>\<open>dict(row)\<close>: of a tuple every element must itself be a pair, which only a text of two
  characters is.\<close>

fun dict_of_values :: "(string \<times> tval) list \<Rightarrow> tval list \<Rightarrow> exc + (string \<times> tval) list" where
  "dict_of_values d [] = Inr d"
| "dict_of_values d (TText [a, b] # vs) = dict_of_values (AList.update [a] (TText [b]) d) vs"
| "dict_of_values d (TText s # vs) = Inl ValueError"
| "dict_of_values d (v # vs) = Inl TypeError"

definition dict_of_row :: "dbrow \<Rightarrow> exc + (string \<times> tval) list" where
  "dict_of_row row = (case row of DictRow d \<Rightarrow> Inr d | RecordRow d \<Rightarrow> Inr d | TupleRow vs \<Rightarrow> dict_of_values [] vs)"

text \<open>The \<open>try ... except Exception as exc: raise TimescaleError(msg) from exc\<close> around every
  statement.\<close>

definition run_statement :: "'s connection \<Rightarrow> string \<Rightarrow> ('s, query_result) act" where
  "run_statement conn sql = handle (conn sql) [Exception_cls] (\<lambda>_. throw TimescaleError)"

section \<open>HypertableManager\<close>

text \<open>\<open>_quote_qualified(name)\<close> inside an f-string.\<close>

definition qualified_name :: "string \<Rightarrow> piece list" where
  "qualified_name name =
     (case split_schema_name name of
        (None, table) \<Rightarrow> [Name table]
      | (Some schema, table) \<Rightarrow> [Name schema, Text ''.'', Name table])"

definition create_hypertable_sql :: "string \<Rightarrow> string \<Rightarrow> string \<Rightarrow> bool \<Rightarrow> bool \<Rightarrow> piece list" where
  "create_hypertable_sql table_name time_column chunk_time_interval if_not_exists migrate_data =
     [Text ''SELECT create_hypertable('', Value table_name, Text '', '', Value time_column,
      Text '', chunk_time_interval => INTERVAL '', Value chunk_time_interval,
      Text ('', if_not_exists => '' @ py_bool_lower if_not_exists
            @ '', migrate_data => '' @ py_bool_lower migrate_data @ '')'')]"

definition create_hypertable ::
  "'s connection \<Rightarrow> string \<Rightarrow> string \<Rightarrow> string \<Rightarrow> bool \<Rightarrow> bool \<Rightarrow> ('s, unit) act" where
  "create_hypertable conn table_name time_column chunk_time_interval if_not_exists migrate_data =
     bind_act
       (run_statement conn
         (render (create_hypertable_sql table_name time_column chunk_time_interval if_not_exists migrate_data)))
       (\<lambda>_. ret ())"

definition drop_hypertable_sql :: "string \<Rightarrow> bool \<Rightarrow> piece list" where
  "drop_hypertable_sql table_name if_exists =
     [Text (line 12 ''DROP TABLE'' @ line 12 (if if_exists then ''IF EXISTS'' else '''') @ line 12 '''')]
     @ qualified_name table_name @ [Text (line 12 ''CASCADE'' @ line 8 '''')]"

definition drop_hypertable :: "'s connection \<Rightarrow> string \<Rightarrow> bool \<Rightarrow> ('s, unit) act" where
  "drop_hypertable conn table_name if_exists =
     bind_act (run_statement conn (render (drop_hypertable_sql table_name if_exists))) (\<lambda>_. ret ())"

definition is_hypertable_sql :: "string \<Rightarrow> piece list" where
  "is_hypertable_sql table_name =
     (case split_schema_name table_name of
        (None, table) \<Rightarrow>
          [Text (line 16 ''SELECT EXISTS('' @ line 20 ''SELECT 1 FROM timescaledb_information.hypertables''
                 @ line 20 ''WHERE hypertable_name = ''), Value table,
           Text (line 16 '') AS is_hypertable'' @ line 12 '''')]
      | (Some schema, table) \<Rightarrow>
          [Text (line 16 ''SELECT EXISTS('' @ line 20 ''SELECT 1 FROM timescaledb_information.hypertables''
                 @ line 20 ''WHERE hypertable_schema = ''), Value schema,
           Text (line 20 ''AND hypertable_name = ''), Value table,
           Text (line 16 '') AS is_hypertable'' @ line 12 '''')])"

definition is_hypertable_answer :: "dbrow list \<Rightarrow> bool" where
  "is_hypertable_answer rows =
     (case rows of
        [] \<Rightarrow> False
      | DictRow d # _ \<Rightarrow> (case map_of d ''is_hypertable'' of None \<Rightarrow> False | Some v \<Rightarrow> truth v)
      | row # _ \<Rightarrow> (case first_column row of Inr v \<Rightarrow> truth v | Inl _ \<Rightarrow> False))"

definition is_hypertable :: "'s connection \<Rightarrow> string \<Rightarrow> ('s, bool) act" where
  "is_hypertable conn table_name =
     bind_act (run_statement conn (render (is_hypertable_sql table_name)))
       (\<lambda>result. ret (is_hypertable_answer (result_rows result)))"

definition list_hypertables_sql :: "string \<Rightarrow> piece list" where
  "list_hypertables_sql extension_schema =
     [Text (line 12 ''SELECT'' @ line 16 ''(h.hypertable_schema || ''), Value ''.'',
      Text ('' || h.hypertable_name) AS table_name,'' @ line 16 ''h.num_chunks,''
            @ line 16 ''h.compression_enabled,'' @ line 16 ''''), Name extension_schema,
      Text (''.hypertable_size('' @ line 20 ''(h.hypertable_schema || ''), Value ''.'',
      Text ('' || h.hypertable_name)::regclass'' @ line 16 '') AS table_size''
            @ line 12 ''FROM timescaledb_information.hypertables h''
            @ line 12 ''ORDER BY h.hypertable_name'' @ line 8 '''')]"

definition list_hypertables :: "'s connection \<Rightarrow> string \<Rightarrow> ('s, (string \<times> tval) list list) act" where
  "list_hypertables conn extension_schema =
     bind_act (run_statement conn (render (list_hypertables_sql extension_schema)))
       (\<lambda>result. lift_res (map_res dict_of_row (result_rows result)))"

definition add_dimension_sql :: "string \<Rightarrow> string \<Rightarrow> string option \<Rightarrow> int option \<Rightarrow> exc + piece list" where
  "add_dimension_sql table_name column_name chunk_time_interval number_partitions =
     (if truthy chunk_time_interval then
        Inr [Text ''SELECT add_dimension('', Value table_name, Text '', '', Value column_name,
             Text '', chunk_time_interval => INTERVAL '', Value (the chunk_time_interval), Text '')'']
      else if number_partitions \<noteq> None then
        Inr [Text ''SELECT add_dimension('', Value table_name, Text '', '', Value column_name,
             Text ('', number_partitions => '' @ show_int (the number_partitions) @ '')'')]
      else Inl ValueError)"

definition add_dimension ::
  "'s connection \<Rightarrow> string \<Rightarrow> string \<Rightarrow> string option \<Rightarrow> int option \<Rightarrow> ('s, unit) act" where
  "add_dimension conn table_name column_name chunk_time_interval number_partitions =
     bind_act (lift_res (add_dimension_sql table_name column_name chunk_time_interval number_partitions))
       (\<lambda>sql. bind_act (run_statement conn (render sql)) (\<lambda>_. ret ()))"

definition show_chunks_sql :: "string \<Rightarrow> string option \<Rightarrow> string option \<Rightarrow> piece list" where
  "show_chunks_sql table_name start_time end_time =
     (if truthy start_time \<and> truthy end_time then
        [Text ''SELECT show_chunks('', Value table_name,
         Text '', newer_than => TIMESTAMPTZ '', Value (the start_time),
         Text '', older_than => TIMESTAMPTZ '', Value (the end_time), Text '')'']
      else if truthy start_time then
        [Text ''SELECT show_chunks('', Value table_name,
         Text '', newer_than => TIMESTAMPTZ '', Value (the start_time), Text '')'']
      else [Text ''SELECT show_chunks('', Value table_name, Text '')''])"

definition show_chunks ::
  "'s connection \<Rightarrow> string \<Rightarrow> string option \<Rightarrow> string option \<Rightarrow> ('s, tval list) act" where
  "show_chunks conn table_name start_time end_time =
     bind_act (run_statement conn (render (show_chunks_sql table_name start_time end_time)))
       (\<lambda>result. lift_res (map_res first_column (result_rows result)))"

section \<open>RetentionPolicy\<close>

definition set_retention_sql :: "string \<Rightarrow> string \<Rightarrow> bool \<Rightarrow> piece list" where
  "set_retention_sql table_name drop_after if_not_exists =
     [Text ''SELECT add_retention_policy('', Value table_name, Text '', INTERVAL '', Value drop_after,
      Text ('', if_not_exists => '' @ py_bool_lower if_not_exists @ '')'')]"

definition set_retention :: "'s connection \<Rightarrow> string \<Rightarrow> string \<Rightarrow> bool \<Rightarrow> ('s, unit) act" where
  "set_retention conn table_name drop_after if_not_exists =
     bind_act (run_statement conn (render (set_retention_sql table_name drop_after if_not_exists))) (\<lambda>_. ret ())"

definition remove_retention_sql :: "string \<Rightarrow> piece list" where
  "remove_retention_sql table_name = [Text ''SELECT remove_retention_policy('', Value table_name, Text '')'']"

definition remove_retention :: "'s connection \<Rightarrow> string \<Rightarrow> ('s, unit) act" where
  "remove_retention conn table_name =
     bind_act (run_statement conn (render (remove_retention_sql table_name))) (\<lambda>_. ret ())"

definition list_policies_sql :: "piece list" where
  "list_policies_sql =
     [Text (line 12 ''SELECT'' @ line 16 ''hypertable_name AS table_name,'' @ line 16 ''config AS drop_after,''
            @ line 16 ''schedule_interval,'' @ line 16 ''initial_start,'' @ line 16 ''scheduled''
            @ line 12 ''FROM timescaledb_information.jobs'' @ line 12 ''WHERE proc_name = ''),
      Value ''policy_retention'', Text (line 12 ''ORDER BY hypertable_name'' @ line 8 '''')]"

text \<open>The loop assigns \<open>drop_after\<close> to itself where it is a dict, so each row comes out as
  \<open>dict(row)\<close>.\<close>

definition list_policies :: "'s connection \<Rightarrow> ('s, (string \<times> tval) list list) act" where
  "list_policies conn =
     bind_act (run_statement conn (render list_policies_sql))
       (\<lambda>result. lift_res (map_res dict_of_row (result_rows result)))"

definition get_chunks_to_drop_sql :: "string \<Rightarrow> string \<Rightarrow> piece list" where
  "get_chunks_to_drop_sql table_name older_than =
     [Text (line 12 ''SELECT'' @ line 16 ''show_chunks AS chunk_name'' @ line 12 ''FROM show_chunks('' @ line 16 ''''),
      Value table_name, Text ('','' @ line 16 ''older_than => INTERVAL ''), Value older_than,
      Text (line 12 '')'' @ line 12 ''ORDER BY chunk_name'' @ line 8 '''')]"

definition get_chunks_to_drop :: "'s connection \<Rightarrow> string \<Rightarrow> string \<Rightarrow> ('s, tval list) act" where
  "get_chunks_to_drop conn table_name older_than =
     bind_act (run_statement conn (render (get_chunks_to_drop_sql table_name older_than)))
       (\<lambda>result. lift_res (map_res first_column (result_rows result)))"

section \<open>CompressionManager\<close>

definition enable_compression_sql :: "string \<Rightarrow> piece list" where
  "enable_compression_sql table_name =
     [Text (line 12 ''ALTER TABLE ''), Name table_name,
      Text (line 12 ''SET (timescaledb.enable_columnstore)'' @ line 8 '''')]"

definition enable_compression :: "'s connection \<Rightarrow> string \<Rightarrow> ('s, unit) act" where
  "enable_compression conn table_name =
     bind_act (run_statement conn (render (enable_compression_sql table_name))) (\<lambda>_. ret ())"

definition disable_compression_sql :: "string \<Rightarrow> piece list" where
  "disable_compression_sql table_name =
     [Text (line 12 ''ALTER TABLE ''), Name table_name,
      Text (line 12 ''SET (timescaledb.enable_columnstore = false)'' @ line 8 '''')]"

definition disable_compression :: "'s connection \<Rightarrow> string \<Rightarrow> ('s, unit) act" where
  "disable_compression conn table_name =
     bind_act (run_statement conn (render (disable_compression_sql table_name))) (\<lambda>_. ret ())"

definition add_compression_policy_sql :: "string \<Rightarrow> string \<Rightarrow> bool \<Rightarrow> piece list" where
  "add_compression_policy_sql table_name compress_after if_not_exists =
     [Text ''CALL add_columnstore_policy(hypertable => '', Value table_name,
      Text '', after => INTERVAL '', Value compress_after,
      Text ('', if_not_exists => '' @ py_bool_lower if_not_exists @ '')'')]"

definition add_compression_policy :: "'s connection \<Rightarrow> string \<Rightarrow> string \<Rightarrow> bool \<Rightarrow> ('s, unit) act" where
  "add_compression_policy conn table_name compress_after if_not_exists =
     bind_act (run_statement conn (render (add_compression_policy_sql table_name compress_after if_not_exists)))
       (\<lambda>_. ret ())"

definition remove_compression_policy_sql :: "string \<Rightarrow> piece list" where
  "remove_compression_policy_sql table_name =
     [Text ''CALL remove_columnstore_policy('', Value table_name, Text '')'']"

definition remove_compression_policy :: "'s connection \<Rightarrow> string \<Rightarrow> ('s, unit) act" where
  "remove_compression_policy conn table_name =
     bind_act (run_statement conn (render (remove_compression_policy_sql table_name))) (\<lambda>_. ret ())"

definition compress_chunk_sql :: "string \<Rightarrow> piece list" where
  "compress_chunk_sql chunk_name = [Text ''CALL convert_to_columnstore('', Value chunk_name, Text '')'']"

definition compress_chunk :: "'s connection \<Rightarrow> string \<Rightarrow> ('s, unit) act" where
  "compress_chunk conn chunk_name =
     bind_act (run_statement conn (render (compress_chunk_sql chunk_name))) (\<lambda>_. ret ())"

definition decompress_chunk_sql :: "string \<Rightarrow> piece list" where
  "decompress_chunk_sql chunk_name = [Text ''CALL convert_to_rowstore('', Value chunk_name, Text '')'']"

definition decompress_chunk :: "'s connection \<Rightarrow> string \<Rightarrow> ('s, unit) act" where
  "decompress_chunk conn chunk_name =
     bind_act (run_statement conn (render (decompress_chunk_sql chunk_name))) (\<lambda>_. ret ())"

definition get_stats_sql :: "string \<Rightarrow> piece list" where
  "get_stats_sql table_name =
     [Text (line 12 ''SELECT''
        @ line 16 ''pg_size_pretty(before_compression_total_bytes) AS uncompressed_size,''
        @ line 16 ''pg_size_pretty(after_compression_total_bytes) AS compressed_size,''
        @ line 16 ''CASE'' @ line 20 ''WHEN before_compression_total_bytes > 0''
        @ line 21 ''AND after_compression_total_bytes > 0'' @ line 20 ''THEN ROUND(''
        @ line 24 ''before_compression_total_bytes::numeric /''
        @ line 24 ''after_compression_total_bytes,'' @ line 24 ''2'' @ line 20 '')'' @ line 20 ''ELSE 1''
        @ line 16 ''END AS compression_ratio,''
        @ line 16 ''(SELECT COUNT(*) FROM timescaledb_information.chunks c''
        @ line 17 ''WHERE c.hypertable_name = ''), Value table_name,
      Text (line 17 ''AND c.is_compressed = FALSE) AS uncompressed_chunks,''
        @ line 16 ''(SELECT COUNT(*) FROM timescaledb_information.chunks c''
        @ line 17 ''WHERE c.hypertable_name = ''), Value table_name,
      Text (line 17 ''AND c.is_compressed = TRUE) AS compressed_chunks''
        @ line 12 ''FROM hypertable_columnstore_stats(''), Value table_name,
      Text ('')'' @ line 12 ''LIMIT 1'' @ line 8 '''')]"

text \<open>\<open>row[i]\<close> for \<open>i < 5\<close> of a tuple or record.\<close>

definition column :: "dbrow \<Rightarrow> nat \<Rightarrow> exc + tval" where
  "column row i =
     (let vs = (case row of DictRow d \<Rightarrow> [] | TupleRow vs \<Rightarrow> vs | RecordRow kvs \<Rightarrow> map snd kvs)
      in if i < length vs then Inr (vs ! i) else Inl IndexError)"

text \<open>\<open>float(...)\<close> of a column value is a parameter.\<close>

definition stats_answer :: "(tval \<Rightarrow> exc + tval) \<Rightarrow> dbrow list \<Rightarrow> exc + (string \<times> tval) list" where
  "stats_answer py_float rows =
     (case rows of
        [] \<Rightarrow> Inr []
      | DictRow d # _ \<Rightarrow>
          (case map_of d ''compression_ratio'' of
             None \<Rightarrow> Inr d
           | Some ratio \<Rightarrow>
               if ratio = TNull then Inr d
               else bind_res (py_float ratio) (\<lambda>r. Inr (AList.update ''compression_ratio'' r d)))
      | row # _ \<Rightarrow>
          bind_res (column row 0) (\<lambda>uncompressed. bind_res (column row 1) (\<lambda>compressed.
          bind_res (column row 2) (\<lambda>ratio.
          bind_res (if ratio = TNull then Inr TNull else py_float ratio) (\<lambda>r.
          bind_res (column row 3) (\<lambda>plain_chunks. bind_res (column row 4) (\<lambda>packed_chunks.
            Inr [(''uncompressed_size'', uncompressed), (''compressed_size'', compressed),
                 (''compression_ratio'', r), (''uncompressed_chunks'', plain_chunks),
                 (''compressed_chunks'', packed_chunks)])))))))"

definition get_stats :: "(tval \<Rightarrow> exc + tval) \<Rightarrow> 's connection \<Rightarrow> string \<Rightarrow> ('s, (string \<times> tval) list) act" where
  "get_stats py_float conn table_name =
     bind_act (run_statement conn (render (get_stats_sql table_name)))
       (\<lambda>result. lift_res (stats_answer py_float (result_rows result)))"

end
