(* ===== verification/Continuous_Aggregate.thy ===== *)
theory Continuous_Aggregate
  imports Timescale Py_Text
begin

text \<open>
  \<open>timescale/continuous_aggregate.py\<close>: the methods of \<open>ContinuousAggregateManager\<close>. \<open>create\<close>
  validates a caller's query before it interpolates it: \<open>str.strip\<close>, \<open>str.upper\<close>,
  \<open>str.split(None, 1)\<close> and the two regular expressions are written out for code points up to
  U+00FF (the upper case of \<open>U+00B5\<close> and \<open>U+00FF\<close>, which lies beyond, is left unchanged).
\<close>

section \<open>Text operations\<close>

definition upper_char :: "char \<Rightarrow> string" where
  "upper_char c = (let k = (of_char c :: nat) in
     if (97 \<le> k \<and> k \<le> 122) \<or> (224 \<le> k \<and> k \<le> 254 \<and> k \<noteq> 247) then [char_of (k - 32)]
     else if k = 223 then ''SS'' else [c])"

definition py_upper :: "string \<Rightarrow> string" where
  "py_upper s = concat (map upper_char s)"

text \<open>\<open>s.split(None, 1)[0]\<close> of a stripped non-empty text.\<close>

definition first_word :: "string \<Rightarrow> string" where
  "first_word s = takeWhile (\<lambda>c. \<not> is_space c) (dropWhile is_space s)"

text \<open>\<open>\w\<close> and \<open>\b\<close>.\<close>

definition word_char :: "char \<Rightarrow> bool" where
  "word_char c = (let k = (of_char c :: nat) in
     (48 \<le> k \<and> k \<le> 57) \<or> (65 \<le> k \<and> k \<le> 90) \<or> k = 95 \<or> (97 \<le> k \<and> k \<le> 122)
     \<or> k \<in> {170, 178, 179, 181, 185, 186, 188, 189, 190} \<or> (192 \<le> k \<and> k \<noteq> 215 \<and> k \<noteq> 247))"

definition boundary :: "string \<Rightarrow> nat \<Rightarrow> bool" where
  "boundary s i = ((0 < i \<and> i \<le> length s \<and> word_char (s ! (i - 1))) \<noteq> (i < length s \<and> word_char (s ! i)))"

text \<open>\<open>'[^']*(?:''[^']*)*'\<close> after its opening quote: what follows the match. A pair of quotes is
  taken into the literal when the literal still ends after it.\<close>

function literal_rest :: "string \<Rightarrow> string option" where
  "literal_rest s =
     (case dropWhile (\<lambda>c. c \<noteq> SQ) s of
        [] \<Rightarrow> None
      | _ # r \<Rightarrow>
          (case r of
             [] \<Rightarrow> Some r
           | c # r' \<Rightarrow>
               if c = SQ then (case literal_rest r' of Some t \<Rightarrow> Some t | None \<Rightarrow> Some r) else Some r))"
  by pat_completeness auto

termination
proof (relation "measure length")
  fix s q r c r'
  assume "dropWhile (\<lambda>c. c \<noteq> SQ) s = q # r" "r = c # r'"
  then have "length (q # c # r') \<le> length s" by (metis length_dropWhile_le)
  then show "(r', s) \<in> measure length" by simp
qed simp

declare literal_rest.simps [simp del]

lemma literal_rest_length: "literal_rest s = Some t \<Longrightarrow> length t < length s"
proof (induction s arbitrary: t rule: literal_rest.induct)
  case (1 s)
  obtain q r where d: "dropWhile (\<lambda>c. c \<noteq> SQ) s = q # r"
    using "1.prems" by (subst (asm) literal_rest.simps) (auto split: list.splits)
  have len: "length (q # r) \<le> length s" using d by (metis length_dropWhile_le)
  show ?case
  proof (cases r)
    case Nil
    then show ?thesis using "1.prems" d len by (subst (asm) literal_rest.simps) auto
  next
    case (Cons c r')
    show ?thesis
    proof (cases "c = SQ \<and> literal_rest r' \<noteq> None")
      case True
      then have "literal_rest r' = Some t" using "1.prems" d Cons by (subst (asm) literal_rest.simps) auto
      then have "length t < length r'" using "1.IH" [OF d Cons] True by blast
      then show ?thesis using len Cons by simp
    next
      case False
      then have "t = r" using "1.prems" d Cons
        by (subst (asm) literal_rest.simps) (auto split: if_splits option.splits)
      then show ?thesis using len by simp
    qed
  qed
qed

text \<open>\<open>re.sub(pattern, "", inner)\<close>.\<close>

function strip_literals :: "string \<Rightarrow> string" where
  "strip_literals [] = []"
| "strip_literals (c # s) =
     (if c = SQ then (case literal_rest s of Some t \<Rightarrow> strip_literals t | None \<Rightarrow> c # strip_literals s)
      else c # strip_literals s)"
  by pat_completeness auto

termination
  by (relation "measure length") (auto dest: literal_rest_length)

text \<open>\<open>re.search(rf"\b{source_pattern}\b", text)\<close>, where the pattern is the escaped name, after an
  optional \<open>\w+\.\<close> when the name holds no dot.\<close>

definition name_at :: "string \<Rightarrow> string \<Rightarrow> nat \<Rightarrow> bool" where
  "name_at name s i = (take (length name) (drop i s) = name \<and> boundary s (i + length name))"

definition prefix_length :: "string \<Rightarrow> nat \<Rightarrow> nat option" where
  "prefix_length s i =
     (let w = takeWhile word_char (drop i s); rest = dropWhile word_char (drop i s)
      in if w \<noteq> [] \<and> rest \<noteq> [] \<and> hd rest = CHR ''.'' then Some (length w + 1) else None)"

definition references :: "string \<Rightarrow> string \<Rightarrow> bool" where
  "references name s =
     list_ex (\<lambda>i. boundary s i \<and>
        (name_at name s i
         \<or> (CHR ''.'' \<notin> set name
            \<and> (case prefix_length s i of None \<Rightarrow> False | Some k \<Rightarrow> name_at name s (i + k)))))
       [0..<length s + 1]"

section \<open>ContinuousAggregateManager\<close>

definition create_cagg_sql :: "string \<Rightarrow> string \<Rightarrow> string \<Rightarrow> bool \<Rightarrow> bool \<Rightarrow> exc + piece list" where
  "create_cagg_sql view_name source_table query with_data allow_full_statement =
     (if allow_full_statement then Inr [Text (py_strip query)]
      else
        let inner = py_strip query;
            first_keyword = (if inner \<noteq> [] then first_word (py_upper inner) else '''')
        in if CHR '';'' \<in> set inner \<or> first_keyword \<notin> {''SELECT'', ''WITH''} then Inl ValueError
           else if \<not> references source_table (strip_literals inner) then Inl ValueError
           else Inr [Text (line 16 ''CREATE MATERIALIZED VIEW ''), Name view_name,
                     Text (line 16 ''WITH (timescaledb.continuous)'' @ line 16 ''AS (''), Text query,
                     Text ('')'' @ line 16 ''WITH '' @ (if with_data then ''DATA'' else ''NO DATA'') @ line 12 '''')])"

definition create_cagg ::
  "'s connection \<Rightarrow> string \<Rightarrow> string \<Rightarrow> string \<Rightarrow> bool \<Rightarrow> bool \<Rightarrow> ('s, unit) act" where
  "create_cagg conn view_name source_table query with_data allow_full_statement =
     bind_act (lift_res (create_cagg_sql view_name source_table query with_data allow_full_statement))
       (\<lambda>sql. bind_act (run_statement conn (render sql)) (\<lambda>_. ret ()))"

definition drop_cagg_sql :: "string \<Rightarrow> bool \<Rightarrow> piece list" where
  "drop_cagg_sql view_name if_exists =
     [Text (line 12 ''DROP MATERIALIZED VIEW'' @ line 12 (if if_exists then ''IF EXISTS'' else '''') @ line 12 ''''),
      Name view_name, Text (line 8 '''')]"

definition drop_cagg :: "'s connection \<Rightarrow> string \<Rightarrow> bool \<Rightarrow> ('s, unit) act" where
  "drop_cagg conn view_name if_exists =
     bind_act (run_statement conn (render (drop_cagg_sql view_name if_exists))) (\<lambda>_. ret ())"

definition refresh_sql :: "string \<Rightarrow> string option \<Rightarrow> string option \<Rightarrow> piece list" where
  "refresh_sql view_name start_time end_time =
     (if truthy start_time \<and> truthy end_time then
        [Text ''CALL refresh_continuous_aggregate('', Value view_name,
         Text '', TIMESTAMPTZ '', Value (the start_time), Text '', TIMESTAMPTZ '', Value (the end_time), Text '')'']
      else [Text ''CALL refresh_continuous_aggregate('', Value view_name, Text '', NULL, NULL)''])"

definition refresh :: "'s connection \<Rightarrow> string \<Rightarrow> string option \<Rightarrow> string option \<Rightarrow> ('s, unit) act" where
  "refresh conn view_name start_time end_time =
     bind_act (run_statement conn (render (refresh_sql view_name start_time end_time))) (\<lambda>_. ret ())"

definition set_refresh_policy_sql :: "string \<Rightarrow> string \<Rightarrow> string \<Rightarrow> string \<Rightarrow> piece list" where
  "set_refresh_policy_sql view_name start_offset end_offset schedule_interval =
     [Text ''SELECT add_continuous_aggregate_policy('', Value view_name,
      Text '', start_offset => INTERVAL '', Value start_offset, Text '', end_offset => INTERVAL '', Value end_offset,
      Text '', schedule_interval => INTERVAL '', Value schedule_interval, Text '')'']"

definition set_refresh_policy :: "'s connection \<Rightarrow> string \<Rightarrow> string \<Rightarrow> string \<Rightarrow> string \<Rightarrow> ('s, unit) act" where
  "set_refresh_policy conn view_name start_offset end_offset schedule_interval =
     bind_act
       (run_statement conn (render (set_refresh_policy_sql view_name start_offset end_offset schedule_interval)))
       (\<lambda>_. ret ())"

definition remove_refresh_policy_sql :: "string \<Rightarrow> piece list" where
  "remove_refresh_policy_sql view_name =
     [Text ''SELECT remove_continuous_aggregate_policy('', Value view_name, Text '')'']"

definition remove_refresh_policy :: "'s connection \<Rightarrow> string \<Rightarrow> ('s, unit) act" where
  "remove_refresh_policy conn view_name =
     bind_act (run_statement conn (render (remove_refresh_policy_sql view_name))) (\<lambda>_. ret ())"

definition add_realtime_aggregate_sql :: "string \<Rightarrow> piece list" where
  "add_realtime_aggregate_sql view_name =
     [Text (line 12 ''ALTER MATERIALIZED VIEW ''), Name view_name,
      Text (line 12 ''SET (timescaledb.materialized_only = false)'' @ line 8 '''')]"

definition add_realtime_aggregate :: "'s connection \<Rightarrow> string \<Rightarrow> ('s, unit) act" where
  "add_realtime_aggregate conn view_name =
     bind_act (run_statement conn (render (add_realtime_aggregate_sql view_name))) (\<lambda>_. ret ())"

definition list_caggs_sql :: "piece list" where
  "list_caggs_sql =
     [Text (line 12 ''SELECT'' @ line 16 ''view_name,'' @ line 16 ''view_definition''
            @ line 12 ''FROM timescaledb_information.continuous_aggregates'' @ line 12 ''ORDER BY view_name'' @ line 8 '''')]"

definition list_caggs :: "'s connection \<Rightarrow> ('s, (string \<times> tval) list list) act" where
  "list_caggs conn =
     bind_act (run_statement conn (render list_caggs_sql))
       (\<lambda>result. lift_res (map_res dict_of_row (result_rows result)))"

end
