(* ===== verification/Timescale_Calls.thy ===== *)
theory Timescale_Calls
  imports Continuous_Aggregate
begin

text \<open>
  All operations of the three timescale managers and of the continuous aggregates as one datatype,
  so that what they share is stated once: each runs at most one statement, failures come out as
  \<open>TimescaleError\<close>, and an argument never changes the statement it is interpolated into.
\<close>

datatype ts_call =
    Create_hypertable string string string bool bool
  | Drop_hypertable string bool
  | Is_hypertable string
  | List_hypertables string
  | Add_dimension string string "string option" "int option"
  | Show_chunks string "string option" "string option"
  | Set_retention string string bool
  | Remove_retention string
  | List_policies
  | Get_chunks_to_drop string string
  | Enable_compression string
  | Disable_compression string
  | Add_compression_policy string string bool
  | Remove_compression_policy string
  | Compress_chunk string
  | Decompress_chunk string
  | Get_stats string
  | Create_cagg string string string bool bool
  | Drop_cagg string bool
  | Refresh string "string option" "string option"
  | Set_refresh_policy string string string string
  | Remove_refresh_policy string
  | Add_realtime_aggregate string
  | List_caggs

datatype answer = Done | Flag bool | Mappings "(string \<times> tval) list list" | Columns "tval list"
  | Mapping "(string \<times> tval) list"

fun call :: "(tval \<Rightarrow> exc + tval) \<Rightarrow> 's connection \<Rightarrow> ts_call \<Rightarrow> ('s, answer) act" where
  "call pf conn (Create_hypertable t c i e m) = map_act (\<lambda>_. Done) (create_hypertable conn t c i e m)"
| "call pf conn (Drop_hypertable t e) = map_act (\<lambda>_. Done) (drop_hypertable conn t e)"
| "call pf conn (Is_hypertable t) = map_act Flag (is_hypertable conn t)"
| "call pf conn (List_hypertables s) = map_act Mappings (list_hypertables conn s)"
| "call pf conn (Add_dimension t c i n) = map_act (\<lambda>_. Done) (add_dimension conn t c i n)"
| "call pf conn (Show_chunks t a b) = map_act Columns (show_chunks conn t a b)"
| "call pf conn (Set_retention t d e) = map_act (\<lambda>_. Done) (set_retention conn t d e)"
| "call pf conn (Remove_retention t) = map_act (\<lambda>_. Done) (remove_retention conn t)"
| "call pf conn List_policies = map_act Mappings (list_policies conn)"
| "call pf conn (Get_chunks_to_drop t d) = map_act Columns (get_chunks_to_drop conn t d)"
| "call pf conn (Enable_compression t) = map_act (\<lambda>_. Done) (enable_compression conn t)"
| "call pf conn (Disable_compression t) = map_act (\<lambda>_. Done) (disable_compression conn t)"
| "call pf conn (Add_compression_policy t d e) = map_act (\<lambda>_. Done) (add_compression_policy conn t d e)"
| "call pf conn (Remove_compression_policy t) = map_act (\<lambda>_. Done) (remove_compression_policy conn t)"
| "call pf conn (Compress_chunk c) = map_act (\<lambda>_. Done) (compress_chunk conn c)"
| "call pf conn (Decompress_chunk c) = map_act (\<lambda>_. Done) (decompress_chunk conn c)"
| "call pf conn (Get_stats t) = map_act Mapping (get_stats pf conn t)"
| "call pf conn (Create_cagg v t q d f) = map_act (\<lambda>_. Done) (create_cagg conn v t q d f)"
| "call pf conn (Drop_cagg v e) = map_act (\<lambda>_. Done) (drop_cagg conn v e)"
| "call pf conn (Refresh v a b) = map_act (\<lambda>_. Done) (refresh conn v a b)"
| "call pf conn (Set_refresh_policy v a b i) = map_act (\<lambda>_. Done) (set_refresh_policy conn v a b i)"
| "call pf conn (Remove_refresh_policy v) = map_act (\<lambda>_. Done) (remove_refresh_policy conn v)"
| "call pf conn (Add_realtime_aggregate v) = map_act (\<lambda>_. Done) (add_realtime_aggregate conn v)"
| "call pf conn List_caggs = map_act Mappings (list_caggs conn)"

text \<open>The statement an operation runs, or the error it raises instead.\<close>

fun statement :: "ts_call \<Rightarrow> exc + piece list" where
  "statement (Create_hypertable t c i e m) = Inr (create_hypertable_sql t c i e m)"
| "statement (Drop_hypertable t e) = Inr (drop_hypertable_sql t e)"
| "statement (Is_hypertable t) = Inr (is_hypertable_sql t)"
| "statement (List_hypertables s) = Inr (list_hypertables_sql s)"
| "statement (Add_dimension t c i n) = add_dimension_sql t c i n"
| "statement (Show_chunks t a b) = Inr (show_chunks_sql t a b)"
| "statement (Set_retention t d e) = Inr (set_retention_sql t d e)"
| "statement (Remove_retention t) = Inr (remove_retention_sql t)"
| "statement List_policies = Inr list_policies_sql"
| "statement (Get_chunks_to_drop t d) = Inr (get_chunks_to_drop_sql t d)"
| "statement (Enable_compression t) = Inr (enable_compression_sql t)"
| "statement (Disable_compression t) = Inr (disable_compression_sql t)"
| "statement (Add_compression_policy t d e) = Inr (add_compression_policy_sql t d e)"
| "statement (Remove_compression_policy t) = Inr (remove_compression_policy_sql t)"
| "statement (Compress_chunk c) = Inr (compress_chunk_sql c)"
| "statement (Decompress_chunk c) = Inr (decompress_chunk_sql c)"
| "statement (Get_stats t) = Inr (get_stats_sql t)"
| "statement (Create_cagg v t q d f) = create_cagg_sql v t q d f"
| "statement (Drop_cagg v e) = Inr (drop_cagg_sql v e)"
| "statement (Refresh v a b) = Inr (refresh_sql v a b)"
| "statement (Set_refresh_policy v a b i) = Inr (set_refresh_policy_sql v a b i)"
| "statement (Remove_refresh_policy v) = Inr (remove_refresh_policy_sql v)"
| "statement (Add_realtime_aggregate v) = Inr (add_realtime_aggregate_sql v)"
| "statement List_caggs = Inr list_caggs_sql"

text \<open>What an operation makes of the rows.\<close>

fun answer_of :: "(tval \<Rightarrow> exc + tval) \<Rightarrow> ts_call \<Rightarrow> dbrow list \<Rightarrow> exc + answer" where
  "answer_of pf (Is_hypertable t) rows = Inr (Flag (is_hypertable_answer rows))"
| "answer_of pf (List_hypertables s) rows = bind_res (map_res dict_of_row rows) (\<lambda>ds. Inr (Mappings ds))"
| "answer_of pf List_policies rows = bind_res (map_res dict_of_row rows) (\<lambda>ds. Inr (Mappings ds))"
| "answer_of pf List_caggs rows = bind_res (map_res dict_of_row rows) (\<lambda>ds. Inr (Mappings ds))"
| "answer_of pf (Show_chunks t a b) rows = bind_res (map_res first_column rows) (\<lambda>vs. Inr (Columns vs))"
| "answer_of pf (Get_chunks_to_drop t d) rows = bind_res (map_res first_column rows) (\<lambda>vs. Inr (Columns vs))"
| "answer_of pf (Get_stats t) rows = bind_res (stats_answer pf rows) (\<lambda>d. Inr (Mapping d))"
| "answer_of pf _ rows = Inr Done"

definition translated :: "exc \<Rightarrow> exc" where
  "translated e = (if is_instance e Exception_cls then TimescaleError else e)"

definition outcome :: "(tval \<Rightarrow> exc + tval) \<Rightarrow> 's connection \<Rightarrow> ts_call \<Rightarrow> ('s, answer) act" where
  "outcome pf conn op s =
     (case statement op of
        Inl e \<Rightarrow> (Inl e, s)
      | Inr sql \<Rightarrow>
          (case conn (render sql) s of
             (Inl e, t) \<Rightarrow> (Inl (translated e), t)
           | (Inr result, t) \<Rightarrow> (answer_of pf op (result_rows result), t)))"

lemmas call_defs =
  create_hypertable_def drop_hypertable_def is_hypertable_def list_hypertables_def add_dimension_def
  show_chunks_def set_retention_def remove_retention_def list_policies_def get_chunks_to_drop_def
  enable_compression_def disable_compression_def add_compression_policy_def
  remove_compression_policy_def compress_chunk_def decompress_chunk_def get_stats_def
  create_cagg_def drop_cagg_def refresh_def set_refresh_policy_def remove_refresh_policy_def
  add_realtime_aggregate_def list_caggs_def

lemmas sql_defs =
  create_hypertable_sql_def drop_hypertable_sql_def is_hypertable_sql_def list_hypertables_sql_def
  add_dimension_sql_def show_chunks_sql_def set_retention_sql_def remove_retention_sql_def
  list_policies_sql_def get_chunks_to_drop_sql_def enable_compression_sql_def
  disable_compression_sql_def add_compression_policy_sql_def remove_compression_policy_sql_def
  compress_chunk_sql_def decompress_chunk_sql_def get_stats_sql_def drop_cagg_sql_def
  refresh_sql_def set_refresh_policy_sql_def remove_refresh_policy_sql_def
  add_realtime_aggregate_sql_def list_caggs_sql_def

lemma run_statement_run:
  "run_statement conn sql s =
     (case conn sql s of (Inl e, t) \<Rightarrow> (Inl (translated e), t) | (Inr r, t) \<Rightarrow> (Inr r, t))"
  by (auto simp: run_statement_def handle_def translated_def throw_def catches_def split: prod.splits sum.splits)

lemma run_then:
  "bind_act (run_statement conn sql) f s =
     (case conn sql s of (Inl e, t) \<Rightarrow> (Inl (translated e), t) | (Inr r, t) \<Rightarrow> f r t)"
  by (auto simp: bind_act_def run_statement_run split: prod.splits sum.splits)

lemma map_act_bind: "map_act g (bind_act m f) = bind_act m (\<lambda>x. map_act g (f x))"
  by (simp add: map_act_def bind_act_assoc)

lemma map_lift: "map_act g (lift_res r) s = (bind_res r (\<lambda>x. Inr (g x)), s)"
  by (cases r) (simp_all add: run_map_act lift_res_def)

lemma map_ret: "map_act g (ret x) s = (Inr (g x), s)"
  by (simp add: run_map_act ret_def)

lemmas outcome_simps = outcome_def map_act_bind run_then map_lift map_ret

lemma lift_then_map:
  "map_act g (bind_act (lift_res r) f) s = (case r of Inl e \<Rightarrow> (Inl e, s) | Inr x \<Rightarrow> map_act g (f x) s)"
  by (cases r) (simp_all add: map_act_def bind_act_def lift_res_def)

lemma checked_call_outcome:
  "map_act (\<lambda>_. Done) (bind_act (lift_res r) (\<lambda>sql. bind_act (run_statement conn (render sql)) (\<lambda>_. ret ()))) s
     = (case r of
          Inl e \<Rightarrow> (Inl e, s)
        | Inr sql \<Rightarrow> (case conn (render sql) s of (Inl e, t) \<Rightarrow> (Inl (translated e), t) | (Inr _, t) \<Rightarrow> (Inr Done, t)))"
  unfolding lift_then_map by (cases r) (simp_all add: map_act_bind run_then map_ret split: sum.splits prod.splits)

lemma call_outcome: "call pf conn op s = outcome pf conn op s"
proof (cases op)
  case (Add_dimension t c i n)
  then show ?thesis by (simp add: add_dimension_def outcome_def checked_call_outcome split: sum.splits prod.splits)
next
  case (Create_cagg v t q d f)
  then show ?thesis by (simp add: create_cagg_def outcome_def checked_call_outcome split: sum.splits prod.splits)
qed (simp_all add: call_defs outcome_simps split: sum.splits prod.splits)

section \<open>Arguments\<close>

text \<open>The quoted tokens an operation's arguments amount to, with the constant literals of the
  statement, and the operation with every text replaced by \<open>x\<close>.\<close>

definition name_tokens :: "string \<Rightarrow> sqltok list" where
  "name_tokens name =
     (case split_schema_name name of (None, table) \<Rightarrow> [Ident table] | (Some schema, table) \<Rightarrow> [Ident schema, Ident table])"

definition lookup_tokens :: "string \<Rightarrow> sqltok list" where
  "lookup_tokens name =
     (case split_schema_name name of (None, table) \<Rightarrow> [Lit table] | (Some schema, table) \<Rightarrow> [Lit schema, Lit table])"

definition window_tokens :: "string option \<Rightarrow> string option \<Rightarrow> sqltok list" where
  "window_tokens a b =
     (if truthy a \<and> truthy b then [Lit (the a), Lit (the b)] else if truthy a then [Lit (the a)] else [])"

fun arguments :: "ts_call \<Rightarrow> sqltok list" where
  "arguments (Create_hypertable t c i e m) = [Lit t, Lit c, Lit i]"
| "arguments (Drop_hypertable t e) = name_tokens t"
| "arguments (Is_hypertable t) = lookup_tokens t"
| "arguments (List_hypertables s) = [Lit ''.'', Ident s, Lit ''.'']"
| "arguments (Add_dimension t c i n) = [Lit t, Lit c] @ (if truthy i then [Lit (the i)] else [])"
| "arguments (Show_chunks t a b) = Lit t # window_tokens a b"
| "arguments (Set_retention t d e) = [Lit t, Lit d]"
| "arguments (Remove_retention t) = [Lit t]"
| "arguments List_policies = [Lit ''policy_retention'']"
| "arguments (Get_chunks_to_drop t d) = [Lit t, Lit d]"
| "arguments (Enable_compression t) = [Ident t]"
| "arguments (Disable_compression t) = [Ident t]"
| "arguments (Add_compression_policy t d e) = [Lit t, Lit d]"
| "arguments (Remove_compression_policy t) = [Lit t]"
| "arguments (Compress_chunk c) = [Lit c]"
| "arguments (Decompress_chunk c) = [Lit c]"
| "arguments (Get_stats t) = [Lit t, Lit t, Lit t]"
| "arguments (Create_cagg v t q d f) = []"
| "arguments (Drop_cagg v e) = [Ident v]"
| "arguments (Refresh v a b) = Lit v # (if truthy a \<and> truthy b then [Lit (the a), Lit (the b)] else [])"
| "arguments (Set_refresh_policy v a b i) = [Lit v, Lit a, Lit b, Lit i]"
| "arguments (Remove_refresh_policy v) = [Lit v]"
| "arguments (Add_realtime_aggregate v) = [Ident v]"
| "arguments List_caggs = []"

definition neutral_name :: "string \<Rightarrow> string" where
  "neutral_name name = (if fst (split_schema_name name) = None then ''x'' else ''x.x'')"

definition neutral_option :: "string option \<Rightarrow> string option" where
  "neutral_option a = (if truthy a then Some ''x'' else None)"

fun neutral :: "ts_call \<Rightarrow> ts_call" where
  "neutral (Create_hypertable t c i e m) = Create_hypertable ''x'' ''x'' ''x'' e m"
| "neutral (Drop_hypertable t e) = Drop_hypertable (neutral_name t) e"
| "neutral (Is_hypertable t) = Is_hypertable (neutral_name t)"
| "neutral (List_hypertables s) = List_hypertables ''x''"
| "neutral (Add_dimension t c i n) = Add_dimension ''x'' ''x'' (neutral_option i) n"
| "neutral (Show_chunks t a b) = Show_chunks ''x'' (neutral_option a) (neutral_option b)"
| "neutral (Set_retention t d e) = Set_retention ''x'' ''x'' e"
| "neutral (Remove_retention t) = Remove_retention ''x''"
| "neutral (Get_chunks_to_drop t d) = Get_chunks_to_drop ''x'' ''x''"
| "neutral (Enable_compression t) = Enable_compression ''x''"
| "neutral (Disable_compression t) = Disable_compression ''x''"
| "neutral (Add_compression_policy t d e) = Add_compression_policy ''x'' ''x'' e"
| "neutral (Remove_compression_policy t) = Remove_compression_policy ''x''"
| "neutral (Compress_chunk c) = Compress_chunk ''x''"
| "neutral (Decompress_chunk c) = Decompress_chunk ''x''"
| "neutral (Get_stats t) = Get_stats ''x''"
| "neutral (Drop_cagg v e) = Drop_cagg ''x'' e"
| "neutral (Refresh v a b) = Refresh ''x'' (neutral_option a) (neutral_option b)"
| "neutral (Set_refresh_policy v a b i) = Set_refresh_policy ''x'' ''x'' ''x'' ''x''"
| "neutral (Remove_refresh_policy v) = Remove_refresh_policy ''x''"
| "neutral (Add_realtime_aggregate v) = Add_realtime_aggregate ''x''"
| "neutral op = op"

fun caller_sql :: "ts_call \<Rightarrow> bool" where
  "caller_sql (Create_cagg v t q d f) = True"
| "caller_sql op = False"

lemma neutral_split:
  "split_schema_name ''x'' = (None, ''x'')" "split_schema_name ''x.x'' = (Some ''x'', ''x'')"
  by code_simp+

lemma truthy_neutral [simp]: "truthy (neutral_option a) \<longleftrightarrow> truthy a" "truthy (Some ''x'')" "\<not> truthy None"
  by (auto simp: neutral_option_def truthy_def)

lemma well_formed_statement: "statement op = Inr ps \<Longrightarrow> \<not> caller_sql op \<Longrightarrow> well_formed ps"
  by (cases op) (auto simp: sql_defs qualified_name_def split: if_splits option.splits prod.splits)

lemma quoted_statement:
  "statement op = Inr ps \<Longrightarrow> \<not> caller_sql op \<Longrightarrow> quoted (template_toks ps) = arguments op"
  by (cases op)
    (auto simp: sql_defs qualified_name_def name_tokens_def lookup_tokens_def window_tokens_def
      split: if_splits option.splits prod.splits)

lemma skeleton_statement:
  assumes "statement op = Inr ps" "\<not> caller_sql op"
  shows "\<exists>ps'. statement (neutral op) = Inr ps' \<and> skeleton (template_toks ps) = skeleton (template_toks ps')"
  using assms
  by (cases op)
    (auto simp: sql_defs qualified_name_def neutral_name_def neutral_split split: if_splits option.splits prod.splits)

lemma neutral_caller [simp]: "caller_sql (neutral op) = caller_sql op"
  by (cases op) simp_all

section \<open>Properties\<close>

text \<open>An operation of the timescale managers either refuses its arguments with
  \<open>ValueError\<close> before any statement runs, or runs exactly one statement; an \<open>Exception\<close> of the
  driver becomes \<open>TimescaleError\<close>, a cancellation passes through, and the answer is what the
  method makes of the rows.\<close>

theorem timescale_call_outcome:
  "case statement op of
     Inl e \<Rightarrow> e = ValueError \<and> call py_float conn op s = (Inl ValueError, s)
   | Inr sql \<Rightarrow>
       call py_float conn op s =
         (case conn (render sql) s of
            (Inl e, t) \<Rightarrow> (Inl (if is_instance e Exception_cls then TimescaleError else e), t)
          | (Inr result, t) \<Rightarrow> (answer_of py_float op (result_rows result), t))"
proof (cases "statement op")
  case (Inl e)
  then have "e = ValueError"
    by (cases op) (auto simp: add_dimension_sql_def create_cagg_sql_def Let_def split: if_splits)
  then show ?thesis using Inl by (simp add: call_outcome outcome_def)
next
  case (Inr sql)
  then show ?thesis by (simp add: call_outcome outcome_def translated_def split: sum.splits prod.splits)
qed



section \<open>Queries of continuous aggregates\<close>

lemma name_at_iff: "name_at name s i \<longleftrightarrow> (\<exists>post. drop i s = name @ post) \<and> boundary s (i + length name)"
  by (metis append_eq_conv_conj append_take_drop_id name_at_def)

text \<open>For a table name of word characters, the search accepts exactly the texts where the name
  stands as a word of its own.\<close>

definition stands_in :: "string \<Rightarrow> string \<Rightarrow> bool" where
  "stands_in name s \<longleftrightarrow> (\<exists>pre post. s = pre @ name @ post
     \<and> (pre = [] \<or> \<not> word_char (last pre)) \<and> (post = [] \<or> \<not> word_char (hd post)))"

lemma boundary_before:
  assumes "s = pre @ name @ post" "name \<noteq> []" "word_char (hd name)"
  shows "boundary s (length pre) \<longleftrightarrow> pre = [] \<or> \<not> word_char (last pre)"
  using assms by (cases pre rule: rev_cases) (auto simp: boundary_def nth_append hd_conv_nth)

lemma boundary_after:
  assumes "s = pre @ name @ post" "name \<noteq> []" "word_char (last name)"
  shows "boundary s (length pre + length name) \<longleftrightarrow> post = [] \<or> \<not> word_char (hd post)"
  using assms by (cases name rule: rev_cases; cases post) (auto simp: boundary_def nth_append)

lemma references_word:
  assumes "name \<noteq> []" "word_char (hd name)" "word_char (last name)"
  shows "references name s \<longleftrightarrow> stands_in name s"
proof
  assume "references name s"
  then obtain i where i: "i \<le> length s" "boundary s i"
    "name_at name s i \<or> (\<exists>k. prefix_length s i = Some k \<and> name_at name s (i + k))"
  proof -
    obtain i where "i \<in> set [0..<length s + 1]" "boundary s i" "name_at name s i \<or> (CHR ''.'' \<notin> set name
        \<and> (case prefix_length s i of None \<Rightarrow> False | Some k \<Rightarrow> name_at name s (i + k)))"
      using \<open>references name s\<close> unfolding references_def list_ex_iff by blast
    then show ?thesis by (intro that [of i]) (auto split: option.splits)
  qed
  have stands: "stands_in name s" if b: "boundary s j" "name_at name s j" "j \<le> length s" for j
  proof -
    obtain post where post: "drop j s = name @ post" "boundary s (j + length name)" using b(2) name_at_iff by blast
    then have s: "s = take j s @ name @ post" by (metis append_take_drop_id)
    have "length (take j s) = j" using b(3) by simp
    then show ?thesis
      using boundary_before [OF s assms(1,2)] boundary_after [OF s assms(1,3)] b(1) post(2) s
      unfolding stands_in_def by metis
  qed
  from i(3) show "stands_in name s"
  proof
    assume "name_at name s i"
    then show ?thesis using stands i by blast
  next
    assume "\<exists>k. prefix_length s i = Some k \<and> name_at name s (i + k)"
    then obtain k where k: "prefix_length s i = Some k" "name_at name s (i + k)" by blast
    let ?w = "takeWhile word_char (drop i s)" and ?r = "dropWhile word_char (drop i s)"
    have w: "?r \<noteq> []" "hd ?r = CHR ''.''" "k = length ?w + 1"
      using k(1) by (auto simp: prefix_length_def Let_def split: if_splits)
    have "drop i s = ?w @ CHR ''.'' # tl ?r" using w(1,2) by (metis list.collapse takeWhile_dropWhile_id)
    then have s: "s = (take i s @ ?w @ [CHR ''.'']) @ tl ?r" by (metis append.assoc append_Cons append_Nil append_take_drop_id)
    have len: "length (take i s @ ?w @ [CHR ''.'']) = i + k" using i(1) w(3) by simp
    obtain post where post: "drop (i + k) s = name @ post" "boundary s (i + k + length name)"
      using k(2) name_at_iff by blast
    have "tl ?r = name @ post" using s len post(1) by (metis append_eq_conv_conj)
    then have s': "s = (take i s @ ?w @ [CHR ''.'']) @ name @ post" using s by simp
    have "\<not> word_char (CHR ''.'')" by (simp add: word_char_def)
    then show ?thesis
      using boundary_after [OF s' assms(1,3)] post(2) len s' unfolding stands_in_def
      by (metis append_is_Nil_conv last_appendR last_snoc list.distinct(1))
  qed
next
  assume "stands_in name s"
  then obtain pre post where s: "s = pre @ name @ post" and b: "pre = [] \<or> \<not> word_char (last pre)"
    "post = [] \<or> \<not> word_char (hd post)" unfolding stands_in_def by blast
  have "boundary s (length pre)" "name_at name s (length pre)"
    using boundary_before [OF s assms(1,2)] boundary_after [OF s assms(1,3)] b by (auto simp: name_at_iff s)
  moreover have "length pre \<in> set [0..<length s + 1]" using s by simp
  ultimately show "references name s" unfolding references_def list_ex_iff by blast
qed

lemma strip_keeps: "c \<in> set s \<Longrightarrow> \<not> is_space c \<Longrightarrow> c \<in> set (py_strip s)"
proof -
  have keep: "c \<in> set xs \<Longrightarrow> \<not> is_space c \<Longrightarrow> c \<in> set (dropWhile is_space xs)" for xs
    by (induction xs) auto
  show "c \<in> set s \<Longrightarrow> \<not> is_space c \<Longrightarrow> c \<in> set (py_strip s)"
    unfolding py_strip_def using keep [of s] keep [of "rev (dropWhile is_space s)"] by simp
qed

lemma create_cagg_tokens:
  assumes "sql_tokens q = Some qt"
    "create_cagg_sql v src q d False = Inr sql"
  shows "\<exists>before after. sql_tokens (render sql) = Some (before @ qt @ after)
    \<and> quoted before = [Ident v] \<and> quoted after = [] \<and> Sym CHR '';'' \<notin> set (before @ qt @ after)"
proof -
  let ?T1 = "line 16 ''CREATE MATERIALIZED VIEW ''"
  let ?T2 = "line 16 ''WITH (timescaledb.continuous)'' @ line 16 ''AS (''"
  let ?T3 = "'')'' @ line 16 ''WITH '' @ (if d then ''DATA'' else ''NO DATA'') @ line 12 ''''"
  have sql: "render sql = ?T1 @ quote_ident v @ ?T2 @ q @ ?T3" and semi: "CHR '';'' \<notin> set (py_strip q)"
    using assms(2) by (auto simp: create_cagg_sql_def Let_def split: if_splits)
  have "CHR '';'' \<notin> set q" using strip_keeps [of "CHR '';''" q] semi by (auto simp: is_space_def)
  then have q: "Sym CHR '';'' \<notin> set qt" using assms(1) scan_symbols by (auto simp: sql_tokens_def)
  have "sql_tokens (render sql) = Some (map Sym ?T1 @ Ident v # map Sym ?T2 @ qt @ map Sym ?T3)"
    unfolding sql by (rule tokens_around [OF _ _ _ _ _ assms(1)]) simp_all
  then have "sql_tokens (render sql) = Some ((map Sym ?T1 @ Ident v # map Sym ?T2) @ qt @ map Sym ?T3)"
    by simp
  moreover have "Sym CHR '';'' \<notin> set ((map Sym ?T1 @ Ident v # map Sym ?T2) @ qt @ map Sym ?T3)"
    using q by (auto simp: line_def NL_def)
  ultimately show ?thesis by (intro exI [of _ "map Sym ?T1 @ Ident v # map Sym ?T2"] exI [of _ "map Sym ?T3"]) simp
qed



section \<open>Arguments that do not reach the statement\<close>

text \<open>An end time without a start time does not restrict \<open>show_chunks\<close>; half a window makes
  \<open>refresh\<close> refresh everything; \<open>enable_compression\<close> takes a schema-qualified name, which
  \<open>drop_hypertable\<close> splits, as one identifier.\<close>

lemma show_chunks_end_alone: "show_chunks_sql table None (Some end_time) = show_chunks_sql table None None"
  by (simp add: show_chunks_sql_def truthy_def)

lemma refresh_half_window:
  "refresh_sql view (Some start) None = refresh_sql view None None"
  "refresh_sql view None (Some end_time) = refresh_sql view None None"
  by (simp_all add: refresh_sql_def truthy_def)

lemma enable_compression_unsplit:
  "arguments (Enable_compression ''m.e'') = [Ident ''m.e'']"
  "arguments (Drop_hypertable ''m.e'' b) = [Ident ''m'', Ident ''e'']"
  by (simp, simp add: name_tokens_def, code_simp)

end
