(* ===== verification/Query_Key.thy ===== *)
theory Query_Key
  imports Cache_Key Json_Roundtrip
begin

text \<open>
  The key half of \<open>cache/queryset.py\<close>: the signature of a \<open>Q\<close> object (\<open>_q_signature\<close>,
  \<open>_q_value_default\<close>), of an annotation, and \<open>_build_cache_key\<close>. sha256 and the SQL text of an
  annotation are given from outside. The specification of a signature is a \<open>form\<close>, in which the
  order of children, keyword filters and dict entries no longer exists.
\<close>

section \<open>Q objects\<close>

text \<open>A filter value: what JSON encodes itself, then bytes, sets (in iteration order), datetime,
  date and time values (by their ISO text) and other objects (by their \<open>str\<close>). Tuples are lists.\<close>

datatype qval =
    QNull | QBool bool | QInt int | QFloat string | QStr string | QBytes string
  | QList "qval list" | QDict "(string \<times> qval) list" | QSet "qval list" | QTime string | QObject string

fun q_value_default :: "qval \<Rightarrow> cval" where
  "q_value_default (QSet vs) = CList (sort_key py_str_of (map q_value_default vs))"
| "q_value_default (QList vs) = CList (map q_value_default vs)"
| "q_value_default (QDict d) = CDict (map (\<lambda>(k, v). (k, q_value_default v)) d)"
| "q_value_default (QTime s) = CStr s"
| "q_value_default QNull = CStr ''None''"
| "q_value_default (QBool b) = CStr (if b then ''True'' else ''False'')"
| "q_value_default (QInt i) = CStr (show_int i)"
| "q_value_default (QFloat r) = CStr r"
| "q_value_default (QStr s) = CStr s"
| "q_value_default (QBytes s) = CStr (repr_bytes s)"
| "q_value_default (QObject s) = CStr s"

text \<open>What \<open>json.dumps\<close> makes of a value: \<open>default\<close> is asked only where JSON has no form.\<close>

fun q_json :: "qval \<Rightarrow> cval" where
  "q_json QNull = CNull"
| "q_json (QBool b) = CBool b"
| "q_json (QInt i) = CInt i"
| "q_json (QFloat r) = CFloat r"
| "q_json (QStr s) = CStr s"
| "q_json (QList vs) = CList (map q_json vs)"
| "q_json (QDict d) = CDict (map (\<lambda>(k, v). (k, q_json v)) d)"
| "q_json v = q_value_default v"

datatype q = Q string bool "(string \<times> qval) list" "q list"

fun q_signature :: "q \<Rightarrow> string" where
  "q_signature (Q join_type negated filters children) =
     json_dumps True True
       (CDict [(''join'', CStr join_type), (''negated'', CBool negated),
               (''filters'', CDict (map (\<lambda>(k, v). (k, q_json v)) filters)),
               (''children'', CList (map CStr (sort (map q_signature children))))])"

section \<open>Querysets\<close>

text \<open>An annotation: a pypika term or an expression to resolve, with the SQL text or exception
  that gives, and the qualified name of its type.\<close>

record annotation =
  an_term :: bool
  an_sql :: "exc + string"
  an_type :: string

definition annotation_signature :: "annotation \<Rightarrow> exc + string" where
  "annotation_signature a =
     (if an_term a then an_sql a
      else case an_sql a of
             Inr sql \<Rightarrow> Inr sql
           | Inl e \<Rightarrow> if catches [Exception_cls] e then Inr (an_type a) else Inl e)"

record queryset =
  qs_model :: string
  qs_q_objects :: "q list"
  qs_annotations :: "(string \<times> annotation) list"
  qs_orderings :: "(string \<times> string) list"
  qs_limit :: "int option"
  qs_offset :: "int option"
  qs_distinct :: bool
  qs_fields :: "string list"
  qs_single :: bool
  qs_cache_ttl :: int
  qs_cache_key :: "string option"
  qs_cache_namespace :: string

text \<open>\<open>cache(...)\<close>; the backend argument is passed to the operations that use it.\<close>

definition cache :: "queryset \<Rightarrow> int \<Rightarrow> string option \<Rightarrow> string \<Rightarrow> queryset" where
  "cache qs ttl key namespace =
     qs\<lparr>qs_cache_ttl := ttl, qs_cache_key := key, qs_cache_namespace := namespace\<rparr>"

text \<open>\<open>_clone\<close>: the clone that Tortoise makes, with the cache settings copied.\<close>

definition clone_queryset :: "(queryset \<Rightarrow> queryset) \<Rightarrow> queryset \<Rightarrow> queryset" where
  "clone_queryset base_clone self =
     (base_clone self)\<lparr>qs_cache_ttl := qs_cache_ttl self, qs_cache_key := qs_cache_key self,
        qs_cache_namespace := qs_cache_namespace self\<rparr>"

text \<open>The truth value of an optional number: \<open>None\<close> and 0 are false.\<close>

definition nonzero :: "int option \<Rightarrow> bool" where
  "nonzero n = (n \<noteq> None \<and> n \<noteq> Some 0)"

fun annotation_items :: "(string \<times> annotation) list \<Rightarrow> exc + (string \<times> cval) list" where
  "annotation_items [] = Inr []"
| "annotation_items ((name, a) # r) =
     bind_res (annotation_signature a) (\<lambda>t. bind_res (annotation_items r) (\<lambda>items. Inr ((name, CStr t) # items)))"

definition key_filters :: "queryset \<Rightarrow> exc + (string \<times> cval) list" where
  "key_filters qs =
     bind_res (annotation_items (sort_items (qs_annotations qs))) (\<lambda>annotations.
       Inr ((if qs_q_objects qs \<noteq> [] then [(''q'', CList (map CStr (sort (map q_signature (qs_q_objects qs)))))] else [])
          @ (if qs_annotations qs \<noteq> [] then [(''annotations'', CDict annotations)] else [])
          @ (if qs_orderings qs \<noteq> []
             then [(''order'', CList (map (\<lambda>(f, d). CList [CStr f, CStr d]) (qs_orderings qs)))] else [])
          @ (if nonzero (qs_limit qs) then [(''limit'', CInt (the (qs_limit qs)))] else [])
          @ (if nonzero (qs_offset qs) then [(''offset'', CInt (the (qs_offset qs)))] else [])
          @ (if qs_distinct qs then [(''distinct'', CBool True)] else [])
          @ (if qs_fields qs \<noteq> [] then [(''fields'', CList (map CStr (qs_fields qs)))] else [])))"

definition key_data :: "queryset \<Rightarrow> exc + string" where
  "key_data qs = bind_res (key_filters qs) (\<lambda>filters. Inr (json_dumps True True (CDict filters)))"

definition build_query_key :: "(string \<Rightarrow> string) \<Rightarrow> queryset \<Rightarrow> exc + string" where
  "build_query_key sha256_hex qs =
     (if qs_cache_key qs \<noteq> None \<and> qs_cache_key qs \<noteq> Some [] then Inr (the (qs_cache_key qs))
      else bind_res (key_data qs) (\<lambda>data.
             key_build (key_from_dict (qs_model qs) [(''hash'', take 16 (sha256_hex data))])))"

section \<open>Forms\<close>

datatype form = Form string bool "string \<Rightarrow> cval option" "form multiset"

primrec q_form :: "q \<Rightarrow> form" where
  "q_form (Q join_type negated filters children) =
     Form join_type negated (\<lambda>n. map_option (\<lambda>v. json_sorted (q_json v)) (map_of filters n))
       (mset (map q_form children))"

fun wf_q :: "q \<Rightarrow> bool" where
  "wf_q (Q join_type negated filters children) \<longleftrightarrow>
     distinct (map fst filters) \<and> list_all (\<lambda>(k, v). wf_json (q_json v)) filters \<and> list_all wf_q children"

lemma sort_eq_iff: "sort xs = sort (ys :: 'a :: linorder list) \<longleftrightarrow> mset xs = mset ys"
  by (metis mset_sort properties_for_sort sorted_sort)

lemma map_CStr_eq: "map CStr xs = map CStr ys \<longleftrightarrow> xs = ys"
  by (simp add: inj_map_eq_map inj_def)

lemma mset_map_transfer:
  assumes "\<And>x y. x \<in> set xs \<Longrightarrow> y \<in> set xs \<union> set ys \<Longrightarrow> f x = f y \<Longrightarrow> g x = g y"
    and "mset (map f xs) = mset (map f ys)"
  shows "mset (map g xs) = mset (map g ys)"
proof -
  define h where "h s = g (SOME x. x \<in> set xs \<and> f x = s)" for s
  have h: "h (f y) = g y" if "y \<in> set xs \<union> set ys" for y
  proof -
    have "f y \<in> set (map f xs)" using that mset_eq_setD [OF assms(2)] by auto
    then have "\<exists>x. x \<in> set xs \<and> f x = f y" by auto
    then have rep: "(SOME x. x \<in> set xs \<and> f x = f y) \<in> set xs \<and> f (SOME x. x \<in> set xs \<and> f x = f y) = f y"
      by (rule someI_ex)
    then show ?thesis unfolding h_def by (meson assms(1) that)
  qed
  have "map g xs = map h (map f xs)" "map g ys = map h (map f ys)" using h by auto
  then show ?thesis using assms(2) by (metis mset_map)
qed

lemma json_sorted_strings [simp]: "json_sorted (CList (map CStr xs)) = CList (map CStr xs)"
  by (simp add: o_def)

lemma wf_strings [simp]: "wf_json (CList (map CStr xs))"
  by (simp add: list_all_iff)

definition q_value :: "string \<Rightarrow> bool \<Rightarrow> (string \<times> qval) list \<Rightarrow> string list \<Rightarrow> cval" where
  "q_value j n fs sigs = CDict [(''join'', CStr j), (''negated'', CBool n),
     (''filters'', CDict (map (\<lambda>(k, v). (k, q_json v)) fs)), (''children'', CList (map CStr sigs))]"

lemma json_sorted_q_value:
  "json_sorted (q_value j n fs sigs) = CDict [(''children'', CList (map CStr sigs)),
     (''filters'', CDict (sort_items (map (\<lambda>(k, v). (k, json_sorted (q_json v))) fs))),
     (''join'', CStr j), (''negated'', CBool n)]"
  by (simp add: q_value_def sort_items_def o_def case_prod_unfold)

lemma wf_q_value:
  "distinct (map fst fs) \<Longrightarrow> list_all (\<lambda>(k, v). wf_json (q_json v)) fs \<Longrightarrow> wf_json (q_value j n fs sigs)"
  by (simp add: q_value_def o_def case_prod_unfold list_all_iff)

lemma signature_step:
  assumes "wf_q (Q j n fs cs)" "wf_q (Q j' n' fs' cs')"
  shows "q_signature (Q j n fs cs) = q_signature (Q j' n' fs' cs') \<longleftrightarrow>
    j = j' \<and> n = n' \<and> (\<forall>k. map_option (\<lambda>v. json_sorted (q_json v)) (map_of fs k)
        = map_option (\<lambda>v. json_sorted (q_json v)) (map_of fs' k))
    \<and> mset (map q_signature cs) = mset (map q_signature cs')"
proof -
  let ?d = "map (\<lambda>(k, v). (k, json_sorted (q_json v)))"
  have dist: "distinct (map fst (?d fs))" "distinct (map fst (?d fs'))"
    using assms by (simp_all add: o_def case_prod_unfold)
  have "q_signature (Q j n fs cs) = q_signature (Q j' n' fs' cs') \<longleftrightarrow>
    json_sorted (q_value j n fs (sort (map q_signature cs))) = json_sorted (q_value j' n' fs' (sort (map q_signature cs')))"
    unfolding q_signature.simps q_value_def [symmetric]
    by (rule dumps_sorted_eq_iff) (use assms in \<open>auto intro: wf_q_value\<close>)
  also have "\<dots> \<longleftrightarrow> j = j' \<and> n = n' \<and> sort_items (?d fs) = sort_items (?d fs')
      \<and> mset (map q_signature cs) = mset (map q_signature cs')"
    unfolding json_sorted_q_value by (auto simp: map_CStr_eq sort_eq_iff)
  also have "sort_items (?d fs) = sort_items (?d fs') \<longleftrightarrow> map_of (?d fs) = map_of (?d fs')"
    by (rule sort_items_eq_iff [OF dist])
  finally show ?thesis by (simp add: map_of_map_snd fun_eq_iff)
qed

lemma q_signature_form: "wf_q a \<Longrightarrow> wf_q b \<Longrightarrow> q_signature a = q_signature b \<longleftrightarrow> q_form a = q_form b"
proof (induction a arbitrary: b)
  case (Q j n fs cs)
  obtain j' n' fs' cs' where b: "b = Q j' n' fs' cs'" by (cases b)
  have wf: "\<forall>c \<in> set cs. wf_q c" "\<forall>c \<in> set cs'. wf_q c"
    using Q.prems by (auto simp: b list_all_iff)
  have iff: "q_signature x = q_signature y \<longleftrightarrow> q_form x = q_form y"
    if "x \<in> set cs" "y \<in> set cs \<union> set cs'" for x y
    using Q.IH [OF that(1)] wf that by blast
  have "mset (map q_signature cs) = mset (map q_signature cs') \<longleftrightarrow> mset (map q_form cs) = mset (map q_form cs')"
    using mset_map_transfer [of cs cs' q_signature q_form] mset_map_transfer [of cs cs' q_form q_signature] iff by blast
  then show ?case
    unfolding b signature_step [OF Q.prems(1) Q.prems(2) [unfolded b]] by (simp add: fun_eq_iff)
qed

section \<open>The key of a queryset\<close>

definition annotation_text :: "annotation \<Rightarrow> string" where
  "annotation_text a = (case annotation_signature a of Inr t \<Rightarrow> t | Inl _ \<Rightarrow> [])"

definition wf_query :: "queryset \<Rightarrow> bool" where
  "wf_query qs \<longleftrightarrow> list_all wf_q (qs_q_objects qs) \<and> distinct (map fst (qs_annotations qs))
     \<and> list_all (\<lambda>(n, a). \<not> isl (annotation_signature a)) (qs_annotations qs)"

definition given :: "int option \<Rightarrow> int option" where
  "given n = (if nonzero n then n else None)"

definition query_form where
  "query_form qs =
     (mset (map q_form (qs_q_objects qs)),
      (\<lambda>n. map_option annotation_text (map_of (qs_annotations qs) n)),
      qs_orderings qs, given (qs_limit qs), given (qs_offset qs), qs_distinct qs, qs_fields qs)"

definition item :: "bool \<Rightarrow> string \<Rightarrow> cval \<Rightarrow> (string \<times> cval) list" where
  "item b k v = (if b then [(k, v)] else [])"

definition query_items :: "queryset \<Rightarrow> (string \<times> cval) list" where
  "query_items qs =
     item (qs_q_objects qs \<noteq> []) ''q'' (CList (map CStr (sort (map q_signature (qs_q_objects qs)))))
     @ item (qs_annotations qs \<noteq> []) ''annotations''
         (CDict (map (\<lambda>(n, a). (n, CStr (annotation_text a))) (sort_items (qs_annotations qs))))
     @ item (qs_orderings qs \<noteq> []) ''order'' (CList (map (\<lambda>(f, d). CList [CStr f, CStr d]) (qs_orderings qs)))
     @ item (nonzero (qs_limit qs)) ''limit'' (CInt (the (qs_limit qs)))
     @ item (nonzero (qs_offset qs)) ''offset'' (CInt (the (qs_offset qs)))
     @ item (qs_distinct qs) ''distinct'' (CBool True)
     @ item (qs_fields qs \<noteq> []) ''fields'' (CList (map CStr (qs_fields qs)))"

lemma annotation_items_ok:
  "list_all (\<lambda>(n, a). \<not> isl (annotation_signature a)) xs \<Longrightarrow>
     annotation_items xs = Inr (map (\<lambda>(n, a). (n, CStr (annotation_text a))) xs)"
  by (induction xs) (auto simp: annotation_text_def split: sum.splits)

lemma key_data_items: "wf_query qs \<Longrightarrow> key_data qs = Inr (json_dumps True True (CDict (query_items qs)))"
proof -
  assume "wf_query qs"
  then have "list_all (\<lambda>(n, a). \<not> isl (annotation_signature a)) (sort_items (qs_annotations qs))"
    by (simp add: wf_query_def list_all_iff)
  note items = annotation_items_ok [OF this]
  show ?thesis unfolding key_data_def key_filters_def items query_items_def item_def by simp
qed

lemma map_of_item: "map_of (item b k v @ r) n = (if b \<and> n = k then Some v else map_of r n)"
  by (simp add: item_def)

lemma item_fst: "map fst (item b k v @ r) = (if b then [k] else []) @ map fst r"
  by (simp add: item_def)

lemma query_items_distinct: "distinct (map fst (query_items qs))"
proof -
  have end_item: "query_items qs = query_items qs @ []" by simp
  show ?thesis
    unfolding query_items_def by (auto simp: item_def)
qed

lemma sorted_dict_strings: "json_sorted (CDict (map (\<lambda>(n, a). (n, CStr (f a))) xs)) = CDict (sort_items (map (\<lambda>(n, a). (n, CStr (f a))) xs))"
  by (simp add: o_def case_prod_unfold)

lemma json_sorted_orderings [simp]:
  "json_sorted (CList (map (\<lambda>(f, d). CList [CStr f, CStr d]) xs)) = CList (map (\<lambda>(f, d). CList [CStr f, CStr d]) xs)"
  by (simp add: o_def case_prod_unfold)

lemma list_all_item: "list_all P (item b k v) \<longleftrightarrow> (b \<longrightarrow> P (k, v))"
  by (simp add: item_def)

lemma wf_orderings: "wf_json (CList (map (\<lambda>(f, d). CList [CStr f, CStr d]) xs))"
  by (simp add: list_all_iff case_prod_unfold)

lemma wf_annotations:
  "distinct (map fst xs) \<Longrightarrow> wf_json (CDict (map (\<lambda>(n, a). (n, CStr (annotation_text a))) (sort_items xs)))"
  by (simp add: o_def case_prod_unfold list_all_iff)

lemma wf_query_items:
  assumes "wf_query qs"
  shows "wf_json (CDict (query_items qs))"
proof -
  have "distinct (map fst (qs_annotations qs))" using assms by (simp add: wf_query_def)
  then have "list_all (\<lambda>(k, v). wf_json v) (query_items qs)"
    unfolding query_items_def list_all_append list_all_item split_conv
    using wf_annotations wf_orderings wf_strings by (simp del: wf_json.simps) simp
  then show ?thesis using query_items_distinct [of qs] by simp
qed

lemma map_option_CStr: "map_option (\<lambda>a. CStr (f a)) x = map_option (\<lambda>a. CStr (f a)) y \<longleftrightarrow> map_option f x = map_option f y"
  by (cases x; cases y) auto

lemma annotations_eq_iff:
  assumes "distinct (map fst xs)" "distinct (map fst ys)"
  shows "sort_items (map (\<lambda>(n, a). (n, CStr (annotation_text a))) (sort_items xs))
      = sort_items (map (\<lambda>(n, a). (n, CStr (annotation_text a))) (sort_items ys))
    \<longleftrightarrow> (\<forall>n. map_option annotation_text (map_of xs n) = map_option annotation_text (map_of ys n))"
proof -
  let ?d = "\<lambda>xs. map (\<lambda>(n, a). (n, CStr (annotation_text a))) (sort_items xs)"
  have dist: "distinct (map fst (?d xs))" "distinct (map fst (?d ys))"
    using assms by (simp_all add: o_def case_prod_unfold)
  have "sort_items (?d xs) = sort_items (?d ys) \<longleftrightarrow> map_of (?d xs) = map_of (?d ys)"
    by (rule sort_items_eq_iff [OF dist])
  also have "\<dots> \<longleftrightarrow> (\<forall>n. map_option (\<lambda>a. CStr (annotation_text a)) (map_of xs n)
      = map_option (\<lambda>a. CStr (annotation_text a)) (map_of ys n))"
    using assms by (simp add: fun_eq_iff map_of_map_snd)
  finally show ?thesis unfolding map_option_CStr .
qed

text \<open>The items of a queryset after sorting, and when two of them agree.\<close>

definition sorted_items :: "queryset \<Rightarrow> (string \<times> cval) list" where
  "sorted_items qs = map (\<lambda>(k, v). (k, json_sorted v)) (query_items qs)"

lemma map_item: "map (\<lambda>(k, v). (k, json_sorted v)) (item b k v) = item b k (json_sorted v)"
  by (simp add: item_def)

lemma sorted_items_eq:
  "sorted_items qs =
     item (qs_q_objects qs \<noteq> []) ''q'' (CList (map CStr (sort (map q_signature (qs_q_objects qs)))))
     @ item (qs_annotations qs \<noteq> []) ''annotations''
         (CDict (sort_items (map (\<lambda>(n, a). (n, CStr (annotation_text a))) (sort_items (qs_annotations qs)))))
     @ item (qs_orderings qs \<noteq> []) ''order'' (CList (map (\<lambda>(f, d). CList [CStr f, CStr d]) (qs_orderings qs)))
     @ item (nonzero (qs_limit qs)) ''limit'' (CInt (the (qs_limit qs)))
     @ item (nonzero (qs_offset qs)) ''offset'' (CInt (the (qs_offset qs)))
     @ item (qs_distinct qs) ''distinct'' (CBool True)
     @ item (qs_fields qs \<noteq> []) ''fields'' (CList (map CStr (qs_fields qs)))"
  unfolding sorted_items_def query_items_def map_append map_item sorted_dict_strings json_sorted_strings
    json_sorted_orderings by simp

lemma map_of_item_append: "map_of (item b k v @ r) = (if b then (map_of r)(k := Some v) else map_of r)"
  by (simp add: item_def)

lemma map_of_single: "map_of (item b k v) = (if b then [k \<mapsto> v] else Map.empty)"
  by (simp add: item_def)

lemma item_at:
  "map_of (sorted_items qs) ''q'' = (if qs_q_objects qs \<noteq> [] then Some (CList (map CStr (sort (map q_signature (qs_q_objects qs))))) else None)"
  "map_of (sorted_items qs) ''annotations'' = (if qs_annotations qs \<noteq> []
     then Some (CDict (sort_items (map (\<lambda>(n, a). (n, CStr (annotation_text a))) (sort_items (qs_annotations qs))))) else None)"
  "map_of (sorted_items qs) ''order'' = (if qs_orderings qs \<noteq> []
     then Some (CList (map (\<lambda>(f, d). CList [CStr f, CStr d]) (qs_orderings qs))) else None)"
  "map_of (sorted_items qs) ''limit'' = map_option CInt (given (qs_limit qs))"
  "map_of (sorted_items qs) ''offset'' = map_option CInt (given (qs_offset qs))"
  "map_of (sorted_items qs) ''distinct'' = (if qs_distinct qs then Some (CBool True) else None)"
  "map_of (sorted_items qs) ''fields'' = (if qs_fields qs \<noteq> [] then Some (CList (map CStr (qs_fields qs))) else None)"
  unfolding sorted_items_eq map_of_item map_of_single by (auto simp: given_def nonzero_def)

lemma orderings_eq: "map (\<lambda>(f, d). CList [CStr f, CStr d]) xs = map (\<lambda>(f, d). CList [CStr f, CStr d]) ys \<longleftrightarrow> xs = ys"
  by (rule inj_map_eq_map) (auto simp: inj_def)

lemma same_form_items:
  assumes "wf_query qs" "wf_query qs'"
  shows "map_of (sorted_items qs) = map_of (sorted_items qs') \<longleftrightarrow> query_form qs = query_form qs'"
proof -
  have sigs: "sort (map q_signature (qs_q_objects qs)) = sort (map q_signature (qs_q_objects qs'))
      \<longleftrightarrow> mset (map q_form (qs_q_objects qs)) = mset (map q_form (qs_q_objects qs'))"
    unfolding sort_eq_iff
    using mset_map_transfer [of "qs_q_objects qs" "qs_q_objects qs'" q_signature q_form]
      mset_map_transfer [of "qs_q_objects qs" "qs_q_objects qs'" q_form q_signature]
      q_signature_form assms by (auto simp: wf_query_def list_all_iff)
  have anns: "sort_items (map (\<lambda>(n, a). (n, CStr (annotation_text a))) (sort_items (qs_annotations qs)))
      = sort_items (map (\<lambda>(n, a). (n, CStr (annotation_text a))) (sort_items (qs_annotations qs')))
    \<longleftrightarrow> (\<lambda>n. map_option annotation_text (map_of (qs_annotations qs) n)) = (\<lambda>n. map_option annotation_text (map_of (qs_annotations qs') n))"
    unfolding fun_eq_iff by (rule annotations_eq_iff) (use assms in \<open>simp_all add: wf_query_def\<close>)
  show ?thesis
  proof
    assume eq: "map_of (sorted_items qs) = map_of (sorted_items qs')"
    have "mset (map q_form (qs_q_objects qs)) = mset (map q_form (qs_q_objects qs'))"
      using fun_cong [OF eq, of "''q''"] sigs by (auto simp: item_at map_CStr_eq split: if_splits)
    moreover have "(\<lambda>n. map_option annotation_text (map_of (qs_annotations qs) n)) = (\<lambda>n. map_option annotation_text (map_of (qs_annotations qs') n))"
      using fun_cong [OF eq, of "''annotations''"] anns by (auto simp: item_at split: if_splits)
    moreover have "qs_orderings qs = qs_orderings qs'"
      using fun_cong [OF eq, of "''order''"] by (auto simp: item_at orderings_eq split: if_splits)
    moreover have "given (qs_limit qs) = given (qs_limit qs')"
      using fun_cong [OF eq, of "''limit''"] by (metis item_at(4) cval.inject(2) option.inj_map_strong)
    moreover have "given (qs_offset qs) = given (qs_offset qs')"
      using fun_cong [OF eq, of "''offset''"] by (metis item_at(5) cval.inject(2) option.inj_map_strong)
    moreover have "qs_distinct qs = qs_distinct qs'"
      using fun_cong [OF eq, of "''distinct''"] by (auto simp: item_at split: if_splits)
    moreover have "qs_fields qs = qs_fields qs'"
      using fun_cong [OF eq, of "''fields''"] by (auto simp: item_at map_CStr_eq split: if_splits)
    ultimately show "query_form qs = query_form qs'" by (simp add: query_form_def)
  next
    assume "query_form qs = query_form qs'"
    then have parts: "mset (map q_form (qs_q_objects qs)) = mset (map q_form (qs_q_objects qs'))"
      "(\<lambda>n. map_option annotation_text (map_of (qs_annotations qs) n)) = (\<lambda>n. map_option annotation_text (map_of (qs_annotations qs') n))"
      "qs_orderings qs = qs_orderings qs'" "given (qs_limit qs) = given (qs_limit qs')"
      "given (qs_offset qs) = given (qs_offset qs')" "qs_distinct qs = qs_distinct qs'" "qs_fields qs = qs_fields qs'"
      by (simp_all add: query_form_def)
    have "length (qs_q_objects qs) = length (qs_q_objects qs')"
      using parts(1) by (metis length_map size_mset)
    then have "qs_q_objects qs = [] \<longleftrightarrow> qs_q_objects qs' = []" by auto
    moreover have "qs_annotations qs = [] \<longleftrightarrow> qs_annotations qs' = []"
    proof -
      have "map_of (qs_annotations qs) n = None \<longleftrightarrow> map_of (qs_annotations qs') n = None" for n
        using fun_cong [OF parts(2), of n] by (metis option.map_disc_iff)
      then have "fst ` set (qs_annotations qs) = fst ` set (qs_annotations qs')" by (auto simp: map_of_eq_None_iff)
      then show ?thesis by (metis image_is_empty set_empty)
    qed
    ultimately have bools: "qs_q_objects qs = [] \<longleftrightarrow> qs_q_objects qs' = []" "qs_annotations qs = [] \<longleftrightarrow> qs_annotations qs' = []" by blast+
    have limits: "nonzero (qs_limit qs) = nonzero (qs_limit qs') \<and> (nonzero (qs_limit qs) \<longrightarrow> qs_limit qs = qs_limit qs')"
      "nonzero (qs_offset qs) = nonzero (qs_offset qs') \<and> (nonzero (qs_offset qs) \<longrightarrow> qs_offset qs = qs_offset qs')"
      using parts(4,5) by (auto simp: given_def nonzero_def split: if_splits)

    have items: "item b k v = item b' k v'" if "b = b'" "b \<Longrightarrow> v = v'" for b b' k v v'
      using that by (simp add: item_def)
    have "sorted_items qs = sorted_items qs'"
      unfolding sorted_items_eq
    proof (intro arg_cong2 [where f = append] items)
      show "CList (map CStr (sort (map q_signature (qs_q_objects qs)))) = CList (map CStr (sort (map q_signature (qs_q_objects qs'))))"
        using sigs parts(1) by simp
      show "CDict (sort_items (map (\<lambda>(n, a). (n, CStr (annotation_text a))) (sort_items (qs_annotations qs))))
        = CDict (sort_items (map (\<lambda>(n, a). (n, CStr (annotation_text a))) (sort_items (qs_annotations qs'))))"
        using anns parts(2) by simp
    qed (use bools limits parts in simp_all)
    then show "map_of (sorted_items qs) = map_of (sorted_items qs')" by simp
  qed
qed

lemma key_data_form:
  assumes "wf_query qs" "wf_query qs'"
  shows "key_data qs = key_data qs' \<longleftrightarrow> query_form qs = query_form qs'"
proof -
  have dist: "distinct (map fst (sorted_items qs))" "distinct (map fst (sorted_items qs'))"
    using query_items_distinct by (simp_all add: sorted_items_def o_def case_prod_unfold)
  have "key_data qs = key_data qs' \<longleftrightarrow> json_sorted (CDict (query_items qs)) = json_sorted (CDict (query_items qs'))"
    unfolding key_data_items [OF assms(1)] key_data_items [OF assms(2)]
    using dumps_sorted_eq_iff [OF wf_query_items [OF assms(1)] wf_query_items [OF assms(2)]] by simp
  also have "\<dots> \<longleftrightarrow> sort_items (sorted_items qs) = sort_items (sorted_items qs')" by (simp add: sorted_items_def)
  also have "\<dots> \<longleftrightarrow> map_of (sorted_items qs) = map_of (sorted_items qs')" by (rule sort_items_eq_iff [OF dist])
  finally show ?thesis unfolding same_form_items [OF assms] .
qed

section \<open>Properties\<close>


definition sample_query :: "q list \<Rightarrow> int option \<Rightarrow> queryset" where
  "sample_query qs limit = \<lparr>qs_model = ''Event'', qs_q_objects = qs, qs_annotations = [], qs_orderings = [],
     qs_limit = limit, qs_offset = None, qs_distinct = False, qs_fields = [], qs_single = False,
     qs_cache_ttl = 300, qs_cache_key = None, qs_cache_namespace = ''queryset''\<rparr>"


text \<open>What the key does not see: \<open>limit(0)\<close> has the key of the unlimited query, the set of 1 that
  of the set of \<open>"1"\<close>, and the application of the model is no part of it.\<close>

lemma limit_zero_unseen:
  "build_query_key h (sample_query qs (Some 0)) = build_query_key h (sample_query qs None)"
  by (simp add: build_query_key_def key_data_def key_filters_def sample_query_def nonzero_def)

lemma set_elements_unseen: "q_json (QSet [QInt 1]) = q_json (QSet [QStr ''1''])"
  by (simp add: show_int_def show_nat.simps)

end
