(* ===== verification/Query_Cache.thy ===== *)
theory Query_Cache
  imports Query_Key Flight_Results
begin

text \<open>
  The result half of \<open>cache/queryset.py\<close> and \<open>cache/_coerce.py\<close>: rows to records and records to
  rows, model lookup, \<open>_execute\<close> as an instance of the single-flight wrapper, and
  \<open>invalidate_cache\<close>. Python values that JSON does not know are given by the text that
  \<open>isoformat()\<close> or \<open>str()\<close> makes of them; the parsers of the standard library are the parameter
  \<open>parse\<close>.
\<close>

section \<open>Field values\<close>

datatype field_type = T_int | T_float | T_bool | T_datetime | T_date | T_time | T_decimal | T_uuid | T_other

datatype pyval =
    Py cval | PyDatetime string | PyDate string | PyTime string | PyDecimal string | PyUuid string
  | PyModel "string option" | PyObject string

text \<open>\<open>raw.lower() in ("true", "1", "yes")\<close>.\<close>

definition coerce_cache_value :: "(field_type \<Rightarrow> string \<Rightarrow> pyval option) \<Rightarrow> cval \<Rightarrow> field_type \<Rightarrow> pyval" where
  "coerce_cache_value parse raw field_type =
     (case raw of
        CStr s \<Rightarrow>
          (if field_type = T_bool then Py (CBool (py_lower s \<in> {''true'', ''1'', ''yes''}))
           else if field_type = T_other then Py raw
           else case parse field_type s of Some v \<Rightarrow> v | None \<Rightarrow> Py raw)
      | _ \<Rightarrow> Py raw)"

section \<open>Models and rows\<close>

record model_class =
  mc_name :: string
  mc_app :: "string option"
  mc_fields :: "(string \<times> field_type) list"

type_synonym registry = "(string \<times> (string \<times> model_class) list) list"

record instance_row =
  in_class :: model_class
  in_values :: "(string \<times> pyval) list"

text \<open>An entry of a result list: a model instance, or a record that is passed through.\<close>

datatype row = Instance instance_row | Record "(string \<times> cval) list"

definition serialize_value :: "pyval \<Rightarrow> cval" where
  "serialize_value v = (case v of
       Py c \<Rightarrow> c
     | PyDatetime s \<Rightarrow> CStr s
     | PyModel pk \<Rightarrow> (case pk of None \<Rightarrow> CNull | Some p \<Rightarrow> CStr p)
     | PyDate s \<Rightarrow> CStr s | PyTime s \<Rightarrow> CStr s | PyDecimal s \<Rightarrow> CStr s | PyUuid s \<Rightarrow> CStr s
     | PyObject s \<Rightarrow> CStr s)"

definition field_value :: "instance_row \<Rightarrow> string \<Rightarrow> pyval" where
  "field_value i n = (case map_of (in_values i) n of None \<Rightarrow> Py CNull | Some v \<Rightarrow> v)"

definition serialize_instance :: "instance_row \<Rightarrow> (string \<times> cval) list" where
  "serialize_instance i =
     foldl (\<lambda>data n. dict_put data n (serialize_value (field_value i n)))
       [(''_model'', CStr (mc_name (in_class i))),
        (''_model_app'', case mc_app (in_class i) of None \<Rightarrow> CNull | Some a \<Rightarrow> CStr a)]
       (map fst (mc_fields (in_class i)))"

definition serialize_results :: "row list \<Rightarrow> cval" where
  "serialize_results results =
     CList (map (\<lambda>r. CDict (case r of Instance i \<Rightarrow> serialize_instance i | Record d \<Rightarrow> d)) results)"

text \<open>\<open>_resolve_model\<close>: a list or dict is not hashable, so it cannot be looked up.\<close>

fun hashable :: "cval \<Rightarrow> bool" where
  "hashable (CList vs) = False"
| "hashable (CDict d) = False"
| "hashable v = True"

definition app_get :: "(string \<times> 'a) list \<Rightarrow> cval \<Rightarrow> exc + 'a option" where
  "app_get d k = (if hashable k then Inr (case k of CStr s \<Rightarrow> map_of d s | _ \<Rightarrow> None) else Inl TypeError)"

fun search_apps :: "(string \<times> (string \<times> model_class) list) list \<Rightarrow> cval \<Rightarrow> exc + model_class option" where
  "search_apps [] name = Inr None"
| "search_apps ((app, models) # apps) name =
     bind_res (app_get models name) (\<lambda>m. if m \<noteq> None then Inr m else search_apps apps name)"

definition resolve_model :: "registry \<Rightarrow> cval \<Rightarrow> cval \<Rightarrow> exc + model_class option" where
  "resolve_model apps model_name app_name =
     (if apps = [] then Inr None
      else if app_name \<noteq> CNull then
        bind_res (app_get apps app_name) (\<lambda>models.
          case models of None \<Rightarrow> Inr None | Some ms \<Rightarrow> app_get ms model_name)
      else search_apps apps model_name)"

definition dict_get :: "(string \<times> cval) list \<Rightarrow> string \<Rightarrow> cval" where
  "dict_get d k = (case map_of d k of None \<Rightarrow> CNull | Some v \<Rightarrow> v)"

definition deserialize_item ::
  "(field_type \<Rightarrow> string \<Rightarrow> pyval option) \<Rightarrow> registry \<Rightarrow> cval \<Rightarrow> exc + row" where
  "deserialize_item parse apps entry =
     (case entry of
        CDict d \<Rightarrow>
          (let model_name = dict_get d ''_model''; app_name = dict_get d ''_model_app'' in
           if model_name = CNull then Inr (Record d)
           else bind_res (resolve_model apps model_name app_name) (\<lambda>model_cls.
             case model_cls of
               None \<Rightarrow> if app_name \<noteq> CNull then Inl CacheDataError else Inr (Record d)
             | Some cls \<Rightarrow>
                 Inr (Instance \<lparr>in_class = cls,
                   in_values = map (\<lambda>(n, ft). (n, let raw = dict_get d n in
                       if raw = CNull then Py CNull else coerce_cache_value parse raw ft)) (mc_fields cls)\<rparr>)))
      | _ \<Rightarrow> Inl AttributeError)"

definition deserialize_results ::
  "(field_type \<Rightarrow> string \<Rightarrow> pyval option) \<Rightarrow> registry \<Rightarrow> cval list \<Rightarrow> exc + row list" where
  "deserialize_results parse apps items = map_res (deserialize_item parse apps) items"

section \<open>Execution\<close>

text \<open>The cached branch of \<open>_execute\<close>: a value that is no list counts as a miss, the owner publishes
  the serialized records and stores them always, a waiter returns what was published.\<close>

definition queryset_flight :: "(field_type \<Rightarrow> string \<Rightarrow> pyval option) \<Rightarrow> registry \<Rightarrow> row list flight" where
  "queryset_flight parse apps =
     \<lparr>fl_hit = (\<lambda>v. case v of CList items \<Rightarrow> deserialize_results parse apps items | _ \<Rightarrow> Inl CacheDataError),
      fl_publish = (\<lambda>results. Inr (serialize_results results)),
      fl_stores = (\<lambda>_. True),
      fl_wait = (\<lambda>v. case v of
          CList items \<Rightarrow> map (\<lambda>i. case i of CDict d \<Rightarrow> Record d | _ \<Rightarrow> Record []) items | _ \<Rightarrow> [])\<rparr>"

text \<open>Whether the query goes to the database directly, or through the cache under a key.\<close>

definition execution :: "(string \<Rightarrow> string) \<Rightarrow> queryset \<Rightarrow> exc + string option" where
  "execution sha256_hex qs =
     (if qs_cache_ttl qs \<le> 0 \<or> qs_single qs then Inr None
      else bind_res (build_query_key sha256_hex qs) (\<lambda>key. Inr (Some key)))"

text \<open>The first event of an execution on the event loop of \<open>Single_Flight\<close>, if it is cached.\<close>

definition start_execution :: "(string \<Rightarrow> string) \<Rightarrow> queryset \<Rightarrow> nat \<Rightarrow> row list event option" where
  "start_execution sha256_hex qs t =
     (case execution sha256_hex qs of Inr (Some key) \<Rightarrow> Some (Call t key) | _ \<Rightarrow> None)"

definition invalidate_cache :: "(string \<Rightarrow> string) \<Rightarrow> 'db cache \<Rightarrow> queryset \<Rightarrow> ('db, int) act" where
  "invalidate_cache sha256_hex backend qs =
     bind_act (lift_res (build_query_key sha256_hex qs))
       (\<lambda>key. bind_act (c_delete backend key) (\<lambda>deleted. ret (if deleted then 1 else 0)))"

section \<open>Rows survive the cache\<close>

definition typed :: "(field_type \<Rightarrow> string \<Rightarrow> pyval option) \<Rightarrow> field_type \<Rightarrow> pyval \<Rightarrow> bool" where
  "typed parse ft v \<longleftrightarrow>
     (case v of
        Py c \<Rightarrow> ft = T_other \<or> (\<forall>s. c \<noteq> CStr s)
      | PyDatetime s \<Rightarrow> ft = T_datetime \<and> parse ft s = Some v
      | PyDate s \<Rightarrow> ft = T_date \<and> parse ft s = Some v
      | PyTime s \<Rightarrow> ft = T_time \<and> parse ft s = Some v
      | PyDecimal s \<Rightarrow> ft = T_decimal \<and> parse ft s = Some v
      | PyUuid s \<Rightarrow> ft = T_uuid \<and> parse ft s = Some v
      | _ \<Rightarrow> False)"

definition storable :: "(field_type \<Rightarrow> string \<Rightarrow> pyval option) \<Rightarrow> registry \<Rightarrow> row \<Rightarrow> bool" where
  "storable parse apps r \<longleftrightarrow> (case r of
       Record d \<Rightarrow> False
     | Instance i \<Rightarrow>
         resolve_model apps (CStr (mc_name (in_class i)))
           (case mc_app (in_class i) of None \<Rightarrow> CNull | Some a \<Rightarrow> CStr a) = Inr (Some (in_class i))
         \<and> distinct (''_model'' # ''_model_app'' # map fst (mc_fields (in_class i)))
         \<and> list_all2 (\<lambda>(n, v) (m, ft). n = m \<and> typed parse ft v) (in_values i) (mc_fields (in_class i)))"

lemma foldl_dict_put:
  "distinct (map fst d @ ns) \<Longrightarrow> foldl (\<lambda>data n. dict_put data n (f n)) d ns = d @ map (\<lambda>n. (n, f n)) ns"
  by (induction ns arbitrary: d) auto

lemma map_of_keys: "n \<in> set ns \<Longrightarrow> map_of (map (\<lambda>n. (n, f n)) ns) n = Some (f n)"
  by (induction ns) auto

lemma coerce_typed:
  "typed parse ft v \<Longrightarrow> serialize_value v \<noteq> CNull \<Longrightarrow> coerce_cache_value parse (serialize_value v) ft = v"
  by (cases v) (auto simp: typed_def serialize_value_def coerce_cache_value_def split: cval.splits option.splits)

lemma null_typed: "typed parse ft v \<Longrightarrow> serialize_value v = CNull \<longleftrightarrow> v = Py CNull"
  by (cases v) (auto simp: typed_def serialize_value_def)

lemma serialize_instance_eq:
  assumes "distinct (''_model'' # ''_model_app'' # map fst (mc_fields (in_class i)))"
  shows "serialize_instance i =
    [(''_model'', CStr (mc_name (in_class i))),
     (''_model_app'', case mc_app (in_class i) of None \<Rightarrow> CNull | Some a \<Rightarrow> CStr a)]
    @ map (\<lambda>n. (n, serialize_value (field_value i n))) (map fst (mc_fields (in_class i)))"
  unfolding serialize_instance_def by (rule foldl_dict_put) (use assms in simp)

lemma deserialize_instance:
  assumes "storable parse apps (Instance i)"
  shows "deserialize_item parse apps (CDict (serialize_instance i)) = Inr (Instance i)"
proof -
  let ?c = "in_class i"
  have dist: "distinct (''_model'' # ''_model_app'' # map fst (mc_fields ?c))"
    and cls: "resolve_model apps (CStr (mc_name ?c)) (case mc_app ?c of None \<Rightarrow> CNull | Some a \<Rightarrow> CStr a) = Inr (Some ?c)"
    and vals: "list_all2 (\<lambda>(n, v) (m, ft). n = m \<and> typed parse ft v) (in_values i) (mc_fields ?c)"
    using assms by (simp_all add: storable_def)
  note ser = serialize_instance_eq [OF dist]
  have fields: "map fst (in_values i) = map fst (mc_fields ?c)"
    using vals by (induction rule: list_all2_induct) auto
  have get: "dict_get (serialize_instance i) n = serialize_value (field_value i n)"
    if "n \<in> fst ` set (mc_fields ?c)" for n
  proof -
    have "''_model'' \<notin> fst ` set (mc_fields ?c)" "''_model_app'' \<notin> fst ` set (mc_fields ?c)"
      using dist by simp_all
    then have "n \<noteq> ''_model''" "n \<noteq> ''_model_app''" using that by metis+
    moreover have "map_of (map (\<lambda>n. (n, serialize_value (field_value i n))) (map fst (mc_fields ?c))) n
        = Some (serialize_value (field_value i n))"
      by (rule map_of_keys) (use that in simp)
    ultimately show ?thesis unfolding ser dict_get_def by simp
  qed
  have head: "dict_get (serialize_instance i) ''_model'' = CStr (mc_name ?c)"
    "dict_get (serialize_instance i) ''_model_app'' = (case mc_app ?c of None \<Rightarrow> CNull | Some a \<Rightarrow> CStr a)"
    unfolding ser dict_get_def by simp_all
  have val: "(let raw = dict_get (serialize_instance i) n in
          if raw = CNull then Py CNull else coerce_cache_value parse raw ft) = v"
    if "((n, v), (n, ft)) \<in> set (zip (in_values i) (mc_fields ?c))" for n v ft
  proof -
    have v: "typed parse ft v" using vals that by (fastforce simp: list_all2_iff)
    have "(n, v) \<in> set (in_values i)" "n \<in> fst ` set (mc_fields ?c)"
      using that by (auto dest: set_zip_leftD set_zip_rightD intro: rev_image_eqI)
    moreover have "distinct (map fst (in_values i))" unfolding fields using dist by simp
    ultimately have "field_value i n = v" by (simp add: field_value_def)
    then show ?thesis
      using get [OF \<open>n \<in> fst ` set (mc_fields ?c)\<close>] coerce_typed [OF v] null_typed [OF v] by (simp add: Let_def)
  qed
  have "map (\<lambda>(n, ft). (n, let raw = dict_get (serialize_instance i) n in
      if raw = CNull then Py CNull else coerce_cache_value parse raw ft)) (mc_fields ?c) = in_values i" (is "?new = _")
  proof (rule nth_equalityI)
    show len: "length ?new = length (in_values i)" using vals by (simp add: list_all2_lengthD)
    fix j assume "j < length ?new"
    then have j: "j < length (mc_fields ?c)" "j < length (in_values i)" using len by simp_all
    obtain n v m ft where at: "in_values i ! j = (n, v)" "mc_fields ?c ! j = (m, ft)" by fastforce
    have "n = m" using list_all2_nthD [OF vals j(2)] at by simp
    moreover have "(in_values i ! j, mc_fields ?c ! j) \<in> set (zip (in_values i) (mc_fields ?c))"
      using j by (auto simp: set_zip)
    ultimately show "?new ! j = in_values i ! j" using val [of n v ft] j at by simp
  qed
  then show ?thesis
    by (simp add: deserialize_item_def head cls Let_def)
qed

lemma storable_instance: "storable parse apps r \<Longrightarrow> \<exists>i. r = Instance i"
  by (cases r) (auto simp: storable_def)

lemma deserialize_serialized:
  "list_all (storable parse apps) rows \<Longrightarrow>
     fl_hit (queryset_flight parse apps) (serialize_results rows) = Inr rows"
proof (induction rows)
  case Nil
  then show ?case by (simp add: queryset_flight_def serialize_results_def deserialize_results_def)
next
  case (Cons r rows)
  then obtain i where i: "r = Instance i" using storable_instance by force
  then have "deserialize_item parse apps (CDict (serialize_instance i)) = Inr r"
    using deserialize_instance [of parse apps i] Cons.prems by simp
  with Cons i show ?case
    by (simp add: queryset_flight_def serialize_results_def deserialize_results_def)
qed

text \<open>A cached value that cannot be used: no list, or an entry of a model that is no longer
  registered.\<close>

lemma stale_record:
  assumes "dict_get d ''_model'' = CStr m" "dict_get d ''_model_app'' = CStr a"
    and "\<forall>ms. map_of apps a = Some ms \<longrightarrow> map_of ms m = None" "apps \<noteq> []"
  shows "deserialize_item parse apps (CDict d) = Inl CacheDataError"
  using assms by (auto simp: deserialize_item_def resolve_model_def app_get_def split: option.split)

lemma wait_only_records: "x \<in> set (fl_wait (queryset_flight parse apps) c) \<Longrightarrow> \<exists>d. x = Record d"
  by (auto simp: queryset_flight_def split: cval.splits)

section \<open>Properties\<close>


definition note_class :: model_class where
  "note_class = \<lparr>mc_name = ''Note'', mc_app = Some ''models'',
     mc_fields = [(''id'', T_int), (''title'', T_other), (''created'', T_datetime)]\<rparr>"

definition note_apps :: registry where
  "note_apps = [(''models'', [(''Note'', note_class)])]"

definition iso_parse :: "field_type \<Rightarrow> string \<Rightarrow> pyval option" where
  "iso_parse ft s = (if ft = T_datetime then Some (PyDatetime s) else None)"

definition note_rows :: "row list" where
  "note_rows = [Instance \<lparr>in_class = note_class, in_values =
     [(''id'', Py (CInt 1)), (''title'', Py (CStr ''a'')), (''created'', PyDatetime ''2024-01-01'')]\<rparr>]"

definition note_flight :: "row list flight" where
  "note_flight = queryset_flight iso_parse note_apps"

definition note_running :: "(memory, row list) loop_state" where
  "note_running = (initial mem_empty)\<lparr>tasks := (\<lambda>_. Idle)(0 := Running ''k'' 0), fresh := 1,
     claimed := (\<lambda>_. None)(''k'' := Some 0)\<rparr>"


text \<open>Waiters get records: an execution that waits for another one under its key returns the
  serialized record of every instance the owner returns, never a model instance, although the
  owner itself and every later cache hit return instances.\<close>

theorem queryset_waiters_get_records:
  assumes "reachable (queryset_flight parse apps) C ttl db s" "tasks s t = Waiting k f"
    and "step (queryset_flight parse apps) C ttl (Wake t) s = Some s'" "tasks s' t = Finished k (Inr rows)"
  shows "\<exists>results. (k, f, Inr results) \<in> set (produced s)
    \<and> rows = map (\<lambda>r. Record (case r of Instance i \<Rightarrow> serialize_instance i | Record d \<Rightarrow> d)) results"
proof -
  have w: "wake (queryset_flight parse apps) t k f s = Some s'"
    using assms(3) by (simp add: step_def assms(2))
  then obtain c where c: "futures s f = Resolved c" "rows = fl_wait (queryset_flight parse apps) c"
    using assms(4) by (auto simp: wake_def split: future.splits)
  then obtain results where r: "(k, f, Inr results) \<in> set (produced s)" "c = serialize_results results"
    using wait_explained [OF reachable_inv [OF assms(1)] assms(2)]
    by (auto simp: explains_def queryset_flight_def)
  with c(2) show ?thesis by (auto simp: queryset_flight_def serialize_results_def)
qed

definition note_trace :: "row list event list" where
  "note_trace = [Call 0 ''k'', Call 1 ''k'', Fetch 0, Fetch 1, Resume 0, Resume 1,
     Return 0 (Inr note_rows), Write 0, Settle 0]"

definition note_settled :: "(memory, row list) loop_state" where
  "note_settled = the (run note_flight demo_cache (Some 300) note_trace (initial mem_empty))"

theorem queryset_waiters_get_records_witness:
  "tasks (the (step note_flight demo_cache (Some 300) (Wake 1) note_settled)) 1
     = Finished ''k'' (Inr [Record [(''_model'', CStr ''Note''), (''_model_app'', CStr ''models''),
         (''id'', CInt 1), (''title'', CStr ''a''), (''created'', CStr ''2024-01-01'')]])
   \<and> (\<exists>results. (''k'', 0, Inr results) \<in> set (produced note_settled))"
proof -
  have run: "run note_flight demo_cache (Some 300) note_trace (initial mem_empty) = Some note_settled"
    unfolding note_settled_def by (rule option.collapse [symmetric]) code_simp
  have w: "tasks note_settled 1 = Waiting ''k'' 0" "futures note_settled 0 = Resolved (serialize_results note_rows)"
    by code_simp+
  let ?rows = "fl_wait note_flight (serialize_results note_rows)"
  have s: "step note_flight demo_cache (Some 300) (Wake 1) note_settled
      = Some (the (step note_flight demo_cache (Some 300) (Wake 1) note_settled))"
    and t: "tasks (the (step note_flight demo_cache (Some 300) (Wake 1) note_settled)) 1 = Finished ''k'' (Inr ?rows)"
    using w by (simp_all add: step_def wake_def)
  have rows: "?rows = [Record [(''_model'', CStr ''Note''), (''_model_app'', CStr ''models''),
         (''id'', CInt 1), (''title'', CStr ''a''), (''created'', CStr ''2024-01-01'')]]" by code_simp
  have "\<exists>results. (''k'', 0, Inr results) \<in> set (produced note_settled)
      \<and> ?rows = map (\<lambda>r. Record (case r of Instance i \<Rightarrow> serialize_instance i | Record d \<Rightarrow> d)) results"
    by (rule queryset_waiters_get_records [OF run_reachable [OF reachable.start run, unfolded note_flight_def] w(1)
          s [unfolded note_flight_def] t [unfolded note_flight_def], folded note_flight_def])
  with t rows show ?thesis by auto
qed

end
