(* ===== verification/Redis_Manager.thy ===== *)
theory Redis_Manager
  imports Redis_Backend
begin

text \<open>
  \<open>RedisCache\<close> of \<open>cache/redis.py\<close>, the manager that holds the one connection pool of the process:
  \<open>init\<close>, \<open>close\<close>, \<open>get_pool\<close> and \<open>get_backend\<close>. The driver is a parameter; a method that an object
  of the driver may lack, as \<open>getattr(pool, "aclose", None)\<close> asks, is an option.
\<close>

record ('p, 's) redis_driver =
  dr_installed :: bool
  dr_from_url :: "string \<Rightarrow> ('s, 'p) act"
  dr_ping :: "'p \<Rightarrow> ('s, unit) act option"
  dr_aclose :: "'p \<Rightarrow> ('s, unit) act option"
  dr_close :: "'p \<Rightarrow> ('s, unit) act"

text \<open>The pool of the one instance, and the world of the driver.\<close>

definition on_driver :: "('s, 'a) act \<Rightarrow> ('p option \<times> 's, 'a) act" where
  "on_driver m st = (case st of (pool, s) \<Rightarrow> (case m s of (r, t) \<Rightarrow> (r, (pool, t))))"

definition set_pool :: "'p option \<Rightarrow> ('p option \<times> 's, unit) act" where
  "set_pool p st = (Inr (), (p, snd st))"

definition close_pool :: "('p, 's) redis_driver \<Rightarrow> 'p \<Rightarrow> ('s, unit) act" where
  "close_pool D p = (case dr_aclose D p of Some aclose \<Rightarrow> aclose | None \<Rightarrow> dr_close D p)"

definition manager_init :: "('p, 's) redis_driver \<Rightarrow> string \<Rightarrow> ('p option \<times> 's, unit) act" where
  "manager_init D url =
     (if \<not> dr_installed D then throw ImportError
      else bind_act (on_driver (dr_from_url D url)) (\<lambda>new_pool.
        case dr_ping D new_pool of
          None \<Rightarrow> throw RedisCacheError
        | Some ping \<Rightarrow>
            bind_act
              (handle (on_driver ping) [BaseException]
                (\<lambda>e. bind_act (on_driver (close_pool D new_pool)) (\<lambda>_. throw e)))
              (\<lambda>_. bind_act
                (\<lambda>st. case fst st of None \<Rightarrow> ret () st | Some old_pool \<Rightarrow> on_driver (close_pool D old_pool) st)
                (\<lambda>_. set_pool (Some new_pool)))))"

definition manager_close :: "('p, 's) redis_driver \<Rightarrow> ('p option \<times> 's, unit) act" where
  "manager_close D st =
     (case fst st of
        None \<Rightarrow> ret () st
      | Some pool \<Rightarrow> bind_act (on_driver (close_pool D pool)) (\<lambda>_. set_pool None) st)"

definition get_pool :: "'p option \<Rightarrow> exc + 'p" where
  "get_pool pool = (case pool of None \<Rightarrow> Inl CacheBackendNotInitializedError | Some p \<Rightarrow> Inr p)"

definition get_backend ::
  "'db redis option \<Rightarrow> string \<Rightarrow> int \<Rightarrow> serializer option \<Rightarrow> exc + 'db redis_backend" where
  "get_backend pool namespace default_ttl serializer =
     bind_res (get_pool pool) (\<lambda>p.
       Inr (RedisCacheBackend p namespace default_ttl
              (Some (case serializer of None \<Rightarrow> JSONSerializer None | Some S \<Rightarrow> S))))"

lemma every_exception: "catches [BaseException] e"
  by (cases e; simp; code_simp)

text \<open>A failing initialization keeps the pool that was installed, whatever fails: the import, the
  connection, the missing or failing \<open>ping\<close>, or the closing of either pool; a pool that \<open>init\<close>
  installs has answered a \<open>ping\<close>.\<close>

theorem init_keeps_working_pool:
  "case manager_init D url (pool, s) of
     (Inl e, (pool', t)) \<Rightarrow> pool' = pool
   | (Inr _, (pool', t)) \<Rightarrow> \<exists>new ping s1 s2. dr_from_url D url s = (Inr new, s1)
       \<and> dr_ping D new = Some ping \<and> ping s1 = (Inr (), s2) \<and> pool' = Some new"
proof (cases "dr_installed D")
  case False
  then show ?thesis by (simp add: manager_init_def throw_def)
next
  case True
  obtain r s1 where url: "dr_from_url D url s = (r, s1)" by fastforce
  show ?thesis
  proof (cases r)
    case (Inl e)
    then show ?thesis using url by (simp add: manager_init_def True act_defs on_driver_def)
  next
    case (Inr new)
    show ?thesis
    proof (cases "dr_ping D new")
      case None
      then show ?thesis using url Inr by (simp add: manager_init_def True act_defs on_driver_def)
    next
      case (Some ping)
      obtain q s2 where q: "ping s1 = (q, s2)" by fastforce
      show ?thesis
      proof (cases q)
        case (Inl e)
        then show ?thesis using url Inr Some q every_exception [of e]
          by (auto simp: manager_init_def True act_defs on_driver_def split: prod.split sum.split)
      next
        case ok: (Inr u)
        then show ?thesis using url Inr Some q
          by (auto simp: manager_init_def True act_defs on_driver_def set_pool_def
              split: prod.split sum.split option.split)
      qed
    qed
  qed
qed

text \<open>After \<open>close\<close> there is no pool, and every backend request raises; a second \<open>close\<close> does nothing.\<close>

lemma close_then_get:
  assumes "manager_close D (pool, s) = (Inr (), st)"
  shows "fst st = None" "get_backend (fst st) ns ttl ser = Inl CacheBackendNotInitializedError"
    "manager_close D st = (Inr (), st)"
  using assms
  by (auto simp: manager_close_def act_defs on_driver_def set_pool_def get_backend_def get_pool_def
      split: option.splits prod.splits sum.splits)

section \<open>No pool is lost\<close>

text \<open>\<open>RedisCache()\<close> gives the one instance, made by the first call.\<close>

definition manager_new :: "'i option \<Rightarrow> 'i \<Rightarrow> 'i \<times> 'i option" where
  "manager_new instance_of_class fresh =
     (case instance_of_class of None \<Rightarrow> (fresh, Some fresh) | Some i \<Rightarrow> (i, Some i))"

lemma manager_single:
  "fst (manager_new (snd (manager_new c i)) j) = fst (manager_new c i)"
  by (cases c) (simp_all add: manager_new_def)

text \<open>\<open>RedisCacheBackend.pipeline\<close>: commands that are sent together, not as a transaction. The method
  of the client is a parameter.\<close>

definition rb_pipeline :: "('db redis \<Rightarrow> bool \<Rightarrow> 'p) \<Rightarrow> 'db redis_backend \<Rightarrow> 'p" where
  "rb_pipeline client_pipeline b = client_pipeline (rb_pool b) False"

text \<open>A driver that keeps account of its open pools.\<close>

locale pool_service =
  fixes D :: "('p, 's) redis_driver" and opened :: "'s \<Rightarrow> 'p set"
  assumes installed: "dr_installed D"
    and url_ok: "dr_from_url D url s = (Inr p, t) \<Longrightarrow> p \<notin> opened s \<and> opened t = insert p (opened s)"
    and url_fails: "dr_from_url D url s = (Inl e, t) \<Longrightarrow> opened t = opened s"
    and has_ping: "\<exists>ping. dr_ping D p = Some ping"
    and ping_keeps: "dr_ping D p = Some ping \<Longrightarrow> opened (snd (ping s)) = opened s"
    and closes: "\<exists>t. close_pool D p s = (Inr (), t) \<and> opened t = opened s - {p}"
begin

definition accounted :: "'p option \<times> 's \<Rightarrow> bool" where
  "accounted st \<longleftrightarrow> opened (snd st) = set_option (fst st)"

lemma init_accounted:
  assumes "accounted (pool, s)"
  shows "accounted (snd (manager_init D url (pool, s)))"
proof -
  obtain r s1 where url: "dr_from_url D url s = (r, s1)" by fastforce
  show ?thesis
  proof (cases r)
    case (Inl e)
    then show ?thesis using url url_fails assms
      by (simp add: manager_init_def installed act_defs on_driver_def accounted_def)
  next
    case (Inr p)
    then have s1: "p \<notin> opened s" "opened s1 = insert p (opened s)" using url url_ok by blast+
    obtain ping where ping: "dr_ping D p = Some ping" using has_ping by blast
    obtain q s2 where q: "ping s1 = (q, s2)" by fastforce
    then have s2: "opened s2 = opened s1" using ping_keeps [OF ping, of s1] by simp
    show ?thesis
    proof (cases q)
      case (Inl e)
      obtain t where "close_pool D p s2 = (Inr (), t)" "opened t = opened s2 - {p}" using closes by blast
      then show ?thesis using url Inr ping q Inl s1 s2 assms every_exception [of e]
        by (auto simp: manager_init_def installed act_defs on_driver_def accounted_def)
    next
      case done_ping: (Inr u)
      show ?thesis
      proof (cases pool)
        case None
        then show ?thesis using url Inr ping q done_ping s1 s2 assms
          by (auto simp: manager_init_def installed act_defs on_driver_def accounted_def set_pool_def)
      next
        case (Some old)
        obtain t where "close_pool D old s2 = (Inr (), t)" "opened t = opened s2 - {old}" using closes by blast
        then show ?thesis using url Inr ping q done_ping Some s1 s2 assms
          by (auto simp: manager_init_def installed act_defs on_driver_def accounted_def set_pool_def)
      qed
    qed
  qed
qed

lemma close_accounted:
  assumes "accounted (pool, s)"
  shows "accounted (snd (manager_close D (pool, s)))"
proof (cases pool)
  case None
  then show ?thesis using assms by (simp add: manager_close_def ret_def)
next
  case (Some p)
  obtain t where "close_pool D p s = (Inr (), t)" "opened t = opened s - {p}" using closes by blast
  then show ?thesis using assms Some
    by (auto simp: manager_close_def act_defs on_driver_def accounted_def set_pool_def)
qed

end

text \<open>A list of calls: \<open>init\<close> with a URL, or \<open>close\<close>.\<close>

fun manager_run :: "('p, 's) redis_driver \<Rightarrow> string option list \<Rightarrow> 'p option \<times> 's \<Rightarrow> 'p option \<times> 's" where
  "manager_run D [] st = st"
| "manager_run D (Some url # calls) st = manager_run D calls (snd (manager_init D url st))"
| "manager_run D (None # calls) st = manager_run D calls (snd (manager_close D st))"

text \<open>Whatever sequence of \<open>init\<close> and \<open>close\<close> runs, and whichever of them fail, the pools that are open
  are exactly the one that \<open>get_pool\<close> gives out: none leaks, and no closed pool is given out.\<close>

theorem manager_keeps_one_pool:
  assumes "pool_service D opened" "opened s = {}"
  shows "let (pool, t) = manager_run D calls (None, s) in
    opened t = set_option pool \<and> (\<forall>p. get_pool pool = Inr p \<longrightarrow> p \<in> opened t)"
proof -
  have run: "pool_service.accounted opened (manager_run D calls st)" if "pool_service.accounted opened st" for st
    using that
  proof (induction calls arbitrary: st)
    case (Cons call calls)
    then show ?case
      using pool_service.init_accounted [OF assms(1), of "fst st" "snd st"]
        pool_service.close_accounted [OF assms(1), of "fst st" "snd st"]
      by (cases call) simp_all
  qed simp
  have "pool_service.accounted opened (None, s)"
    using assms(2) by (simp add: pool_service.accounted_def [OF assms(1)])
  from run [OF this] show ?thesis
    by (auto simp: pool_service.accounted_def [OF assms(1)] get_pool_def split: option.splits)
qed

text \<open>A server whose pools are numbered; an empty URL is refused, and pools with an odd number do not
  answer.\<close>

definition numbered_driver :: "(nat, nat list) redis_driver" where
  "numbered_driver =
    \<lparr>dr_installed = True,
     dr_from_url = (\<lambda>url ps. if url = [] then (Inl ValueError, ps)
       else (let p = Suc (foldr max ps 0) in (Inr p, p # ps))),
     dr_ping = (\<lambda>p. Some (\<lambda>ps. (if odd p then Inl ConnectionError else Inr (), ps))),
     dr_aclose = (\<lambda>p. Some (\<lambda>ps. (Inr (), removeAll p ps))),
     dr_close = (\<lambda>p ps. (Inr (), removeAll p ps))\<rparr>"

lemma fresh_number: "(p :: nat) \<in> set ps \<Longrightarrow> p \<le> foldr max ps 0"
  by (induction ps) (auto simp: le_max_iff_disj)

interpretation numbered: pool_service numbered_driver set
  using fresh_number
  by unfold_locales (fastforce simp: numbered_driver_def close_pool_def Let_def split: if_splits)+

theorem manager_keeps_one_pool_witness:
  "let (pool, t) = manager_run numbered_driver [Some ''redis://a'', Some ''redis://b'', None, Some ''redis://c''] (None, [])
   in set t = set_option pool"
  using manager_keeps_one_pool [OF numbered.pool_service_axioms, of "[]"
      "[Some ''redis://a'', Some ''redis://b'', None, Some ''redis://c'']"]
  by (simp add: case_prod_beta Let_def)

text \<open>If the old pool cannot be closed, the call fails with the new pool neither installed nor closed.\<close>

lemma failed_close_drops_new_pool:
  assumes "dr_installed D" "dr_from_url D url s = (Inr new, s1)" "dr_ping D new = Some ping" "ping s1 = (Inr (), s2)"
    "close_pool D old s2 = (Inl e, t)"
  shows "manager_init D url (Some old, s) = (Inl e, (Some old, t))"
  using assms by (simp add: manager_init_def act_defs on_driver_def)

end
