(* ===== verification/Cacheable_Model.thy ===== *)
theory Cacheable_Model
  imports Query_Cache Redis_Manager
begin

text \<open>
  \<open>BaseCacheableModel\<close> of \<open>models/cacheable_model.py\<close>: cached lookups and the invalidation after a
  write, over a table and a cache that are separate services. The state is the pair of both. An
  instance gives its attributes by name; \<open>construct()\<close> sets the given ones. The operations of the
  ORM are the parameter \<open>model_db\<close>, and \<open>model_table\<close> states what they promise for the primary key.
\<close>

section \<open>Classes and instances\<close>

type_synonym model_instance = "string \<Rightarrow> pyval option"

record 'c cacheable =
  cm_name :: string
  cm_ttl :: int
  cm_cache_fields :: "string list option"
  cm_fields :: "(string \<times> field_type) list"
  cm_pk_attr :: string
  cm_namespace :: string
  cm_backend :: "'c cache option"
  cm_serializer :: "serializer option"

text \<open>\<open>str(v)\<close> of an attribute value.\<close>

definition str_pyval :: "pyval \<Rightarrow> string" where
  "str_pyval v = (case v of
       Py c \<Rightarrow> py_str_of c
     | PyDatetime s \<Rightarrow> map (\<lambda>c. if c = CHR ''T'' then CHR '' '' else c) s
     | PyDate s \<Rightarrow> s | PyTime s \<Rightarrow> s | PyDecimal s \<Rightarrow> s | PyUuid s \<Rightarrow> s | PyObject s \<Rightarrow> s
     | PyModel pk \<Rightarrow> (case pk of None \<Rightarrow> ''None'' | Some p \<Rightarrow> p))"

definition attr_of :: "model_instance \<Rightarrow> string \<Rightarrow> pyval" where
  "attr_of i n = (case i n of None \<Rightarrow> Py CNull | Some v \<Rightarrow> v)"

definition pk_text :: "'c cacheable \<Rightarrow> model_instance \<Rightarrow> string" where
  "pk_text cls i = str_pyval (attr_of i (cm_pk_attr cls))"

definition model_backend :: "'c cacheable \<Rightarrow> 'c redis option \<Rightarrow> exc + 'c cache" where
  "model_backend cls pool =
     (case cm_backend cls of
        Some C \<Rightarrow> Inr C
      | None \<Rightarrow> bind_res (get_backend pool (cm_namespace cls @ '':'' @ cm_name cls) (cm_ttl cls) (cm_serializer cls))
                  (\<lambda>b. Inr (cache_of b)))"

definition cache_key_for :: "'c cacheable \<Rightarrow> string \<Rightarrow> (string \<times> cval) list \<Rightarrow> exc + string" where
  "cache_key_for cls op kwargs =
     key_build (add_items (key_add (CacheKey (cm_name cls) '':'') [KStr op])
       (map (\<lambda>(k, v). (k, py_str_of v)) (sort_items kwargs)))"

section \<open>Records\<close>

text \<open>What is stored of an attribute: a related instance by \<open>str(value.pk)\<close>; dates, decimals and
  UUIDs in the form that the JSON serializer gives them.\<close>

definition cached_value :: "pyval \<Rightarrow> cval" where
  "cached_value v = (case v of PyModel pk \<Rightarrow> CStr (case pk of None \<Rightarrow> ''None'' | Some p \<Rightarrow> p) | _ \<Rightarrow> serialize_value v)"

definition fields_to_cache :: "'c cacheable \<Rightarrow> string list" where
  "fields_to_cache cls =
     (case cm_cache_fields cls of
        None \<Rightarrow> map fst (cm_fields cls)
      | Some fs \<Rightarrow> if fs = [] then map fst (cm_fields cls) else fs)"

definition to_cache :: "'c cacheable \<Rightarrow> model_instance \<Rightarrow> (string \<times> cval) list" where
  "to_cache cls i =
     foldl (\<lambda>data n. dict_put data n (cached_value (attr_of i n)))
       [(''_model'', CStr (cm_name cls)), (''_pk'', CStr (pk_text cls i))] (fields_to_cache cls)"

definition coerce_field ::
  "(field_type \<Rightarrow> string \<Rightarrow> pyval option) \<Rightarrow> 'c cacheable \<Rightarrow> string \<Rightarrow> cval \<Rightarrow> pyval" where
  "coerce_field parse cls n raw =
     (case map_of (cm_fields cls) n of None \<Rightarrow> Py raw | Some ft \<Rightarrow> coerce_cache_value parse raw ft)"

text \<open>The keyword arguments \<open>_from_cache\<close> gives to \<open>construct\<close>: the primary key first, then every
  entry whose key does not start with an underscore.\<close>

definition from_cache ::
  "(field_type \<Rightarrow> string \<Rightarrow> pyval option) \<Rightarrow> 'c cacheable \<Rightarrow> (string \<times> cval) list \<Rightarrow> model_instance" where
  "from_cache parse cls data =
     foldl (\<lambda>kwargs (k, v). if prefix ''_'' k then kwargs else kwargs(k \<mapsto> coerce_field parse cls k v))
       (case map_of data ''_pk'' of
          None \<Rightarrow> Map.empty
        | Some pk_raw \<Rightarrow>
            if cm_pk_attr cls = [] then Map.empty
            else [cm_pk_attr cls \<mapsto> coerce_field parse cls (cm_pk_attr cls) pk_raw])
       data"

text \<open>\<open>"_pk" in data\<close> and \<open>data.items()\<close> of a value that is no dict.\<close>

definition not_a_record :: "cval \<Rightarrow> exc" where
  "not_a_record v = (case v of CStr s \<Rightarrow> AttributeError | CList vs \<Rightarrow> AttributeError | _ \<Rightarrow> TypeError)"

section \<open>The table\<close>

record 'd model_db =
  db_get :: "(string \<times> cval) list \<Rightarrow> ('d, model_instance) act"
  db_filter :: "(string \<times> cval) list \<Rightarrow> ('d, model_instance list) act"
  db_save :: "model_instance \<Rightarrow> ('d, model_instance) act"
  db_delete :: "model_instance \<Rightarrow> ('d, unit) act"
  db_refresh :: "model_instance \<Rightarrow> ('d, model_instance) act"

definition on_db :: "('d, 'a) act \<Rightarrow> ('d \<times> 'c, 'a) act" where
  "on_db m st = (case m (fst st) of (r, d) \<Rightarrow> (r, (d, snd st)))"

definition on_cache :: "('c, 'a) act \<Rightarrow> ('d \<times> 'c, 'a) act" where
  "on_cache m st = (case m (snd st) of (r, c) \<Rightarrow> (r, (fst st, c)))"

text \<open>\<open>contextlib.suppress(CacheError)\<close>, and \<open>except CacheError: logger.debug(...)\<close>.\<close>

definition suppress :: "('s, unit) act \<Rightarrow> ('s, unit) act" where
  "suppress m = handle m [CacheError] (\<lambda>_. ret ())"

section \<open>Operations\<close>

text \<open>The read path: a missing value and an error that is a \<open>CacheError\<close> go on to the database.\<close>

definition try_cache :: "'c cache \<Rightarrow> string \<Rightarrow> (cval \<Rightarrow> exc + 'r) \<Rightarrow> ('d \<times> 'c, 'r option) act" where
  "try_cache C key decode =
     handle (bind_act (on_cache (c_get C key)) (\<lambda>cached.
         if cached = CNull then ret None else lift_res (map_sum id Some (decode cached))))
       [CacheError] (\<lambda>_. ret None)"

definition get_cached ::
  "(field_type \<Rightarrow> string \<Rightarrow> pyval option) \<Rightarrow> 'c cacheable \<Rightarrow> 'c redis option \<Rightarrow> 'd model_db
     \<Rightarrow> (string \<times> cval) list \<Rightarrow> ('d \<times> 'c, model_instance option) act" where
  "get_cached parse cls pool db kwargs =
     (if cm_ttl cls \<le> 0 then map_act Some (on_db (db_get db kwargs))
      else bind_act (lift_res (model_backend cls pool)) (\<lambda>C.
        bind_act (lift_res (cache_key_for cls ''get'' kwargs)) (\<lambda>key.
        bind_act (try_cache C key
            (\<lambda>v. case v of CDict d \<Rightarrow> Inr (from_cache parse cls d) | _ \<Rightarrow> Inl CacheDataError)) (\<lambda>hit.
        case hit of
          Some i \<Rightarrow> ret (Some i)
        | None \<Rightarrow>
            bind_act (handle (map_act Some (on_db (db_get db kwargs))) [DoesNotExist] (\<lambda>_. ret None)) (\<lambda>found.
              case found of
                None \<Rightarrow> ret None
              | Some i \<Rightarrow>
                  bind_act (suppress (on_cache (c_set C key (CDict (to_cache cls i)) (Some (cm_ttl cls)))))
                    (\<lambda>_. ret (Some i)))))))"

definition filter_cached ::
  "(field_type \<Rightarrow> string \<Rightarrow> pyval option) \<Rightarrow> 'c cacheable \<Rightarrow> 'c redis option \<Rightarrow> 'd model_db
     \<Rightarrow> (string \<times> cval) list \<Rightarrow> ('d \<times> 'c, model_instance list) act" where
  "filter_cached parse cls pool db kwargs =
     (if cm_ttl cls \<le> 0 then on_db (db_filter db kwargs)
      else bind_act (lift_res (model_backend cls pool)) (\<lambda>C.
        bind_act (lift_res (cache_key_for cls ''filter'' kwargs)) (\<lambda>key.
        bind_act (try_cache C key
            (\<lambda>v. case v of
               CList items \<Rightarrow> map_res (\<lambda>d. case d of CDict d \<Rightarrow> Inr (from_cache parse cls d) | _ \<Rightarrow> Inl (not_a_record d)) items
             | _ \<Rightarrow> Inl CacheDataError)) (\<lambda>hit.
        case hit of
          Some is \<Rightarrow> ret is
        | None \<Rightarrow>
            bind_act (on_db (db_filter db kwargs)) (\<lambda>instances.
              bind_act (suppress (on_cache
                  (c_set C key (CList (map (\<lambda>i. CDict (to_cache cls i)) instances)) (Some (cm_ttl cls)))))
                (\<lambda>_. ret instances))))))"

definition invalidate_model :: "'c cacheable \<Rightarrow> 'c redis option \<Rightarrow> model_instance \<Rightarrow> ('d \<times> 'c, unit) act" where
  "invalidate_model cls pool i =
     (if cm_ttl cls \<le> 0 then ret ()
      else bind_act (lift_res (model_backend cls pool)) (\<lambda>C.
        bind_act (lift_res (cache_key_for cls ''get''
            [(if cm_pk_attr cls = [] then ''id'' else cm_pk_attr cls, CStr (pk_text cls i))])) (\<lambda>pk_key.
          suppress (map_act (\<lambda>_. ()) (on_cache (c_delete C pk_key))))))"

text \<open>\<open>save\<close> gives the instance as it is after the write, with the key the database chose.\<close>

definition model_save ::
  "'c cacheable \<Rightarrow> 'c redis option \<Rightarrow> 'd model_db \<Rightarrow> model_instance \<Rightarrow> ('d \<times> 'c, model_instance) act" where
  "model_save cls pool db i =
     bind_act (on_db (db_save db i)) (\<lambda>i. bind_act (invalidate_model cls pool i) (\<lambda>_. ret i))"

definition model_delete :: "'c cacheable \<Rightarrow> 'c redis option \<Rightarrow> 'd model_db \<Rightarrow> model_instance \<Rightarrow> ('d \<times> 'c, unit) act" where
  "model_delete cls pool db i = bind_act (on_db (db_delete db i)) (\<lambda>_. invalidate_model cls pool i)"

text \<open>\<open>refresh_from_db\<close> gives the instance with its attributes reloaded.\<close>

definition refresh_from_db ::
  "'c cacheable \<Rightarrow> 'c redis option \<Rightarrow> 'd model_db \<Rightarrow> model_instance \<Rightarrow> ('d \<times> 'c, model_instance) act" where
  "refresh_from_db cls pool db i =
     bind_act (on_db (db_refresh db i)) (\<lambda>i.
       if cm_ttl cls > 0 then
         bind_act (lift_res (model_backend cls pool)) (\<lambda>C.
           bind_act (lift_res (cache_key_for cls ''get''
               [(if cm_pk_attr cls = [] then ''id'' else cm_pk_attr cls, CStr (pk_text cls i))])) (\<lambda>key.
             bind_act (suppress (on_cache (c_set C key (CDict (to_cache cls i)) (Some (cm_ttl cls)))))
               (\<lambda>_. ret i)))
       else ret i)"

definition rehydrate :: "'c cacheable \<Rightarrow> 'd model_db \<Rightarrow> model_instance \<Rightarrow> ('d \<times> 'c, model_instance) act" where
  "rehydrate cls db i = on_db (db_get db [(''pk'', serialize_value (attr_of i (cm_pk_attr cls)))])"

section \<open>Errors that are not hidden\<close>

text \<open>
  Without an initialized \<open>RedisCache\<close> nothing fails open: the lookups raise before they ask the
  table, and a save or a delete raises after its write has taken place.
\<close>

theorem uninitialized_cache_raises:
  assumes "cm_backend cls = None" "0 < cm_ttl cls"
  shows "get_cached parse cls None db kwargs (d, c) = (Inl CacheBackendNotInitializedError, (d, c))
    \<and> filter_cached parse cls None db kwargs (d, c) = (Inl CacheBackendNotInitializedError, (d, c))
    \<and> model_save cls None db i (d, c) =
      (case db_save db i d of (Inl e, d') \<Rightarrow> (Inl e, (d', c))
       | (Inr j, d') \<Rightarrow> (Inl CacheBackendNotInitializedError, (d', c)))
    \<and> model_delete cls None db i (d, c) =
      (case db_delete db i d of (Inl e, d') \<Rightarrow> (Inl e, (d', c))
       | (Inr u, d') \<Rightarrow> (Inl CacheBackendNotInitializedError, (d', c)))"
  using assms
  by (auto simp: get_cached_def filter_cached_def model_save_def model_delete_def invalidate_model_def model_backend_def
      get_backend_def get_pool_def act_defs lift_res_def on_db_def split: prod.split sum.split)

theorem uninitialized_cache_raises_witness:
  "let cls = \<lparr>cm_name = ''Note'', cm_ttl = 300, cm_cache_fields = None, cm_fields = [(''id'', T_int)],
      cm_pk_attr = ''id'', cm_namespace = ''model'', cm_backend = None :: unit cache option, cm_serializer = None\<rparr>;
     db = \<lparr>db_get = (\<lambda>kwargs d. (Inl DoesNotExist, d)), db_filter = (\<lambda>kwargs d. (Inr [], d)),
      db_save = (\<lambda>i d. (Inr i, Suc d)), db_delete = (\<lambda>i d. (Inr (), d - 1)), db_refresh = (\<lambda>i d. (Inr i, d))\<rparr>
   in model_save cls None db Map.empty (3, ()) = (Inl CacheBackendNotInitializedError, (4, ()))"
  by (simp add: Let_def uninitialized_cache_raises)

text \<open>\<open>str(v)\<close> makes two filters that the database tells apart share one entry.\<close>

lemma filter_key_conflates_none:
  "cache_key_for cls ''filter'' [(n, CNull)] = cache_key_for cls ''filter'' [(n, CStr ''None'')]"
  by (simp add: cache_key_for_def sort_items_def py_str_of_def)

text \<open>A missing row raises without the cache and is \<open>None\<close> with it.\<close>

lemma missing_row_without_ttl:
  assumes "db_get db kwargs d = (Inl DoesNotExist, d)" "cm_ttl cls \<le> 0"
  shows "get_cached parse cls pool db kwargs (d, c) = (Inl DoesNotExist, (d, c))"
  using assms by (simp add: get_cached_def act_defs on_db_def)

end
