(* ===== verification/Cache_Coherence.thy ===== *)
theory Cache_Coherence
  imports Cacheable_Model Flight_Results
begin

text \<open>
  Cached model lookups agree with the table: the entry under the primary key of a row is absent or
  holds that row, every operation keeps it so, and \<open>get_cached\<close> by primary key therefore answers
  with the current row.
\<close>

section \<open>Instances that survive the cache\<close>

definition cacheable_instance ::
  "(field_type \<Rightarrow> string \<Rightarrow> pyval option) \<Rightarrow> 'c cacheable \<Rightarrow> model_instance \<Rightarrow> bool" where
  "cacheable_instance parse cls i \<longleftrightarrow>
     cm_cache_fields cls = None \<and> distinct (map fst (cm_fields cls))
     \<and> (\<forall>n \<in> fst ` set (cm_fields cls). \<not> prefix ''_'' n)
     \<and> cm_pk_attr cls \<in> fst ` set (cm_fields cls) \<and> cm_pk_attr cls \<noteq> []
     \<and> dom i = fst ` set (cm_fields cls)
     \<and> (\<forall>(n, ft) \<in> set (cm_fields cls). typed parse ft (attr_of i n) \<and> wf_json (cached_value (attr_of i n)))"

lemma record_names:
  assumes "cacheable_instance parse cls i"
  shows "distinct (map fst [(''_model'', CStr (cm_name cls)), (''_pk'', CStr (pk_text cls i))] @ map fst (cm_fields cls))"
proof -
  have "\<forall>n \<in> fst ` set (cm_fields cls). n \<noteq> ''_model'' \<and> n \<noteq> ''_pk''"
    using assms by (fastforce simp: cacheable_instance_def)
  then show ?thesis using assms by (auto simp: cacheable_instance_def)
qed

lemma to_cache_eq:
  assumes "cacheable_instance parse cls i"
  shows "to_cache cls i = [(''_model'', CStr (cm_name cls)), (''_pk'', CStr (pk_text cls i))]
    @ map (\<lambda>n. (n, cached_value (attr_of i n))) (map fst (cm_fields cls))"
  using foldl_dict_put [OF record_names [OF assms]] assms
  by (simp add: to_cache_def fields_to_cache_def cacheable_instance_def)

lemma to_cache_wf:
  assumes "cacheable_instance parse cls i"
  shows "wf_json (CDict (to_cache cls i))"
  using record_names [OF assms] assms unfolding to_cache_eq [OF assms]
  by (auto simp: cacheable_instance_def list_all_iff o_def)

lemma coerce_cached:
  assumes "typed parse ft v"
  shows "coerce_cache_value parse (cached_value v) ft = v"
proof (cases "serialize_value v = CNull")
  case True
  then have "v = Py CNull" using null_typed [OF assms] by blast
  then show ?thesis by (simp add: cached_value_def serialize_value_def coerce_cache_value_def)
next
  case False
  then show ?thesis using coerce_typed [OF assms False] assms by (cases v) (auto simp: cached_value_def typed_def)
qed

lemma foldl_set_attrs:
  assumes "\<forall>n \<in> set ns. \<not> prefix ''_'' n"
  shows "foldl (\<lambda>kwargs (k, v). if prefix ''_'' k then kwargs else kwargs(k \<mapsto> f k v)) m (map (\<lambda>n. (n, g n)) ns) n
    = (if n \<in> set ns then Some (f n (g n)) else m n)"
  using assms by (induction ns arbitrary: m) auto

lemma from_cache_to_cache:
  assumes "cacheable_instance parse cls i"
  shows "from_cache parse cls (to_cache cls i) = i"
proof
  fix n
  note c = assms [unfolded cacheable_instance_def]
  have names: "\<forall>n \<in> set (map fst (cm_fields cls)). \<not> prefix ''_'' n" using c by auto
  show "from_cache parse cls (to_cache cls i) n = i n"
  proof (cases "n \<in> fst ` set (cm_fields cls)")
    case True
    then obtain ft where ft: "(n, ft) \<in> set (cm_fields cls)" by auto
    then have "map_of (cm_fields cls) n = Some ft" using c by simp
    moreover have "typed parse ft (attr_of i n)" using c ft by auto
    moreover have "i n = Some (attr_of i n)"
    proof -
      have "n \<in> dom i" using c True by simp
      then show ?thesis by (auto simp: attr_of_def)
    qed
    ultimately show ?thesis
      using True unfolding from_cache_def to_cache_eq [OF assms] foldl_append foldl_set_attrs [OF names]
      by (simp add: coerce_field_def coerce_cached)
  next
    case False
    then have "n \<noteq> cm_pk_attr cls" "i n = None" using c by auto
    with False show ?thesis
      unfolding from_cache_def to_cache_eq [OF assms] foldl_append foldl_set_attrs [OF names] by simp
  qed
qed

section \<open>Keys\<close>

definition pk_key :: "'c cacheable \<Rightarrow> string \<Rightarrow> string" where
  "pk_key cls k = join '':'' (map length_prefixed [cm_name cls, ''get'', cm_pk_attr cls, k])"

lemma cache_key_for_eq:
  "cm_name cls \<noteq> [] \<Longrightarrow> cache_key_for cls op kwargs =
     Inr (join '':'' (map length_prefixed
       (cm_name cls # op # map py_str (item_args (map (\<lambda>(k, v). (k, py_str_of v)) (sort_items kwargs))))))"
  by (simp add: cache_key_for_def add_items_eq key_add_add key_build_add key_components_def)

lemma pk_key_eq: "cm_name cls \<noteq> [] \<Longrightarrow> cache_key_for cls ''get'' [(cm_pk_attr cls, v)] = Inr (pk_key cls (py_str_of v))"
  by (simp add: cache_key_for_eq pk_key_def item_args_def sort_items_def)

lemma pk_key_inj: "pk_key cls k = pk_key cls k' \<longleftrightarrow> k = k'"
  unfolding pk_key_def using join_length_prefixed_inj by blast

text \<open>Another lookup never has the key of a primary key.\<close>

lemma other_key:
  assumes "cm_name cls \<noteq> []" "cache_key_for cls op kwargs = Inr (pk_key cls k)"
  shows "op = ''get'' \<and> (\<exists>v. kwargs = [(cm_pk_attr cls, v)] \<and> py_str_of v = k)"
proof -
  let ?items = "map (\<lambda>(k, v). (k, py_str_of v)) (sort_items kwargs)"
  have "cm_name cls # op # map py_str (item_args ?items) = [cm_name cls, ''get'', cm_pk_attr cls, k]"
    using assms(2) unfolding cache_key_for_eq [OF assms(1)] pk_key_def sum.inject by (rule join_length_prefixed_inj)
  then have "op = ''get''" "map py_str (item_args ?items) = map py_str (item_args [(cm_pk_attr cls, k)])"
    by (simp_all add: item_args_def)
  then have items: "op = ''get''" "?items = [(cm_pk_attr cls, k)]" using item_args_inj by blast+
  then have "length kwargs = 1" by (metis length_Cons length_map list.size(3) sort_items_length One_nat_def)
  then obtain p where p: "kwargs = [p]" by (cases kwargs) auto
  then show ?thesis using items by (cases p) (simp add: sort_items_def)
qed

section \<open>The table\<close>

text \<open>\<open>rows d k\<close> is the row whose primary key has the text \<open>k\<close>. A lookup leaves the table as it
  is; a lookup by primary key finds its row; a write that raises changes nothing. \<open>db_refresh\<close> reloads
  all attributes.\<close>

locale model_table =
  fixes parse :: "field_type \<Rightarrow> string \<Rightarrow> pyval option" and cls :: "'c cacheable" and db :: "'d model_db"
    and rows :: "'d \<Rightarrow> string \<Rightarrow> model_instance option"
  assumes row_key: "rows d k = Some r \<Longrightarrow> pk_text cls r = k"
    and row_cacheable: "rows d k = Some r \<Longrightarrow> cacheable_instance parse cls r"
    and get_pk: "db_get db [(cm_pk_attr cls, v)] d
        = ((case rows d (py_str_of v) of None \<Rightarrow> Inl DoesNotExist | Some i \<Rightarrow> Inr i), d)"
    and get_same: "db_get db kwargs d = (Inr i, d') \<Longrightarrow> d' = d \<and> rows d (pk_text cls i) = Some i"
    and lookup_fails: "db_get db kwargs d = (Inl e, d') \<Longrightarrow> d' = d"
    and filter_same: "db_filter db kwargs d = (res, d') \<Longrightarrow> d' = d"
    and filter_rows: "db_filter db kwargs d = (Inr is, d') \<Longrightarrow> \<forall>i \<in> set is. rows d (pk_text cls i) = Some i"
    and save_law: "db_save db i d = (Inr j, d') \<Longrightarrow> \<exists>r. rows d' = (rows d)(pk_text cls j := r)"
    and save_fails: "db_save db i d = (Inl e, d') \<Longrightarrow> rows d' = rows d"
    and delete_law: "db_delete db i d = (Inr u, d') \<Longrightarrow> rows d' = (rows d)(pk_text cls i := None)"
    and remove_fails: "db_delete db i d = (Inl e, d') \<Longrightarrow> rows d' = rows d"
    and refresh_law: "db_refresh db i d = (Inr j, d') \<Longrightarrow> d' = d \<and> rows d (pk_text cls j) = Some j"
    and refresh_fails: "db_refresh db i d = (Inl e, d') \<Longrightarrow> d' = d"

text \<open>Coherence: what the cache holds under the key of a primary key is its row.\<close>

definition coherent ::
  "'c cacheable \<Rightarrow> ('d \<Rightarrow> string \<Rightarrow> model_instance option) \<Rightarrow> ('c \<Rightarrow> string \<Rightarrow> (exc + cval) option) \<Rightarrow> 'd \<times> 'c \<Rightarrow> bool" where
  "coherent cls rows content st \<longleftrightarrow> (\<forall>k e. content (snd st) (pk_key cls k) = Some e \<longrightarrow>
     (\<exists>r. rows (fst st) k = Some r \<and> e = Inr (CDict (to_cache cls r))))"

locale cached_table = model_table parse cls db rows + cache_backend C content up good
  for parse :: "field_type \<Rightarrow> string \<Rightarrow> pyval option" and cls :: "'c cacheable" and db :: "'d model_db"
    and rows :: "'d \<Rightarrow> string \<Rightarrow> model_instance option"
    and C :: "'c cache" and content :: "'c \<Rightarrow> string \<Rightarrow> (exc + cval) option" and up :: "'c \<Rightarrow> bool"
    and good :: "cval \<Rightarrow> bool" +
  fixes pool :: "'c redis option"
  assumes backend: "model_backend cls pool = Inr C" and named: "cm_name cls \<noteq> []" and pk_named: "cm_pk_attr cls \<noteq> []"
    and enabled: "0 < cm_ttl cls"
    and good_record: "cacheable_instance parse cls i \<Longrightarrow> good (CDict (to_cache cls i))"
    and good_records: "\<forall>i \<in> set is. cacheable_instance parse cls i \<Longrightarrow>
        good (CList (map (\<lambda>i. CDict (to_cache cls i)) is))"
begin

abbreviation consistent :: "'d \<times> 'c \<Rightarrow> bool" where
  "consistent st \<equiv> coherent cls rows content st \<and> up (snd st)"

lemma put_other:
  assumes "consistent (d, c)" "cache_key_for cls op kwargs = Inr key" "\<And>k. key \<noteq> pk_key cls k" "good v"
  shows "\<exists>c'. suppress (on_cache (c_set C key v t)) (d, c) = (Inr (), (d, c')) \<and> consistent (d, c')"
proof -
  obtain c' where "c_set C key v t c = (Inr (), c')" "up c'" "content c' = (content c)(key \<mapsto> Inr v)"
    using set_obtain [of c v key t] assms(1,4) by auto
  moreover have "pk_key cls k \<noteq> key" for k using assms(3) by metis
  ultimately show ?thesis
    using assms(1) by (auto simp: suppress_def handle_def on_cache_def coherent_def)
qed

lemma put_row:
  assumes "consistent (d, c)" "rows d k = Some i"
  shows "\<exists>c'. suppress (on_cache (c_set C (pk_key cls k) (CDict (to_cache cls i)) t)) (d, c) = (Inr (), (d, c'))
    \<and> consistent (d, c')"
proof -
  have "good (CDict (to_cache cls i))" by (rule good_record, rule row_cacheable [OF assms(2)])
  then obtain c' where "c_set C (pk_key cls k) (CDict (to_cache cls i)) t c = (Inr (), c')" "up c'"
    "content c' = (content c)(pk_key cls k \<mapsto> Inr (CDict (to_cache cls i)))"
    using set_obtain [of c "CDict (to_cache cls i)" "pk_key cls k" t] assms(1) by auto
  then show ?thesis
    using assms by (auto simp: suppress_def handle_def on_cache_def coherent_def pk_key_inj split: if_splits)
qed

lemma drop_row:
  assumes "coherent cls rows content (d, c)" "up c" "rows d' = (rows d)(k := r)"
  shows "\<exists>c'. suppress (map_act (\<lambda>_. ()) (on_cache (c_delete C (pk_key cls k)))) (d', c) = (Inr (), (d', c'))
    \<and> consistent (d', c')"
proof -
  obtain c' where "c_delete C (pk_key cls k) c = (Inr (content c (pk_key cls k) \<noteq> None), c')" "up c'"
    "content c' = (content c)(pk_key cls k := None)" using delete_ok [OF assms(2)] by blast
  then show ?thesis
    using assms by (auto simp: suppress_def handle_def on_cache_def map_act_def bind_act_def ret_def coherent_def
        pk_key_inj split: if_splits)
qed

lemma invalidate_ok:
  assumes "coherent cls rows content (d, c)" "up c" "rows d' = (rows d)(pk_text cls i := r)"
  shows "\<exists>c'. invalidate_model cls pool i (d', c) = (Inr (), (d', c')) \<and> consistent (d', c')"
proof -
  have "cache_key_for cls ''get'' [(cm_pk_attr cls, CStr (pk_text cls i))] = Inr (pk_key cls (pk_text cls i))"
    by (simp add: pk_key_eq named py_str_of_def)
  then show ?thesis
    using drop_row [OF assms] enabled pk_named by (simp add: invalidate_model_def backend bind_lift)
qed

lemma cached_lookup:
  assumes "consistent (d, c)"
  shows "try_cache C (pk_key cls k) (\<lambda>v. case v of CDict d \<Rightarrow> Inr (from_cache parse cls d) | _ \<Rightarrow> Inl CacheDataError) (d, c)
    = (Inr (if content c (pk_key cls k) = None then None else rows d k), (d, c))"
proof (cases "content c (pk_key cls k)")
  case None
  then show ?thesis using assms get_ok [of c "pk_key cls k"]
    by (simp add: try_cache_def handle_def bind_act_def on_cache_def ret_def)
next
  case (Some e)
  then obtain r where r: "rows d k = Some r" "e = Inr (CDict (to_cache cls r))"
    using assms by (fastforce simp: coherent_def)
  then show ?thesis using Some assms get_ok [of c "pk_key cls k"] from_cache_to_cache [OF row_cacheable [OF r(1)]]
    by (simp add: try_cache_def handle_def bind_act_def on_cache_def ret_def lift_res_def)
qed

lemma get_pk_current:
  assumes "consistent (d, c)"
  shows "\<exists>c'. get_cached parse cls pool db [(cm_pk_attr cls, v)] (d, c) = (Inr (rows d (py_str_of v)), (d, c'))
    \<and> consistent (d, c')"
proof -
  let ?k = "py_str_of v"
  have key: "cache_key_for cls ''get'' [(cm_pk_attr cls, v)] = Inr (pk_key cls ?k)" by (rule pk_key_eq [OF named])
  have unfolded: "get_cached parse cls pool db [(cm_pk_attr cls, v)] (d, c) =
    (case (if content c (pk_key cls ?k) = None then None else rows d ?k) of
       Some i \<Rightarrow> (Inr (Some i), (d, c))
     | None \<Rightarrow> (case rows d ?k of None \<Rightarrow> (Inr None, (d, c))
         | Some i \<Rightarrow> bind_act (suppress (on_cache (c_set C (pk_key cls ?k) (CDict (to_cache cls i)) (Some (cm_ttl cls)))))
                    (\<lambda>_. ret (Some i)) (d, c)))"
    using enabled
    by (simp add: get_cached_def backend key bind_lift cached_lookup [OF assms] get_pk on_db_def map_act_def handle_def bind_act_def ret_def
        catches_def is_instance_def split: option.split)
  show ?thesis
  proof (cases "content c (pk_key cls ?k) = None \<and> rows d ?k \<noteq> None")
    case True
    then obtain i where i: "rows d ?k = Some i" by auto
    obtain c' where "suppress (on_cache (c_set C (pk_key cls ?k) (CDict (to_cache cls i)) (Some (cm_ttl cls)))) (d, c)
        = (Inr (), (d, c'))" "consistent (d, c')" using put_row [OF assms i] by blast
    then show ?thesis using True i unfolded by (simp add: bind_act_def ret_def)
  next
    case False
    moreover have "rows d ?k \<noteq> None" if "content c (pk_key cls ?k) \<noteq> None"
      using assms that by (fastforce simp: coherent_def)
    ultimately show ?thesis using unfolded assms by (auto split: option.splits)
  qed
qed

lemma try_cache_state: "up c \<Longrightarrow> snd (try_cache C key dec (d, c)) = (d, c)"
  using get_ok [of c key]
  by (auto simp: try_cache_def handle_def bind_act_def on_cache_def ret_def lift_res_def split: prod.split sum.split)

lemma get_keeps:
  assumes "consistent (d, c)"
  shows "consistent (snd (get_cached parse cls pool db kwargs (d, c)))"
proof (cases "\<exists>v. kwargs = [(cm_pk_attr cls, v)]")
  case True
  then obtain v where v: "kwargs = [(cm_pk_attr cls, v)]" by blast
  show ?thesis using get_pk_current [OF assms, of v] unfolding v by auto
next
  case False
  obtain key where key: "cache_key_for cls ''get'' kwargs = Inr key" using cache_key_for_eq [OF named] by blast
  then have other: "key \<noteq> pk_key cls k" for k using other_key [OF named, of "''get''" kwargs k] False by auto
  let ?dec = "\<lambda>v. case v of CDict d \<Rightarrow> Inr (from_cache parse cls d) | _ \<Rightarrow> Inl CacheDataError"
  obtain r where r: "try_cache C key ?dec (d, c) = (r, (d, c))"
    using try_cache_state [of c key ?dec d] assms by (cases "try_cache C key ?dec (d, c)") auto
  obtain q d' where q: "db_get db kwargs d = (q, d')" by fastforce
  show ?thesis
  proof (cases "\<exists>i. r = Inr None \<and> q = Inr i")
    case True
    then obtain i where i: "r = Inr None" "q = Inr i" by blast
    then have d': "d' = d" "rows d (pk_text cls i) = Some i" using get_same q by blast+
    then have "good (CDict (to_cache cls i))" using good_record row_cacheable by blast
    from put_other [OF assms key other this, of "Some (cm_ttl cls)"]
    obtain c' where "suppress (on_cache (c_set C key (CDict (to_cache cls i)) (Some (cm_ttl cls)))) (d, c) = (Inr (), (d, c'))"
      "consistent (d, c')" by blast
    then show ?thesis using enabled r i q d'
      by (simp add: get_cached_def backend key bind_lift bind_act_def ret_def on_db_def map_act_def handle_def)
  next
    case False
    have "d' = d" using q get_same lookup_fails by (cases q) blast+
    then show ?thesis using False assms r q enabled
      by (auto simp: get_cached_def backend key bind_lift bind_act_def ret_def on_db_def map_act_def handle_def
          split: sum.splits option.splits)
  qed
qed

lemma filter_keeps:
  assumes "consistent (d, c)"
  shows "consistent (snd (filter_cached parse cls pool db kwargs (d, c)))"
proof -
  obtain key where key: "cache_key_for cls ''filter'' kwargs = Inr key" using cache_key_for_eq [OF named] by blast
  then have other: "key \<noteq> pk_key cls k" for k using other_key [OF named, of "''filter''" kwargs k] by auto
  let ?dec = "\<lambda>v. case v of
      CList items \<Rightarrow> map_res (\<lambda>d. case d of CDict d \<Rightarrow> Inr (from_cache parse cls d) | _ \<Rightarrow> Inl (not_a_record d)) items
    | _ \<Rightarrow> Inl CacheDataError"
  obtain r where r: "try_cache C key ?dec (d, c) = (r, (d, c))"
    using try_cache_state [of c key ?dec d] assms by (cases "try_cache C key ?dec (d, c)") auto
  obtain q d' where q: "db_filter db kwargs d = (q, d')" by fastforce
  then have d': "d' = d" using filter_same by blast
  show ?thesis
  proof (cases "\<exists>is. r = Inr None \<and> q = Inr is")
    case True
    then obtain "is" where i: "r = Inr None" "q = Inr is" by blast
    then have "\<forall>i \<in> set is. cacheable_instance parse cls i" using filter_rows q row_cacheable by blast
    from put_other [OF assms key other good_records [OF this], of "Some (cm_ttl cls)"]
    obtain c' where "suppress (on_cache (c_set C key (CList (map (\<lambda>i. CDict (to_cache cls i)) is)) (Some (cm_ttl cls)))) (d, c)
        = (Inr (), (d, c'))" "consistent (d, c')" by blast
    then show ?thesis using enabled r i q d'
      by (simp add: filter_cached_def backend key bind_lift bind_act_def ret_def on_db_def)
  next
    case False
    then show ?thesis using assms r q d' enabled
      by (auto simp: filter_cached_def backend key bind_lift bind_act_def ret_def on_db_def split: sum.splits option.splits)
  qed
qed

lemma save_keeps:
  assumes "consistent (d, c)"
  shows "consistent (snd (model_save cls pool db i (d, c)))"
proof -
  obtain q d' where q: "db_save db i d = (q, d')" by fastforce
  show ?thesis
  proof (cases q)
    case (Inl e)
    then show ?thesis using assms q save_fails [of i d e d']
      by (simp add: model_save_def bind_act_def on_db_def coherent_def)
  next
    case (Inr j)
    then obtain r where "rows d' = (rows d)(pk_text cls j := r)" using save_law q by blast
    then obtain c' where "invalidate_model cls pool j (d', c) = (Inr (), (d', c'))" "consistent (d', c')"
      using invalidate_ok assms by (metis snd_conv)
    then show ?thesis using q Inr by (simp add: model_save_def bind_act_def on_db_def ret_def)
  qed
qed

lemma delete_keeps:
  assumes "consistent (d, c)"
  shows "consistent (snd (model_delete cls pool db i (d, c)))"
proof -
  obtain q d' where q: "db_delete db i d = (q, d')" by fastforce
  show ?thesis
  proof (cases q)
    case (Inl e)
    then show ?thesis using assms q remove_fails [of i d e d']
      by (simp add: model_delete_def bind_act_def on_db_def coherent_def)
  next
    case (Inr u)
    then have "rows d' = (rows d)(pk_text cls i := None)" using delete_law q by blast
    then obtain c' where "invalidate_model cls pool i (d', c) = (Inr (), (d', c'))" "consistent (d', c')"
      using invalidate_ok assms by (metis snd_conv)
    then show ?thesis using q Inr by (simp add: model_delete_def bind_act_def on_db_def)
  qed
qed

lemma refresh_keeps:
  assumes "consistent (d, c)"
  shows "consistent (snd (refresh_from_db cls pool db i (d, c)))"
proof -
  obtain q d' where q: "db_refresh db i d = (q, d')" by fastforce
  show ?thesis
  proof (cases q)
    case (Inl e)
    then show ?thesis using assms q refresh_fails [OF q [unfolded Inl]]
      by (simp add: refresh_from_db_def bind_act_def on_db_def)
  next
    case (Inr j)
    then have j: "d' = d" "rows d (pk_text cls j) = Some j" using refresh_law q by blast+
    have key: "cache_key_for cls ''get'' [(cm_pk_attr cls, CStr (pk_text cls j))] = Inr (pk_key cls (pk_text cls j))"
      by (simp add: pk_key_eq named py_str_of_def)
    obtain c' where "suppress (on_cache (c_set C (pk_key cls (pk_text cls j)) (CDict (to_cache cls j)) (Some (cm_ttl cls)))) (d, c)
        = (Inr (), (d, c'))" "consistent (d, c')" using put_row [OF assms j(2)] by blast
    then show ?thesis using q Inr j enabled pk_named
      by (simp add: refresh_from_db_def bind_act_def on_db_def backend lift_res_def key ret_def)
  qed
qed

end

section \<open>Sequences of operations\<close>

datatype model_op =
    GetOp "(string \<times> cval) list" | FilterOp "(string \<times> cval) list"
  | SaveOp model_instance | DeleteOp model_instance | RefreshOp model_instance

fun perform ::
  "(field_type \<Rightarrow> string \<Rightarrow> pyval option) \<Rightarrow> 'c cacheable \<Rightarrow> 'c redis option \<Rightarrow> 'd model_db \<Rightarrow> model_op
     \<Rightarrow> 'd \<times> 'c \<Rightarrow> 'd \<times> 'c" where
  "perform parse cls pool db (GetOp kwargs) st = snd (get_cached parse cls pool db kwargs st)"
| "perform parse cls pool db (FilterOp kwargs) st = snd (filter_cached parse cls pool db kwargs st)"
| "perform parse cls pool db (SaveOp i) st = snd (model_save cls pool db i st)"
| "perform parse cls pool db (DeleteOp i) st = snd (model_delete cls pool db i st)"
| "perform parse cls pool db (RefreshOp i) st = snd (refresh_from_db cls pool db i st)"

context cached_table begin

lemma perform_keeps: "consistent st \<Longrightarrow> consistent (perform parse cls pool db op st)"
  by (cases st; cases op) (simp_all add: get_keeps filter_keeps save_keeps delete_keeps refresh_keeps)

lemma operations_keep: "consistent st \<Longrightarrow> consistent (fold (perform parse cls pool db) ops st)"
  by (induction ops arbitrary: st) (simp_all add: perform_keeps)

end

section \<open>A table as a list of instances\<close>

definition matching :: "'c cacheable \<Rightarrow> (string \<times> cval) list \<Rightarrow> model_instance \<Rightarrow> bool" where
  "matching cls kwargs i \<longleftrightarrow> list_all (\<lambda>(n, v). str_pyval (attr_of i n) = py_str_of v) kwargs"

definition list_rows ::
  "(model_instance \<Rightarrow> bool) \<Rightarrow> 'c cacheable \<Rightarrow> model_instance list \<Rightarrow> string \<Rightarrow> model_instance option" where
  "list_rows fits cls d k = find (\<lambda>i. fits i \<and> pk_text cls i = k) d"

definition stored_rows :: "(model_instance \<Rightarrow> bool) \<Rightarrow> 'c cacheable \<Rightarrow> model_instance list \<Rightarrow> model_instance list" where
  "stored_rows fits cls d = filter (\<lambda>i. list_rows fits cls d (pk_text cls i) = Some i) d"

definition list_db :: "(model_instance \<Rightarrow> bool) \<Rightarrow> 'c cacheable \<Rightarrow> model_instance list model_db" where
  "list_db fits cls =
    \<lparr>db_get = (\<lambda>kwargs d. (case find (matching cls kwargs) (stored_rows fits cls d) of
         None \<Rightarrow> Inl DoesNotExist | Some i \<Rightarrow> Inr i, d)),
     db_filter = (\<lambda>kwargs d. (Inr (filter (matching cls kwargs) (stored_rows fits cls d)), d)),
     db_save = (\<lambda>i d. if fits i then (Inr i, i # d) else (Inl OperationalError, d)),
     db_delete = (\<lambda>i d. (Inr (), filter (\<lambda>r. pk_text cls r \<noteq> pk_text cls i) d)),
     db_refresh = (\<lambda>i d. (case list_rows fits cls d (pk_text cls i) of
         None \<Rightarrow> Inl DoesNotExist | Some r \<Rightarrow> Inr r, d))\<rparr>"

lemma list_rows_Some: "list_rows fits cls d k = Some i \<Longrightarrow> i \<in> set d \<and> fits i \<and> pk_text cls i = k"
  by (auto simp: list_rows_def find_Some_iff)

lemma find_stored:
  "find (\<lambda>i. pk_text cls i = k) (stored_rows fits cls d) = list_rows fits cls d k"
proof (cases "list_rows fits cls d k")
  case None
  then have "pk_text cls i \<noteq> k" if "i \<in> set (stored_rows fits cls d)" for i
    using that by (auto simp: stored_rows_def)
  with None show ?thesis by (simp add: find_None_iff)
next
  case (Some i)
  then have i: "i \<in> set (stored_rows fits cls d)" "pk_text cls i = k"
    using list_rows_Some by (fastforce simp: stored_rows_def)+
  then obtain j where j: "find (\<lambda>i. pk_text cls i = k) (stored_rows fits cls d) = Some j"
    by (cases "find (\<lambda>i. pk_text cls i = k) (stored_rows fits cls d)") (auto simp: find_None_iff)
  then have "j \<in> set (stored_rows fits cls d)" "pk_text cls j = k" by (auto simp: find_Some_iff)
  then have "list_rows fits cls d k = Some j" by (auto simp: stored_rows_def)
  with Some j show ?thesis by simp
qed

lemma list_db_table:
  assumes "\<And>i. fits i \<Longrightarrow> cacheable_instance parse cls i"
  shows "model_table parse cls (list_db fits cls) (list_rows fits cls)"
proof (unfold_locales, goal_cases)
  case (1 d k r) then show ?case using list_rows_Some by blast
next
  case (2 d k r) then show ?case using list_rows_Some assms by blast
next
  case (3 v d)
  have "matching cls [(cm_pk_attr cls, v)] = (\<lambda>i. pk_text cls i = py_str_of v)"
    by (simp add: matching_def pk_text_def fun_eq_iff)
  then show ?case by (simp add: list_db_def find_stored)
next
  case (4 kwargs d i d')
  then have "find (matching cls kwargs) (stored_rows fits cls d) = Some i" "d' = d"
    by (auto simp: list_db_def split: option.splits)
  then show ?case by (auto simp: find_Some_iff stored_rows_def dest!: nth_mem)
next
  case (6 kwargs d res d') then show ?case by (simp add: list_db_def)
next
  case (7 kwargs d "is" d') then show ?case by (auto simp: list_db_def stored_rows_def)
next
  case (8 i d j d')
  then have new: "fits i" "j = i" "d' = i # d" by (auto simp: list_db_def split: if_splits)
  have "list_rows fits cls d' k = ((list_rows fits cls d)(pk_text cls j := Some i)) k" for k
    using new(1) unfolding new(2,3) by (simp add: list_rows_def)
  then show ?case by blast
next
  case (10 i d u d')
  have "find P (filter Q d) = find (\<lambda>x. P x \<and> Q x) d" for P Q :: "model_instance \<Rightarrow> bool"
    by (induction d) auto
  moreover have "find (\<lambda>x. (fits x \<and> pk_text cls x = k) \<and> pk_text cls x \<noteq> pk_text cls i) d
      = (if k = pk_text cls i then None else find (\<lambda>x. fits x \<and> pk_text cls x = k) d)" for k
    by (induction d) auto
  moreover have "find (\<lambda>x. False) d = None" by (induction d) auto
  ultimately show ?case using 10 by (auto simp: list_db_def list_rows_def fun_eq_iff)
next
  case (12 i d j d')
  then show ?case using list_rows_Some [of fits cls d "pk_text cls i"] by (auto simp: list_db_def split: option.splits)
qed (auto simp: list_db_def split: option.splits if_splits)

definition note_model :: "memory cacheable" where
  "note_model = \<lparr>cm_name = ''Note'', cm_ttl = 300, cm_cache_fields = None,
     cm_fields = [(''id'', T_int), (''title'', T_other), (''created'', T_datetime)], cm_pk_attr = ''id'',
     cm_namespace = ''model'', cm_backend = None, cm_serializer = None\<rparr>"

abbreviation note_fits :: "model_instance \<Rightarrow> bool" where
  "note_fits \<equiv> cacheable_instance iso_parse note_model"

definition note_cache :: "memory cache" where
  "note_cache = cache_of (RedisCacheBackend mem_redis ''model:Note'' 300 (Some (JSONSerializer None)))"

lemma note_backend: "model_backend note_model (Some mem_redis) = Inr note_cache"
  by (simp add: model_backend_def get_backend_def get_pool_def note_model_def note_cache_def)

interpretation note_table: cached_table iso_parse note_model "list_db note_fits note_model"
  "list_rows note_fits note_model" note_cache
  "rb_content (RedisCacheBackend mem_redis ''model:Note'' 300 (Some (JSONSerializer None))) mem_view"
  m_reachable wf_json "Some mem_redis"
proof (rule cached_table.intro)
  show "model_table iso_parse note_model (list_db note_fits note_model) (list_rows note_fits note_model)"
    by (rule list_db_table)
  show "cache_backend note_cache
    (rb_content (RedisCacheBackend mem_redis ''model:Note'' 300 (Some (JSONSerializer None))) mem_view) m_reachable wf_json"
    unfolding note_cache_def by (rule mem_cache.contract)
  show "cached_table_axioms iso_parse note_model note_cache wf_json (Some mem_redis)"
  proof (rule cached_table_axioms.intro)
    fix "is" :: "model_instance list" assume "\<forall>i \<in> set is. note_fits i"
    then have "\<forall>i \<in> set is. wf_json (CDict (to_cache note_model i))" using to_cache_wf by blast
    then show "wf_json (CList (map (\<lambda>i. CDict (to_cache note_model i)) is))" by (auto simp: list_all_iff)
  next
    fix i assume "note_fits i"
    then show "wf_json (CDict (to_cache note_model i))" by (rule to_cache_wf)
  next
    show "model_backend note_model (Some mem_redis) = Inr note_cache" by (rule note_backend)
  qed (simp_all add: note_model_def)
qed


definition hello_note :: model_instance where
  "hello_note = [''id'' \<mapsto> Py (CInt 7), ''title'' \<mapsto> Py (CStr ''hello''), ''created'' \<mapsto> PyDatetime ''2026-01-02T03:04:05'']"


end
