(* ===== verification/Event_Stream.thy ===== *)
theory Event_Stream
  imports Timescale Py_Text "HOL-Library.Product_Lexorder"
begin

text \<open>
  The queries of \<open>models/event_stream.py\<close> with the helpers of \<open>timescale/stream.py\<close>: bucket
  widths, \<open>in_range\<close>, \<open>latest_per_stream\<close> and \<open>time_series\<close>. A query is the evaluation of its
  statement on the table, with the numbering of its placeholders; stream ids are of any linear
  order, times and widths are counted in microseconds. \<open>time_bucket\<close>, the aggregate functions of
  the server and \<open>datetime.fromisoformat\<close> are parameters. The table is one without a column named
  \<open>bucket\<close>, to which the \<open>GROUP BY bucket\<close> of \<open>time_series\<close> would refer instead of its own output.
\<close>

section \<open>Bucket widths\<close>

definition BUCKET_UNITS :: "(string \<times> int) list" where
  "BUCKET_UNITS =
     [(''microsecond'', 1), (''millisecond'', 1000), (''second'', 1000000), (''minute'', 60000000),
      (''hour'', 3600000000), (''day'', 86400000000), (''week'', 604800000000)]"

text \<open>\<open>timedelta(...)\<close> of a positive number of microseconds holds at most 999999999 days.\<close>

definition timedelta :: "int \<Rightarrow> exc + int" where
  "timedelta microseconds =
     (if microseconds div 86400000000 \<le> 999999999 then Inr microseconds else Inl OverflowError)"

definition bucket_to_timedelta :: "string \<Rightarrow> exc + int" where
  "bucket_to_timedelta bucket =
     (case py_words (py_strip bucket) of
        [amount, unit] \<Rightarrow>
          (case int_of_str amount of
             None \<Rightarrow> Inl ValueError
           | Some n \<Rightarrow>
               if n \<le> 0 then Inl ValueError
               else case map_of BUCKET_UNITS (rstrip_char (CHR ''s'') unit) of
                      None \<Rightarrow> Inl ValueError
                    | Some u \<Rightarrow> timedelta (n * u))
      | _ \<Rightarrow> Inl ValueError)"

section \<open>The model class and its table\<close>

record stream_field =
  sf_source :: "string option"
  sf_db_default :: bool

record stream_model =
  sm_table :: string
  sm_fields :: "(string \<times> stream_field) list"
  sm_pk_attr :: string
  sm_db_fields :: "string list"
  sm_relations :: "string list"
  sm_time_field :: string
  sm_stream_field :: string
  sm_chunk_time_interval :: string
  sm_number_partitions :: "int option"
  sm_compress_after :: "string option"
  sm_drop_after :: "string option"

definition field_db_column :: "stream_field \<Rightarrow> string \<Rightarrow> string" where
  "field_db_column field fallback =
     (case sf_source field of None \<Rightarrow> fallback | Some s \<Rightarrow> if s = [] then fallback else s)"

definition table_field :: "stream_model \<Rightarrow> string \<Rightarrow> exc + string" where
  "table_field cls field_name =
     (if field_name \<notin> fst ` set (sm_fields cls) then Inl ValueError else Inr field_name)"

definition row_to_model_kwargs :: "stream_model \<Rightarrow> (string \<times> tval) list \<Rightarrow> (string \<times> tval) list" where
  "row_to_model_kwargs cls row =
     concat (map (\<lambda>(n, field). case map_of row (field_db_column field n) of
                                 None \<Rightarrow> [] | Some v \<Rightarrow> [(n, v)]) (sm_fields cls))"

text \<open>A stored row gives its stream and its time by the name of the column that holds them, and
  its columns as the driver decodes them.\<close>

record 'k stored_event =
  se_stream :: "string \<Rightarrow> 'k"
  se_time :: "string \<Rightarrow> int"
  se_columns :: "(string \<times> tval) list"

record 'k stream_table =
  st_columns :: "string list"
  st_rows :: "'k stored_event list"

section \<open>Statements\<close>

datatype 'k sparam = PInterval int | PTime int | PKey 'k

text \<open>The conditions the queries join with \<open>AND\<close>: \<open>s.col IN ($1, ...)\<close>, \<open>s.col >= $1\<close>,
  \<open>s.col < $1\<close>.\<close>

datatype cond = In_list string "nat list" | At_least string nat | Less_than string nat

fun cond_column :: "cond \<Rightarrow> string" where
  "cond_column (In_list c ps) = c" | "cond_column (At_least c p) = c" | "cond_column (Less_than c p) = c"

fun holds :: "'k sparam list \<Rightarrow> 'k stored_event \<Rightarrow> cond \<Rightarrow> bool" where
  "holds params r (In_list c ps) = list_ex (\<lambda>p. params ! (p - 1) = PKey (se_stream r c)) ps"
| "holds params r (At_least c p) = (case params ! (p - 1) of PTime t \<Rightarrow> t \<le> se_time r c | _ \<Rightarrow> False)"
| "holds params r (Less_than c p) = (case params ! (p - 1) of PTime t \<Rightarrow> se_time r c < t | _ \<Rightarrow> False)"

text \<open>\<open>pos = len(placeholders); placeholders.extend(stream_ids); ... for i in range(pos, len(...))\<close>.\<close>

definition positions :: "nat \<Rightarrow> nat \<Rightarrow> nat list" where
  "positions pos n = map (\<lambda>i. i + 1) [pos..<n]"

definition add_streams :: "string \<Rightarrow> 'k list \<Rightarrow> 'k sparam list \<times> cond list \<Rightarrow> 'k sparam list \<times> cond list" where
  "add_streams col stream_ids st =
     (let (placeholders, conds) = st; pos = length placeholders; placeholders' = placeholders @ map PKey stream_ids
      in (placeholders', conds @ [In_list col (positions pos (length placeholders'))]))"

text \<open>\<open>_fetch_rows\<close>: an error of the driver becomes a \<open>TimescaleError\<close>; a statement over a column the
  table does not have is one.\<close>

definition fetch_rows :: "exc + 'r list \<Rightarrow> exc + 'r list" where
  "fetch_rows result =
     (case result of
        Inl e \<Rightarrow> Inl (if catches [Exception_cls] e then TimescaleError else e)
      | Inr rows \<Rightarrow> Inr rows)"

definition checked :: "'k stream_table \<Rightarrow> string list \<Rightarrow> 'r list \<Rightarrow> exc + 'r list" where
  "checked tbl used rows = (if set used \<subseteq> set (st_columns tbl) then Inr rows else Inl OperationalError)"

definition select_where :: "'k stream_table \<Rightarrow> 'k sparam list \<Rightarrow> cond list \<Rightarrow> 'k stored_event list" where
  "select_where tbl params conds = filter (\<lambda>r. list_all (holds params r) conds) (st_rows tbl)"

section \<open>Queries\<close>

text \<open>The queryset of \<open>in_range\<close>, evaluated: the ORM resolves a field to its database column.\<close>

definition orm_column :: "stream_model \<Rightarrow> string \<Rightarrow> string" where
  "orm_column cls n = (case map_of (sm_fields cls) n of None \<Rightarrow> n | Some field \<Rightarrow> field_db_column field n)"

definition in_range ::
  "stream_model \<Rightarrow> 'k stream_table \<Rightarrow> int \<Rightarrow> int \<Rightarrow> 'k list option \<Rightarrow> exc + 'k stored_event list" where
  "in_range cls tbl begin finish stream_ids =
     bind_res (table_field cls (sm_time_field cls)) (\<lambda>time.
     bind_res (table_field cls (sm_stream_field cls)) (\<lambda>stream.
       let q = filter (\<lambda>r. begin \<le> se_time r (orm_column cls time) \<and> se_time r (orm_column cls time) < finish)
                 (st_rows tbl);
           q = (case stream_ids of None \<Rightarrow> q
                | Some ids \<Rightarrow> filter (\<lambda>r. se_stream r (orm_column cls stream) \<in> set ids) q)
       in Inr (sort_key (\<lambda>r. - se_time r (orm_column cls time)) q)))"

text \<open>\<open>DISTINCT ON\<close>: of the rows in their order, the first of every stream.\<close>

fun distinct_on :: "('r \<Rightarrow> 'k) \<Rightarrow> 'k list \<Rightarrow> 'r list \<Rightarrow> 'r list" where
  "distinct_on key seen [] = []"
| "distinct_on key seen (r # rs) =
     (if key r \<in> set seen then distinct_on key seen rs else r # distinct_on key (key r # seen) rs)"

definition latest_conds ::
  "stream_model \<Rightarrow> 'k list option \<Rightarrow> int option \<Rightarrow> 'k sparam list \<times> cond list" where
  "latest_conds cls stream_ids after =
     (let st = (case stream_ids of None \<Rightarrow> ([], []) | Some ids \<Rightarrow> add_streams (sm_stream_field cls) ids ([], []))
      in case after of None \<Rightarrow> st
         | Some t \<Rightarrow> (fst st @ [PTime t], snd st @ [At_least (sm_time_field cls) (length (fst st) + 1)]))"

definition latest_rows ::
  "stream_model \<Rightarrow> ('k :: linorder) stream_table \<Rightarrow> 'k list option \<Rightarrow> int option \<Rightarrow> int option
     \<Rightarrow> exc + 'k stored_event list" where
  "latest_rows cls tbl stream_ids after limit =
     (let (params, conds) = latest_conds cls stream_ids after;
          stream = sm_stream_field cls; time = sm_time_field cls;
          rows = distinct_on (\<lambda>r. se_stream r stream) []
                   (sort_key (\<lambda>r. (se_stream r stream, - se_time r time)) (select_where tbl params conds))
      in bind_res (checked tbl [stream, time] rows) (\<lambda>rows.
           case limit of None \<Rightarrow> Inr rows
           | Some n \<Rightarrow> if n < 0 then Inl OperationalError else Inr (take (nat n) rows)))"

definition latest_per_stream ::
  "stream_model \<Rightarrow> ('k :: linorder) stream_table \<Rightarrow> 'k list option \<Rightarrow> int option \<Rightarrow> int option
     \<Rightarrow> exc + (string \<times> tval) list list" where
  "latest_per_stream cls tbl stream_ids after limit =
     bind_res (table_field cls (sm_time_field cls)) (\<lambda>_.
     bind_res (table_field cls (sm_stream_field cls)) (\<lambda>_.
       if stream_ids = Some [] then Inr []
       else bind_res (fetch_rows (latest_rows cls tbl stream_ids after limit)) (\<lambda>rows.
              Inr (map (\<lambda>r. row_to_model_kwargs cls (se_columns r)) rows))))"

section \<open>Rollups\<close>

datatype aggregate = Count | Avg | Sum | Min_agg | Max_agg | First | Last

record 'k TimeBucketRow =
  tb_stream :: 'k
  tb_bucket :: int
  tb_value :: tval
  tb_count :: nat

text \<open>What the driver decodes a bucket to, and \<open>_bucket_datetime\<close>.\<close>

datatype bucket_value = BDatetime int | BText string | BOther

definition bucket_datetime :: "(string \<Rightarrow> exc + int) \<Rightarrow> bucket_value \<Rightarrow> exc + int" where
  "bucket_datetime fromisoformat value =
     (case value of BDatetime t \<Rightarrow> Inr t | BText s \<Rightarrow> fromisoformat s | BOther \<Rightarrow> Inl TypeError)"

text \<open>The server: \<open>time_bucket(width, time)\<close>, an aggregate over the time and value of the rows of a
  group, and the decoding of a bucket by the driver.\<close>

record server =
  sv_time_bucket :: "int \<Rightarrow> int \<Rightarrow> int"
  sv_aggregate :: "aggregate \<Rightarrow> (int \<times> tval) list \<Rightarrow> tval"
  sv_decode :: "int \<Rightarrow> bucket_value"
  sv_fromisoformat :: "string \<Rightarrow> exc + int"

definition series_conds ::
  "stream_model \<Rightarrow> int \<Rightarrow> int \<Rightarrow> int \<Rightarrow> 'k list option \<Rightarrow> 'k sparam list \<times> cond list" where
  "series_conds cls width begin finish stream_ids =
     (let time = sm_time_field cls;
          st = ([PInterval width, PTime begin, PTime finish], [At_least time 2, Less_than time 3])
      in case stream_ids of None \<Rightarrow> st | Some ids \<Rightarrow> add_streams (sm_stream_field cls) ids st)"

definition column_value :: "'k stored_event \<Rightarrow> string \<Rightarrow> tval" where
  "column_value r c = (case map_of (se_columns r) c of None \<Rightarrow> TNull | Some v \<Rightarrow> v)"

definition series_group ::
  "server \<Rightarrow> stream_model \<Rightarrow> aggregate \<Rightarrow> string option \<Rightarrow> int \<Rightarrow> 'k stored_event list \<Rightarrow> 'k \<times> int
     \<Rightarrow> ('k \<times> int \<times> tval \<times> nat)" where
  "series_group sv cls aggregate field width rows k =
     (let time = sm_time_field cls;
          grp = filter (\<lambda>r. (se_stream r (sm_stream_field cls), sv_time_bucket sv width (se_time r time)) = k) rows
      in (fst k, snd k,
          (if aggregate = Count then TInt (int (length grp))
           else sv_aggregate sv aggregate (map (\<lambda>r. (se_time r time, column_value r (the field))) grp)),
          length grp))"

definition series_rows ::
  "server \<Rightarrow> stream_model \<Rightarrow> ('k :: linorder) stream_table \<Rightarrow> aggregate \<Rightarrow> string option
     \<Rightarrow> 'k sparam list \<times> cond list \<Rightarrow> exc + ('k \<times> int \<times> tval \<times> nat) list" where
  "series_rows sv cls tbl aggregate field pc =
     (let (params, conds) = pc;
          width = (case params ! 0 of PInterval w \<Rightarrow> w | _ \<Rightarrow> 0);
          rows = select_where tbl params conds;
          key = (\<lambda>r. (se_stream r (sm_stream_field cls), sv_time_bucket sv width (se_time r (sm_time_field cls))))
      in checked tbl ([sm_stream_field cls, sm_time_field cls] @ (if aggregate = Count then [] else [the field]))
           (map (series_group sv cls aggregate field width rows) (sort (remdups (map key rows)))))"

definition time_series ::
  "server \<Rightarrow> stream_model \<Rightarrow> ('k :: linorder) stream_table \<Rightarrow> string \<Rightarrow> aggregate \<Rightarrow> string option \<Rightarrow> int \<Rightarrow> int
     \<Rightarrow> 'k list option \<Rightarrow> exc + 'k TimeBucketRow list" where
  "time_series sv cls tbl bucket aggregate field begin finish stream_ids =
     bind_res (table_field cls (sm_time_field cls)) (\<lambda>_.
     bind_res (table_field cls (sm_stream_field cls)) (\<lambda>_.
     bind_res (if aggregate \<noteq> Count then
                 (case field of None \<Rightarrow> Inl ValueError | Some f \<Rightarrow> table_field cls f) else Inr []) (\<lambda>_.
     bind_res (bucket_to_timedelta bucket) (\<lambda>width.
       if stream_ids = Some [] then Inr []
       else bind_res (fetch_rows (series_rows sv cls tbl aggregate field
                       (series_conds cls width begin finish stream_ids)))
              (map_res (\<lambda>(stream, b, value, n). bind_res (bucket_datetime (sv_fromisoformat sv) (sv_decode sv b)) (\<lambda>t.
                 Inr \<lparr>tb_stream = stream, tb_bucket = t, tb_value = value, tb_count = n\<rparr>)))))))"

end
