(* ===== verification/Event_Ingest.thy ===== *)
theory Event_Ingest
  imports Event_Stream
begin

text \<open>
  The other half of \<open>models/event_stream.py\<close>: \<open>setup\<close>, which calls the managers of \<open>Timescale\<close>, and
  \<open>bulk_insert\<close>. The driver is a parameter: a statement with its bound values, or one \<open>COPY\<close>.
  \<open>stream_server\<close> states what the catalog of TimescaleDB is documented to do with the statements of
  \<open>setup\<close>.
\<close>

section \<open>\<open>setup\<close>\<close>

type_synonym 's driver = "string \<Rightarrow> tval list \<Rightarrow> ('s, int \<times> dbrow list) act"

text \<open>The same connection as the managers use it, without bound values.\<close>

definition unbound :: "'s driver \<Rightarrow> 's connection" where
  "unbound conn sql = map_act (\<lambda>(n, rows). CountRows n rows) (conn sql [])"

definition fetch_dicts :: "'s driver \<Rightarrow> string \<Rightarrow> tval list \<Rightarrow> ('s, (string \<times> tval) list list) act" where
  "fetch_dicts conn sql values =
     bind_act (handle (conn sql values) [Exception_cls] (\<lambda>_. throw TimescaleError))
       (\<lambda>(n, rows). lift_res (map_res dict_of_row rows))"

definition DIMENSION_SQL :: string where
  "DIMENSION_SQL = ''SELECT 1 FROM timescaledb_information.dimensions ''
     @ ''WHERE hypertable_name = $1 AND column_name = $2''"

definition has_dimension :: "'s driver \<Rightarrow> stream_model \<Rightarrow> ('s, bool) act" where
  "has_dimension conn cls =
     bind_act (fetch_dicts conn DIMENSION_SQL [TText (sm_table cls), TText (sm_stream_field cls)])
       (\<lambda>rows. ret (rows \<noteq> []))"

definition COMPRESSION_SQL :: string where
  "COMPRESSION_SQL = ''SELECT compression_enabled FROM timescaledb_information.hypertables ''
     @ ''WHERE hypertable_name = $1''"

definition is_compression_enabled :: "'s driver \<Rightarrow> stream_model \<Rightarrow> ('s, bool) act" where
  "is_compression_enabled conn cls =
     bind_act (fetch_dicts conn COMPRESSION_SQL [TText (sm_table cls)])
       (\<lambda>rows. ret (case rows of [] \<Rightarrow> False | d # _ \<Rightarrow> map_of d ''compression_enabled'' = Some (TBool True)))"

definition index_sql :: "stream_model \<Rightarrow> piece list" where
  "index_sql cls =
     [Text ''CREATE INDEX IF NOT EXISTS '',
      Name (sm_table cls @ ''_'' @ sm_stream_field cls @ ''_'' @ sm_time_field cls @ ''_idx''),
      Text '' ON '', Name (sm_table cls), Text '' ('', Name (sm_stream_field cls), Text '', '',
      Name (sm_time_field cls), Text '' DESC)'']"

definition setup_stream :: "'s driver \<Rightarrow> stream_model \<Rightarrow> ('s, unit) act" where
  "setup_stream conn cls =
     bind_act (lift_res (table_field cls (sm_time_field cls))) (\<lambda>_.
     bind_act (lift_res (table_field cls (sm_stream_field cls))) (\<lambda>_.
     bind_act (create_hypertable (unbound conn) (sm_table cls) (sm_time_field cls)
                 (sm_chunk_time_interval cls) True False) (\<lambda>_.
     bind_act (case sm_number_partitions cls of
                 None \<Rightarrow> ret ()
               | Some n \<Rightarrow> bind_act (has_dimension conn cls) (\<lambda>found.
                   if found then ret ()
                   else add_dimension (unbound conn) (sm_table cls) (sm_stream_field cls) None (Some n))) (\<lambda>_.
     bind_act (conn (render (index_sql cls)) []) (\<lambda>_.
     bind_act (case sm_compress_after cls of
                 None \<Rightarrow> ret ()
               | Some after \<Rightarrow>
                   bind_act (bind_act (is_compression_enabled conn cls) (\<lambda>on.
                     if on then ret () else enable_compression (unbound conn) (sm_table cls))) (\<lambda>_.
                   add_compression_policy (unbound conn) (sm_table cls) after True)) (\<lambda>_.
     (case sm_drop_after cls of
        None \<Rightarrow> ret ()
      | Some after \<Rightarrow> set_retention (unbound conn) (sm_table cls) after True)))))))"

section \<open>\<open>bulk_insert\<close>\<close>

text \<open>An attribute of an instance is \<open>DatabaseDefault\<close>, \<open>None\<close> or a value. \<open>to_db_value\<close> of a field may
  set attributes of the instance it is given.\<close>

datatype attribute = VDefault | VNone | VPy tval

record stream_instance =
  si_attr :: "string \<Rightarrow> attribute"
  si_saved :: bool

type_synonym to_db = "string \<Rightarrow> attribute \<Rightarrow> stream_instance \<Rightarrow> exc + (tval \<times> stream_instance)"

definition assert_pk_present :: "stream_model \<Rightarrow> stream_instance list \<Rightarrow> exc + unit" where
  "assert_pk_present cls instances =
     (if list_ex (\<lambda>i. si_attr i (sm_pk_attr cls) = VNone) instances then Inl ValueError else Inr ())"

definition copy_db_fields :: "stream_model \<Rightarrow> string list" where
  "copy_db_fields cls =
     filter (\<lambda>n. n \<in> set (sm_db_fields cls) \<and> n \<notin> set (sm_relations cls)) (map fst (sm_fields cls))"

definition has_db_default :: "stream_model \<Rightarrow> string \<Rightarrow> bool" where
  "has_db_default cls n = (case map_of (sm_fields cls) n of None \<Rightarrow> False | Some f \<Rightarrow> sf_db_default f)"

text \<open>The loop over the instances, which raises as soon as both uses have been seen.\<close>

fun default_usage :: "string \<Rightarrow> stream_instance list \<Rightarrow> bool \<Rightarrow> bool \<Rightarrow> exc + bool \<times> bool" where
  "default_usage field_name [] has_default has_value = Inr (has_default, has_value)"
| "default_usage field_name (i # is) has_default has_value =
     (let has_default = (has_default \<or> si_attr i field_name = VDefault);
          has_value = (has_value \<or> si_attr i field_name \<noteq> VDefault)
      in if has_default \<and> has_value then Inl OperationalError
         else default_usage field_name is has_default has_value)"

fun omit_loop :: "stream_instance list \<Rightarrow> string list \<Rightarrow> string list \<Rightarrow> exc + string list" where
  "omit_loop instances [] omit = Inr omit"
| "omit_loop instances (f # fs) omit =
     bind_res (default_usage f instances False False) (\<lambda>(has_default, has_value).
       omit_loop instances fs (if has_default \<and> \<not> has_value then omit @ [f] else omit))"

definition omit_db_default_fields ::
  "stream_model \<Rightarrow> stream_instance list \<Rightarrow> string list \<Rightarrow> exc + string list" where
  "omit_db_default_fields cls instances db_fields =
     omit_loop instances (filter (has_db_default cls) db_fields) []"

fun copy_record :: "to_db \<Rightarrow> string list \<Rightarrow> (stream_instance, tval list) act" where
  "copy_record conv [] i = (Inr [], i)"
| "copy_record conv (n # ns) i =
     (case conv n (si_attr i n) i of
        Inl e \<Rightarrow> (Inl e, i)
      | Inr (v, i') \<Rightarrow> (case copy_record conv ns i' of (r, i'') \<Rightarrow> (map_sum id (Cons v) r, i'')))"

fun copy_records :: "to_db \<Rightarrow> string list \<Rightarrow> (stream_instance list, tval list list) act" where
  "copy_records conv names [] = (Inr [], [])"
| "copy_records conv names (i # is) =
     (case copy_record conv names i of
        (Inl e, i') \<Rightarrow> (Inl e, i' # is)
      | (Inr r, i') \<Rightarrow> (case copy_records conv names is of (rs, is') \<Rightarrow> (map_sum id (Cons r) rs, i' # is')))"

definition bulk_insert ::
  "to_db \<Rightarrow> (string \<Rightarrow> string list \<Rightarrow> tval list list \<Rightarrow> ('s, unit) act) \<Rightarrow> stream_model
     \<Rightarrow> (stream_instance list \<times> 's, int) act" where
  "bulk_insert conv copy cls st =
     (let (instances, db) = st in
      if instances = [] then (Inr 0, st)
      else case assert_pk_present cls instances of
        Inl e \<Rightarrow> (Inl e, st)
      | Inr _ \<Rightarrow>
          (let db_fields = copy_db_fields cls in
           case omit_db_default_fields cls instances db_fields of
             Inl e \<Rightarrow> (Inl e, st)
           | Inr omit_fields \<Rightarrow>
               (let db_fields = filter (\<lambda>n. n \<notin> set omit_fields) db_fields;
                    columns = map (orm_column cls) db_fields
                in case copy_records conv db_fields instances of
                     (Inl e, instances) \<Rightarrow> (Inl e, (instances, db))
                   | (Inr records, instances) \<Rightarrow>
                       (case copy (sm_table cls) columns records db of
                          (Inl e, db) \<Rightarrow> (Inl e, (instances, db))
                        | (Inr _, db) \<Rightarrow>
                            (Inr (int (length instances)), (map (\<lambda>i. i\<lparr>si_saved := True\<rparr>) instances, db))))))"

section \<open>The catalog of the server\<close>

record catalog =
  cat_hypertable :: bool
  cat_dimension :: bool
  cat_index :: bool
  cat_compression :: bool
  cat_compression_policy :: bool
  cat_retention :: bool

text \<open>A statement with \<open>if_not_exists\<close> always succeeds; a dimension can be added once, and compression
  is enabled once; the two lookups report the catalog.\<close>

definition succeeds :: "('s, int \<times> dbrow list) act \<Rightarrow> ('s \<Rightarrow> catalog) \<Rightarrow> (catalog \<Rightarrow> catalog) \<Rightarrow> 's \<Rightarrow> bool" where
  "succeeds stmt view f s \<longleftrightarrow> (\<exists>r t. stmt s = (Inr r, t) \<and> view t = f (view s))"

locale stream_server =
  fixes conn :: "'s driver" and cls :: stream_model and view :: "'s \<Rightarrow> catalog"
  assumes create_law: "succeeds (conn (render (create_hypertable_sql (sm_table cls) (sm_time_field cls)
        (sm_chunk_time_interval cls) True False)) []) view (\<lambda>c. c\<lparr>cat_hypertable := True\<rparr>) s"
    and dimension_law: "\<exists>n rows ds. conn DIMENSION_SQL [TText (sm_table cls), TText (sm_stream_field cls)] s
        = (Inr (n, rows), s) \<and> map_res dict_of_row rows = Inr ds \<and> (rows \<noteq> [] \<longleftrightarrow> cat_dimension (view s))"
    and add_law: "cat_hypertable (view s) \<Longrightarrow> \<not> cat_dimension (view s) \<Longrightarrow> sm_number_partitions cls = Some k \<Longrightarrow>
        add_dimension_sql (sm_table cls) (sm_stream_field cls) None (Some k) = Inr sql \<Longrightarrow>
        succeeds (conn (render sql) []) view (\<lambda>c. c\<lparr>cat_dimension := True\<rparr>) s"
    and index_law: "succeeds (conn (render (index_sql cls)) []) view (\<lambda>c. c\<lparr>cat_index := True\<rparr>) s"
    and compression_law: "cat_hypertable (view s) \<Longrightarrow> \<exists>n d. conn COMPRESSION_SQL [TText (sm_table cls)] s
        = (Inr (n, [RecordRow d]), s) \<and> map_of d ''compression_enabled'' = Some (TBool (cat_compression (view s)))"
    and enable_law: "cat_hypertable (view s) \<Longrightarrow> \<not> cat_compression (view s) \<Longrightarrow>
        succeeds (conn (render (enable_compression_sql (sm_table cls))) []) view (\<lambda>c. c\<lparr>cat_compression := True\<rparr>) s"
    and policy_law: "cat_compression (view s) \<Longrightarrow> sm_compress_after cls = Some after \<Longrightarrow>
        succeeds (conn (render (add_compression_policy_sql (sm_table cls) after True)) []) view
          (\<lambda>c. c\<lparr>cat_compression_policy := True\<rparr>) s"
    and retention_law: "cat_hypertable (view s) \<Longrightarrow> sm_drop_after cls = Some after \<Longrightarrow>
        succeeds (conn (render (set_retention_sql (sm_table cls) after True)) []) view (\<lambda>c. c\<lparr>cat_retention := True\<rparr>) s"
begin

text \<open>A manager call whose statement succeeds.\<close>

lemma run_unbound:
  assumes "succeeds (conn sql []) view f s"
  shows "\<exists>t. bind_act (run_statement (unbound conn) sql) (\<lambda>_. ret ()) s = (Inr (), t) \<and> view t = f (view s)"
  using assms by (auto simp: succeeds_def run_statement_def unbound_def act_defs)

lemma create_runs:
  "\<exists>t. create_hypertable (unbound conn) (sm_table cls) (sm_time_field cls) (sm_chunk_time_interval cls) True False s
     = (Inr (), t) \<and> view t = (view s)\<lparr>cat_hypertable := True\<rparr>"
  unfolding create_hypertable_def by (rule run_unbound [OF create_law])

lemma dimension_runs: "has_dimension conn cls s = (Inr (cat_dimension (view s)), s)"
proof -
  obtain n rows ds where "conn DIMENSION_SQL [TText (sm_table cls), TText (sm_stream_field cls)] s = (Inr (n, rows), s)"
    "map_res dict_of_row rows = Inr ds" "rows \<noteq> [] \<longleftrightarrow> cat_dimension (view s)"
    using dimension_law by blast
  moreover from this(2) have "length ds = length rows" by (rule map_res_length)
  ultimately show ?thesis by (auto simp: has_dimension_def fetch_dicts_def act_defs)
qed

lemma add_runs:
  assumes "cat_hypertable (view s)" "\<not> cat_dimension (view s)" "sm_number_partitions cls = Some k"
  shows "\<exists>t. add_dimension (unbound conn) (sm_table cls) (sm_stream_field cls) None (Some k) s = (Inr (), t)
    \<and> view t = (view s)\<lparr>cat_dimension := True\<rparr>"
proof -
  obtain sql where sql: "add_dimension_sql (sm_table cls) (sm_stream_field cls) None (Some k) = Inr sql"
    by (simp add: add_dimension_sql_def truthy_def)
  show ?thesis
    using run_unbound [OF add_law [OF assms sql]] by (simp add: add_dimension_def sql act_simps)
qed

lemma compression_runs:
  assumes "cat_hypertable (view s)"
  shows "is_compression_enabled conn cls s = (Inr (cat_compression (view s)), s)"
  using compression_law [OF assms]
  by (auto simp: is_compression_enabled_def fetch_dicts_def act_defs dict_of_row_def)

lemma enable_runs:
  assumes "cat_hypertable (view s)" "\<not> cat_compression (view s)"
  shows "\<exists>t. enable_compression (unbound conn) (sm_table cls) s = (Inr (), t)
    \<and> view t = (view s)\<lparr>cat_compression := True\<rparr>"
  unfolding enable_compression_def by (rule run_unbound [OF enable_law [OF assms]])

lemma policy_runs:
  assumes "cat_compression (view s)" "sm_compress_after cls = Some after"
  shows "\<exists>t. add_compression_policy (unbound conn) (sm_table cls) after True s = (Inr (), t)
    \<and> view t = (view s)\<lparr>cat_compression_policy := True\<rparr>"
  unfolding add_compression_policy_def by (rule run_unbound [OF policy_law [OF assms]])

lemma retention_runs:
  assumes "cat_hypertable (view s)" "sm_drop_after cls = Some after"
  shows "\<exists>t. set_retention (unbound conn) (sm_table cls) after True s = (Inr (), t)
    \<and> view t = (view s)\<lparr>cat_retention := True\<rparr>"
  unfolding set_retention_def by (rule run_unbound [OF retention_law [OF assms]])

end

text \<open>The catalog after a setup.\<close>

definition set_up :: "stream_model \<Rightarrow> catalog \<Rightarrow> catalog" where
  "set_up cls c = \<lparr>cat_hypertable = True,
     cat_dimension = (cat_dimension c \<or> sm_number_partitions cls \<noteq> None),
     cat_index = True,
     cat_compression = (cat_compression c \<or> sm_compress_after cls \<noteq> None),
     cat_compression_policy = (cat_compression_policy c \<or> sm_compress_after cls \<noteq> None),
     cat_retention = (cat_retention c \<or> sm_drop_after cls \<noteq> None)\<rparr>"

context stream_server begin

lemma setup_runs:
  assumes "{sm_time_field cls, sm_stream_field cls} \<subseteq> fst ` set (sm_fields cls)"
  shows "\<exists>t. setup_stream conn cls s = (Inr (), t) \<and> view t = set_up cls (view s)"
proof -
  obtain s1 where s1: "create_hypertable (unbound conn) (sm_table cls) (sm_time_field cls)
      (sm_chunk_time_interval cls) True False s = (Inr (), s1)" "view s1 = (view s)\<lparr>cat_hypertable := True\<rparr>"
    using create_runs by blast
  have hyper: "cat_hypertable (view s1)" by (simp add: s1(2))
  obtain s2 where s2: "(case sm_number_partitions cls of None \<Rightarrow> ret ()
      | Some n \<Rightarrow> bind_act (has_dimension conn cls) (\<lambda>found. if found then ret ()
          else add_dimension (unbound conn) (sm_table cls) (sm_stream_field cls) None (Some n))) s1 = (Inr (), s2)"
    "view s2 = (view s1)\<lparr>cat_dimension := cat_dimension (view s1) \<or> sm_number_partitions cls \<noteq> None\<rparr>"
  proof (cases "sm_number_partitions cls")
    case (Some n)
    show ?thesis
    proof (cases "cat_dimension (view s1)")
      case True
      then show ?thesis using that [of s1] dimension_runs [of s1] Some by (simp add: act_simps)
    next
      case False
      then obtain t where "add_dimension (unbound conn) (sm_table cls) (sm_stream_field cls) None (Some n) s1 = (Inr (), t)"
        "view t = (view s1)\<lparr>cat_dimension := True\<rparr>" using add_runs [OF hyper False Some] by blast
      then show ?thesis using that [of t] dimension_runs [of s1] Some False by (simp add: act_simps)
    qed
  qed (use that [of s1] in \<open>simp add: act_simps\<close>)
  obtain r s3 where s3: "conn (render (index_sql cls)) [] s2 = (Inr r, s3)" "view s3 = (view s2)\<lparr>cat_index := True\<rparr>"
    using index_law unfolding succeeds_def by blast
  have hyper3: "cat_hypertable (view s3)" by (simp add: s3(2) s2(2) hyper)
  obtain s4 where s4: "(case sm_compress_after cls of None \<Rightarrow> ret ()
      | Some after \<Rightarrow> bind_act (bind_act (is_compression_enabled conn cls) (\<lambda>on.
            if on then ret () else enable_compression (unbound conn) (sm_table cls)))
          (\<lambda>_. add_compression_policy (unbound conn) (sm_table cls) after True)) s3 = (Inr (), s4)"
    "view s4 = (view s3)\<lparr>cat_compression := cat_compression (view s3) \<or> sm_compress_after cls \<noteq> None,
       cat_compression_policy := cat_compression_policy (view s3) \<or> sm_compress_after cls \<noteq> None\<rparr>"
  proof (cases "sm_compress_after cls")
    case (Some after)
    obtain t where t: "bind_act (is_compression_enabled conn cls) (\<lambda>on.
          if on then ret () else enable_compression (unbound conn) (sm_table cls)) s3 = (Inr (), t)"
      "view t = (view s3)\<lparr>cat_compression := True\<rparr>"
    proof (cases "cat_compression (view s3)")
      case True
      then show ?thesis using that [of s3] compression_runs [OF hyper3] by (simp add: act_simps)
    next
      case False
      then show ?thesis using that enable_runs [OF hyper3 False] compression_runs [OF hyper3] by (auto simp: act_simps)
    qed
    then obtain u where "add_compression_policy (unbound conn) (sm_table cls) after True t = (Inr (), u)"
      "view u = (view t)\<lparr>cat_compression_policy := True\<rparr>" using policy_runs [of t, OF _ Some] by auto
    then show ?thesis using that [of u] t Some by (simp add: act_simps)
  qed (use that [of s3] in \<open>simp add: act_simps\<close>)
  have hyper4: "cat_hypertable (view s4)" by (simp add: s4(2) hyper3)
  obtain s5 where s5: "(case sm_drop_after cls of None \<Rightarrow> ret ()
      | Some after \<Rightarrow> set_retention (unbound conn) (sm_table cls) after True) s4 = (Inr (), s5)"
    "view s5 = (view s4)\<lparr>cat_retention := cat_retention (view s4) \<or> sm_drop_after cls \<noteq> None\<rparr>"
  proof (cases "sm_drop_after cls")
    case (Some after)
    then show ?thesis using that retention_runs [OF hyper4 Some] by auto
  qed (use that [of s4] in \<open>simp add: act_simps\<close>)
  have "setup_stream conn cls s = (Inr (), s5)"
    using assms unfolding setup_stream_def
    by (simp add: table_field_def act_simps s1(1) s2(1) s3(1) s4(1) s5(1))
  moreover have "view s5 = set_up cls (view s)"
    unfolding s5(2) s4(2) s3(2) s2(2) s1(2) set_up_def by (cases "view s") simp
  ultimately show ?thesis by blast
qed

end

end
