(* ===== verification/Event_Properties.thy ===== *)
theory Event_Properties
  imports Event_Stream
begin

text \<open>
  What the event-stream queries return: the width a bucket text denotes, the newest event of every
  stream, and rollups that partition the events of a range.
\<close>

section \<open>Placeholders\<close>

lemma list_ex_positions: "list_ex (\<lambda>p. Q (p - 1)) (positions a b) \<longleftrightarrow> (\<exists>i. a \<le> i \<and> i < b \<and> Q i)"
proof -
  have "list_ex (\<lambda>p. Q (p - 1)) (map (\<lambda>i. i + 1) xs) = list_ex Q xs" for xs by (induction xs) auto
  note shift = this
  show ?thesis unfolding positions_def shift by (auto simp: list_ex_iff)
qed

lemma holds_In_list:
  "holds (pre @ map PKey ids @ post) r (In_list c (positions (length pre) (length pre + length ids)))
     \<longleftrightarrow> se_stream r c \<in> set ids"
proof -
  have "(\<exists>i. length pre \<le> i \<and> i < length pre + length ids \<and> (pre @ map PKey ids @ post) ! i = PKey s)
      \<longleftrightarrow> (\<exists>j < length ids. ids ! j = s)" for s
  proof
    assume "\<exists>i. length pre \<le> i \<and> i < length pre + length ids \<and> (pre @ map PKey ids @ post) ! i = PKey s"
    then obtain i where i: "length pre \<le> i" "i < length pre + length ids" "(pre @ map PKey ids @ post) ! i = PKey s"
      by blast
    moreover from i have "i - length pre < length ids" by linarith
    ultimately have "ids ! (i - length pre) = s" by (simp add: nth_append)
    then show "\<exists>j < length ids. ids ! j = s" using i by (intro exI [of _ "i - length pre"]) auto
  next
    assume "\<exists>j < length ids. ids ! j = s"
    then obtain j where "j < length ids" "ids ! j = s" by blast
    then show "\<exists>i. length pre \<le> i \<and> i < length pre + length ids \<and> (pre @ map PKey ids @ post) ! i = PKey s"
      by (intro exI [of _ "length pre + j"]) (simp add: nth_append)
  qed
  then show ?thesis
    unfolding holds.simps list_ex_positions [of "\<lambda>i. (pre @ map PKey ids @ post) ! i = PKey (se_stream r c)"]
    by (simp add: in_set_conv_nth)
qed

declare holds.simps [simp del]

lemma holds_simps [simp]:
  "holds (map PKey ids) r (In_list c (positions 0 (length ids))) \<longleftrightarrow> se_stream r c \<in> set ids"
  "holds (map PKey ids @ [PTime t]) r (In_list c (positions 0 (length ids))) \<longleftrightarrow> se_stream r c \<in> set ids"
  "holds (map PKey ids @ [PTime t]) r (At_least c (Suc (length ids))) \<longleftrightarrow> t \<le> se_time r c"
  "holds [PTime t] r (At_least c (Suc 0)) \<longleftrightarrow> t \<le> se_time r c"
  "holds (PInterval w # PTime b # PTime e # ps) r (At_least c 2) \<longleftrightarrow> b \<le> se_time r c"
  "holds (PInterval w # PTime b # PTime e # ps) r (Less_than c 3) \<longleftrightarrow> se_time r c < e"
  "holds (PInterval w # PTime b # PTime e # map PKey ids) r (In_list c (positions (Suc (Suc (Suc 0))) (Suc (Suc (Suc (length ids))))))
     \<longleftrightarrow> se_stream r c \<in> set ids"
  using holds_In_list [of "[]" ids "[]"] holds_In_list [of "[]" ids "[PTime t]"]
    holds_In_list [of "[PInterval w, PTime b, PTime e]" ids "[]"]
  by (simp_all add: holds.simps nth_append numeral_3_eq_3 del: One_nat_def)

definition wanted :: "stream_model \<Rightarrow> 'k list option \<Rightarrow> 'k stored_event \<Rightarrow> bool" where
  "wanted cls stream_ids r \<longleftrightarrow> (case stream_ids of None \<Rightarrow> True | Some ids \<Rightarrow> se_stream r (sm_stream_field cls) \<in> set ids)"

definition since :: "stream_model \<Rightarrow> int option \<Rightarrow> 'k stored_event \<Rightarrow> bool" where
  "since cls after r \<longleftrightarrow> (case after of None \<Rightarrow> True | Some t \<Rightarrow> t \<le> se_time r (sm_time_field cls))"

lemma select_latest:
  "select_where tbl (fst (latest_conds cls stream_ids after)) (snd (latest_conds cls stream_ids after))
     = filter (\<lambda>r. wanted cls stream_ids r \<and> since cls after r) (st_rows tbl)"
  by (auto simp: select_where_def latest_conds_def add_streams_def wanted_def since_def Let_def
      split: option.splits intro!: filter_cong)

lemma select_series:
  "select_where tbl (fst (series_conds cls w begin finish stream_ids)) (snd (series_conds cls w begin finish stream_ids))
     = filter (\<lambda>r. wanted cls stream_ids r \<and> begin \<le> se_time r (sm_time_field cls)
                 \<and> se_time r (sm_time_field cls) < finish) (st_rows tbl)"
  by (auto simp: select_where_def series_conds_def add_streams_def wanted_def Let_def
      split: option.splits intro!: filter_cong)

section \<open>\<open>DISTINCT ON\<close>\<close>

lemma distinct_on_elem: "x \<in> set (distinct_on key seen rs) \<Longrightarrow> x \<in> set rs \<and> key x \<notin> set seen"
  by (induction rs arbitrary: seen) (force split: if_splits)+

lemma distinct_on_image: "key ` set (distinct_on key seen rs) = key ` set rs - set seen"
proof (induction rs arbitrary: seen)
  case (Cons r rs)
  show ?case
  proof (cases "key r \<in> set seen")
    case False
    then have "key ` set (distinct_on key seen (r # rs)) = insert (key r) (key ` set rs - insert (key r) (set seen))"
      using Cons [of "key r # seen"] by simp
    then show ?thesis using False by auto
  qed (use Cons [of seen] in auto)
qed simp

lemma distinct_on_subseq: "subseq (distinct_on key seen rs) rs"
  by (induction rs arbitrary: seen) auto

lemma distinct_on_keys: "distinct (map key (distinct_on key seen rs))"
proof (induction rs arbitrary: seen)
  case (Cons r rs)
  have "key r \<notin> key ` set (distinct_on key (key r # seen) rs)" using distinct_on_image [of key "key r # seen" rs] by auto
  with Cons show ?case by simp
qed simp

lemma distinct_on_first:
  "sorted (map f rs) \<Longrightarrow> r \<in> set (distinct_on key seen rs) \<Longrightarrow> r' \<in> set rs \<Longrightarrow> key r' = key r \<Longrightarrow> f r \<le> f r'"
proof (induction rs arbitrary: seen)
  case (Cons x rs)
  show ?case
  proof (cases "key x \<in> set seen")
    case True
    then have r: "r \<in> set (distinct_on key seen rs)" using Cons.prems by simp
    then have "r' \<noteq> x" using distinct_on_elem [OF r] True Cons.prems(4) by auto
    then show ?thesis using Cons.IH [OF _ r] Cons.prems by auto
  next
    case False
    show ?thesis
    proof (cases "r = x")
      case True
      then show ?thesis using Cons.prems by auto
    next
      case rx: False
      then have r: "r \<in> set (distinct_on key (key x # seen) rs)" using Cons.prems False by simp
      then have "r' \<noteq> x" using distinct_on_elem [OF r] Cons.prems(4) by auto
      then show ?thesis using Cons.IH [OF _ r] Cons.prems by auto
    qed
  qed
qed simp

lemma sorted_subseq: "subseq xs ys \<Longrightarrow> sorted (map f ys) \<Longrightarrow> sorted (map f xs)"
  by (induction rule: list_emb.induct) (auto dest: list_emb_set)

section \<open>Bucket widths\<close>

lemma rstrip_plural:
  "u \<noteq> [] \<Longrightarrow> last u \<noteq> c \<Longrightarrow> rstrip_char c (u @ replicate k c) = u"
proof (cases u rule: rev_cases)
  case (snoc ys y)
  have "dropWhile (\<lambda>x. x = c) (replicate k c @ xs) = dropWhile (\<lambda>x. x = c) xs" for xs by (induction k) auto
  moreover assume "last u \<noteq> c"
  ultimately show ?thesis using snoc by (simp add: rstrip_char_def)
qed simp

lemma unit_facts:
  "(u, m) \<in> set BUCKET_UNITS \<Longrightarrow> u \<noteq> [] \<and> last u \<noteq> CHR ''s'' \<and> list_all (\<lambda>c. \<not> is_space c) u \<and> 0 < m"
  by (auto simp: BUCKET_UNITS_def is_space_def)

lemma distinct_units: "distinct (map fst BUCKET_UNITS)"
  by (simp add: BUCKET_UNITS_def)

lemma timedelta_range: "timedelta w = Inr v \<Longrightarrow> v = w \<and> w < 86400000000 * 1000000000"
  by (auto simp: timedelta_def split: if_splits)


section \<open>The newest event of every stream\<close>

text \<open>The rows a specification of \<open>latest_per_stream\<close> asks for: for every stream with a wanted row
  one of its newest, in the order of the streams.\<close>

definition newest_rows :: "stream_model \<Rightarrow> ('k :: linorder) stored_event set \<Rightarrow> 'k stored_event list \<Rightarrow> bool" where
  "newest_rows cls M rows \<longleftrightarrow>
     sorted_wrt (<) (map (\<lambda>r. se_stream r (sm_stream_field cls)) rows)
     \<and> set rows \<subseteq> M
     \<and> (\<forall>r \<in> M. \<exists>r' \<in> set rows. se_stream r' (sm_stream_field cls) = se_stream r (sm_stream_field cls)
          \<and> se_time r (sm_time_field cls) \<le> se_time r' (sm_time_field cls))"

lemma distinct_on_newest:
  fixes rows :: "('k :: linorder) stored_event list"
  shows "newest_rows cls (set rows)
    (distinct_on (\<lambda>r. se_stream r (sm_stream_field cls)) []
      (sort_key (\<lambda>r. (se_stream r (sm_stream_field cls), - se_time r (sm_time_field cls))) rows))"
proof -
  let ?s = "\<lambda>r. se_stream r (sm_stream_field cls)" and ?t = "\<lambda>r. se_time r (sm_time_field cls)"
  let ?f = "\<lambda>r. (?s r, - ?t r)"
  let ?all = "sort_key ?f rows"
  let ?out = "distinct_on ?s [] ?all"
  have sorted: "sorted (map ?f ?all)" by simp
  have firsts: "sorted (map fst ys)" if "sorted ys" for ys :: "('k \<times> int) list"
    unfolding sorted_map by (rule sorted_wrt_mono_rel [OF _ that]) (metis less_eq_prod_def order.strict_implies_order order.refl)
  have "sorted (map ?s ?all)" using firsts [OF sorted] unfolding map_map comp_def fst_conv .
  then have "sorted (map ?s ?out)" by (rule sorted_subseq [OF distinct_on_subseq])
  then have "sorted_wrt (<) (map ?s ?out)" using distinct_on_keys by (simp add: strict_sorted_iff)
  moreover have "set ?out \<subseteq> set rows" using distinct_on_elem by fastforce
  moreover have "\<exists>r' \<in> set ?out. ?s r' = ?s r \<and> ?t r \<le> ?t r'" if r: "r \<in> set rows" for r
  proof -
    have "?s r \<in> ?s ` set ?out" using r by (simp add: distinct_on_image)
    then obtain r' where r': "r' \<in> set ?out" "?s r = ?s r'" by blast
    have "?f r' \<le> ?f r" by (rule distinct_on_first [OF sorted r'(1)]) (use r r' in simp_all)
    then show ?thesis using r' by (auto simp: less_eq_prod_def)
  qed
  ultimately show ?thesis unfolding newest_rows_def by blast
qed

definition declared :: "stream_model \<Rightarrow> 'k stream_table \<Rightarrow> bool" where
  "declared cls tbl \<longleftrightarrow> {sm_time_field cls, sm_stream_field cls} \<subseteq> fst ` set (sm_fields cls)
     \<and> {sm_time_field cls, sm_stream_field cls} \<subseteq> set (st_columns tbl)"

text \<open>\<open>latest_per_stream\<close> returns for every stream with an event that matches the filters one of its
  newest such events, in the order of the streams, of which a limit keeps the first.\<close>

theorem latest_per_stream_exact:
  assumes "declared cls tbl" "limit = None \<or> (\<exists>n \<ge> 0. limit = Some n)"
  shows "\<exists>rows. newest_rows cls {r \<in> set (st_rows tbl). wanted cls stream_ids r \<and> since cls after r} rows
    \<and> latest_per_stream cls tbl stream_ids after limit
       = Inr (map (\<lambda>r. row_to_model_kwargs cls (se_columns r))
                (case limit of None \<Rightarrow> rows | Some n \<Rightarrow> take (nat n) rows))"
proof (cases "stream_ids = Some []")
  case True
  have "newest_rows cls {r \<in> set (st_rows tbl). wanted cls stream_ids r \<and> since cls after r} []"
    by (simp add: True newest_rows_def wanted_def)
  then show ?thesis
    using assms(1) True by (intro exI [of _ "[]"]) (auto simp: latest_per_stream_def table_field_def declared_def split: option.split)
next
  case False
  let ?sel = "filter (\<lambda>r. wanted cls stream_ids r \<and> since cls after r) (st_rows tbl)"
  let ?rows = "distinct_on (\<lambda>r. se_stream r (sm_stream_field cls)) []
      (sort_key (\<lambda>r. (se_stream r (sm_stream_field cls), - se_time r (sm_time_field cls))) ?sel)"
  have "newest_rows cls {r \<in> set (st_rows tbl). wanted cls stream_ids r \<and> since cls after r} ?rows"
    using distinct_on_newest [of cls ?sel] by (simp add: conj_commute)
  moreover have "latest_rows cls tbl stream_ids after limit
      = Inr (case limit of None \<Rightarrow> ?rows | Some n \<Rightarrow> take (nat n) ?rows)"
    using assms select_latest [of tbl cls stream_ids after]
    by (auto simp: latest_rows_def checked_def declared_def split_beta Let_def)
  ultimately show ?thesis
    using assms(1) False
    by (intro exI [of _ ?rows]) (simp add: latest_per_stream_def table_field_def declared_def fetch_rows_def)
qed

section \<open>Rollups\<close>

lemma sum_group_lengths:
  "sum_list (map (\<lambda>k. length (filter (\<lambda>r. key r = k) xs)) (sort (remdups (map key xs)))) = length xs"
proof -
  have one: "length (filter (\<lambda>r. key r = k) xs) = count (mset (map key xs)) k" for k
    by (induction xs) auto
  let ?ks = "sort (remdups (map key xs))"
  have "sum_list (map (\<lambda>k. length (filter (\<lambda>r. key r = k) xs)) ?ks) = (\<Sum>k \<in> set ?ks. count (mset (map key xs)) k)"
    unfolding one by (rule sum_list_distinct_conv_sum_set) simp
  also have "\<dots> = size (mset (map key xs))"
    unfolding size_multiset_overloaded_eq by (rule sum.cong) auto
  finally show ?thesis by simp
qed

lemma in_range_rows:
  assumes "declared cls tbl" "orm_column cls (sm_time_field cls) = sm_time_field cls"
    "orm_column cls (sm_stream_field cls) = sm_stream_field cls"
  shows "\<exists>rs. in_range cls tbl begin finish stream_ids = Inr rs
    \<and> mset rs = mset (filter (\<lambda>r. wanted cls stream_ids r \<and> begin \<le> se_time r (sm_time_field cls)
                 \<and> se_time r (sm_time_field cls) < finish) (st_rows tbl))
    \<and> sorted (map (\<lambda>r. - se_time r (sm_time_field cls)) rs)"
proof -
  let ?q = "filter (\<lambda>r. begin \<le> se_time r (sm_time_field cls) \<and> se_time r (sm_time_field cls) < finish) (st_rows tbl)"
  let ?q' = "filter (wanted cls stream_ids) ?q"
  have "(case stream_ids of None \<Rightarrow> ?q
      | Some ids \<Rightarrow> filter (\<lambda>r. se_stream r (sm_stream_field cls) \<in> set ids) ?q) = ?q'"
    by (simp add: wanted_def [abs_def] split: option.split)
  then have run: "in_range cls tbl begin finish stream_ids = Inr (sort_key (\<lambda>r. - se_time r (sm_time_field cls)) ?q')"
    using assms by (simp add: in_range_def table_field_def declared_def Let_def cong: option.case_cong)
  have eq: "?q' = filter (\<lambda>r. wanted cls stream_ids r \<and> begin \<le> se_time r (sm_time_field cls)
      \<and> se_time r (sm_time_field cls) < finish) (st_rows tbl)"
    unfolding filter_filter by (rule filter_cong) blast+
  show ?thesis unfolding eq [symmetric] by (rule exI, rule conjI [OF run conjI [OF mset_sort sorted_sort_key]])
qed

lemma map_res_Inr: "(\<And>x. f x = Inr (g x)) \<Longrightarrow> map_res f xs = Inr (map g xs)"
  by (rule map_res_total)

lemma mset_filter_length: "mset xs = mset ys \<Longrightarrow> length (filter P xs) = length (filter P ys)"
  by (metis mset_filter size_mset)

text \<open>C30: \<open>time_series\<close> partitions a range: over the events that \<open>in_range\<close> gives for the same
  arguments, newest first, it returns one row per stream and bucket that holds an event, in the
  order of streams and buckets, with the number of events in it, which is the value of a count;
  the numbers of all rows add up to the number of events.\<close>

theorem time_series_partitions:
  assumes "declared cls tbl" "orm_column cls (sm_time_field cls) = sm_time_field cls"
    "orm_column cls (sm_stream_field cls) = sm_stream_field cls"
    and "bucket_to_timedelta bucket = Inr w" "\<And>t. bucket_datetime (sv_fromisoformat sv) (sv_decode sv t) = Inr t"
    and "aggregate = Count \<or> (\<exists>f. field = Some f \<and> f \<in> fst ` set (sm_fields cls) \<and> f \<in> set (st_columns tbl))"
  shows "\<exists>rs out. in_range cls tbl begin finish stream_ids = Inr rs
    \<and> time_series sv cls tbl bucket aggregate field begin finish stream_ids = Inr out
    \<and> sorted_wrt (<) (map (\<lambda>b. (tb_stream b, tb_bucket b)) out)
    \<and> (\<forall>b \<in> set out. 0 < tb_count b
         \<and> tb_count b = length (filter (\<lambda>r. se_stream r (sm_stream_field cls) = tb_stream b
             \<and> sv_time_bucket sv w (se_time r (sm_time_field cls)) = tb_bucket b) rs)
         \<and> (aggregate = Count \<longrightarrow> tb_value b = TInt (int (tb_count b))))
    \<and> sum_list (map tb_count out) = length rs"
proof -
  let ?sel = "filter (\<lambda>r. wanted cls stream_ids r \<and> begin \<le> se_time r (sm_time_field cls)
                 \<and> se_time r (sm_time_field cls) < finish) (st_rows tbl)"
  define key where "key r = (se_stream r (sm_stream_field cls), sv_time_bucket sv w (se_time r (sm_time_field cls)))"
    for r :: "'a stored_event"
  define raw where "raw = series_group sv cls aggregate field w ?sel"
  define row where "row k = (case raw k of (stream, b, value, n) \<Rightarrow>
      \<lparr>tb_stream = stream, tb_bucket = b, tb_value = value, tb_count = n\<rparr>)" for k
  define ks where "ks = sort (remdups (map key ?sel))"
  obtain rs where rs: "in_range cls tbl begin finish stream_ids = Inr rs" "mset rs = mset ?sel"
    using in_range_rows [OF assms(1-3)] by blast
  have count: "tb_count (row k) = length (filter (\<lambda>r. key r = k) ?sel)" "(tb_stream (row k), tb_bucket (row k)) = k"
    "aggregate = Count \<Longrightarrow> tb_value (row k) = TInt (int (tb_count (row k)))" for k
    by (simp_all add: row_def raw_def key_def series_group_def Let_def)
  have "series_rows sv cls tbl aggregate field (series_conds cls w begin finish stream_ids) = Inr (map raw ks)"
  proof -
    have "fst (series_conds cls w begin finish stream_ids) ! 0 = PInterval w"
      by (auto simp: series_conds_def add_streams_def Let_def split: option.split)
    moreover have "set ([sm_stream_field cls, sm_time_field cls] @ (if aggregate = Count then [] else [the field]))
        \<subseteq> set (st_columns tbl)"
      using assms(1,6) by (auto simp: declared_def)
    ultimately show ?thesis
      unfolding series_rows_def split_beta Let_def checked_def raw_def ks_def key_def select_series by simp
  qed
  moreover obtain x where field: "(if aggregate \<noteq> Count then
      (case field of None \<Rightarrow> Inl ValueError | Some f \<Rightarrow> table_field cls f) else Inr []) = Inr x"
  proof (cases "aggregate = Count")
    case False
    then obtain f where "field = Some f" "f \<in> fst ` set (sm_fields cls)" using assms(6) by blast
    then show ?thesis using that False by (simp add: table_field_def)
  qed (use that in simp)
  ultimately have "time_series sv cls tbl bucket aggregate field begin finish stream_ids
      = (if stream_ids = Some [] then Inr [] else Inr (map row ks))"
    using assms(1,4) field
    by (simp add: time_series_def table_field_def declared_def fetch_rows_def assms(5) map_res_Inr split_beta row_def)
  moreover have "ks = []" if "stream_ids = Some []" by (simp add: ks_def that wanted_def)
  ultimately have out: "time_series sv cls tbl bucket aggregate field begin finish stream_ids = Inr (map row ks)"
    by auto
  have "sorted_wrt (<) ks" by (simp add: ks_def strict_sorted_iff)
  then have sorted: "sorted_wrt (<) (map (\<lambda>b. (tb_stream b, tb_bucket b)) (map row ks))"
    unfolding map_map comp_def count(2) by simp
  have rows: "0 < tb_count b
         \<and> tb_count b = length (filter (\<lambda>r. se_stream r (sm_stream_field cls) = tb_stream b
             \<and> sv_time_bucket sv w (se_time r (sm_time_field cls)) = tb_bucket b) rs)
         \<and> (aggregate = Count \<longrightarrow> tb_value b = TInt (int (tb_count b)))" if b: "b \<in> set (map row ks)" for b
  proof -
    obtain k where k: "k \<in> set ks" "b = row k" using b by auto
    then obtain r where r: "r \<in> set ?sel" "key r = k" by (auto simp: ks_def)
    have "filter (\<lambda>r. key r = k) ?sel \<noteq> []" using r by (auto simp: filter_empty_conv)
    then have "0 < tb_count b" unfolding k(2) count(1) by (simp only: length_greater_0_conv not_False_eq_True)
    moreover have "tb_count b = length (filter (\<lambda>r. key r = k) rs)"
      unfolding k(2) count(1) by (rule mset_filter_length) (simp add: rs(2))
    moreover have "key r = k \<longleftrightarrow> se_stream r (sm_stream_field cls) = tb_stream b
        \<and> sv_time_bucket sv w (se_time r (sm_time_field cls)) = tb_bucket b" for r
      using count(2) [of k] by (auto simp: k(2) key_def)
    ultimately show ?thesis using count(3) [of k] k(2) by simp
  qed
  have "sum_list (map tb_count (map row ks)) = length rs"
    unfolding map_map comp_def count(1) ks_def sum_group_lengths using mset_eq_length [OF rs(2)] by simp
  with rs(1) out sorted rows show ?thesis by blast
qed

section \<open>An example\<close>

definition sample_stream :: stream_model where
  "sample_stream = \<lparr>sm_table = ''events'',
     sm_fields = map (\<lambda>n. (n, \<lparr>sf_source = None, sf_db_default = False\<rparr>))
       [''id'', ''created_at'', ''stream_id'', ''value''],
     sm_pk_attr = ''id'', sm_db_fields = [''id'', ''created_at'', ''stream_id'', ''value''], sm_relations = [],
     sm_time_field = ''created_at'', sm_stream_field = ''stream_id'', sm_chunk_time_interval = ''1 day'',
     sm_number_partitions = Some 4, sm_compress_after = None, sm_drop_after = None\<rparr>"

definition sample_event :: "int \<Rightarrow> int \<Rightarrow> int \<Rightarrow> int stored_event" where
  "sample_event i stream t = \<lparr>se_stream = (\<lambda>_. stream), se_time = (\<lambda>_. t),
     se_columns = [(''id'', TInt i), (''created_at'', TInt t), (''stream_id'', TInt stream)]\<rparr>"

definition sample_events :: "int stream_table" where
  "sample_events = \<lparr>st_columns = [''id'', ''created_at'', ''stream_id'', ''value''],
     st_rows = [sample_event 1 7 0, sample_event 2 5 3600000000, sample_event 3 7 60, sample_event 4 5 0]\<rparr>"

definition sample_server :: server where
  "sample_server = \<lparr>sv_time_bucket = (\<lambda>w t. t div w * w), sv_aggregate = (\<lambda>_ _. TNull),
     sv_decode = BDatetime, sv_fromisoformat = (\<lambda>_. Inl ValueError)\<rparr>"

lemma sample_declared:
  "declared sample_stream sample_events"
  "orm_column sample_stream (sm_time_field sample_stream) = sm_time_field sample_stream"
  "orm_column sample_stream (sm_stream_field sample_stream) = sm_stream_field sample_stream"
  by (simp_all add: declared_def sample_stream_def sample_events_def orm_column_def field_db_column_def)


theorem latest_per_stream_exact_witness:
  "\<exists>rows. newest_rows sample_stream {r \<in> set (st_rows sample_events). wanted sample_stream (Some [5, 7]) r} rows
     \<and> latest_per_stream sample_stream sample_events (Some [5, 7]) None (Some 1)
       = Inr (map (\<lambda>r. row_to_model_kwargs sample_stream (se_columns r)) (take 1 rows))"
  using latest_per_stream_exact [OF sample_declared(1), of "Some 1" "Some [5, 7]" None] by (simp add: since_def)

theorem time_series_partitions_witness:
  "\<exists>rs out. in_range sample_stream sample_events 0 7200000000 None = Inr rs
     \<and> time_series sample_server sample_stream sample_events ''1 hour'' Count None 0 7200000000 None = Inr out
     \<and> sum_list (map tb_count out) = length rs"
proof -
  have w: "bucket_to_timedelta ''1 hour'' = Inr 3600000000" by code_simp
  have d: "bucket_datetime (sv_fromisoformat sample_server) (sv_decode sample_server t) = Inr t" for t
    by (simp add: sample_server_def bucket_datetime_def)
  show ?thesis
    using time_series_partitions [OF sample_declared w d, of Count None 0 7200000000 None] by blast
qed

text \<open>The example evaluated: stream 5 comes first although the newest event of stream 7 could be
  newer, and a field stored under another column name breaks the query.\<close>

lemma sample_queries:
  "latest_per_stream sample_stream sample_events None None None
     = Inr [[(''id'', TInt 2), (''created_at'', TInt 3600000000), (''stream_id'', TInt 5)],
            [(''id'', TInt 3), (''created_at'', TInt 60), (''stream_id'', TInt 7)]]"
  "time_series sample_server sample_stream sample_events ''1 hour'' Count None 0 7200000000 None
     = Inr [\<lparr>tb_stream = 5, tb_bucket = 0, tb_value = TInt 1, tb_count = 1\<rparr>,
            \<lparr>tb_stream = 5, tb_bucket = 3600000000, tb_value = TInt 1, tb_count = 1\<rparr>,
            \<lparr>tb_stream = 7, tb_bucket = 0, tb_value = TInt 2, tb_count = 2\<rparr>]"
  by code_simp+

lemma streams_in_order_not_time:
  "latest_per_stream sample_stream
     (sample_events\<lparr>st_rows := [sample_event 1 7 3600000000, sample_event 2 5 0]\<rparr>) None None (Some 1)
   = Inr [[(''id'', TInt 2), (''created_at'', TInt 0), (''stream_id'', TInt 5)]]"
  by code_simp

lemma renamed_column_fails:
  "sm_time_field cls \<notin> set (st_columns tbl) \<Longrightarrow> {sm_time_field cls, sm_stream_field cls} \<subseteq> fst ` set (sm_fields cls) \<Longrightarrow>
     stream_ids \<noteq> Some [] \<Longrightarrow> latest_per_stream cls tbl stream_ids after limit = Inl TimescaleError"
proof -
  have "catches [Exception_cls] OperationalError" by code_simp
  then show "sm_time_field cls \<notin> set (st_columns tbl) \<Longrightarrow>
     {sm_time_field cls, sm_stream_field cls} \<subseteq> fst ` set (sm_fields cls) \<Longrightarrow>
     stream_ids \<noteq> Some [] \<Longrightarrow> latest_per_stream cls tbl stream_ids after limit = Inl TimescaleError"
    by (simp add: latest_per_stream_def table_field_def latest_rows_def checked_def fetch_rows_def split_beta Let_def)
qed

end
