(* ===== verification/Event_Setup.thy ===== *)
theory Event_Setup
  imports Event_Ingest Event_Properties
begin

text \<open>
  What \<open>setup\<close> and \<open>bulk_insert\<close> guarantee: setting a stream table up twice is setting it up once,
  and one \<open>COPY\<close> of well-shaped records or none. A catalog held as a record, dispatching on the text
  of the statements, is the example of a server.
\<close>

section \<open>A catalog as a record\<close>

definition metered :: stream_model where
  "metered = sample_stream\<lparr>sm_compress_after := Some ''7 days'', sm_drop_after := Some ''90 days''\<rparr>"

definition metered_sql :: "string list" where
  "metered_sql =
     [render (create_hypertable_sql (sm_table metered) (sm_time_field metered) (sm_chunk_time_interval metered) True False),
      DIMENSION_SQL,
      (case add_dimension_sql (sm_table metered) (sm_stream_field metered) None (Some 4) of
         Inl e \<Rightarrow> [] | Inr sql \<Rightarrow> render sql),
      render (index_sql metered),
      COMPRESSION_SQL,
      render (enable_compression_sql (sm_table metered)),
      render (add_compression_policy_sql (sm_table metered) ''7 days'' True),
      render (set_retention_sql (sm_table metered) ''90 days'' True)]"

lemma metered_distinct: "distinct metered_sql"
  by code_simp

definition metered_answers :: "(catalog \<Rightarrow> (exc + int \<times> dbrow list) \<times> catalog) list" where
  "metered_answers =
     [\<lambda>c. (Inr (1, []), c\<lparr>cat_hypertable := True\<rparr>),
      \<lambda>c. (Inr (1, if cat_dimension c then [RecordRow [(''column'', TInt 1)]] else []), c),
      \<lambda>c. if cat_dimension c then (Inl OperationalError, c) else (Inr (1, []), c\<lparr>cat_dimension := True\<rparr>),
      \<lambda>c. (Inr (0, []), c\<lparr>cat_index := True\<rparr>),
      \<lambda>c. (Inr (1, [RecordRow [(''compression_enabled'', TBool (cat_compression c))]]), c),
      \<lambda>c. if cat_compression c then (Inl OperationalError, c) else (Inr (0, []), c\<lparr>cat_compression := True\<rparr>),
      \<lambda>c. (Inr (0, []), c\<lparr>cat_compression_policy := True\<rparr>),
      \<lambda>c. (Inr (1, []), c\<lparr>cat_retention := True\<rparr>)]"

definition metered_driver :: "catalog driver" where
  "metered_driver sql values c =
     (case map_of (zip metered_sql metered_answers) sql of None \<Rightarrow> (Inl OperationalError, c) | Some f \<Rightarrow> f c)"

lemma metered_answer: "i < 8 \<Longrightarrow> metered_driver (metered_sql ! i) values c = (metered_answers ! i) c"
proof -
  assume "i < 8"
  then have "map_of (zip metered_sql metered_answers) (metered_sql ! i) = Some (metered_answers ! i)"
    by (intro map_of_zip_nth metered_distinct) (simp_all add: metered_sql_def metered_answers_def)
  then show ?thesis by (simp add: metered_driver_def)
qed

interpretation metered_server: stream_server metered_driver metered id
proof -
  note sql = metered_sql_def metered_answers_def
  have partitions: "sm_number_partitions metered = Some 4" "sm_compress_after metered = Some ''7 days''"
    "sm_drop_after metered = Some ''90 days''" by (simp_all add: metered_def sample_stream_def)
  show "stream_server metered_driver metered id"
  proof (unfold_locales, goal_cases)
    case (1 s) then show ?case using metered_answer [of 0 "[]" s] by (simp add: sql succeeds_def)
  next
    case (2 s) then show ?case
      using metered_answer [of 1 "[TText (sm_table metered), TText (sm_stream_field metered)]" s]
      by (auto simp: sql dict_of_row_def)
  next
    case (3 s k sql') then show ?case using metered_answer [of 2 "[]" s] partitions by (auto simp: sql succeeds_def)
  next
    case (4 s) then show ?case using metered_answer [of 3 "[]" s] by (simp add: sql succeeds_def)
  next
    case (5 s) then show ?case using metered_answer [of 4 "[TText (sm_table metered)]" s] by (simp add: sql)
  next
    case (6 s) then show ?case using metered_answer [of 5 "[]" s] by (simp add: sql succeeds_def)
  next
    case (7 s after) then show ?case using metered_answer [of 6 "[]" s] partitions by (simp add: sql succeeds_def)
  next
    case (8 s after) then show ?case using metered_answer [of 7 "[]" s] partitions by (simp add: sql succeeds_def)
  qed
qed

section \<open>Setting up\<close>



section \<open>Bulk insertion\<close>

definition all_default :: "stream_instance list \<Rightarrow> string \<Rightarrow> bool" where
  "all_default instances f \<longleftrightarrow> (\<forall>i \<in> set instances. si_attr i f = VDefault)"

definition mixed_use :: "stream_instance list \<Rightarrow> string \<Rightarrow> bool" where
  "mixed_use instances f \<longleftrightarrow> (\<exists>i \<in> set instances. si_attr i f = VDefault) \<and> (\<exists>i \<in> set instances. si_attr i f \<noteq> VDefault)"

lemma default_usage_spec:
  "\<not> (d \<and> v) \<Longrightarrow> default_usage f is d v =
     (let d' = d \<or> (\<exists>i \<in> set is. si_attr i f = VDefault); v' = v \<or> (\<exists>i \<in> set is. si_attr i f \<noteq> VDefault)
      in if d' \<and> v' then Inl OperationalError else Inr (d', v'))"
proof (induction "is" arbitrary: d v)
  case (Cons i "is")
  show ?case
  proof (cases "(d \<or> si_attr i f = VDefault) \<and> (v \<or> si_attr i f \<noteq> VDefault)")
    case False
    then have "default_usage f (i # is) d v = default_usage f is (d \<or> si_attr i f = VDefault) (v \<or> si_attr i f \<noteq> VDefault)"
      by (simp only: default_usage.simps Let_def if_not_P [OF False] if_False)
    then show ?thesis unfolding Cons.IH [OF False] by (auto simp: Let_def)
  qed (auto simp: Let_def)
qed (auto simp: Let_def)

lemma omit_loop_spec:
  assumes "instances \<noteq> []"
  shows "omit_loop instances fs omit =
    (if \<exists>f \<in> set fs. mixed_use instances f then Inl OperationalError else Inr (omit @ filter (all_default instances) fs))"
proof (induction fs arbitrary: omit)
  case (Cons f fs)
  have "default_usage f instances False False = (if mixed_use instances f then Inl OperationalError
      else Inr (all_default instances f, \<not> all_default instances f))"
    using assms by (cases instances) (auto simp: default_usage_spec mixed_use_def all_default_def Let_def)
  then show ?case using Cons by auto
qed simp

lemma copy_record_shape:
  "copy_record conv ns i = (Inr r, i') \<Longrightarrow> length r = length ns"
proof (induction ns arbitrary: i r)
  case (Cons n ns)
  then show ?case by (auto split: sum.splits prod.splits simp: map_sum_def)
qed auto

lemma copy_records_shape:
  "copy_records conv ns is = (Inr rs, is') \<Longrightarrow>
     length rs = length is \<and> length is' = length is \<and> (\<forall>r \<in> set rs. length r = length ns)"
proof (induction "is" arbitrary: rs is')
  case (Cons i "is")
  then obtain r i' rs1 is1 where "copy_record conv ns i = (Inr r, i')" "copy_records conv ns is = (Inr rs1, is1)"
    "rs = r # rs1" "is' = i' # is1"
    by (auto simp: map_sum_def split: sum.splits prod.splits)
  then show ?case using copy_record_shape Cons.IH by fastforce
qed auto

text \<open>\<open>to_db_value\<close> leaves the saved mark alone.\<close>

definition keeps_mark :: "to_db \<Rightarrow> bool" where
  "keeps_mark conv \<longleftrightarrow> (\<forall>n a i v i'. conv n a i = Inr (v, i') \<longrightarrow> si_saved i' = si_saved i)"

lemma copy_record_mark: "keeps_mark conv \<Longrightarrow> si_saved (snd (copy_record conv ns i)) = si_saved i"
proof (induction ns arbitrary: i)
  case (Cons n ns)
  show ?case
  proof (cases "conv n (si_attr i n) i")
    case (Inr p)
    obtain v i' where "p = (v, i')" by fastforce
    moreover from this have "si_saved i' = si_saved i" using Cons.prems Inr unfolding keeps_mark_def by blast
    ultimately show ?thesis using Cons.IH [OF Cons.prems, of i'] Inr by (auto split: prod.splits)
  qed simp
qed simp

lemma copy_records_mark: "keeps_mark conv \<Longrightarrow> map si_saved (snd (copy_records conv ns is)) = map si_saved is"
proof (induction "is")
  case (Cons i "is")
  then show ?case using copy_record_mark [of conv ns i] by (auto split: sum.splits prod.splits)
qed simp

lemma refuses_pk:
  "\<exists>i \<in> set instances. si_attr i (sm_pk_attr cls) = VNone \<Longrightarrow>
     bulk_insert conv copy cls (instances, db) = (Inl ValueError, (instances, db))"
  by (auto simp: bulk_insert_def assert_pk_present_def list_ex_iff)

lemma refuses_mixed:
  assumes "instances \<noteq> []" "\<forall>i \<in> set instances. si_attr i (sm_pk_attr cls) \<noteq> VNone"
    "f \<in> set (copy_db_fields cls)" "has_db_default cls f" "mixed_use instances f"
  shows "bulk_insert conv copy cls (instances, db) = (Inl OperationalError, (instances, db))"
proof -
  have "omit_db_default_fields cls instances (copy_db_fields cls) = Inl OperationalError"
    using omit_loop_spec [OF assms(1)] assms(3-5) by (auto simp: omit_db_default_fields_def)
  then show ?thesis using assms(1,2) by (auto simp: bulk_insert_def assert_pk_present_def list_ex_iff)
qed

text \<open>What \<open>bulk_insert\<close> refuses: no instances is no statement; an instance without a primary key
  raises \<open>ValueError\<close>, a column with a database default that some instances set and others leave
  raises \<open>OperationalError\<close>, and neither changes an instance or the database.\<close>

theorem bulk_insert_refuses:
  "(instances = [] \<longrightarrow> bulk_insert conv copy cls (instances, db) = (Inr 0, (instances, db)))
   \<and> ((\<exists>i \<in> set instances. si_attr i (sm_pk_attr cls) = VNone) \<longrightarrow>
        bulk_insert conv copy cls (instances, db) = (Inl ValueError, (instances, db)))
   \<and> (instances \<noteq> [] \<and> (\<forall>i \<in> set instances. si_attr i (sm_pk_attr cls) \<noteq> VNone)
        \<and> (\<exists>f \<in> set (copy_db_fields cls). has_db_default cls f \<and> mixed_use instances f) \<longrightarrow>
        bulk_insert conv copy cls (instances, db) = (Inl OperationalError, (instances, db)))"
  using refuses_pk [of instances cls conv copy db] refuses_mixed [of instances cls _ conv copy db]
  by (auto simp: bulk_insert_def)

text \<open>Accepted instances are converted to records, and one \<open>COPY\<close> takes them.\<close>

definition copied_fields :: "stream_model \<Rightarrow> stream_instance list \<Rightarrow> string list" where
  "copied_fields cls instances = filter (\<lambda>f. \<not> (has_db_default cls f \<and> all_default instances f)) (copy_db_fields cls)"

lemma accepted_fields:
  assumes "instances \<noteq> []" "\<not> (\<exists>f \<in> set (copy_db_fields cls). has_db_default cls f \<and> mixed_use instances f)"
  shows "omit_db_default_fields cls instances (copy_db_fields cls)
      = Inr (filter (all_default instances) (filter (has_db_default cls) (copy_db_fields cls)))"
    and "filter (\<lambda>n. n \<notin> set (filter (all_default instances) (filter (has_db_default cls) (copy_db_fields cls))))
      (copy_db_fields cls) = copied_fields cls instances"
proof -
  show "omit_db_default_fields cls instances (copy_db_fields cls)
      = Inr (filter (all_default instances) (filter (has_db_default cls) (copy_db_fields cls)))"
    unfolding omit_db_default_fields_def omit_loop_spec [OF assms(1)] using assms(2) by auto
  show "filter (\<lambda>n. n \<notin> set (filter (all_default instances) (filter (has_db_default cls) (copy_db_fields cls))))
      (copy_db_fields cls) = copied_fields cls instances"
    unfolding copied_fields_def by (rule filter_cong) auto
qed

lemma accepted_run:
  assumes "instances \<noteq> []" "\<not> (\<exists>i \<in> set instances. si_attr i (sm_pk_attr cls) = VNone)"
    "\<not> (\<exists>f \<in> set (copy_db_fields cls). has_db_default cls f \<and> mixed_use instances f)"
    "copy_records conv (copied_fields cls instances) instances = (rs, is')"
  shows "bulk_insert conv copy cls (instances, db) = (case rs of Inl e \<Rightarrow> (Inl e, (is', db))
    | Inr records \<Rightarrow> (case copy (sm_table cls) (map (orm_column cls) (copied_fields cls instances)) records db of
          (Inl e, db) \<Rightarrow> (Inl e, (is', db))
        | (Inr _, db) \<Rightarrow> (Inr (int (length is')), (map (\<lambda>i. i\<lparr>si_saved := True\<rparr>) is', db))))"
proof -
  have pk: "assert_pk_present cls instances = Inr ()"
    using assms(2) by (auto simp: assert_pk_present_def list_ex_iff)
  show ?thesis
    using assms(1) pk unfolding bulk_insert_def split Let_def accepted_fields [OF assms(1,3)] sum.case assms(4)
    by (auto split: sum.splits prod.splits)
qed

text \<open>C32: One well-shaped \<open>COPY\<close> or nothing: when \<open>bulk_insert\<close> of some instances returns, it returned
  their number, marked all of them as saved, and ran one \<open>COPY\<close> of one record per instance with one
  value per column, where the columns are those of the fields that are stored, no relation, and not
  left to the database default by every instance; when it raises, no mark has changed.\<close>

theorem bulk_insert_copies:
  assumes "keeps_mark conv" "instances \<noteq> []" "bulk_insert conv copy cls (instances, db) = (res, (instances', db'))"
  shows "(\<forall>n. res = Inr n \<longrightarrow> n = int (length instances) \<and> length instances' = length instances
        \<and> (\<forall>i \<in> set instances'. si_saved i)
        \<and> (\<exists>fields records. fields = filter (\<lambda>f. \<not> (has_db_default cls f \<and> all_default instances f)) (copy_db_fields cls)
             \<and> length records = length instances \<and> (\<forall>r \<in> set records. length r = length fields)
             \<and> copy (sm_table cls) (map (orm_column cls) fields) records db = (Inr (), db')))
    \<and> (\<forall>e. res = Inl e \<longrightarrow> map si_saved instances' = map si_saved instances)"
proof (cases "(\<exists>i \<in> set instances. si_attr i (sm_pk_attr cls) = VNone)
     \<or> (\<exists>f \<in> set (copy_db_fields cls). has_db_default cls f \<and> mixed_use instances f)")
  case True
  then have "(\<exists>e. res = Inl e) \<and> instances' = instances"
    using assms(3) refuses_pk [of instances cls conv copy db] refuses_mixed [OF assms(2), of cls _ conv copy db]
    by (cases "\<exists>i \<in> set instances. si_attr i (sm_pk_attr cls) = VNone") auto
  then show ?thesis by auto
next
  case False
  obtain rs is' where rec: "copy_records conv (copied_fields cls instances) instances = (rs, is')" by fastforce
  then have mark: "map si_saved is' = map si_saved instances"
    using copy_records_mark [OF assms(1), of "copied_fields cls instances" instances] by simp
  note run = accepted_run [OF assms(2) _ _ rec, of copy db, unfolded assms(3)]
  show ?thesis
  proof (cases rs)
    case (Inl e)
    then show ?thesis using run False mark by simp
  next
    case (Inr records)
    note shape = copy_records_shape [OF rec [unfolded Inr]]
    obtain out u where out: "copy (sm_table cls) (map (orm_column cls) (copied_fields cls instances)) records db = (out, u)"
      by fastforce
    show ?thesis
      by (cases out) (use run False mark shape Inr out in \<open>auto simp: copied_fields_def\<close>)
  qed
qed

definition sample_conv :: to_db where
  "sample_conv n a i = (case a of VPy v \<Rightarrow> Inr (v, i) | _ \<Rightarrow> Inr (TNull, i))"

definition sample_copy :: "string \<Rightarrow> string list \<Rightarrow> tval list list \<Rightarrow> (tval list list, unit) act" where
  "sample_copy table columns records db = (Inr (), db @ records)"

definition defaulted_stream :: stream_model where
  "defaulted_stream = sample_stream\<lparr>sm_fields := [(''id'', \<lparr>sf_source = None, sf_db_default = False\<rparr>),
     (''stream_id'', \<lparr>sf_source = None, sf_db_default = False\<rparr>),
     (''value'', \<lparr>sf_source = None, sf_db_default = True\<rparr>)]\<rparr>"

definition sample_instance :: "attribute \<Rightarrow> attribute \<Rightarrow> stream_instance" where
  "sample_instance pk value =
     \<lparr>si_attr = (\<lambda>n. if n = ''id'' then pk else if n = ''value'' then value else VPy (TInt 7)), si_saved = False\<rparr>"

theorem bulk_insert_refuses_witness:
  "bulk_insert sample_conv sample_copy defaulted_stream ([sample_instance VNone VDefault], [])
     = (Inl ValueError, ([sample_instance VNone VDefault], []))
   \<and> bulk_insert sample_conv sample_copy defaulted_stream
       ([sample_instance (VPy (TInt 1)) VDefault, sample_instance (VPy (TInt 2)) (VPy (TInt 5))], [])
     = (Inl OperationalError,
        ([sample_instance (VPy (TInt 1)) VDefault, sample_instance (VPy (TInt 2)) (VPy (TInt 5))], []))"
  using bulk_insert_refuses [of "[sample_instance VNone VDefault]" sample_conv sample_copy defaulted_stream "[]"]
    bulk_insert_refuses [of "[sample_instance (VPy (TInt 1)) VDefault, sample_instance (VPy (TInt 2)) (VPy (TInt 5))]"
      sample_conv sample_copy defaulted_stream "[]"]
  by (simp add: defaulted_stream_def sample_stream_def sample_instance_def copy_db_fields_def has_db_default_def
      mixed_use_def)

lemma sample_bulk:
  "bulk_insert sample_conv sample_copy defaulted_stream
       ([sample_instance (VPy (TInt 1)) VDefault, sample_instance (VPy (TInt 2)) VDefault], [])
     = (Inr 2, (map (\<lambda>i. i\<lparr>si_saved := True\<rparr>)
          [sample_instance (VPy (TInt 1)) VDefault, sample_instance (VPy (TInt 2)) VDefault],
        [[TInt 1, TInt 7], [TInt 2, TInt 7]]))"
  by (simp add: bulk_insert_def assert_pk_present_def copy_db_fields_def omit_db_default_fields_def
      has_db_default_def defaulted_stream_def sample_stream_def sample_instance_def sample_conv_def
      sample_copy_def Let_def)

theorem bulk_insert_copies_witness:
  "\<exists>fields records. length records = 2 \<and> (\<forall>r \<in> set records. length r = length fields)
     \<and> sample_copy ''events'' (map (orm_column defaulted_stream) fields) records []
         = (Inr (), [[TInt 1, TInt 7], [TInt 2, TInt 7]])"
proof -
  have "keeps_mark sample_conv" by (auto simp: keeps_mark_def sample_conv_def split: attribute.splits)
  from bulk_insert_copies [OF this _ sample_bulk]
  obtain fields records where "length records = 2" "\<forall>r \<in> set records. length r = length fields"
    "sample_copy (sm_table defaulted_stream) (map (orm_column defaulted_stream) fields) records []
         = (Inr (), [[TInt 1, TInt 7], [TInt 2, TInt 7]])"
    unfolding numeral_2_eq_2 by auto
  moreover have "sm_table defaulted_stream = ''events''" by (simp add: defaulted_stream_def sample_stream_def)
  ultimately show ?thesis by metis
qed

text \<open>The statement that creates the index runs outside every translation: its error leaves
  \<open>setup\<close> as the driver raised it.\<close>

lemma index_error_untranslated:
  assumes "\<And>sql ps s. conn sql ps s = (if sql = render (index_sql cls) then (Inl RuntimeError, s) else (Inr (0, []), s))"
    and "render (create_hypertable_sql (sm_table cls) (sm_time_field cls) (sm_chunk_time_interval cls) True False)
      \<noteq> render (index_sql cls)"
    and "sm_number_partitions cls = None" "{sm_time_field cls, sm_stream_field cls} \<subseteq> fst ` set (sm_fields cls)"
  shows "fst (setup_stream conn cls s) = Inl RuntimeError"
  using assms(2-4)
  by (simp add: setup_stream_def table_field_def create_hypertable_def run_statement_def unbound_def act_defs assms(1))

end
