(* ===== verification/Cached_Wrapper.thy ===== *)
theory Cached_Wrapper
  imports Cached_Decorators Redis_Manager
begin

text \<open>
  The wrappers of \<open>cached\<close> and \<open>cached_method\<close> (\<open>cache/decorators.py\<close>) up to their first read: which
  backend and which key a call uses, and the two methods that the decorators attach to a wrapper.
  \<open>cached\<close> keeps its backend in a variable of the decorator; \<open>cached_method\<close> asks for one in each
  call. What a wrapper does with backend and key is the step relation of \<open>Single_Flight\<close>.
\<close>

record 'db decorated =
  de_func :: func
  de_ttl :: int
  de_prefix :: "string option"
  de_key_builder :: "(carg list \<Rightarrow> (string \<times> carg) list \<Rightarrow> exc + string) option"
  de_backend :: "'db redis_backend option"
  de_namespace :: string

section \<open>cached\<close>

definition decorate ::
  "int \<Rightarrow> string option \<Rightarrow> (carg list \<Rightarrow> (string \<times> carg) list \<Rightarrow> exc + string) option \<Rightarrow> 'db redis_backend option \<Rightarrow> string
     \<Rightarrow> func \<Rightarrow> 'db decorated" where
  "decorate ttl p key_builder backend namespace f =
     \<lparr>de_func = f, de_ttl = ttl, de_prefix = p, de_key_builder = key_builder, de_backend = backend, de_namespace = namespace\<rparr>"

definition wrapper_backend :: "'db redis option \<Rightarrow> ('db decorated, 'db redis_backend) act" where
  "wrapper_backend pool d =
     (case de_backend d of
        Some b \<Rightarrow> (Inr b, d)
      | None \<Rightarrow>
          (case get_backend pool (de_namespace d) (de_ttl d) None of
             Inl e \<Rightarrow> (Inl e, d)
           | Inr b \<Rightarrow> (Inr b, d\<lparr>de_backend := Some b\<rparr>)))"

definition wrapper_cache_key ::
  "(string \<Rightarrow> string) \<Rightarrow> 'db decorated \<Rightarrow> carg list \<Rightarrow> (string \<times> carg) list \<Rightarrow> exc + string" where
  "wrapper_cache_key h d args kwargs = build_cache_key h (de_func d) args kwargs (de_prefix d) (de_key_builder d)"

definition call_target ::
  "(string \<Rightarrow> string) \<Rightarrow> 'db redis option \<Rightarrow> carg list \<Rightarrow> (string \<times> carg) list
     \<Rightarrow> ('db decorated, 'db redis_backend \<times> string) act" where
  "call_target h pool args kwargs =
     bind_act (wrapper_backend pool) (\<lambda>backend.
       bind_act (\<lambda>d. (wrapper_cache_key h d args kwargs, d)) (\<lambda>key. ret (backend, key)))"

text \<open>\<open>_invalidate_cached\<close>, with the backend it falls back to.\<close>

definition fallback_backend :: "'db redis option \<Rightarrow> 'db redis_backend option \<Rightarrow> string \<Rightarrow> exc + 'db redis_backend" where
  "fallback_backend pool backend namespace =
     (case backend of Some b \<Rightarrow> Inr b | None \<Rightarrow> get_backend pool namespace 300 None)"

definition wrapper_invalidate ::
  "(string \<Rightarrow> string) \<Rightarrow> 'db redis option \<Rightarrow> 'db decorated \<Rightarrow> carg list \<Rightarrow> (string \<times> carg) list \<Rightarrow> ('db, unit) act" where
  "wrapper_invalidate h pool d args kwargs =
     bind_act (lift_res (fallback_backend pool (de_backend d) (de_namespace d))) (\<lambda>b.
       invalidate_cached h (cache_of b) (de_func d) args kwargs (de_prefix d) (de_key_builder d))"

section \<open>cached\_method\<close>

definition decorate_method :: "int \<Rightarrow> string option \<Rightarrow> string \<Rightarrow> func \<Rightarrow> 'db decorated" where
  "decorate_method ttl p namespace f =
     \<lparr>de_func = f, de_ttl = ttl, de_prefix = p, de_key_builder = None, de_backend = None, de_namespace = namespace\<rparr>"

definition method_cache_key ::
  "(string \<Rightarrow> string) \<Rightarrow> 'db decorated \<Rightarrow> carg list \<Rightarrow> (string \<times> carg) list \<Rightarrow> exc + string" where
  "method_cache_key h d args kwargs = build_method_cache_key h (de_func d) args kwargs (de_prefix d)"

definition method_target ::
  "(string \<Rightarrow> string) \<Rightarrow> 'db redis option \<Rightarrow> 'db decorated \<Rightarrow> carg list \<Rightarrow> (string \<times> carg) list
     \<Rightarrow> exc + 'db redis_backend \<times> string" where
  "method_target h pool d args kwargs =
     bind_res (get_backend pool (de_namespace d) (de_ttl d) None) (\<lambda>backend.
       bind_res (method_cache_key h d args kwargs) (\<lambda>key. Inr (backend, key)))"

definition method_invalidate ::
  "(string \<Rightarrow> string) \<Rightarrow> 'db redis option \<Rightarrow> 'db decorated \<Rightarrow> carg list \<Rightarrow> (string \<times> carg) list \<Rightarrow> ('db, unit) act" where
  "method_invalidate h pool d args kwargs =
     bind_act (lift_res (fallback_backend pool None (de_namespace d))) (\<lambda>b.
       invalidate_cached h (cache_of b) (de_func d) args kwargs (de_prefix d) None)"

section \<open>A wrapper over its lifetime\<close>

text \<open>The pool of the process is installed and closed while the wrapper is called.\<close>

datatype 'db deco_event = Install "'db redis" | Close_pool | Call_with "carg list" "(string \<times> carg) list"

fun deco_step :: "(string \<Rightarrow> string) \<Rightarrow> 'db deco_event \<Rightarrow> 'db redis option \<times> 'db decorated \<Rightarrow> 'db redis option \<times> 'db decorated" where
  "deco_step h (Install p) (pool, d) = (Some p, d)"
| "deco_step h Close_pool (pool, d) = (None, d)"
| "deco_step h (Call_with args kwargs) (pool, d) = (pool, snd (call_target h pool args kwargs d))"

fun deco_run :: "(string \<Rightarrow> string) \<Rightarrow> 'db deco_event list \<Rightarrow> 'db redis option \<times> 'db decorated \<Rightarrow> 'db redis option \<times> 'db decorated" where
  "deco_run h [] s = s"
| "deco_run h (e # es) s = deco_run h es (deco_step h e s)"

definition same_entry :: "'db redis_backend \<Rightarrow> 'db redis_backend \<Rightarrow> bool" where
  "same_entry b c \<longleftrightarrow> rb_pool b = rb_pool c \<and> rb_namespace b = rb_namespace c"

lemma same_entry_refl [simp]: "same_entry b b"
  by (simp add: same_entry_def)

lemma delete_same_entry: "same_entry b c \<Longrightarrow> rb_delete b key = rb_delete c key"
  by (simp add: same_entry_def rb_delete_def rb_key_def)

lemma get_backend_same:
  "get_backend pool ns ttl ser = Inr b \<Longrightarrow> \<exists>c. get_backend pool ns ttl' ser' = Inr c \<and> same_entry c b"
  by (cases pool) (auto simp: get_backend_def get_pool_def same_entry_def RedisCacheBackend_def)

lemma invalidate_deletes:
  "build_cache_key h f args kwargs p kb = Inr key \<Longrightarrow> same_entry c b \<Longrightarrow>
     invalidate_cached h (cache_of c) f args kwargs p kb = map_act (\<lambda>_. ()) (rb_delete b key)"
  by (auto simp: invalidate_cached_def cache_of_def delete_same_entry act_simps)

lemma wrapper_backend_fields:
  "snd (wrapper_backend pool d) = d \<lparr>de_backend := de_backend (snd (wrapper_backend pool d))\<rparr>"
  by (simp add: wrapper_backend_def split: option.split sum.split)

lemma call_target_state: "snd (call_target h pool args kwargs d) = snd (wrapper_backend pool d)"
  by (simp add: call_target_def bind_act_def ret_def split: prod.split sum.split)

lemma call_target_Inr:
  "fst (call_target h pool args kwargs d) = Inr (b, key) \<longleftrightarrow>
     fst (wrapper_backend pool d) = Inr b \<and> wrapper_cache_key h d args kwargs = Inr key"
proof -
  have "wrapper_cache_key h (snd (wrapper_backend pool d)) args kwargs = wrapper_cache_key h d args kwargs"
    by (subst wrapper_backend_fields) (simp add: wrapper_cache_key_def)
  then show ?thesis by (auto simp: call_target_def bind_act_def ret_def split: prod.split sum.split)
qed

lemma wrapper_invalidate_target:
  assumes "fst (wrapper_backend pool d) = Inr b" "wrapper_cache_key h d args kwargs = Inr key"
  shows "wrapper_invalidate h pool d args kwargs = map_act (\<lambda>_. ()) (rb_delete b key)"
proof -
  obtain c where "fallback_backend pool (de_backend d) (de_namespace d) = Inr c" "same_entry c b"
    using assms(1) get_backend_same [of pool "de_namespace d" "de_ttl d" None b 300 None]
    by (auto simp: wrapper_backend_def fallback_backend_def split: option.splits sum.splits)
  then show ?thesis
    using assms(2) by (simp add: wrapper_invalidate_def bind_lift invalidate_deletes wrapper_cache_key_def)
qed

lemma deco_run_bound: "de_backend d = Some b \<Longrightarrow> snd (deco_run h events (pool, d)) = d"
proof (induction events arbitrary: pool)
  case (Cons e events)
  then have "snd (deco_step h e (pool, d)) = d"
    by (cases e) (simp_all add: call_target_state wrapper_backend_def)
  then obtain pool' where "deco_step h e (pool, d) = (pool', d)" by (metis prod.collapse)
  with Cons show ?case by simp
qed simp

text \<open>C8: Whenever a call reads an entry, \<open>wrapper.invalidate\<close> with the same arguments deletes that entry,
  before the call, and after it whatever calls follow and whatever happens to the pool, and
  \<open>wrapper.cache_key\<close> names it; a wrapper that has found a backend keeps it. For \<open>cached_method\<close> the
  same holds as long as the pool stays.
\<close>

theorem invalidate_reaches_entry:
  assumes "call_target h pool args kwargs d = (Inr (b, key), d')" "deco_run h events (pool, d') = (pool', e)"
  shows "wrapper_invalidate h pool d args kwargs = map_act (\<lambda>_. ()) (rb_delete b key)
    \<and> wrapper_invalidate h pool' e args kwargs = map_act (\<lambda>_. ()) (rb_delete b key)
    \<and> wrapper_cache_key h e args kwargs = Inr key
    \<and> fst (call_target h pool' args kwargs e) = Inr (b, key)
    \<and> (\<forall>m c k. method_target h pool m args kwargs = Inr (c, k) \<longrightarrow>
          method_invalidate h pool m args kwargs = map_act (\<lambda>_. ()) (rb_delete c k) \<and> method_cache_key h m args kwargs = Inr k)"
proof -
  have b: "fst (wrapper_backend pool d) = Inr b" "wrapper_cache_key h d args kwargs = Inr key"
    using assms(1) call_target_Inr [of h pool args kwargs d b key] by auto
  have d': "d' = snd (wrapper_backend pool d)" using assms(1) call_target_state [of h pool args kwargs d] by simp
  have "de_backend d' = Some b"
    using b(1) by (auto simp: d' wrapper_backend_def split: option.splits sum.splits)
  then have e: "e = d'" using deco_run_bound [of d' b h events pool] assms(2) by simp
  have kept: "wrapper_backend pool' d' = (Inr b, d')"
    using b(1) by (auto simp: d' wrapper_backend_def split: option.splits sum.splits)
  have key': "wrapper_cache_key h d' args kwargs = Inr key"
    using b(2) unfolding d' by (subst wrapper_backend_fields) (simp add: wrapper_cache_key_def)
  have via_method: "method_invalidate h pool m args kwargs = map_act (\<lambda>_. ()) (rb_delete c k)" "method_cache_key h m args kwargs = Inr k"
    if "method_target h pool m args kwargs = Inr (c, k)" for m :: "'a decorated" and c k
  proof -
    have g: "get_backend pool (de_namespace m) (de_ttl m) None = Inr c" and k: "method_cache_key h m args kwargs = Inr k"
      using that by (auto simp: method_target_def bind_res_Inr_iff)
    obtain c' where "get_backend pool (de_namespace m) 300 None = Inr c'" "same_entry c' c"
      using get_backend_same [OF g] by blast
    moreover have "build_cache_key h (de_func m) args kwargs (de_prefix m) None = Inr k"
      using k by (simp add: method_cache_key_def build_method_cache_key_def build_cache_key_def)
    ultimately show "method_invalidate h pool m args kwargs = map_act (\<lambda>_. ()) (rb_delete c k)"
      by (simp add: method_invalidate_def fallback_backend_def bind_lift invalidate_deletes)
    show "method_cache_key h m args kwargs = Inr k" by (rule k)
  qed
  show ?thesis
    using wrapper_invalidate_target [OF b] wrapper_invalidate_target [of pool' d' b, OF _ key'] b(2) kept key' via_method e
      call_target_Inr [of h pool' args kwargs d' b key] by simp
qed

theorem invalidate_reaches_entry_witness:
  "let d = decorate 300 None None None ''decorators'' \<lparr>fn_module = Some ''m'', fn_qualname = Some ''f''\<rparr> in
   \<exists>b key d'. call_target (\<lambda>_. ''0123456789abcdef'') (Some mem_redis) [AInt 1] [] d = (Inr (b, key), d')
     \<and> wrapper_invalidate (\<lambda>_. ''0123456789abcdef'') (Some mem_redis) d [AInt 1] [] = map_act (\<lambda>_. ()) (rb_delete b key)
     \<and> wrapper_invalidate (\<lambda>_. ''0123456789abcdef'') None d' [AInt 1] [] = map_act (\<lambda>_. ()) (rb_delete b key)"
proof -
  let ?h = "\<lambda>_. ''0123456789abcdef''"
  let ?d = "decorate 300 None None None ''decorators'' \<lparr>fn_module = Some ''m'', fn_qualname = Some ''f''\<rparr>"
  have "\<exists>key. wrapper_cache_key ?h ?d [AInt 1] [] = Inr key"
    by (simp add: wrapper_cache_key_def decorate_def build_key_eq)
  moreover have "\<exists>b. fst (wrapper_backend (Some mem_redis) ?d) = Inr b"
    by (simp add: wrapper_backend_def decorate_def get_backend_def get_pool_def bind_res_def)
  ultimately obtain b key d' where t: "call_target ?h (Some mem_redis) [AInt 1] [] ?d = (Inr (b, key), d')"
    using call_target_Inr [of ?h "Some mem_redis" "[AInt 1]" "[]" ?d] by (metis prod.collapse)
  show ?thesis
    using invalidate_reaches_entry [OF t, where events = "[Close_pool]" and pool' = None and e = d'] t by (auto simp: Let_def)
qed

text \<open>A backend found once is kept: after the pool was closed and another installed, \<open>cached\<close> still
  uses the old one, \<open>cached_method\<close> the new one.\<close>

lemma stale_backend:
  "fst (call_target h (Some p1) args kwargs (decorate ttl p kb None ns f)) = Inr (b, key) \<Longrightarrow>
   rb_pool b = p1 \<and>
   (let (pool, d) = deco_run h [Call_with args kwargs, Close_pool, Install p2] (Some p1, decorate ttl p kb None ns f)
    in pool = Some p2 \<and> fst (call_target h pool args kwargs d) = Inr (b, key))"
  by (auto simp: call_target_Inr call_target_state wrapper_backend_def decorate_def get_backend_def get_pool_def
      RedisCacheBackend_def wrapper_cache_key_def)

lemma method_backend_current:
  "method_target h (Some p2) m args kwargs = Inr (b, key) \<Longrightarrow> rb_pool b = p2"
  by (auto simp: method_target_def get_backend_def get_pool_def RedisCacheBackend_def bind_res_Inr_iff)

text \<open>Without a pool a call raises before it reads anything, and remembers nothing.\<close>

lemma call_without_pool:
  "de_backend d = None \<Longrightarrow> call_target h None args kwargs d = (Inl CacheBackendNotInitializedError, d)"
  by (simp add: call_target_def wrapper_backend_def get_backend_def get_pool_def bind_act_def)

end
