(* ===== verification/Struct_Float.thy ===== *)
theory Struct_Float
  imports Exceptions "HOL-Library.Word"
begin

text \<open>
  Python floats and the part of the module \<open>struct\<close> that \<open>fields/vector.py\<close> uses: unsigned shorts,
  single and half precision floats, big-endian. A finite float is a sign, a magnitude and a binary
  exponent. Packing rounds to the nearest value of the format, ties to even, and raises on
  overflow; unpacking is exact.
\<close>

section \<open>Big-endian integers\<close>

type_synonym byte = "8 word"

fun be_bytes :: "nat \<Rightarrow> nat \<Rightarrow> byte list" where
  "be_bytes 0 n = []"
| "be_bytes (Suc k) n = be_bytes k (n div 256) @ [word_of_nat n]"

definition be_nat :: "byte list \<Rightarrow> nat" where
  "be_nat bs = foldl (\<lambda>a b. a * 256 + unat b) 0 bs"

lemma be_bytes_length [simp]: "length (be_bytes k n) = k"
  by (induction k arbitrary: n) auto

lemma be_nat_bytes: "be_nat (be_bytes k n) = n mod 256 ^ k"
proof (induction k arbitrary: n)
  case (Suc k)
  have "n mod (256 * 256 ^ k) = 256 * (n div 256 mod 256 ^ k) + n mod 256" by (rule mod_mult2_eq)
  then show ?case using Suc [of "n div 256"] by (simp add: be_nat_def unat_of_nat)
qed (simp add: be_nat_def)

section \<open>Floats\<close>

datatype pyfloat = Fin bool nat int | Inf bool | NaN

record float_format =
  ff_size :: nat
  ff_frac :: nat
  ff_bias :: nat

definition single :: float_format where
  "single = \<lparr>ff_size = 4, ff_frac = 23, ff_bias = 127\<rparr>"

definition half :: float_format where
  "half = \<lparr>ff_size = 2, ff_frac = 10, ff_bias = 15\<rparr>"

fun bit_length :: "nat \<Rightarrow> nat" where
  "bit_length n = (if n = 0 then 0 else Suc (bit_length (n div 2)))"

declare bit_length.simps [simp del]

lemma bit_length_bounds: "n \<noteq> 0 \<Longrightarrow> 2 ^ (bit_length n - 1) \<le> n \<and> n < 2 ^ bit_length n \<and> 0 < bit_length n"
proof (induction n rule: bit_length.induct)
  case (1 n)
  show ?case
  proof (cases "n div 2 = 0")
    case True
    then have "n = 1" using 1(2) by auto
    then show ?thesis by (simp add: bit_length.simps)
  next
    case False
    note ih = 1(1) [OF 1(2) False]
    then obtain k where k: "bit_length (n div 2) = Suc k" by (cases "bit_length (n div 2)") auto
    then show ?thesis using ih 1(2) by (auto simp: bit_length.simps [of n])
  qed
qed

lemma bit_length_eqI: "2 ^ k \<le> n \<Longrightarrow> n < 2 ^ Suc k \<Longrightarrow> bit_length n = Suc k"
proof -
  assume n: "2 ^ k \<le> n" "n < 2 ^ Suc k"
  then have "n \<noteq> 0" using power_not_zero by fastforce
  note b = bit_length_bounds [OF this]
  have "(2::nat) ^ (bit_length n - 1) < 2 ^ Suc k" using b n by linarith
  then have "bit_length n - 1 < Suc k" by (rule power_less_imp_less_exp [rotated]) simp
  moreover have "(2::nat) ^ k < 2 ^ bit_length n" using b n by linarith
  then have "k < bit_length n" by (rule power_less_imp_less_exp [rotated]) simp
  ultimately show ?thesis using b by linarith
qed

lemma bit_length_le: "n < 2 ^ k \<Longrightarrow> bit_length n \<le> k"
proof (cases "n = 0")
  case False
  assume "n < 2 ^ k"
  then have "(2::nat) ^ (bit_length n - 1) < 2 ^ k" using bit_length_bounds [OF False] by linarith
  then have "bit_length n - 1 < k" by (rule power_less_imp_less_exp [rotated]) simp
  then show ?thesis by linarith
qed (simp add: bit_length.simps)

text \<open>\<open>m / 2 ^ k\<close> to the nearest integer, ties to even.\<close>

definition round_even :: "nat \<Rightarrow> nat \<Rightarrow> nat" where
  "round_even m k = (let q = m div 2 ^ k; r = m mod 2 ^ k in
     if 2 * r > 2 ^ k \<or> (2 * r = 2 ^ k \<and> odd q) then Suc q else q)"

lemma round_even_nearest: "2 * \<bar>int (round_even m k) * 2 ^ k - int m\<bar> \<le> 2 ^ k"
proof -
  define q r P where "q = m div 2 ^ k" and "r = m mod 2 ^ k" and "P = (2::nat) ^ k"
  have m: "m = q * P + r" unfolding q_def r_def P_def by (metis div_mult_mod_eq)
  have r: "r < P" unfolding r_def P_def by simp
  have P: "(2::int) ^ k = int P" unfolding P_def by simp
  have "2 * \<bar>int (round_even m k) * int P - int m\<bar> \<le> int P"
    unfolding round_even_def Let_def q_def [symmetric] r_def [symmetric] P_def [symmetric]
    using r by (auto simp: m algebra_simps)
  then show ?thesis by (simp add: P)
qed

text \<open>The exponent of the last place of the result and its magnitude in that unit. The biased
  exponent and the fraction are then one number, in which a carry of the rounding is right.\<close>

definition last_place :: "float_format \<Rightarrow> nat \<Rightarrow> int \<Rightarrow> int" where
  "last_place F m e =
     max (e + int (bit_length m) - 1 - int (ff_frac F)) (1 - int (ff_bias F) - int (ff_frac F))"

definition magnitude_bits :: "float_format \<Rightarrow> nat \<Rightarrow> int \<Rightarrow> nat" where
  "magnitude_bits F m e =
     (if m = 0 then 0
      else let q = last_place F m e;
               n = (if q \<le> e then m * 2 ^ nat (e - q) else round_even m (nat (q - e)))
           in nat (q + int (ff_bias F) + int (ff_frac F) - 1) * 2 ^ ff_frac F + n)"

definition exponent_limit :: "float_format \<Rightarrow> nat" where
  "exponent_limit F = 2 * ff_bias F + 1"

definition sign_bit :: "float_format \<Rightarrow> bool \<Rightarrow> nat" where
  "sign_bit F s = (if s then 2 ^ (8 * ff_size F - 1) else 0)"

definition pack_float :: "float_format \<Rightarrow> pyfloat \<Rightarrow> exc + byte list" where
  "pack_float F v =
     (case v of
        NaN \<Rightarrow> Inr (be_bytes (ff_size F) (exponent_limit F * 2 ^ ff_frac F + 2 ^ (ff_frac F - 1)))
      | Inf s \<Rightarrow> Inr (be_bytes (ff_size F) (sign_bit F s + exponent_limit F * 2 ^ ff_frac F))
      | Fin s m e \<Rightarrow>
          (let b = magnitude_bits F m e in
           if b \<ge> exponent_limit F * 2 ^ ff_frac F then Inl OverflowError
           else Inr (be_bytes (ff_size F) (sign_bit F s + b))))"

definition float_of_bits :: "float_format \<Rightarrow> nat \<Rightarrow> pyfloat" where
  "float_of_bits F b =
     (let s = (b div 2 ^ (8 * ff_size F - 1) mod 2 = 1); r = b mod 2 ^ (8 * ff_size F - 1);
          x = r div 2 ^ ff_frac F; f = r mod 2 ^ ff_frac F in
      if x = exponent_limit F then (if f = 0 then Inf s else NaN)
      else if x = 0 then Fin s f (1 - int (ff_bias F) - int (ff_frac F))
      else Fin s (2 ^ ff_frac F + f) (int x - int (ff_bias F) - int (ff_frac F)))"

definition unpack_float :: "float_format \<Rightarrow> byte list \<Rightarrow> pyfloat" where
  "unpack_float F bs = float_of_bits F (be_nat bs)"

section \<open>Values of a format survive\<close>

definition format_ok :: "float_format \<Rightarrow> bool" where
  "format_ok F \<longleftrightarrow> 0 < ff_size F \<and> 0 < ff_frac F \<and> 2 ^ (8 * ff_size F - 1) = (exponent_limit F + 1) * 2 ^ ff_frac F"

lemma formats_ok [simp]: "format_ok single" "format_ok half"
  by (simp_all add: format_ok_def single_def half_def exponent_limit_def)

definition field_float :: "float_format \<Rightarrow> bool \<Rightarrow> nat \<Rightarrow> nat \<Rightarrow> pyfloat" where
  "field_float F s x f =
     (if x = exponent_limit F then (if f = 0 then Inf s else NaN)
      else if x = 0 then Fin s f (1 - int (ff_bias F) - int (ff_frac F))
      else Fin s (2 ^ ff_frac F + f) (int x - int (ff_bias F) - int (ff_frac F)))"

lemma field_bound:
  assumes "x \<le> exponent_limit F" "f < 2 ^ ff_frac F" "format_ok F"
  shows "x * 2 ^ ff_frac F + f < 2 ^ (8 * ff_size F - 1)"
proof -
  have "x * 2 ^ ff_frac F + f < (x + 1) * 2 ^ ff_frac F" using assms(2) by (simp add: algebra_simps)
  also have "\<dots> \<le> (exponent_limit F + 1) * 2 ^ ff_frac F" using assms(1) by (intro mult_right_mono) simp_all
  finally show ?thesis using assms(3) by (simp add: format_ok_def)
qed

lemma float_of_fields:
  assumes "x \<le> exponent_limit F" "f < 2 ^ ff_frac F" "format_ok F"
  shows "float_of_bits F (sign_bit F s + (x * 2 ^ ff_frac F + f)) = field_float F s x f"
proof -
  let ?r = "x * 2 ^ ff_frac F + f"
  have r: "?r < 2 ^ (8 * ff_size F - 1)" by (rule field_bound [OF assms])
  have "(sign_bit F s + ?r) div 2 ^ (8 * ff_size F - 1) mod 2 = (if s then 1 else 0)"
    "(sign_bit F s + ?r) mod 2 ^ (8 * ff_size F - 1) = ?r"
    using r by (simp_all add: sign_bit_def div_add_self1)
  then show ?thesis using assms(2) by (simp add: float_of_bits_def field_float_def Let_def)
qed

lemma float_fields:
  assumes "format_ok F"
  shows "\<exists>s x f. x \<le> exponent_limit F \<and> f < 2 ^ ff_frac F \<and> float_of_bits F b = field_float F s x f"
proof -
  let ?r = "b mod 2 ^ (8 * ff_size F - 1)"
  have "?r < (exponent_limit F + 1) * 2 ^ ff_frac F" using assms by (metis format_ok_def mod_less_divisor zero_less_numeral zero_less_power)
  then have "?r div 2 ^ ff_frac F < exponent_limit F + 1" by (simp add: less_mult_imp_div_less)
  moreover have "?r mod 2 ^ ff_frac F < 2 ^ ff_frac F" by simp
  moreover have "float_of_bits F b = field_float F (b div 2 ^ (8 * ff_size F - 1) mod 2 = 1) (?r div 2 ^ ff_frac F) (?r mod 2 ^ ff_frac F)"
    by (simp add: float_of_bits_def field_float_def Let_def)
  ultimately show ?thesis by (metis Suc_eq_plus1 less_Suc_eq_le)
qed

lemma subnormal_magnitude:
  assumes "f < 2 ^ ff_frac F"
  shows "magnitude_bits F f (1 - int (ff_bias F) - int (ff_frac F)) = f"
proof -
  have "bit_length f \<le> ff_frac F" by (rule bit_length_le [OF assms])
  then have "last_place F f (1 - int (ff_bias F) - int (ff_frac F)) = 1 - int (ff_bias F) - int (ff_frac F)"
    by (simp add: last_place_def)
  then show ?thesis by (simp add: magnitude_bits_def)
qed

lemma normal_magnitude:
  assumes "f < 2 ^ ff_frac F" "0 < x"
  shows "magnitude_bits F (2 ^ ff_frac F + f) (int x - int (ff_bias F) - int (ff_frac F)) = x * 2 ^ ff_frac F + f"
proof -
  have "bit_length (2 ^ ff_frac F + f) = Suc (ff_frac F)" using assms by (intro bit_length_eqI) simp_all
  then have "last_place F (2 ^ ff_frac F + f) (int x - int (ff_bias F) - int (ff_frac F))
      = int x - int (ff_bias F) - int (ff_frac F)"
    using assms(2) by (simp add: last_place_def)
  moreover obtain y where "x = Suc y" using assms(2) by (cases x) auto
  ultimately show ?thesis by (simp add: magnitude_bits_def algebra_simps)
qed

lemma unpack_fields:
  assumes "x \<le> exponent_limit F" "f < 2 ^ ff_frac F" "format_ok F"
  shows "unpack_float F (be_bytes (ff_size F) (sign_bit F s + (x * 2 ^ ff_frac F + f))) = field_float F s x f"
proof -
  obtain k where k: "ff_size F = Suc k" using assms(3) by (cases "ff_size F") (auto simp: format_ok_def)
  have "(256::nat) ^ ff_size F = 2 ^ (8 * ff_size F)" by (simp add: power_mult)
  also have "\<dots> = 2 * 2 ^ (8 * ff_size F - 1)" by (simp add: k flip: power_Suc)
  finally have "sign_bit F s + (x * 2 ^ ff_frac F + f) < 256 ^ ff_size F"
    using field_bound [OF assms] by (simp add: sign_bit_def)
  then show ?thesis using float_of_fields [OF assms] by (simp add: unpack_float_def be_nat_bytes)
qed

lemma field_pack:
  assumes "x \<le> exponent_limit F" "f < 2 ^ ff_frac F" "format_ok F"
  shows "\<exists>bs. pack_float F (field_float F s x f) = Inr bs \<and> length bs = ff_size F
    \<and> unpack_float F bs = field_float F s x f"
proof (cases "x = exponent_limit F")
  case True
  have quiet: "2 ^ (ff_frac F - 1) < (2::nat) ^ ff_frac F" using assms(3) by (simp add: format_ok_def)
  show ?thesis
  proof (cases "f = 0")
    case f: True
    then show ?thesis using True unpack_fields [OF le_refl _ assms(3), of 0 s] by (simp add: field_float_def pack_float_def)
  next
    case False
    then show ?thesis using True unpack_fields [OF le_refl quiet assms(3), of False]
      by (simp add: field_float_def pack_float_def sign_bit_def)
  qed
next
  case False
  have fin: "pack_float F (field_float F s x f) = Inr (be_bytes (ff_size F) (sign_bit F s + (x * 2 ^ ff_frac F + f)))"
  proof -
    have "x * 2 ^ ff_frac F + f < (x + 1) * 2 ^ ff_frac F" using assms(2) by (simp add: algebra_simps)
    also have "\<dots> \<le> exponent_limit F * 2 ^ ff_frac F" using assms(1) False by (intro mult_right_mono) simp_all
    finally have lt: "x * 2 ^ ff_frac F + f < exponent_limit F * 2 ^ ff_frac F" .
    show ?thesis
    proof (cases "x = 0")
      case True
      then show ?thesis using lt False assms(2) by (simp add: field_float_def pack_float_def subnormal_magnitude)
    next
      case pos: False
      then show ?thesis using lt False assms(2) by (simp add: field_float_def pack_float_def normal_magnitude)
    qed
  qed
  then show ?thesis using unpack_fields [OF assms, of s] by simp
qed

lemma pack_unpack:
  assumes "format_ok F"
  shows "\<exists>bs. pack_float F (float_of_bits F b) = Inr bs \<and> length bs = ff_size F \<and> unpack_float F bs = float_of_bits F b"
  using float_fields [OF assms, of b] field_pack [OF _ _ assms] by metis

lemma pack_float_length: "pack_float F v = Inr bs \<Longrightarrow> length bs = ff_size F"
  by (auto simp: pack_float_def Let_def split: pyfloat.splits if_splits)

lemma pack_float_error: "pack_float F v = Inl e \<Longrightarrow> e = OverflowError"
  by (auto simp: pack_float_def Let_def split: pyfloat.splits if_splits)

end
