(* ===== verification/Vector_Field.thy ===== *)
theory Vector_Field
  imports Struct_Float
begin

text \<open>
  \<open>fields/vector.py\<close> and the pgvector text codec of \<open>__init__.py\<close>: how a vector becomes a value of
  the database and comes back, as text, as a list, and in the binary layout of a SQLite column.
  \<open>str(x)\<close> and \<open>float(text)\<close> of a number are parameters.
\<close>

section \<open>The field\<close>

text \<open>\<open>vf_db\<close>: no bound model, a model without \<open>_meta\<close>, or what \<open>meta.db\<close> gives: an error or the
  dialect of the client.\<close>

datatype binding = Unbound | No_meta | Meta_db "exc + string"

record vector_field =
  vf_dimensions :: "int option"
  vf_type :: string
  vf_db :: binding

definition vector_sql_type :: "vector_field \<Rightarrow> string" where
  "vector_sql_type fd =
     (case vf_dimensions fd of
        Some n \<Rightarrow> if n \<noteq> 0 then vf_type fd @ ''('' @ show_int n @ '')'' else vf_type fd
      | None \<Rightarrow> vf_type fd)"

definition bound_to_sqlite :: "vector_field \<Rightarrow> exc + bool" where
  "bound_to_sqlite fd =
     (case vf_db fd of
        Unbound \<Rightarrow> Inr False
      | No_meta \<Rightarrow> Inr False
      | Meta_db (Inl e) \<Rightarrow> if catches [ConfigurationError] e then Inr False else Inl e
      | Meta_db (Inr dialect) \<Rightarrow> Inr (dialect = ''sqlite''))"

section \<open>The binary layout\<close>

definition elem_format :: "string \<Rightarrow> float_format" where
  "elem_format vector_type = (if vector_type = ''halfvec'' then half else single)"

text \<open>\<open>struct.pack(">HH", a, b)\<close>.\<close>

definition pack_short :: "nat \<Rightarrow> exc + byte list" where
  "pack_short n = (if n < 65536 then Inr (be_bytes 2 n) else Inl StructError)"

definition encode_binary :: "pyfloat list \<Rightarrow> string \<Rightarrow> exc + byte list" where
  "encode_binary values vector_type =
     bind_res (map_res (pack_float (elem_format vector_type)) values) (\<lambda>packed.
       let body = concat packed in
       bind_res (pack_short (4 + length body)) (\<lambda>size.
         bind_res (pack_short (length values)) (\<lambda>ndim. Inr (size @ ndim @ body))))"

definition decode_binary :: "byte list \<Rightarrow> string \<Rightarrow> exc + pyfloat list" where
  "decode_binary data vector_type =
     (if length data < 4 then Inr []
      else let ndim = be_nat (take 2 (drop 2 data));
               F = elem_format vector_type in
        if ndim = 0 then Inr []
        else if length data < 4 + ndim * ff_size F then Inl VectorFieldError
        else Inr (map (\<lambda>i. unpack_float F (take (ff_size F) (drop (4 + i * ff_size F) data))) [0..<ndim]))"

section \<open>Conversions\<close>

datatype db_value = DbNull | DbFloats "pyfloat list" | DbBytes "byte list"

definition vector_to_db :: "vector_field \<Rightarrow> pyfloat list option \<Rightarrow> exc + db_value" where
  "vector_to_db fd value =
     (case value of
        None \<Rightarrow> Inr DbNull
      | Some vector \<Rightarrow>
          bind_res (bound_to_sqlite fd) (\<lambda>sqlite.
            if sqlite then bind_res (encode_binary vector (vf_type fd)) (\<lambda>bs. Inr (DbBytes bs))
            else Inr (DbFloats vector)))"

definition strip_brackets :: "string \<Rightarrow> string" where
  "strip_brackets s =
     rev (dropWhile (\<lambda>c. c \<in> set ''[]'') (rev (dropWhile (\<lambda>c. c \<in> set ''[]'') s)))"

definition read_floats :: "(string \<Rightarrow> exc + pyfloat) \<Rightarrow> string \<Rightarrow> exc + pyfloat list" where
  "read_floats float_of s = map_res float_of (filter (\<lambda>x. x \<noteq> []) (split_on (CHR '','') (strip_brackets s)))"

datatype driver_value =
    DvNone | DvList "pyfloat list" | DvText string | DvMemory "byte list" | DvBytes "byte list" | DvTuple "pyfloat list"

definition vector_to_python ::
  "(string \<Rightarrow> exc + pyfloat) \<Rightarrow> vector_field \<Rightarrow> driver_value \<Rightarrow> exc + pyfloat list option" where
  "vector_to_python float_of fd value =
     (case value of
        DvNone \<Rightarrow> Inr None
      | DvList xs \<Rightarrow> Inr (Some xs)
      | DvText s \<Rightarrow> map_sum id Some (read_floats float_of s)
      | DvMemory bs \<Rightarrow> map_sum id Some (decode_binary bs (vf_type fd))
      | DvBytes bs \<Rightarrow> map_sum id Some (decode_binary bs (vf_type fd))
      | DvTuple xs \<Rightarrow> Inr (Some xs))"

text \<open>The codec that every connection registers for the types \<open>vector\<close> and \<open>halfvec\<close>.\<close>

datatype codec_value = CvNone | CvText string | CvFloats "pyfloat list"

definition encode_vector :: "(pyfloat \<Rightarrow> string) \<Rightarrow> codec_value \<Rightarrow> string" where
  "encode_vector str_of value =
     (case value of
        CvText s \<Rightarrow> s
      | CvFloats xs \<Rightarrow> if xs \<noteq> [] then ''['' @ join '','' (map str_of xs) @ '']'' else ''[]''
      | CvNone \<Rightarrow> ''[]'')"

definition decode_vector :: "(string \<Rightarrow> exc + pyfloat) \<Rightarrow> string \<Rightarrow> exc + pyfloat list" where
  "decode_vector float_of value =
     (let stripped = strip_brackets value in
      if stripped = [] then Inr []
      else map_res float_of (filter (\<lambda>x. x \<noteq> []) (split_on (CHR '','') stripped)))"

text \<open>What a driver gives back for a stored value: SQLite the bytes, asyncpg what the codec decodes.\<close>

definition stored_value :: "(pyfloat \<Rightarrow> string) \<Rightarrow> (string \<Rightarrow> exc + pyfloat) \<Rightarrow> db_value \<Rightarrow> exc + driver_value" where
  "stored_value str_of float_of v =
     (case v of
        DbNull \<Rightarrow> Inr DvNone
      | DbBytes bs \<Rightarrow> Inr (DvBytes bs)
      | DbFloats xs \<Rightarrow> map_sum id DvList (decode_vector float_of (encode_vector str_of (CvFloats xs))))"

section \<open>Round trips\<close>

lemma elem_format_ok [simp]: "format_ok (elem_format vt)"
  by (simp add: elem_format_def)

lemma elem_size_pos [simp]: "0 < ff_size (elem_format vt)"
  using elem_format_ok [of vt] unfolding format_ok_def by blast

lemma concat_length: "\<forall>b \<in> set bs. length b = n \<Longrightarrow> length (concat bs) = length bs * n"
  by (induction bs) auto

lemma take_drop_concat:
  "\<forall>b \<in> set bs. length b = n \<Longrightarrow> i < length bs \<Longrightarrow> take n (drop (i * n) (concat bs)) = bs ! i"
proof (induction bs arbitrary: i)
  case (Cons b bs)
  then show ?case by (cases i) auto
qed simp

lemma packed_values:
  assumes "\<forall>v \<in> set vs. v \<in> range (float_of_bits F)" "format_ok F"
  shows "\<exists>bs. map_res (pack_float F) vs = Inr bs \<and> (\<forall>b \<in> set bs. length b = ff_size F) \<and> map (unpack_float F) bs = vs"
  using assms(1)
proof (induction vs)
  case (Cons v vs)
  then obtain w where "v = float_of_bits F w" by auto
  with pack_unpack [OF assms(2), of w] obtain b
    where "pack_float F v = Inr b" "length b = ff_size F" "unpack_float F b = v" by auto
  moreover obtain bs where "map_res (pack_float F) vs = Inr bs" "\<forall>b \<in> set bs. length b = ff_size F"
    "map (unpack_float F) bs = vs" using Cons by auto
  ultimately show ?case by (intro exI [of _ "b # bs"]) simp
qed simp

lemma encode_decode:
  assumes "\<forall>v \<in> set values. v \<in> range (float_of_bits (elem_format vt))"
  shows "bind_res (encode_binary values vt) (\<lambda>data. decode_binary data vt) =
    (if 4 + length values * ff_size (elem_format vt) < 65536 then Inr values else Inl StructError)"
proof -
  let ?F = "elem_format vt"
  obtain bs where bs: "map_res (pack_float ?F) values = Inr bs" "\<forall>b \<in> set bs. length b = ff_size ?F"
    "map (unpack_float ?F) bs = values" using packed_values [OF assms elem_format_ok] by blast
  have len: "length bs = length values" using bs(3) by (metis length_map)
  then have body: "length (concat bs) = length values * ff_size ?F" using concat_length [OF bs(2)] by simp
  have few: "length values < 65536" if "4 + length values * ff_size ?F < 65536"
  proof -
    have "length values * 1 \<le> length values * ff_size ?F" using elem_size_pos [of vt] by (intro mult_le_mono2) linarith
    then show ?thesis using that by linarith
  qed
  have nd: "be_nat (be_bytes 2 (length values)) = length values" if "length values < 65536"
    using that by (simp add: be_nat_bytes)
  have "map (\<lambda>i. unpack_float ?F (take (ff_size ?F) (drop (i * ff_size ?F) (concat bs)))) [0..<length values]
      = map (\<lambda>i. unpack_float ?F (bs ! i)) [0..<length bs]"
    using take_drop_concat [OF bs(2)] by (intro map_cong) (simp_all add: len)
  also have "\<dots> = values" using bs(3) by (metis map_map map_nth o_def map_cong)
  finally have elems: "map (\<lambda>i. unpack_float ?F (take (ff_size ?F) (drop (i * ff_size ?F) (concat bs)))) [0..<length values] = values" .
  have "drop (4 + k) (be_bytes 2 m @ be_bytes 2 n @ ds) = drop k ds" for k m n ds by simp
  then show ?thesis using few nd elems body
    by (auto simp: encode_binary_def bs(1) Let_def pack_short_def decode_binary_def)
qed

text \<open>The text form: \<open>str\<close> of a float has no comma and no bracket, and \<open>float\<close> reads it back.\<close>

definition float_text :: "(pyfloat \<Rightarrow> string) \<Rightarrow> (string \<Rightarrow> exc + pyfloat) \<Rightarrow> bool" where
  "float_text str_of float_of \<longleftrightarrow>
     (\<forall>x. float_of (str_of x) = Inr x \<and> str_of x \<noteq> [] \<and> set (str_of x) \<inter> set '',[]'' = {})"

lemma strip_brackets_wrap:
  assumes "s = [] \<or> hd s \<notin> set ''[]'' \<and> last s \<notin> set ''[]''"
  shows "strip_brackets (''['' @ s @ '']'') = s"
proof (cases "s = []")
  case False
  with assms have h: "hd s \<notin> set ''[]''" "hd (rev s) \<notin> set ''[]''" by (simp_all add: hd_rev)
  have keep: "dropWhile (\<lambda>c. c \<in> set ''[]'') (t @ u) = t @ u" if "t \<noteq> []" "hd t \<notin> set ''[]''" for t u
    using that by (cases t) auto
  show ?thesis using False h keep [of s "'']''"] keep [of "rev s" "[]"] by (simp add: strip_brackets_def)
qed (simp add: strip_brackets_def)

lemma decode_encode_vector:
  assumes "float_text str_of float_of"
  shows "decode_vector float_of (encode_vector str_of (CvFloats xs)) = Inr xs"
proof (cases "xs = []")
  case True
  then show ?thesis by (simp add: encode_vector_def decode_vector_def strip_brackets_def)
next
  case False
  let ?t = "join '','' (map str_of xs)"
  have chars: "set (str_of x) \<inter> set ''[]'' = {}" "CHR '','' \<notin> set (str_of x)" "str_of x \<noteq> []" "float_of (str_of x) = Inr x" for x
    using assms by (auto simp: float_text_def)
  have "set ?t \<subseteq> {CHR '',''} \<union> (\<Union>x. set (str_of x))" using set_join_subset [of "'',''" "map str_of xs"] by auto
  then have free: "set ?t \<inter> set ''[]'' = {}" using chars(1) by fastforce
  obtain y ys where "xs = y # ys" using False by (cases xs) auto
  then have t: "?t \<noteq> []" using chars(3) [of y] by (cases ys) auto
  then have ends: "hd ?t \<notin> set ''[]''" "last ?t \<notin> set ''[]''" using free hd_in_set [OF t] last_in_set [OF t] by blast+
  have "strip_brackets (''['' @ ?t @ '']'') = ?t" using ends by (intro strip_brackets_wrap) simp
  moreover have "split_on (CHR '','') ?t = map str_of xs" using False chars(2) by (intro split_on_join) auto
  moreover have "filter (\<lambda>x. x \<noteq> []) (map str_of xs) = map str_of xs" using chars(3) by (simp add: filter_id_conv)
  moreover have "map_res float_of (map str_of xs) = Inr xs" by (induction xs) (simp_all add: chars(4))
  ultimately show ?thesis using False t by (simp add: encode_vector_def decode_vector_def)
qed


text \<open>An exact text of floats on which the law of \<open>float_text\<close> is evaluated: the sign, the
  magnitude and the exponent in decimal.\<close>

definition exact_text :: "pyfloat \<Rightarrow> string" where
  "exact_text v = (case v of
     NaN \<Rightarrow> ''n''
   | Inf s \<Rightarrow> (if s then CHR ''-'' else CHR ''+'') # ''n''
   | Fin s m e \<Rightarrow> (if s then CHR ''-'' else CHR ''+'') # show_nat m
       @ (if e < 0 then CHR ''t'' else CHR ''f'') # show_nat (nat \<bar>e\<bar>))"

definition read_exact :: "string \<Rightarrow> exc + pyfloat" where
  "read_exact t = (case t of
     [] \<Rightarrow> Inl ValueError
   | c # r \<Rightarrow>
      (if c = CHR ''n'' then Inr NaN
       else case dropWhile is_digit r of
              [] \<Rightarrow> Inl ValueError
            | d # x \<Rightarrow>
                if d = CHR ''n'' then Inr (Inf (c = CHR ''-''))
                else Inr (Fin (c = CHR ''-'') (nat_of_digits (takeWhile is_digit r))
                       (if d = CHR ''t'' then - int (nat_of_digits x) else int (nat_of_digits x)))))"

lemma exact_float_text: "float_text exact_text read_exact"
  unfolding float_text_def
proof (intro allI conjI)
  fix x
  show "read_exact (exact_text x) = Inr x"
    by (cases x) (auto simp: exact_text_def read_exact_def)
  show "exact_text x \<noteq> []" by (simp add: exact_text_def split: pyfloat.split)
  have "CHR '','' \<notin> set (show_nat n)" "CHR ''['' \<notin> set (show_nat n)" "CHR '']'' \<notin> set (show_nat n)" for n
    using show_nat_digits by (fastforce simp: not_digit_simps)+
  then show "set (exact_text x) \<inter> set '',[]'' = {}"
    by (simp add: exact_text_def split: pyfloat.split)
qed


text \<open>Other elements are rounded: a value that the type does not have comes back as the nearest one.\<close>

lemma half_rounds: "map_sum id (unpack_float half) (pack_float half (Fin False 2049 0)) = Inr (Fin False 1024 1)"
  by (simp add: pack_float_def magnitude_bits_def last_place_def bit_length.simps half_def exponent_limit_def
      sign_bit_def round_even_def Let_def unpack_float_def be_nat_bytes float_of_bits_def)

text \<open>The header of the binary layout of pgvector is the dimension followed by a zero; the decoder
  takes the second field as the dimension and gives the empty vector for such data.\<close>

lemma decode_zero_second_field: "4 \<le> length data \<Longrightarrow> take 2 (drop 2 data) = [0, 0] \<Longrightarrow> decode_binary data vt = Inr []"
  by (simp add: decode_binary_def be_nat_def)

end
