(* ===== verification/Vector_Filters.thy ===== *)
theory Vector_Filters
  imports Vector_Field Complex_Main
begin

text \<open>
  \<open>expressions/graph_filters.py\<close>: the encoder of query vectors, the parser of
  \<open>[vector, threshold]\<close> values, the distance criteria and the filter table of a vector column. A
  criterion is the term that is handed to pypika; its meaning is given over a distance function of
  the server.
\<close>

section \<open>Values\<close>

datatype vec_value =
    VvNone | VvFloat pyfloat | VvInt int | VvBool bool | VvText string
  | VvList "vec_value list" | VvTuple "vec_value list" | VvOther string

definition double :: float_format where
  "double = \<lparr>ff_size = 8, ff_frac = 52, ff_bias = 1023\<rparr>"

text \<open>\<open>float(x)\<close>: an int is rounded to a double, a text is parsed by the parameter.\<close>

definition float_of_int :: "int \<Rightarrow> exc + pyfloat" where
  "float_of_int i = map_sum id (unpack_float double) (pack_float double (Fin (i < 0) (nat \<bar>i\<bar>) 0))"

definition py_float :: "(string \<Rightarrow> exc + pyfloat) \<Rightarrow> vec_value \<Rightarrow> exc + pyfloat" where
  "py_float float_of v =
     (case v of
        VvFloat x \<Rightarrow> Inr x
      | VvInt i \<Rightarrow> float_of_int i
      | VvBool b \<Rightarrow> float_of_int (if b then 1 else 0)
      | VvText s \<Rightarrow> float_of s
      | _ \<Rightarrow> Inl TypeError)"

definition text_of_floats :: "(pyfloat \<Rightarrow> string) \<Rightarrow> pyfloat list \<Rightarrow> string" where
  "text_of_floats str_of xs = ''['' @ join '','' (map str_of xs) @ '']''"

definition vector_encoder ::
  "(pyfloat \<Rightarrow> string) \<Rightarrow> (string \<Rightarrow> exc + pyfloat) \<Rightarrow> vec_value \<Rightarrow> exc + string option" where
  "vector_encoder str_of float_of v =
     (case v of
        VvNone \<Rightarrow> Inr None
      | VvText s \<Rightarrow> Inr (Some s)
      | VvList xs \<Rightarrow> map_sum id (\<lambda>fs. Some (text_of_floats str_of fs)) (map_res (py_float float_of) xs)
      | VvTuple xs \<Rightarrow> map_sum id (\<lambda>fs. Some (text_of_floats str_of fs)) (map_res (py_float float_of) xs)
      | VvFloat x \<Rightarrow> Inr (Some (str_of x))
      | VvInt i \<Rightarrow> Inr (Some (show_int i))
      | VvBool b \<Rightarrow> Inr (Some (if b then ''True'' else ''False''))
      | VvOther s \<Rightarrow> Inr (Some s))"

section \<open>Criteria\<close>

datatype distance_op = L2_distance | Inner_product | Cosine_distance | Hamming_distance | Jaccard_distance

fun comparator :: "distance_op \<Rightarrow> string" where
  "comparator L2_distance = '' <-> ''"
| "comparator Inner_product = '' <#> ''"
| "comparator Cosine_distance = '' <=> ''"
| "comparator Hamming_distance = '' <~> ''"
| "comparator Jaccard_distance = '' <%> ''"

datatype sql_term = FieldTerm string | Wrapped vec_value

text \<open>\<open>L2Distance(left, right)\<close> and its siblings: a name on the left becomes a field.\<close>

datatype distance = Distance distance_op sql_term sql_term

definition distance_of :: "distance_op \<Rightarrow> string + sql_term \<Rightarrow> sql_term \<Rightarrow> distance" where
  "distance_of op left right = Distance op (case left of Inl name \<Rightarrow> FieldTerm name | Inr t \<Rightarrow> t) right"

datatype criterion = Lte distance pyfloat | IsNull string bool | NotNull string bool

definition negate :: "pyfloat \<Rightarrow> pyfloat" where
  "negate v = (case v of Fin s m e \<Rightarrow> Fin (\<not> s) m e | Inf s \<Rightarrow> Inf (\<not> s) | NaN \<Rightarrow> NaN)"

definition parse_vector_threshold :: "vec_value \<Rightarrow> pyfloat \<Rightarrow> exc + vec_value \<times> pyfloat" where
  "parse_vector_threshold v dflt =
     (let parts = (case v of VvList [a, b] \<Rightarrow> Some (a, b) | VvTuple [a, b] \<Rightarrow> Some (a, b) | _ \<Rightarrow> None) in
      case parts of
        Some (VvList q, t) \<Rightarrow>
          (case t of
             VvInt i \<Rightarrow> map_sum id (Pair (VvList q)) (float_of_int i)
           | VvFloat x \<Rightarrow> Inr (VvList q, x)
           | _ \<Rightarrow> Inl VectorFieldError)
      | _ \<Rightarrow> Inr (v, dflt))"

definition one :: pyfloat where "one = Fin False 1 0"
definition zero :: pyfloat where "zero = Fin False 0 0"

definition distance_filter :: "distance_op \<Rightarrow> string \<Rightarrow> vec_value \<Rightarrow> exc + criterion" where
  "distance_filter op col v =
     (if op = Inner_product then
        bind_res (parse_vector_threshold v zero) (\<lambda>(q, t).
          Inr (Lte (distance_of op (Inr (FieldTerm col)) (Wrapped q)) (negate t)))
      else
        bind_res (parse_vector_threshold v one) (\<lambda>(q, t).
          Inr (Lte (distance_of op (Inr (FieldTerm col)) (Wrapped q)) t)))"

section \<open>The filter table\<close>

datatype filter_operator = Eq_guard | Is_null | Not_null | Within distance_op

datatype value_encoder = Bool_encoder | Passthrough

record filter_info =
  fi_field :: string
  fi_source :: string
  fi_operator :: filter_operator
  fi_encoder :: value_encoder

definition get_vector_filters :: "string \<Rightarrow> string \<Rightarrow> (string \<times> filter_info) list" where
  "get_vector_filters field_name source_field =
     map (\<lambda>(suffix, op, enc). (field_name @ suffix,
         \<lparr>fi_field = field_name, fi_source = source_field, fi_operator = op, fi_encoder = enc\<rparr>))
       [('''', Eq_guard, Bool_encoder), (''__isnull'', Is_null, Bool_encoder), (''__not_isnull'', Not_null, Bool_encoder),
        (''__l2_distance'', Within L2_distance, Passthrough), (''__cosine_distance'', Within Cosine_distance, Passthrough),
        (''__inner_product'', Within Inner_product, Passthrough), (''__hamming_distance'', Within Hamming_distance, Passthrough),
        (''__jaccard_distance'', Within Jaccard_distance, Passthrough)]"

text \<open>\<open>bool(value)\<close>, and the operator on the encoded value.\<close>

definition vec_truth :: "vec_value \<Rightarrow> bool" where
  "vec_truth v =
     (case v of
        VvNone \<Rightarrow> False
      | VvFloat x \<Rightarrow> (case x of Fin s m e \<Rightarrow> m \<noteq> 0 | _ \<Rightarrow> True)
      | VvInt i \<Rightarrow> i \<noteq> 0
      | VvBool b \<Rightarrow> b
      | VvText s \<Rightarrow> s \<noteq> []
      | VvList xs \<Rightarrow> xs \<noteq> []
      | VvTuple xs \<Rightarrow> xs \<noteq> []
      | VvOther s \<Rightarrow> True)"

definition filter_criterion :: "filter_info \<Rightarrow> vec_value \<Rightarrow> exc + criterion" where
  "filter_criterion fi v =
     (case fi_operator fi of
        Eq_guard \<Rightarrow> Inl VectorFieldError
      | Is_null \<Rightarrow> Inr (IsNull (fi_source fi) (vec_truth v))
      | Not_null \<Rightarrow> Inr (NotNull (fi_source fi) (vec_truth v))
      | Within op \<Rightarrow> distance_filter op (fi_source fi) v)"

section \<open>What a filter selects\<close>

definition float_value :: "pyfloat \<Rightarrow> real" where
  "float_value v = (case v of Fin s m e \<Rightarrow> (if s then -1 else 1) * real m * 2 powi e | _ \<Rightarrow> 0)"

text \<open>\<open>d <= t\<close> of PostgreSQL, where NaN is the greatest value.\<close>

definition at_most :: "real \<Rightarrow> pyfloat \<Rightarrow> bool" where
  "at_most d t = (case t of Fin s m e \<Rightarrow> d \<le> float_value t | Inf s \<Rightarrow> \<not> s | NaN \<Rightarrow> True)"

definition selects :: "(distance_op \<Rightarrow> 'v \<Rightarrow> vec_value \<Rightarrow> real) \<Rightarrow> (string \<Rightarrow> 'v option) \<Rightarrow> criterion \<Rightarrow> bool" where
  "selects dst row c =
     (case c of
        Lte (Distance op (FieldTerm col) (Wrapped q)) t \<Rightarrow>
          (case row col of None \<Rightarrow> False | Some x \<Rightarrow> at_most (dst op x q) t)
      | Lte d t \<Rightarrow> False
      | IsNull col b \<Rightarrow> (row col = None) = b
      | NotNull col b \<Rightarrow> (row col \<noteq> None) = b)"

text \<open>The similarity filters select the rows within the threshold: at most the given distance, and for
  \<open>__inner_product\<close>, whose operator gives the negative product, at least the given product.
\<close>

theorem similarity_filter_selects:
  assumes "\<And>v q. dst Inner_product v q = - iprod v q" "row col = Some x"
    and "map_of (get_vector_filters name col) (name @ tail) = Some fi" "fi_operator fi = Within op"
  shows "\<exists>c. filter_criterion fi (VvList [VvList q, VvFloat (Fin s m e)]) = Inr c
    \<and> (selects dst row c \<longleftrightarrow>
         (if op = Inner_product then float_value (Fin s m e) \<le> iprod x (VvList q)
          else dst op x (VvList q) \<le> float_value (Fin s m e)))"
proof -
  have "(name @ tail, fi) \<in> set (get_vector_filters name col)" using assms(3) by (rule map_of_SomeD)
  then have "fi_source fi = col" by (auto simp: get_vector_filters_def)
  moreover have "- a \<le> b \<longleftrightarrow> - b \<le> a" for a b :: real by (rule minus_le_iff)
  ultimately show ?thesis using assms(1,2,4)
    by (auto simp: filter_criterion_def distance_filter_def parse_vector_threshold_def distance_of_def selects_def
        at_most_def float_value_def negate_def)
qed

theorem similarity_filter_selects_witness:
  "\<exists>c. filter_criterion \<lparr>fi_field = ''embedding'', fi_source = ''emb'', fi_operator = Within Inner_product, fi_encoder = Passthrough\<rparr>
      (VvList [VvList [VvInt 1], VvFloat (Fin False 3 (-1))]) = Inr c
    \<and> (selects (\<lambda>op v q. if op = Inner_product then - (v * 2) else v) [''emb'' \<mapsto> (7::real)] c \<longleftrightarrow>
         float_value (Fin False 3 (-1)) \<le> 7 * 2)"
  using similarity_filter_selects [of "\<lambda>op v q. if op = Inner_product then - (v * 2) else v" "\<lambda>v q. v * 2"
      "[''emb'' \<mapsto> (7::real)]" "''emb''" 7 "''embedding''" "''__inner_product''"
      "\<lparr>fi_field = ''embedding'', fi_source = ''emb'', fi_operator = Within Inner_product, fi_encoder = Passthrough\<rparr>"
      Inner_product "[VvInt 1]" False 3 "-1"]
  by (simp add: get_vector_filters_def)

text \<open>A pair whose first part is a list and whose second is no number is refused; any other value is a
  plain vector with the default threshold.\<close>

lemma float_of_int_error: "float_of_int i = Inl e \<Longrightarrow> e = OverflowError"
  by (cases "pack_float double (Fin (i < 0) (nat \<bar>i\<bar>) 0)") (auto simp: float_of_int_def dest: pack_float_error)

lemma map_sum_Inl: "map_sum id f r = Inl e \<Longrightarrow> r = Inl e"
  by (cases r) auto

lemma threshold_errors:
  "parse_vector_threshold v t = Inl e \<Longrightarrow>
     \<exists>q u. (v = VvList [VvList q, u] \<or> v = VvTuple [VvList q, u])
       \<and> (e = VectorFieldError \<and> (\<forall>x i. u \<noteq> VvFloat x \<and> u \<noteq> VvInt i) \<or> e = OverflowError \<and> (\<exists>i. u = VvInt i))"
  by (auto simp: parse_vector_threshold_def Let_def split: vec_value.splits list.splits
      dest!: map_sum_Inl dest: float_of_int_error)

text \<open>A compound value whose vector is a tuple is taken as a plain vector.\<close>

lemma tuple_vector_loses_threshold:
  "parse_vector_threshold (VvList [VvTuple q, VvFloat t]) dflt = Inr (VvList [VvTuple q, VvFloat t], dflt)"
  by (simp add: parse_vector_threshold_def)

text \<open>An encoded vector is the text that the connection codec reads back.\<close>

lemma encoder_matches_codec:
  "xs \<noteq> [] \<Longrightarrow> map_res (py_float float_of) vs = Inr xs \<Longrightarrow>
     vector_encoder str_of float_of (VvList vs) = Inr (Some (encode_vector str_of (CvFloats xs)))"
  by (simp add: vector_encoder_def text_of_floats_def encode_vector_def)

end
