(* ===== verification/Py_Literal.thy ===== *)
theory Py_Literal
  imports Json_Roundtrip
begin

text \<open>
  Reading back Python source that is built from \<open>repr\<close>: string literals, \<open>True\<close> and \<open>False\<close>, and a
  call with keyword arguments. \<open>None\<close> is source that this reader does not accept.
\<close>

fun read_literal :: "char \<Rightarrow> string \<Rightarrow> (string \<times> string) option" where
  "read_literal q [] = None"
| "read_literal q (c # s) =
     (if c = q then Some ([], s)
      else if c = CHR 0x0A then None
      else if c \<noteq> CHR 0x5C then map_option (map_prod ((#) c) id) (read_literal q s)
      else case s of
        [] \<Rightarrow> None
      | d # t \<Rightarrow>
          if d = CHR ''n'' then map_option (map_prod ((#) (CHR 0x0A)) id) (read_literal q t)
          else if d = CHR ''r'' then map_option (map_prod ((#) (CHR 0x0D)) id) (read_literal q t)
          else if d = CHR ''t'' then map_option (map_prod ((#) (CHR 0x09)) id) (read_literal q t)
          else if d = CHR ''x'' then
            (case t of
               h # l # u \<Rightarrow>
                 (case (hex_val h, hex_val l) of
                    (Some a, Some b) \<Rightarrow> map_option (map_prod ((#) (char_of (16 * a + b))) id) (read_literal q u)
                  | _ \<Rightarrow> None)
             | _ \<Rightarrow> None)
          else if d = CHR 0x5C \<or> d = SQ \<or> d = DQ then map_option (map_prod ((#) d) id) (read_literal q t)
          else None)"

declare read_literal.simps [simp del]

lemma char_newline:
  "(of_char c :: nat) = 10 \<longleftrightarrow> c = CHR 0x0A" "(of_char c :: nat) = 13 \<longleftrightarrow> c = CHR 0x0D"
  "(of_char c :: nat) = 9 \<longleftrightarrow> c = CHR 0x09"
proof -
  have "char_of (10 :: nat) = CHR 0x0A" "char_of (13 :: nat) = CHR 0x0D" "char_of (9 :: nat) = CHR 0x09" by code_simp+
  then show "(of_char c :: nat) = 10 \<longleftrightarrow> c = CHR 0x0A" "(of_char c :: nat) = 13 \<longleftrightarrow> c = CHR 0x0D"
    "(of_char c :: nat) = 9 \<longleftrightarrow> c = CHR 0x09"
    by (auto dest: char_of_eq)
qed

lemma read_repr_char:
  assumes "q = SQ \<or> q = DQ"
  shows "read_literal q (repr_char P q c @ r) = map_option (map_prod ((#) c) id) (read_literal q r)"
proof -
  let ?k = "of_char c :: nat"
  have bs: "q \<noteq> CHR 0x5C" using assms by auto
  consider "c = q" | "c = CHR 0x5C" | "c \<noteq> q" "c \<noteq> CHR 0x5C" "?k = 10" | "c \<noteq> q" "c \<noteq> CHR 0x5C" "?k = 13"
    | "c \<noteq> q" "c \<noteq> CHR 0x5C" "?k = 9" | "c \<noteq> q" "c \<noteq> CHR 0x5C" "?k \<notin> {9, 10, 13}" "P ?k"
    | "c \<noteq> q" "c \<noteq> CHR 0x5C" "?k \<notin> {9, 10, 13}" "\<not> P ?k" by blast
  then show ?thesis
  proof cases
    case 1
    then show ?thesis using assms bs by (auto simp: repr_char_def read_literal.simps Let_def)
  next
    case 2
    then show ?thesis using assms bs by (auto simp: repr_char_def read_literal.simps Let_def)
  next
    case 7
    have "?k < 256" by simp
    then have "?k div 16 < 16" "?k mod 16 < 16" by (simp_all add: div_less_iff_less_mult)
    then have "hex_val (hex_digit (?k div 16)) = Some (?k div 16)" "hex_val (hex_digit (?k mod 16)) = Some (?k mod 16)" by simp_all
    moreover have "char_of (16 * (?k div 16) + ?k mod 16) = c" by simp
    ultimately show ?thesis using 7 bs assms by (auto simp: repr_char_def read_literal.simps Let_def)
  qed (use bs assms in \<open>auto simp: repr_char_def read_literal.simps Let_def char_newline\<close>)
qed

lemma read_repr_chars:
  assumes "q = SQ \<or> q = DQ"
  shows "read_literal q (concat (map (repr_char P q) s) @ q # r) = Some (s, r)"
proof (induction s)
  case Nil
  then show ?case by (simp add: read_literal.simps)
next
  case (Cons c s)
  then show ?case using read_repr_char [OF assms, of P c] by simp
qed

text \<open>Argument values, a call \<open>name(k=v, ...)\<close>, and the line of a call in a list.\<close>

definition read_value :: "string \<Rightarrow> (cval \<times> string) option" where
  "read_value s =
     (if prefix ''True'' s then Some (CBool True, drop 4 s)
      else if prefix ''False'' s then Some (CBool False, drop 5 s)
      else if prefix ''None'' s then Some (CNull, drop 4 s)
      else case s of
        [] \<Rightarrow> None
      | c # t \<Rightarrow> if c = SQ \<or> c = DQ then map_option (map_prod CStr id) (read_literal c t) else read_number s)"

fun read_kwargs :: "nat \<Rightarrow> string \<Rightarrow> ((string \<times> cval) list \<times> string) option" where
  "read_kwargs 0 s = None"
| "read_kwargs (Suc n) s =
     (case dropWhile (\<lambda>c. c \<noteq> CHR ''='') s of
        [] \<Rightarrow> None
      | e # t \<Rightarrow>
          (case read_value t of
             None \<Rightarrow> None
           | Some (v, u) \<Rightarrow>
               let arg = (takeWhile (\<lambda>c. c \<noteq> CHR ''='') s, v) in
               if prefix '', '' u then map_option (map_prod ((#) arg) id) (read_kwargs n (drop 2 u))
               else if prefix '')'' u then Some ([arg], drop 1 u)
               else None))"

definition read_call_line :: "string \<Rightarrow> (string \<times> (string \<times> cval) list) option" where
  "read_call_line l =
     (let s = dropWhile (\<lambda>c. c = CHR '' '') l; name = takeWhile (\<lambda>c. c \<noteq> CHR ''('') s in
      case read_kwargs (length s) (drop 1 (dropWhile (\<lambda>c. c \<noteq> CHR ''('') s)) of
        None \<Rightarrow> None
      | Some (kwargs, rest) \<Rightarrow> if rest = '','' then Some (name, kwargs) else None)"

definition call_value :: "cval \<Rightarrow> bool" where
  "call_value v \<longleftrightarrow> v = CNull \<or> (\<exists>b. v = CBool b) \<or> (\<exists>s. v = CStr s) \<or> (\<exists>i. v = CInt i)"

lemma show_int_head: "hd (show_int i @ r) = CHR ''-'' \<or> is_digit (hd (show_int i @ r))"
  using show_nat_digits [of _ "nat i"] by (cases "show_nat (nat i)") (auto simp: show_int_def)

lemma ends_argument [simp]: "ends_number (CHR '')'' # r)" "ends_number (CHR '','' # r)"
  by (simp_all add: ends_number_def is_digit_def)

lemma read_repr_value:
  assumes "call_value v" "ends_number r"
  shows "read_value (py_repr v @ r) = Some (v, r)"
proof -
  consider "v = CNull" | b where "v = CBool b" | s where "v = CStr s" | i where "v = CInt i"
    using assms(1) by (auto simp: call_value_def)
  then show ?thesis
  proof cases
    case 1
    then show ?thesis by (simp add: read_value_def)
  next
    case (2 b)
    then show ?thesis by (cases b) (simp_all add: read_value_def)
  next
    case (4 i)
    obtain c t where ct: "show_int i @ r = c # t" by (cases "show_int i") auto
    then have "c = CHR ''-'' \<or> is_digit c" using show_int_head [of i r] by simp
    moreover have "\<not> is_digit (CHR ''T'')" "\<not> is_digit (CHR ''F'')" "\<not> is_digit (CHR ''N'')" "\<not> is_digit SQ" "\<not> is_digit DQ"
      by (simp_all add: is_digit_def)
    ultimately have "c \<noteq> CHR ''T''" "c \<noteq> CHR ''F''" "c \<noteq> CHR ''N''" "c \<noteq> SQ" "c \<noteq> DQ" by auto
    then show ?thesis using read_number_int [OF assms(2), of i] ct 4 by (simp add: read_value_def)
  next
    case (3 s)
    have q: "repr_quote s = SQ \<or> repr_quote s = DQ" by (simp add: repr_quote_def)
    note lit = read_repr_chars [OF q, of _ s r]
    show ?thesis using q lit unfolding 3
      by (auto simp: repr_str_def Let_def read_value_def)
  qed
qed

lemma until_char:
  assumes "x \<notin> set k"
  shows "takeWhile (\<lambda>c. c \<noteq> x) (k @ x # u) = k" "dropWhile (\<lambda>c. c \<noteq> x) (k @ x # u) = x # u"
proof -
  have "\<And>c. c \<in> set k \<Longrightarrow> c \<noteq> x" using assms by blast
  then show "takeWhile (\<lambda>c. c \<noteq> x) (k @ x # u) = k" "dropWhile (\<lambda>c. c \<noteq> x) (k @ x # u) = x # u"
    by (simp_all add: takeWhile_append2 dropWhile_append2)
qed

definition call_kwargs :: "(string \<times> cval) list \<Rightarrow> string" where
  "call_kwargs kwargs = join '', '' (map (\<lambda>(k, v). k @ ''='' @ py_repr v) kwargs)"

lemma read_call_kwargs:
  assumes "kwargs \<noteq> []" "\<forall>(k, v) \<in> set kwargs. CHR ''='' \<notin> set k \<and> call_value v" "length kwargs \<le> n"
  shows "read_kwargs n (call_kwargs kwargs @ CHR '')'' # r) = Some (kwargs, r)"
  using assms
proof (induction kwargs arbitrary: n)
  case (Cons a kwargs)
  obtain k v where a: "a = (k, v)" by force
  obtain m where n: "n = Suc m" using Cons.prems(3) by (cases n) auto
  have k: "CHR ''='' \<notin> set k" "call_value v" using Cons.prems(2) a by auto
  note kw = until_char [OF k(1)]
  show ?case
  proof (cases "kwargs = []")
    case True
    then show ?thesis using kw read_repr_value [OF k(2), of "CHR '')'' # r"] by (simp add: call_kwargs_def a n)
  next
    case False
    then have "read_kwargs m (call_kwargs kwargs @ CHR '')'' # r) = Some (kwargs, r)"
      using Cons.IH [of m] Cons.prems n by auto
    then show ?thesis using kw read_repr_value [OF k(2), of "'', '' @ call_kwargs kwargs @ CHR '')'' # r"] False
      by (simp add: call_kwargs_def a n join_Cons)
  qed
qed simp

lemma read_written_call:
  assumes "kwargs \<noteq> []" "\<forall>(k, v) \<in> set kwargs. CHR ''='' \<notin> set k \<and> call_value v"
    and "name \<noteq> []" "CHR ''('' \<notin> set name" "hd name \<noteq> CHR '' ''" "list_all (\<lambda>c. c = CHR '' '') indent"
  shows "read_call_line (indent @ name @ ''('' @ call_kwargs kwargs @ ''),'') = Some (name, kwargs)"
proof -
  have "dropWhile (\<lambda>c. c = CHR '' '') (indent @ name @ u) = name @ u" for u
    using assms(3,5,6) by (induction indent) (auto simp: neq_Nil_conv)
  moreover have "length kwargs \<le> length (call_kwargs kwargs)"
  proof -
    have "length xs \<le> length (join '', '' xs)" if "\<forall>x \<in> set xs. x \<noteq> []" for xs :: "string list"
      using that
    proof (induction xs)
      case (Cons x xs)
      then show ?case by (cases "xs = []") (auto simp: join_Cons neq_Nil_conv)
    qed simp
    from this [of "map (\<lambda>(k, v). k @ ''='' @ py_repr v) kwargs"] show ?thesis by (simp add: call_kwargs_def split_beta)
  qed
  ultimately show ?thesis
    using read_call_kwargs [OF assms(1,2)] until_char [OF assms(4)]
    by (simp add: read_call_line_def Let_def del: read_kwargs.simps)
qed

end
