(* ===== verification/Migrations.thy ===== *)
theory Migrations
  imports Py_Literal Sql_Template Effects
begin

text \<open>
  \<open>migrations/operations.py\<close>: the two operations, the statements they run, and the extension of the
  migration writer that puts them into migration files. The schema editor and the stock writer are
  parameters.
\<close>

section \<open>Operations\<close>

datatype operation =
    CreateHypertable string string string bool
  | CreateContinuousAggregate string string string string string string

definition hypertable_describe :: "string \<Rightarrow> string \<Rightarrow> string \<Rightarrow> string" where
  "hypertable_describe t c i =
     ''CreateHypertable(table_name='' @ repr_str t @ '', time_column='' @ repr_str c
       @ '', chunk_time_interval='' @ repr_str i @ '')''"

definition aggregate_describe :: "string \<Rightarrow> string \<Rightarrow> string \<Rightarrow> string \<Rightarrow> string \<Rightarrow> string \<Rightarrow> string" where
  "aggregate_describe v q c r a b =
     ''CreateContinuousAggregate(view_name='' @ repr_str v @ '', query='' @ repr_str q @ '', time_column='' @ repr_str c
       @ '', refresh_interval='' @ repr_str r @ '', start_offset='' @ repr_str a @ '', end_offset='' @ repr_str b @ '')''"

fun op_describe :: "operation \<Rightarrow> string" where
  "op_describe (CreateHypertable t c i m) = hypertable_describe t c i"
| "op_describe (CreateContinuousAggregate v q c r a b) = aggregate_describe v q c r a b"

type_synonym deconstructed = "string \<times> cval list \<times> (string \<times> cval) list"

definition hypertable_deconstruct :: "string \<Rightarrow> string \<Rightarrow> string \<Rightarrow> bool \<Rightarrow> deconstructed" where
  "hypertable_deconstruct t c i m =
     (''CreateHypertable'', [],
      [(''table_name'', CStr t), (''time_column'', CStr c), (''chunk_time_interval'', CStr i), (''migrate_data'', CBool m)])"

definition aggregate_deconstruct :: "string \<Rightarrow> string \<Rightarrow> string \<Rightarrow> string \<Rightarrow> string \<Rightarrow> string \<Rightarrow> deconstructed" where
  "aggregate_deconstruct v q c r a b =
     (''CreateContinuousAggregate'', [],
      [(''view_name'', CStr v), (''query'', CStr q), (''time_column'', CStr c), (''refresh_interval'', CStr r),
       (''start_offset'', CStr a), (''end_offset'', CStr b)])"

fun deconstruct :: "operation \<Rightarrow> deconstructed" where
  "deconstruct (CreateHypertable t c i m) = hypertable_deconstruct t c i m"
| "deconstruct (CreateContinuousAggregate v q c r a b) = aggregate_deconstruct v q c r a b"

lemmas deconstruct_defs = hypertable_deconstruct_def aggregate_deconstruct_def

text \<open>The constructors: keyword arguments with their defaults.\<close>

definition str_kwarg :: "(string \<times> cval) list \<Rightarrow> string \<Rightarrow> string option \<Rightarrow> exc + string" where
  "str_kwarg kwargs k dflt =
     (case map_of kwargs k of
        Some (CStr s) \<Rightarrow> Inr s
      | Some v \<Rightarrow> Inl TypeError
      | None \<Rightarrow> (case dflt of Some s \<Rightarrow> Inr s | None \<Rightarrow> Inl TypeError))"

definition bool_kwarg :: "(string \<times> cval) list \<Rightarrow> string \<Rightarrow> bool \<Rightarrow> exc + bool" where
  "bool_kwarg kwargs k dflt =
     (case map_of kwargs k of Some (CBool b) \<Rightarrow> Inr b | Some v \<Rightarrow> Inl TypeError | None \<Rightarrow> Inr dflt)"

definition construct_hypertable :: "(string \<times> cval) list \<Rightarrow> exc + operation" where
  "construct_hypertable kwargs =
     (if \<not> set (map fst kwargs) \<subseteq> set [''table_name'', ''time_column'', ''chunk_time_interval'', ''migrate_data''] then Inl TypeError
      else bind_res (str_kwarg kwargs ''table_name'' None) (\<lambda>t.
        bind_res (str_kwarg kwargs ''time_column'' (Some ''created_at'')) (\<lambda>c.
        bind_res (str_kwarg kwargs ''chunk_time_interval'' (Some ''7 days'')) (\<lambda>i.
        bind_res (bool_kwarg kwargs ''migrate_data'' True) (\<lambda>m. Inr (CreateHypertable t c i m))))))"

definition construct_aggregate :: "(string \<times> cval) list \<Rightarrow> exc + operation" where
  "construct_aggregate kwargs =
     (if \<not> set (map fst kwargs) \<subseteq> set [''view_name'', ''query'', ''time_column'', ''refresh_interval'', ''start_offset'', ''end_offset'']
      then Inl TypeError
      else bind_res (str_kwarg kwargs ''view_name'' None) (\<lambda>v.
        bind_res (str_kwarg kwargs ''query'' None) (\<lambda>q.
        bind_res (str_kwarg kwargs ''time_column'' (Some ''time_bucket'')) (\<lambda>c.
        bind_res (str_kwarg kwargs ''refresh_interval'' (Some ''1 hour'')) (\<lambda>r.
        bind_res (str_kwarg kwargs ''start_offset'' (Some ''1 hour'')) (\<lambda>a.
        bind_res (str_kwarg kwargs ''end_offset'' (Some ''0'')) (\<lambda>b.
          Inr (CreateContinuousAggregate v q c r a b))))))))"

definition construct_operation :: "string \<Rightarrow> (string \<times> cval) list \<Rightarrow> exc + operation" where
  "construct_operation name kwargs =
     (if name = ''CreateHypertable'' then construct_hypertable kwargs
      else if name = ''CreateContinuousAggregate'' then construct_aggregate kwargs
      else Inl AttributeError)"

section \<open>Running them\<close>

type_synonym 's editor = "string \<Rightarrow> ('s, unit) act"

definition py_bool_upper :: "bool \<Rightarrow> string" where
  "py_bool_upper b = (if b then ''TRUE'' else ''FALSE'')"

definition convert_sql :: "string \<Rightarrow> string \<Rightarrow> bool \<Rightarrow> piece list" where
  "convert_sql table time_column migrate_data =
     [Text ''SELECT create_hypertable('', Value table, Text '', '', Value time_column,
      Text ('', if_not_exists => TRUE, migrate_data => '' @ py_bool_upper migrate_data @ '')'')]"

definition interval_sql :: "string \<Rightarrow> string \<Rightarrow> piece list" where
  "interval_sql table chunk_time_interval =
     [Text ''ALTER TABLE '', Name table, Text '' SET (timescaledb.chunk_time_interval = '', Value chunk_time_interval, Text '')'']"

definition view_sql :: "string \<Rightarrow> string \<Rightarrow> string" where
  "view_sql view_name query =
     render [Text ''CREATE MATERIALIZED VIEW IF NOT EXISTS '', Name view_name, Text '' WITH (timescaledb.continuous) AS ''] @ query"

definition policy_sql :: "string \<Rightarrow> string \<Rightarrow> string \<Rightarrow> string \<Rightarrow> piece list" where
  "policy_sql view_name start_offset end_offset refresh_interval =
     [Text ''SELECT add_continuous_aggregate_policy('', Value view_name,
      Text '', if_not_exists => TRUE, start_offset => INTERVAL '', Value start_offset,
      Text '', end_offset => INTERVAL '', Value end_offset,
      Text '', schedule_interval => INTERVAL '', Value refresh_interval, Text '')'']"

definition hypertable_run :: "string \<Rightarrow> string \<Rightarrow> string \<Rightarrow> bool \<Rightarrow> bool \<Rightarrow> 's editor option \<Rightarrow> ('s, unit) act" where
  "hypertable_run t c i m dry_run state_editor =
     (case state_editor of
        None \<Rightarrow> ret ()
      | Some run_sql \<Rightarrow>
          if dry_run then ret ()
          else bind_act (run_sql (render (convert_sql t c m))) (\<lambda>_.
            if i \<noteq> ''7 days'' then run_sql (render (interval_sql t i)) else ret ()))"

definition aggregate_run ::
  "string \<Rightarrow> string \<Rightarrow> string \<Rightarrow> string \<Rightarrow> string \<Rightarrow> bool \<Rightarrow> 's editor option \<Rightarrow> ('s, unit) act" where
  "aggregate_run v q r a b dry_run state_editor =
     (case state_editor of
        None \<Rightarrow> ret ()
      | Some run_sql \<Rightarrow>
          if dry_run then ret ()
          else bind_act (run_sql (view_sql v q)) (\<lambda>_. run_sql (render (policy_sql v a b r))))"

fun op_run :: "operation \<Rightarrow> bool \<Rightarrow> 's editor option \<Rightarrow> ('s, unit) act" where
  "op_run (CreateHypertable t c i m) dry_run editor = hypertable_run t c i m dry_run editor"
| "op_run (CreateContinuousAggregate v q c r a b) dry_run editor = aggregate_run v q r a b dry_run editor"

definition database_forward :: "operation \<Rightarrow> 's editor option \<Rightarrow> ('s, unit) act" where
  "database_forward op editor = op_run op False editor"

definition hypertable_backward :: "string \<Rightarrow> 's editor option \<Rightarrow> ('s, unit) act" where
  "hypertable_backward t state_editor =
     (case state_editor of
        None \<Rightarrow> ret ()
      | Some run_sql \<Rightarrow> run_sql (render [Text ''SELECT remove_hypertable('', Value t, Text '', if_exists => TRUE)'']))"

definition aggregate_backward :: "string \<Rightarrow> 's editor option \<Rightarrow> ('s, unit) act" where
  "aggregate_backward v state_editor =
     (case state_editor of
        None \<Rightarrow> ret ()
      | Some run_sql \<Rightarrow> run_sql (render [Text ''DROP MATERIALIZED VIEW IF EXISTS '', Name v]))"

fun database_backward :: "operation \<Rightarrow> 's editor option \<Rightarrow> ('s, unit) act" where
  "database_backward (CreateHypertable t c i m) editor = hypertable_backward t editor"
| "database_backward (CreateContinuousAggregate v q c r a b) editor = aggregate_backward v editor"

text \<open>\<open>state_forward\<close> leaves the model state as it is.\<close>

definition state_forward :: "operation \<Rightarrow> 'st \<Rightarrow> 'st" where
  "state_forward op st = st"

section \<open>The migration writer\<close>

text \<open>\<open>_format_operation\<close> gives lines or an exception with its message, and adds imports.\<close>

type_synonym import_list = "(string \<times> string) list"
type_synonym 'o formatter = "'o \<Rightarrow> string \<Rightarrow> import_list \<Rightarrow> (exc \<times> string + string list) \<times> import_list"

record 'o migration_writer =
  mw_format :: "'o formatter"
  mw_patched :: bool

definition contains :: "string \<Rightarrow> string \<Rightarrow> bool" where
  "contains part s = list_ex (prefix part) (suffixes s)"

text \<open>\<open>dc\<close> is the \<open>deconstruct\<close> method of an operation, if it has one.\<close>

definition patched_format ::
  "('o \<Rightarrow> (string \<times> cval list \<times> (string \<times> cval) list) option) \<Rightarrow> 'o formatter \<Rightarrow> 'o formatter" where
  "patched_format dc original op indent imports =
     (case original op indent imports of
        (Inr lines, imports') \<Rightarrow> (Inr lines, imports')
      | (Inl (e, msg), imports') \<Rightarrow>
          if \<not> (is_instance e ValueError \<and> contains ''Unsupported operation type'' msg) then (Inl (e, msg), imports')
          else (case dc op of
              None \<Rightarrow> (Inl (MigrationOperationError, ''no deconstruct method''), imports')
            | Some (class_name, args, kwargs) \<Rightarrow>
                (Inr [indent @ class_name @ ''(''
                    @ join '', '' (map py_repr args @ map (\<lambda>(k, v). k @ ''='' @ py_repr v) kwargs) @ ''),''],
                 imports' @ [(''tortoise_extended.migrations.operations'', class_name)])))"

definition patch_format_operation ::
  "('o \<Rightarrow> (string \<times> cval list \<times> (string \<times> cval) list) option) \<Rightarrow> 'o migration_writer \<Rightarrow> 'o migration_writer" where
  "patch_format_operation dc w =
     (if mw_patched w then w else w\<lparr>mw_format := patched_format dc (mw_format w), mw_patched := True\<rparr>)"

section \<open>Migration files\<close>

lemma deconstruct_construct:
  "deconstruct op = (name, args, kwargs) \<Longrightarrow> args = [] \<and> construct_operation name kwargs = Inr op"
  by (cases op) (auto simp: deconstruct_defs construct_operation_def construct_hypertable_def construct_aggregate_def str_kwarg_def bool_kwarg_def)

text \<open>C38: The line that the extended writer puts into a migration file, read as Python, is the call that
  builds the operation again, whatever texts it was given; the stock writer's other errors and its
  own output stay as they are, and extending the writer twice is extending it once.
\<close>

theorem migration_file_roundtrip:
  fixes op :: operation
  assumes "mw_format w op indent imports = (Inl (e, msg), imports')" "is_instance e ValueError"
    and "contains ''Unsupported operation type'' msg" "\<not> mw_patched w" "list_all (\<lambda>c. c = CHR '' '') indent"
  shows "let w' = patch_format_operation (\<lambda>op. Some (deconstruct op)) w in
    patch_format_operation (\<lambda>op. Some (deconstruct op)) w' = w'
    \<and> (\<exists>l name kwargs. mw_format w' op indent imports = (Inr [l], imports' @ [(''tortoise_extended.migrations.operations'', name)])
        \<and> read_call_line l = Some (name, kwargs) \<and> construct_operation name kwargs = Inr op)"
proof -
  obtain name args kwargs where d: "deconstruct op = (name, args, kwargs)" by (metis prod_cases3)
  have args: "args = []" and again: "construct_operation name kwargs = Inr op" using deconstruct_construct [OF d] by blast+
  have kw: "kwargs \<noteq> []" "\<forall>(k, v) \<in> set kwargs. CHR ''='' \<notin> set k \<and> call_value v"
    and name: "name \<noteq> []" "CHR ''('' \<notin> set name" "hd name \<noteq> CHR '' ''"
    using d by (cases op; auto simp: deconstruct_defs call_value_def)+
  show ?thesis
    using assms(1-4) read_written_call [OF kw name assms(5)] again
    by (simp add: patch_format_operation_def patched_format_def d args call_kwargs_def)
qed

theorem migration_file_roundtrip_witness:
  "let w = \<lparr>mw_format = (\<lambda>op indent imports. (Inl (ValueError, ''Unsupported operation type: X''), imports)), mw_patched = False\<rparr>;
       w' = patch_format_operation (\<lambda>op. Some (deconstruct op)) w
   in \<exists>l name kwargs. mw_format w' (CreateContinuousAggregate ''daily'' ''SELECT 'x' '' ''t'' ''1 hour'' ''1 day'' ''0'') ''    '' []
        = (Inr [l], [(''tortoise_extended.migrations.operations'', name)])
     \<and> read_call_line l = Some (name, kwargs)
     \<and> construct_operation name kwargs = Inr (CreateContinuousAggregate ''daily'' ''SELECT 'x' '' ''t'' ''1 hour'' ''1 day'' ''0'')"
proof -
  have "contains ''Unsupported operation type'' ''Unsupported operation type: X''" by (simp add: contains_def)
  then show ?thesis
    using migration_file_roundtrip [of "\<lparr>mw_format = (\<lambda>op indent imports. (Inl (ValueError, ''Unsupported operation type: X''), imports)), mw_patched = False\<rparr>"
      "CreateContinuousAggregate ''daily'' ''SELECT 'x' '' ''t'' ''1 hour'' ''1 day'' ''0''" "''    ''" "[]" ValueError
      "''Unsupported operation type: X''" "[]"]
    by (simp add: Let_def)
qed

lemma stock_writer_kept:
  "original op indent imports = (Inr lines, imports') \<Longrightarrow> patched_format dc original op indent imports = (Inr lines, imports')"
  "original op indent imports = (Inl (e, msg), imports') \<Longrightarrow> \<not> contains ''Unsupported operation type'' msg
     \<Longrightarrow> patched_format dc original op indent imports = (Inl (e, msg), imports')"
  by (simp_all add: patched_format_def)

text \<open>Statements in order, each with its arguments as data; a dry run and a missing editor do nothing.\<close>

lemma hypertable_statements_data:
  "sql_tokens (render (convert_sql t c m)) = Some (template_toks (convert_sql t c m))"
  "sql_tokens (render (interval_sql t i)) = Some (template_toks (interval_sql t i))"
  "sql_tokens (render (policy_sql v a b r)) = Some (template_toks (policy_sql v a b r))"
  by (rule template_tokens, simp add: convert_sql_def interval_sql_def policy_sql_def py_bool_upper_def)+

lemma hypertable_first_failure:
  "run_sql (render (convert_sql t c m)) s = (Inl e, s') \<Longrightarrow> database_forward (CreateHypertable t c i m) (Some run_sql) s = (Inl e, s')"
  by (simp add: database_forward_def hypertable_run_def act_simps)

text \<open>The two statements name a qualified table differently: the first reads the schema, the second
  quotes the whole text as one identifier.\<close>

lemma interval_unsplit:
  "template_toks (interval_sql ''app.events'' i) =
     map Sym ''ALTER TABLE '' @ Ident ''app.events'' # map Sym '' SET (timescaledb.chunk_time_interval = '' @ Lit i # map Sym '')''"
  by (simp add: interval_sql_def)

end
