(* ===== verification/Graph_Edge.thy ===== *)
theory Graph_Edge
  imports Orm
begin

text \<open>
  \<open>models/graph_edge.py\<close>: the guard on subclasses and the queries for the edges of a node, over an
  edge table. Ids are their texts, \<open>created_at\<close> is a number; \<open>order_by\<close> keeps rows of equal time in
  the order of the table, which SQL leaves open.
\<close>

section \<open>Edges\<close>

record edge_row =
  ge_source :: string
  ge_target :: string
  ge_type :: string
  ge_namespace :: string
  ge_created :: int

definition is_self_loop :: "edge_row \<Rightarrow> bool" where
  "is_self_loop e = (ge_source e = ge_target e)"

definition edge_str :: "edge_row \<Rightarrow> string" where
  "edge_str e = ge_source e @ '' --['' @ ge_type e @ '']--> '' @ ge_target e"

section \<open>Subclasses\<close>

text \<open>The class \<open>Meta\<close> of a subclass: whether \<open>getattr\<close> finds a true \<open>abstract\<close>, and the names it
  declares itself.\<close>

record edge_meta =
  em_abstract :: bool
  em_own :: "string list"

definition init_subclass :: "edge_meta option \<Rightarrow> exc + unit" where
  "init_subclass meta =
     (case meta of
        None \<Rightarrow> Inl NotImplementedError
      | Some m \<Rightarrow>
          if em_abstract m then Inr ()
          else if ''indexes'' \<notin> set (em_own m) then Inl NotImplementedError
          else Inr ())"

lemma init_subclass_accepts:
  "init_subclass meta = Inr () \<longleftrightarrow> (\<exists>m. meta = Some m \<and> (em_abstract m \<or> ''indexes'' \<in> set (em_own m)))"
  by (auto simp: init_subclass_def split: option.split)

section \<open>Queries\<close>

datatype edge_q = Q "(string \<times> string) list" | Q_or edge_q edge_q | Q_and edge_q edge_q

definition edge_field :: "edge_row \<Rightarrow> string \<Rightarrow> string option" where
  "edge_field e n =
     (if n = ''source_id'' then Some (ge_source e) else if n = ''target_id'' then Some (ge_target e)
      else if n = ''edge_type'' then Some (ge_type e) else if n = ''namespace'' then Some (ge_namespace e) else None)"

fun matches :: "edge_q \<Rightarrow> edge_row \<Rightarrow> bool" where
  "matches (Q filters) e = list_all (\<lambda>(n, v). edge_field e n = Some v) filters"
| "matches (Q_or p q) e = (matches p e \<or> matches q e)"
| "matches (Q_and p q) e = (matches p e \<and> matches q e)"

record edge_queryset =
  eq_filter :: edge_q
  eq_by_created :: bool

definition with_type :: "(string \<times> string) list \<Rightarrow> string option \<Rightarrow> (string \<times> string) list" where
  "with_type filters edge_type = (case edge_type of None \<Rightarrow> filters | Some t \<Rightarrow> filters @ [(''edge_type'', t)])"

definition between :: "string \<Rightarrow> string \<Rightarrow> string option \<Rightarrow> string \<Rightarrow> edge_queryset" where
  "between source_id target_id edge_type namespace =
     \<lparr>eq_filter = Q (with_type [(''source_id'', source_id), (''target_id'', target_id), (''namespace'', namespace)] edge_type),
      eq_by_created = False\<rparr>"

definition between_any :: "string \<Rightarrow> string option \<Rightarrow> string \<Rightarrow> edge_queryset" where
  "between_any node_id edge_type namespace =
     (let q_source = Q [(''source_id'', node_id), (''namespace'', namespace)];
          q_target = Q [(''target_id'', node_id), (''namespace'', namespace)];
          filters = Q_or q_source q_target in
      \<lparr>eq_filter = (case edge_type of None \<Rightarrow> filters | Some t \<Rightarrow> Q_and filters (Q [(''edge_type'', t)])),
       eq_by_created = False\<rparr>)"

definition outgoing :: "string \<Rightarrow> string option \<Rightarrow> string \<Rightarrow> edge_queryset" where
  "outgoing source_id edge_type namespace =
     \<lparr>eq_filter = Q (with_type [(''source_id'', source_id), (''namespace'', namespace)] edge_type), eq_by_created = True\<rparr>"

definition incoming :: "string \<Rightarrow> string option \<Rightarrow> string \<Rightarrow> edge_queryset" where
  "incoming target_id edge_type namespace =
     \<lparr>eq_filter = Q (with_type [(''target_id'', target_id), (''namespace'', namespace)] edge_type), eq_by_created = True\<rparr>"

definition fetch_edges :: "('db, edge_row) table_ops \<Rightarrow> 'db \<Rightarrow> edge_queryset \<Rightarrow> edge_row list" where
  "fetch_edges T db qs =
     (let rows = t_select T (matches (eq_filter qs)) db in
      if eq_by_created qs then sort_key ge_created rows else rows)"

section \<open>What they return\<close>

definition in_scope :: "string option \<Rightarrow> string \<Rightarrow> edge_row \<Rightarrow> bool" where
  "in_scope edge_type namespace e \<longleftrightarrow>
     ge_namespace e = namespace \<and> (case edge_type of None \<Rightarrow> True | Some t \<Rightarrow> ge_type e = t)"

lemma matches_queries:
  "matches (eq_filter (between a b t ns)) e \<longleftrightarrow> ge_source e = a \<and> ge_target e = b \<and> in_scope t ns e"
  "matches (eq_filter (between_any n t ns)) e \<longleftrightarrow> (ge_source e = n \<or> ge_target e = n) \<and> in_scope t ns e"
  "matches (eq_filter (outgoing a t ns)) e \<longleftrightarrow> ge_source e = a \<and> in_scope t ns e"
  "matches (eq_filter (incoming b t ns)) e \<longleftrightarrow> ge_target e = b \<and> in_scope t ns e"
  by (auto simp: between_def between_any_def outgoing_def incoming_def with_type_def edge_field_def in_scope_def Let_def
      split: option.split)

locale edge_table = orm_table T rows
  for T :: "('db, edge_row) table_ops" and rows :: "'db \<Rightarrow> edge_row multiset"
begin

lemma fetch_multiset: "mset (fetch_edges T db qs) = filter_mset (matches (eq_filter qs)) (rows db)"
  by (simp add: fetch_edges_def Let_def select_rows)

lemma fetch_sorted: "eq_by_created qs \<Longrightarrow> sorted (map ge_created (fetch_edges T db qs))"
  by (simp add: fetch_edges_def Let_def)

lemma any_is_union:
  "mset (fetch_edges T db (between_any n t ns)) + filter_mset is_self_loop (mset (fetch_edges T db (outgoing n t ns))) =
     mset (fetch_edges T db (outgoing n t ns)) + mset (fetch_edges T db (incoming n t ns))"
  unfolding fetch_multiset matches_queries
  by (rule multiset_eqI) (auto simp: is_self_loop_def)

lemma between_is_outgoing:
  "mset (fetch_edges T db (between a b t ns)) = filter_mset (\<lambda>e. ge_target e = b) (mset (fetch_edges T db (outgoing a t ns)))"
  unfolding fetch_multiset matches_queries filter_filter_mset
  by (rule filter_mset_cong) auto

end

interpretation list_edges: edge_table list_table mset
  by unfold_locales

text \<open>
  The edges of a node without regard to direction are its outgoing and its incoming edges together,
  each self-loop once; the edges between two nodes are the outgoing ones that end at the other. The
  directed queries come oldest first, and all of them stay in the namespace.
\<close>

theorem edge_queries_agree:
  assumes "edge_table T rows"
  shows "mset (fetch_edges T db (between_any n t ns)) + filter_mset is_self_loop (mset (fetch_edges T db (outgoing n t ns))) =
       mset (fetch_edges T db (outgoing n t ns)) + mset (fetch_edges T db (incoming n t ns))
    \<and> mset (fetch_edges T db (between n b t ns)) = filter_mset (\<lambda>e. ge_target e = b) (mset (fetch_edges T db (outgoing n t ns)))
    \<and> mset (fetch_edges T db (outgoing n t ns)) = filter_mset (\<lambda>e. ge_source e = n \<and> in_scope t ns e) (rows db)
    \<and> sorted (map ge_created (fetch_edges T db (outgoing n t ns)))
    \<and> sorted (map ge_created (fetch_edges T db (incoming n t ns)))"
proof (intro conjI)
  show "mset (fetch_edges T db (outgoing n t ns)) = filter_mset (\<lambda>e. ge_source e = n \<and> in_scope t ns e) (rows db)"
    unfolding edge_table.fetch_multiset [OF assms] matches_queries ..
  have "eq_by_created (outgoing n t ns)" "eq_by_created (incoming n t ns)" by (simp_all add: outgoing_def incoming_def)
  then show "sorted (map ge_created (fetch_edges T db (outgoing n t ns)))"
    "sorted (map ge_created (fetch_edges T db (incoming n t ns)))"
    by (simp_all only: edge_table.fetch_sorted [OF assms])
qed (rule edge_table.any_is_union [OF assms], rule edge_table.between_is_outgoing [OF assms])

theorem edge_queries_agree_witness:
  "let e = \<lparr>ge_source = ''a'', ge_target = ''b'', ge_type = ''likes'', ge_namespace = ''default'', ge_created = 5\<rparr>;
       l = \<lparr>ge_source = ''a'', ge_target = ''a'', ge_type = ''likes'', ge_namespace = ''default'', ge_created = 3\<rparr>
   in fetch_edges list_table [e, l] (outgoing ''a'' None ''default'') = [l, e]
    \<and> mset (fetch_edges list_table [e, l] (between_any ''a'' None ''default'')) + {# l #} = {# l, e, l #}"
proof -
  let ?e = "\<lparr>ge_source = ''a'', ge_target = ''b'', ge_type = ''likes'', ge_namespace = ''default'', ge_created = 5\<rparr>"
  let ?l = "\<lparr>ge_source = ''a'', ge_target = ''a'', ge_type = ''likes'', ge_namespace = ''default'', ge_created = 3\<rparr>"
  have "fetch_edges list_table [?e, ?l] (outgoing ''a'' None ''default'') = [?l, ?e]"
    "fetch_edges list_table [?e, ?l] (incoming ''a'' None ''default'') = [?l]"
    by (simp_all add: fetch_edges_def list_table_def matches_queries in_scope_def Let_def)
      (simp_all add: outgoing_def incoming_def)
  then show ?thesis
    using edge_queries_agree [OF list_edges.edge_table_axioms, of "[?e, ?l]" "''a''" None "''default''" "''b''"]
    by (simp add: is_self_loop_def add_mset_commute)
qed

end
