(* ===== verification/Indexes.thy ===== *)
theory Indexes
  imports Sql_Template Json Effects
begin

text \<open>
  \<open>indexes/_dialect.py\<close>, \<open>indexes/hnsw_index.py\<close> and \<open>indexes/ltree_index.py\<close>: the index types and
  the statements that create them. The base class \<open>Index\<close> of Tortoise and the schema generator are
  parameters: the former as its constructor, \<open>describe\<close> and \<open>deconstruct\<close>, the latter as the three
  helpers that quote the table, choose a name and format the columns.
\<close>

record 'b index_base =
  ib_init :: "string list \<Rightarrow> string option \<Rightarrow> exc + 'b"
  ib_describe :: "'b \<Rightarrow> (string \<times> cval) list"
  ib_deconstruct :: "'b \<Rightarrow> string \<times> cval list \<times> (string \<times> cval) list"
  ib_field_names :: "'b \<Rightarrow> string list"
  ib_name :: "'b \<Rightarrow> string option"

record schema_generator =
  sg_dialect :: "string option"
  sg_qualify :: "string \<Rightarrow> string option \<Rightarrow> string"
  sg_index_name :: "string \<Rightarrow> string \<Rightarrow> string list \<Rightarrow> string"
  sg_format_fields :: "string list \<Rightarrow> string"

datatype 'b vector_index =
    HNSWIndex 'b int int string
  | IVFFlatIndex 'b int string
  | GiSTIndex 'b

definition valid_hnsw_metrics :: "string list" where
  "valid_hnsw_metrics =
     [''vector_l2_ops'', ''vector_ip_ops'', ''vector_cosine_ops'', ''halfvec_l2_ops'', ''halfvec_ip_ops'', ''halfvec_cosine_ops'']"

definition valid_ivfflat_metrics :: "string list" where
  "valid_ivfflat_metrics = [''vector_l2_ops'', ''vector_ip_ops'', ''halfvec_l2_ops'', ''halfvec_ip_ops'']"

definition hnsw_init :: "'b index_base \<Rightarrow> string list \<Rightarrow> string option \<Rightarrow> int \<Rightarrow> int \<Rightarrow> string \<Rightarrow> exc + 'b vector_index" where
  "hnsw_init B columns name m ef dist_metric =
     (if dist_metric \<notin> set valid_hnsw_metrics then Inl IndexDefinitionError
      else bind_res (ib_init B columns name) (\<lambda>b. Inr (HNSWIndex b m ef dist_metric)))"

definition ivfflat_init :: "'b index_base \<Rightarrow> string list \<Rightarrow> string option \<Rightarrow> int \<Rightarrow> string \<Rightarrow> exc + 'b vector_index" where
  "ivfflat_init B columns name nlists dist_metric =
     (if dist_metric \<notin> set valid_ivfflat_metrics then Inl IndexDefinitionError
      else bind_res (ib_init B columns name) (\<lambda>b. Inr (IVFFlatIndex b nlists dist_metric)))"

definition gist_init :: "'b index_base \<Rightarrow> string list \<Rightarrow> string option \<Rightarrow> exc + 'b vector_index" where
  "gist_init B columns name = bind_res (ib_init B columns name) (\<lambda>b. Inr (GiSTIndex b))"

text \<open>\<open>d[k] = v\<close>.\<close>

definition dict_set :: "(string \<times> cval) list \<Rightarrow> string \<Rightarrow> cval \<Rightarrow> (string \<times> cval) list" where
  "dict_set d k v =
     (if k \<in> set (map fst d) then map (\<lambda>(n, w). (n, if n = k then v else w)) d else d @ [(k, v)])"

definition hnsw_params :: "int \<Rightarrow> int \<Rightarrow> string \<Rightarrow> (string \<times> cval) list" where
  "hnsw_params m ef metric = [(''m'', CInt m), (''ef_construction'', CInt ef), (''dist_metric'', CStr metric)]"

definition ivfflat_params :: "int \<Rightarrow> string \<Rightarrow> (string \<times> cval) list" where
  "ivfflat_params nlists metric = [(''lists'', CInt nlists), (''dist_metric'', CStr metric)]"

definition dict_set_all :: "(string \<times> cval) list \<Rightarrow> (string \<times> cval) list \<Rightarrow> (string \<times> cval) list" where
  "dict_set_all d items = foldl (\<lambda>d (k, v). dict_set d k v) d items"

definition hnsw_describe :: "'b index_base \<Rightarrow> 'b \<Rightarrow> int \<Rightarrow> int \<Rightarrow> string \<Rightarrow> (string \<times> cval) list" where
  "hnsw_describe B b m ef metric = dict_set_all (ib_describe B b) (hnsw_params m ef metric)"

definition ivfflat_describe :: "'b index_base \<Rightarrow> 'b \<Rightarrow> int \<Rightarrow> string \<Rightarrow> (string \<times> cval) list" where
  "ivfflat_describe B b nlists metric = dict_set_all (ib_describe B b) (ivfflat_params nlists metric)"

definition hnsw_deconstruct ::
  "'b index_base \<Rightarrow> 'b \<Rightarrow> int \<Rightarrow> int \<Rightarrow> string \<Rightarrow> string \<times> cval list \<times> (string \<times> cval) list" where
  "hnsw_deconstruct B b m ef metric =
     (case ib_deconstruct B b of (path, args, kwargs) \<Rightarrow> (path, args, dict_set_all kwargs (hnsw_params m ef metric)))"

definition ivfflat_deconstruct ::
  "'b index_base \<Rightarrow> 'b \<Rightarrow> int \<Rightarrow> string \<Rightarrow> string \<times> cval list \<times> (string \<times> cval) list" where
  "ivfflat_deconstruct B b nlists metric =
     (case ib_deconstruct B b of (path, args, kwargs) \<Rightarrow> (path, args, dict_set_all kwargs (ivfflat_params nlists metric)))"

fun index_params :: "'b vector_index \<Rightarrow> (string \<times> cval) list" where
  "index_params (HNSWIndex b m ef metric) = hnsw_params m ef metric"
| "index_params (IVFFlatIndex b nlists metric) = ivfflat_params nlists metric"
| "index_params (GiSTIndex b) = []"

fun base_of :: "'b vector_index \<Rightarrow> 'b" where
  "base_of (HNSWIndex b m ef metric) = b"
| "base_of (IVFFlatIndex b nlists metric) = b"
| "base_of (GiSTIndex b) = b"

fun index_describe :: "'b index_base \<Rightarrow> 'b vector_index \<Rightarrow> (string \<times> cval) list" where
  "index_describe B (HNSWIndex b m ef metric) = hnsw_describe B b m ef metric"
| "index_describe B (IVFFlatIndex b nlists metric) = ivfflat_describe B b nlists metric"
| "index_describe B (GiSTIndex b) = ib_describe B b"

fun index_deconstruct :: "'b index_base \<Rightarrow> 'b vector_index \<Rightarrow> string \<times> cval list \<times> (string \<times> cval) list" where
  "index_deconstruct B (HNSWIndex b m ef metric) = hnsw_deconstruct B b m ef metric"
| "index_deconstruct B (IVFFlatIndex b nlists metric) = ivfflat_deconstruct B b nlists metric"
| "index_deconstruct B (GiSTIndex b) = ib_deconstruct B b"

section \<open>Statements\<close>

definition assert_postgres_dialect :: "schema_generator \<Rightarrow> exc + unit" where
  "assert_postgres_dialect sg =
     (if (case sg_dialect sg of None \<Rightarrow> ''postgres'' | Some d \<Rightarrow> d) \<noteq> ''postgres'' then Inl IndexDefinitionError else Inr ())"

text \<open>\<open>self.name or _get_index_name(...)\<close>.\<close>

definition index_name_of :: "'b index_base \<Rightarrow> schema_generator \<Rightarrow> string \<Rightarrow> string \<Rightarrow> 'b \<Rightarrow> string" where
  "index_name_of B sg kind model b =
     (case ib_name B b of
        Some n \<Rightarrow> if n \<noteq> [] then n else sg_index_name sg kind model (ib_field_names B b)
      | None \<Rightarrow> sg_index_name sg kind model (ib_field_names B b))"

definition index_head :: "bool \<Rightarrow> string" where
  "index_head safe = ''CREATE INDEX '' @ (if safe then ''IF NOT EXISTS '' else '''')"

text \<open>What the three \<open>get_sql\<close> share: the guard, the table, the name, the columns; then what each puts
  after the columns.\<close>

definition create_index ::
  "'b index_base \<Rightarrow> schema_generator \<Rightarrow> string \<Rightarrow> string \<Rightarrow> string option \<Rightarrow> bool \<Rightarrow> string \<Rightarrow> 'b \<Rightarrow> string \<Rightarrow> exc + string" where
  "create_index B sg model db_table schema safe kind b tail =
     bind_res (assert_postgres_dialect sg) (\<lambda>_.
       Inr (index_head safe @ quote_ident (index_name_of B sg kind model b) @ '' ON ''
         @ sg_qualify sg db_table schema @ '' USING '' @ kind @ '' (''
         @ sg_format_fields sg (ib_field_names B b) @ tail))"

definition hnsw_sql ::
  "'b index_base \<Rightarrow> schema_generator \<Rightarrow> string \<Rightarrow> string \<Rightarrow> string option \<Rightarrow> bool \<Rightarrow> 'b \<Rightarrow> int \<Rightarrow> int \<Rightarrow> string \<Rightarrow> exc + string" where
  "hnsw_sql B sg model db_table schema safe b m ef metric =
     create_index B sg model db_table schema safe ''hnsw'' b
       ('' '' @ metric @ '') WITH (m = '' @ show_int m @ '', ef_construction = '' @ show_int ef @ '');'')"

definition ivfflat_sql ::
  "'b index_base \<Rightarrow> schema_generator \<Rightarrow> string \<Rightarrow> string \<Rightarrow> string option \<Rightarrow> bool \<Rightarrow> 'b \<Rightarrow> int \<Rightarrow> string \<Rightarrow> exc + string" where
  "ivfflat_sql B sg model db_table schema safe b nlists metric =
     create_index B sg model db_table schema safe ''ivfflat'' b
       ('' '' @ metric @ '') WITH (lists = '' @ show_int nlists @ '');'')"

definition gist_sql ::
  "'b index_base \<Rightarrow> schema_generator \<Rightarrow> string \<Rightarrow> string \<Rightarrow> string option \<Rightarrow> bool \<Rightarrow> 'b \<Rightarrow> exc + string" where
  "gist_sql B sg model db_table schema safe b = create_index B sg model db_table schema safe ''gist'' b '');''"

fun index_sql ::
  "'b index_base \<Rightarrow> schema_generator \<Rightarrow> string \<Rightarrow> string \<Rightarrow> string option \<Rightarrow> bool \<Rightarrow> 'b vector_index \<Rightarrow> exc + string" where
  "index_sql B sg model db_table schema safe (HNSWIndex b m ef metric) = hnsw_sql B sg model db_table schema safe b m ef metric"
| "index_sql B sg model db_table schema safe (IVFFlatIndex b nlists metric) = ivfflat_sql B sg model db_table schema safe b nlists metric"
| "index_sql B sg model db_table schema safe (GiSTIndex b) = gist_sql B sg model db_table schema safe b"

section \<open>The parts of a statement\<close>

fun index_kind :: "'b vector_index \<Rightarrow> string" where
  "index_kind (HNSWIndex b m ef metric) = ''hnsw''"
| "index_kind (IVFFlatIndex b nlists metric) = ''ivfflat''"
| "index_kind (GiSTIndex b) = ''gist''"

fun index_tail :: "'b vector_index \<Rightarrow> string" where
  "index_tail (HNSWIndex b m ef metric) =
     '' '' @ metric @ '') WITH (m = '' @ show_int m @ '', ef_construction = '' @ show_int ef @ '');''"
| "index_tail (IVFFlatIndex b nlists metric) = '' '' @ metric @ '') WITH (lists = '' @ show_int nlists @ '');''"
| "index_tail (GiSTIndex b) = '');''"

lemma index_sql_parts:
  "index_sql B sg model db_table schema safe i =
     create_index B sg model db_table schema safe (index_kind i) (base_of i) (index_tail i)"
  by (cases i) (simp_all add: hnsw_sql_def ivfflat_sql_def gist_sql_def)

section \<open>Properties\<close>

lemma plain_metric: "metric \<in> set valid_hnsw_metrics \<or> metric \<in> set valid_ivfflat_metrics \<Longrightarrow> plain metric"
  by (auto simp: valid_hnsw_metrics_def valid_ivfflat_metrics_def)

lemma tokens_between:
  assumes "sql_tokens q = Some ts" "plain b" "b \<noteq> []" "sql_tokens r = Some us"
  shows "sql_tokens (q @ b @ r) = Some (ts @ map Sym b @ us)"
proof -
  have "\<not> starts_with_char DQ (b @ r)" "\<not> starts_with_char SQ (b @ r)" using plain_no_start [OF assms(2,3)] by auto
  moreover have "sql_tokens (b @ r) = Some (map Sym b @ us)" using scan_plain [OF assms(2)] assms(4) by (simp add: sql_tokens_def)
  ultimately show ?thesis using tokens_append [OF assms(1)] by simp
qed

text \<open>
  An index that a constructor gave produces, on PostgreSQL and nowhere else, one statement in which
  the chosen name is a single identifier and the parameters are the ones it was built with.
\<close>

theorem index_statement:
  assumes "hnsw_init B columns name m ef metric = Inr i \<or> ivfflat_init B columns name nlists metric = Inr i \<or> gist_init B columns name = Inr i"
    and "sql_tokens (sg_qualify sg db_table schema) = Some ts"
    and "sql_tokens (sg_format_fields sg (ib_field_names B (base_of i))) = Some us"
  shows "case index_sql B sg model db_table schema safe i of
      Inl e \<Rightarrow> e = IndexDefinitionError \<and> (\<exists>d. sg_dialect sg = Some d \<and> d \<noteq> ''postgres'')
    | Inr sql \<Rightarrow> (\<forall>d. sg_dialect sg = Some d \<longrightarrow> d = ''postgres'')
        \<and> sql_tokens sql = Some (map Sym (index_head safe) @ Ident (index_name_of B sg (index_kind i) model (base_of i))
            # map Sym '' ON '' @ (ts @ map Sym ('' USING '' @ index_kind i @ '' ('') @ us) @ map Sym (index_tail i))"
proof -
  have tail: "plain (index_tail i)" "index_tail i \<noteq> []"
    using assms(1) plain_metric
    by (auto simp: hnsw_init_def ivfflat_init_def gist_init_def bind_res_Inr_iff split: if_splits)
  have kind: "plain ('' USING '' @ index_kind i @ '' ('')" by (cases i) simp_all
  have mid: "sql_tokens (sg_qualify sg db_table schema @ ('' USING '' @ index_kind i @ '' ('')
      @ sg_format_fields sg (ib_field_names B (base_of i))) = Some (ts @ map Sym ('' USING '' @ index_kind i @ '' ('') @ us)"
    by (rule tokens_between [OF assms(2) kind _ assms(3)]) simp
  have "plain (index_head safe)" "plain '' ON ''" "'' ON '' \<noteq> []" by (simp_all add: index_head_def)
  from tokens_around [OF this tail mid] show ?thesis
    by (auto simp: index_sql_parts create_index_def assert_postgres_dialect_def split: option.splits)
qed

definition plain_base :: "(string list \<times> string option) index_base" where
  "plain_base = \<lparr>ib_init = (\<lambda>columns name. if columns = [] then Inl ConfigurationError else Inr (columns, name)),
     ib_describe = (\<lambda>b. []), ib_deconstruct = (\<lambda>b. (''Index'', [], [(''fields'', CList (map CStr (fst b)))])),
     ib_field_names = fst, ib_name = snd\<rparr>"

definition plain_generator :: schema_generator where
  "plain_generator = \<lparr>sg_dialect = Some ''postgres'', sg_qualify = (\<lambda>t s. quote_ident t),
     sg_index_name = (\<lambda>kind model columns. kind @ ''_'' @ model), sg_format_fields = (\<lambda>columns. join '','' (map quote_ident columns))\<rparr>"

theorem index_statement_witness:
  "case index_sql plain_base plain_generator ''Chunk'' ''chunks'' None True (HNSWIndex ([''embedding''], None) 32 400 ''vector_l2_ops'') of
     Inl e \<Rightarrow> False
   | Inr sql \<Rightarrow> sql_tokens sql = Some (map Sym ''CREATE INDEX IF NOT EXISTS '' @ Ident ''hnsw_Chunk'' # map Sym '' ON ''
       @ Ident ''chunks'' # map Sym '' USING hnsw ('' @ Ident ''embedding''
       # map Sym '' vector_l2_ops) WITH (m = 32, ef_construction = 400);'')"
proof -
  let ?i = "HNSWIndex ([''embedding''], None) 32 400 ''vector_l2_ops''"
  have "hnsw_init plain_base [''embedding''] None 32 400 ''vector_l2_ops'' = Inr ?i"
    by (simp add: hnsw_init_def plain_base_def valid_hnsw_metrics_def)
  moreover have "sql_tokens (quote_ident s) = Some [Ident s]" for s
    using template_tokens [of "[Name s]"] by simp
  ultimately show ?thesis
    using index_statement [where B = plain_base and columns = "[''embedding'']" and name = None and m = 32 and ef = 400
        and metric = "''vector_l2_ops''" and i = ?i and sg = plain_generator and db_table = "''chunks''" and schema = None
        and ts = "[Ident ''chunks'']" and us = "[Ident ''embedding'']" and model = "''Chunk''" and safe = True]
    by (simp add: plain_base_def plain_generator_def index_head_def index_name_of_def index_sql_parts create_index_def assert_postgres_dialect_def
        show_int_def show_nat.simps)
qed

text \<open>\<open>deconstruct\<close> holds every parameter of the index, so a definition is not lost in a migration.\<close>

lemma map_of_dict_set: "map_of (dict_set d k v) = (map_of d)(k \<mapsto> v)"
proof -
  have "map_of (map (\<lambda>(n, w). (n, if n = k then v else w)) d) x
      = (if x = k then if k \<in> fst ` set d then Some v else None else map_of d x)" for x
    by (induction d) (auto simp: image_iff Bex_def)
  note upd = this
  show ?thesis
  proof (cases "k \<in> fst ` set d")
    case True
    then show ?thesis by (simp add: dict_set_def fun_eq_iff upd)
  next
    case False
    then have "map_of d k = None" by (simp add: map_of_eq_None_iff)
    with False show ?thesis by (auto simp: dict_set_def map_add_def fun_eq_iff split: option.split)
  qed
qed

lemma deconstruct_keeps_params:
  "index_deconstruct B i = (path, args, kwargs) \<Longrightarrow> (k, v) \<in> set (index_params i) \<Longrightarrow> map_of kwargs k = Some v"
  by (cases i) (auto simp: hnsw_deconstruct_def ivfflat_deconstruct_def dict_set_all_def hnsw_params_def ivfflat_params_def
      map_of_dict_set split: prod.splits)

text \<open>The operator class follows the formatted list of columns: of several columns only the last gets it.\<close>

lemma operator_class_last:
  "index_sql plain_base plain_generator ''C'' ''c'' None False (HNSWIndex ([''a'', ''b''], Some ''i'') 16 200 ''vector_ip_ops'') =
     Inr (''CREATE INDEX '' @ quote_ident ''i'' @ '' ON '' @ quote_ident ''c'' @ '' USING hnsw ('' @ quote_ident ''a'' @ '','' @ quote_ident ''b''
       @ '' vector_ip_ops) WITH (m = 16, ef_construction = 200);'')"
  by (simp add: index_sql_parts create_index_def assert_postgres_dialect_def plain_generator_def plain_base_def index_head_def index_name_of_def
      show_int_def show_nat.simps)

end
