(* ===== verification/Ltree_Field.thy ===== *)
theory Ltree_Field
  imports Exceptions
begin

text \<open>
  \<open>fields/ltree.py\<close> and \<open>expressions/ltree_filters.py\<close>: the field that stores a path of labels as
  text, and the filters on it. A criterion is the term handed to pypika; what the server makes of
  it is given over its operators, with the \<open>lquery\<close> matches as parameters.
\<close>

section \<open>The field\<close>

record ltree_field =
  lt_max_length :: int
  lt_separator :: string

datatype path_value = PvNone | PvText string | PvLabels "string list"

text \<open>\<open>s.split(sep)\<close>; an empty separator is a \<open>ValueError\<close>.\<close>

function split_text :: "string \<Rightarrow> string \<Rightarrow> string \<Rightarrow> string list" where
  "split_text sep [] w = [rev w]"
| "split_text sep (c # s) w =
     (if sep \<noteq> [] \<and> prefix sep (c # s) then rev w # split_text sep (drop (length sep) (c # s)) []
      else split_text sep s (c # w))"
  by pat_completeness auto
termination
  by (relation "measure (\<lambda>(sep, s, w). length s)") (auto simp: length_drop)

declare split_text.simps [simp del]

definition py_split :: "string \<Rightarrow> string \<Rightarrow> exc + string list" where
  "py_split s sep = (if sep = [] then Inl ValueError else Inr (split_text sep s []))"

definition ltree_to_python :: "ltree_field \<Rightarrow> path_value \<Rightarrow> exc + string list option" where
  "ltree_to_python fd v =
     (case v of
        PvNone \<Rightarrow> Inr None
      | PvLabels xs \<Rightarrow> Inr (Some xs)
      | PvText s \<Rightarrow> map_sum id Some (py_split s (lt_separator fd)))"

definition ltree_to_db :: "ltree_field \<Rightarrow> path_value \<Rightarrow> exc + string option" where
  "ltree_to_db fd v =
     (case v of
        PvNone \<Rightarrow> Inr None
      | _ \<Rightarrow>
         (let path = (case v of PvText s \<Rightarrow> s | PvLabels xs \<Rightarrow> join (lt_separator fd) xs | PvNone \<Rightarrow> []) in
          if lt_max_length fd \<noteq> 0 \<and> int (length path) > lt_max_length fd then Inl ValueError else Inr (Some path)))"

lemma split_text_char: "split_text [c] s w = (case split_on c s of [] \<Rightarrow> [] | x # xs \<Rightarrow> (rev w @ x) # xs)"
proof (induction "[c]" s w rule: split_text.induct)
  case (2 d s w)
  then show ?case by (cases "split_on c s") (auto simp: split_text.simps)
qed (simp add: split_text.simps)

lemma py_split_char: "py_split s [c] = Inr (split_on c s)"
  by (cases "split_on c s") (simp_all add: py_split_def split_text_char)

text \<open>
  A path survives the database in both directions: labels without the separator come back as they
  were, and the text of a stored path is written again as it was read. A path that is too long is
  never stored.
\<close>

theorem ltree_roundtrip:
  assumes "lt_separator fd = [c]" "\<forall>x \<in> set labels. c \<notin> set x" "labels \<noteq> []"
  shows "bind_res (ltree_to_db fd (PvLabels labels)) (\<lambda>p. ltree_to_python fd (case p of None \<Rightarrow> PvNone | Some s \<Rightarrow> PvText s)) =
      (if lt_max_length fd \<noteq> 0 \<and> int (length (join [c] labels)) > lt_max_length fd then Inl ValueError else Inr (Some labels))
    \<and> (lt_max_length fd = 0 \<or> int (length s) \<le> lt_max_length fd \<longrightarrow>
        bind_res (ltree_to_python fd (PvText s)) (\<lambda>p. ltree_to_db fd (case p of None \<Rightarrow> PvNone | Some xs \<Rightarrow> PvLabels xs)) = Inr (Some s))"
  using assms split_on_join [of labels c]
  by (simp add: ltree_to_db_def ltree_to_python_def py_split_char)

theorem ltree_roundtrip_witness:
  "bind_res (ltree_to_db \<lparr>lt_max_length = 256, lt_separator = ''.''\<rparr> (PvLabels [''root'', ''child'']))
     (\<lambda>p. ltree_to_python \<lparr>lt_max_length = 256, lt_separator = ''.''\<rparr> (case p of None \<Rightarrow> PvNone | Some s \<Rightarrow> PvText s))
   = Inr (Some [''root'', ''child''])"
  using ltree_roundtrip [of "\<lparr>lt_max_length = 256, lt_separator = ''.''\<rparr>" "CHR ''.''" "[''root'', ''child'']" "[]"]
  by simp

text \<open>The empty path is not among them: it comes back as one empty label.\<close>

lemma empty_path_changes:
  "bind_res (ltree_to_db \<lparr>lt_max_length = 256, lt_separator = ''.''\<rparr> (PvLabels []))
     (\<lambda>p. ltree_to_python \<lparr>lt_max_length = 256, lt_separator = ''.''\<rparr> (case p of None \<Rightarrow> PvNone | Some s \<Rightarrow> PvText s))
   = Inr (Some [[]])"
  by (simp add: ltree_to_db_def ltree_to_python_def py_split_char)

section \<open>Filters\<close>

datatype ltree_arg = LtNone | LtText string | LtSeq "string list" | LtOther string

definition ltree_encoder :: "ltree_arg \<Rightarrow> string option" where
  "ltree_encoder v =
     (case v of LtNone \<Rightarrow> None | LtText s \<Rightarrow> Some s | LtSeq xs \<Rightarrow> Some (join ''.'' xs) | LtOther s \<Rightarrow> Some s)"

text \<open>\<open>str\<close> of a sequence, for a pattern given as one, is a parameter.\<close>

definition lquery_encoder :: "(string list \<Rightarrow> string) \<Rightarrow> ltree_arg \<Rightarrow> string option" where
  "lquery_encoder str_seq v =
     (case v of LtNone \<Rightarrow> None | LtText s \<Rightarrow> Some s | LtSeq xs \<Rightarrow> Some (str_seq xs) | LtOther s \<Rightarrow> Some s)"

datatype ltree_op = Ancestor_of | Descendant_of | Match | Ancestor_match | Descendant_match

fun ltree_comparator :: "ltree_op \<Rightarrow> string" where
  "ltree_comparator Ancestor_of = '' @> ''"
| "ltree_comparator Descendant_of = '' <@ ''"
| "ltree_comparator Match = '' ~ ''"
| "ltree_comparator Ancestor_match = '' ?@> ''"
| "ltree_comparator Descendant_match = '' ?<@ ''"

datatype ltree_filter = Lf_eq | Lf_not | Lf_in | Lf_not_in | Lf_isnull | Lf_not_isnull | Lf_op ltree_op

datatype ltree_encoding = Enc_ltree | Enc_lquery | Enc_list | Enc_bool

definition get_ltree_filters :: "string \<Rightarrow> string \<Rightarrow> (string \<times> (string \<times> string \<times> ltree_filter \<times> ltree_encoding)) list" where
  "get_ltree_filters field_name source_field =
     map (\<lambda>(suffix, op, enc). (field_name @ suffix, (field_name, source_field, op, enc)))
       [('''', Lf_eq, Enc_ltree), (''__not'', Lf_not, Enc_ltree), (''__in'', Lf_in, Enc_list), (''__not_in'', Lf_not_in, Enc_list),
        (''__isnull'', Lf_isnull, Enc_bool), (''__not_isnull'', Lf_not_isnull, Enc_bool),
        (''__ancestor_of'', Lf_op Ancestor_of, Enc_ltree), (''__descendant_of'', Lf_op Descendant_of, Enc_ltree),
        (''__match'', Lf_op Match, Enc_lquery), (''__ancestor_match'', Lf_op Ancestor_match, Enc_lquery),
        (''__descendant_match'', Lf_op Descendant_match, Enc_lquery)]"

text \<open>\<open>LTreeAncestorOf(field, ValueWrapper(value))\<close> and its siblings: the operator between the column
  and the wrapped value.\<close>

datatype ltree_criterion = Ltree_criterion ltree_op string "string option"

definition ltree_operator_filter :: "ltree_op \<Rightarrow> string \<Rightarrow> string option \<Rightarrow> ltree_criterion" where
  "ltree_operator_filter op column v = Ltree_criterion op column v"

definition encoded_criterion ::
  "(string list \<Rightarrow> string) \<Rightarrow> (string \<times> string \<times> ltree_filter \<times> ltree_encoding) \<Rightarrow> ltree_arg \<Rightarrow> ltree_criterion option" where
  "encoded_criterion str_seq fi v =
     (case fi of
        (name, column, Lf_op op, Enc_ltree) \<Rightarrow> Some (ltree_operator_filter op column (ltree_encoder v))
      | (name, column, Lf_op op, Enc_lquery) \<Rightarrow> Some (ltree_operator_filter op column (lquery_encoder str_seq v))
      | _ \<Rightarrow> None)"

text \<open>The server: a path is its labels, the empty text none; ancestors are prefixes.\<close>

definition ltree_labels :: "string \<Rightarrow> string list" where
  "ltree_labels s = (if s = [] then [] else split_on (CHR ''.'') s)"

definition ltree_holds :: "(ltree_op \<Rightarrow> string list \<Rightarrow> string \<Rightarrow> bool) \<Rightarrow> (string \<Rightarrow> string option) \<Rightarrow> ltree_criterion \<Rightarrow> bool" where
  "ltree_holds lquery row c =
     (case c of Ltree_criterion op column v \<Rightarrow>
        (case (row column, v) of
           (Some p, Some q) \<Rightarrow>
             (case op of
                Ancestor_of \<Rightarrow> prefix (ltree_labels p) (ltree_labels q)
              | Descendant_of \<Rightarrow> prefix (ltree_labels q) (ltree_labels p)
              | _ \<Rightarrow> lquery op (ltree_labels p) q)
         | _ \<Rightarrow> False))"

definition label_path :: "string list \<Rightarrow> bool" where
  "label_path xs \<longleftrightarrow> (\<forall>x \<in> set xs. CHR ''.'' \<notin> set x \<and> x \<noteq> [])"

lemma labels_of_join: "label_path xs \<Longrightarrow> ltree_labels (join ''.'' xs) = xs"
proof (cases "xs = []")
  case False
  assume "label_path xs"
  then have "\<forall>x \<in> set xs. CHR ''.'' \<notin> set x" "hd xs \<noteq> []" using False by (auto simp: label_path_def)
  moreover from this(2) False have "join ''.'' xs \<noteq> []" by (cases xs; cases "tl xs") auto
  ultimately show ?thesis using False by (simp add: ltree_labels_def)
qed (simp add: ltree_labels_def)



text \<open>With another separator the encoder still joins by dots: the filter names another path than the
  one that the field stores for the same labels.\<close>

lemma separator_ignored:
  "ltree_to_db \<lparr>lt_max_length = 256, lt_separator = ''/''\<rparr> (PvLabels [''a'', ''b'']) = Inr (Some ''a/b'')
    \<and> ltree_encoder (LtSeq [''a'', ''b'']) = Some ''a.b''"
  by (simp add: ltree_to_db_def ltree_encoder_def)

end
