(* ===== verification/Scalar_Fields.thy ===== *)
theory Scalar_Fields
  imports Struct_Float Py_Text
begin

text \<open>
  The fields for IPv4 addresses, URLs, paths and UUIDs: \<open>fields/ipv4.py\<close>, \<open>fields/url.py\<close>,
  \<open>fields/path.py\<close> and \<open>fields/uuid.py\<close>, with the parts of \<open>ipaddress\<close>, \<open>urllib.parse\<close> and \<open>pathlib\<close>
  they call, for code points up to U+00FF.
\<close>

section \<open>IPv4 addresses\<close>

type_synonym ipv4 = "32 word"

definition parse_octet :: "string \<Rightarrow> exc + byte" where
  "parse_octet s =
     (if s = [] \<or> \<not> list_all is_digit s \<or> length s > 3 \<or> (s \<noteq> ''0'' \<and> hd s = CHR ''0'') \<or> nat_of_digits s > 255
      then Inl ValueError else Inr (word_of_nat (nat_of_digits s)))"

definition ipv4_of_text :: "string \<Rightarrow> exc + ipv4" where
  "ipv4_of_text s =
     (if CHR ''/'' \<in> set s then Inl ValueError
      else let octets = split_on (CHR ''.'') s in
        if length octets \<noteq> 4 then Inl ValueError
        else bind_res (map_res parse_octet octets) (\<lambda>bs. Inr (word_of_nat (be_nat bs))))"

definition ipv4_text :: "ipv4 \<Rightarrow> string" where
  "ipv4_text a = join ''.'' (map (\<lambda>b. show_nat (unat b)) (be_bytes 4 (unat a)))"

datatype ipv4_value = IpNone | IpAddress ipv4 | IpText string | IpBytes string

text \<open>Bytes are decoded first; bytes that are no text and text with a letter raise alike.\<close>

definition ipv4_to_python :: "ipv4_value \<Rightarrow> exc + ipv4 option" where
  "ipv4_to_python v =
     (case v of
        IpNone \<Rightarrow> Inr None
      | IpAddress a \<Rightarrow> Inr (Some a)
      | IpText s \<Rightarrow> map_sum id Some (ipv4_of_text s)
      | IpBytes s \<Rightarrow> map_sum id Some (ipv4_of_text s))"

definition ipv4_to_db :: "ipv4 option + string \<Rightarrow> exc + string option" where
  "ipv4_to_db v =
     (case v of
        Inl None \<Rightarrow> Inr None
      | Inl (Some a) \<Rightarrow> Inr (Some (ipv4_text a))
      | Inr s \<Rightarrow> map_sum id (\<lambda>a. Some (ipv4_text a)) (ipv4_of_text s))"

lemma be_nat_snoc: "be_nat (bs @ [b]) = be_nat bs * 256 + unat b"
  by (simp add: be_nat_def)

lemma be_bytes_nat: "be_bytes (length bs) (be_nat bs) = bs"
proof (induction bs rule: rev_induct)
  case (snoc b bs)
  have "unat b < 256" using unsigned_less [of b] by simp
  then have "be_nat (bs @ [b]) div 256 = be_nat bs" by (simp add: be_nat_snoc)
  moreover have "word_of_nat (be_nat (bs @ [b])) = b"
  proof -
    have "(256 :: byte) = 0" by code_simp
    then have "word_of_nat (be_nat bs) * (256 :: byte) = 0" by (simp only: mult_zero_right)
    then show ?thesis by (simp add: be_nat_snoc)
  qed
  ultimately show ?case using snoc by simp
qed (simp add: be_nat_def)

lemma be_nat_bound: "be_nat bs < 256 ^ length bs"
proof (induction bs rule: rev_induct)
  case (snoc b bs)
  have "unat b < 256" using unsigned_less [of b] by simp
  with snoc show ?case by (simp add: be_nat_snoc)
qed (simp add: be_nat_def)

lemma digits_positive:
  assumes "list_all is_digit s" "s \<noteq> []" "hd s \<noteq> CHR ''0''"
  shows "0 < nat_of_digits s"
proof -
  obtain c t where s: "s = c # t" using assms(2) by (cases s) auto
  have c: "is_digit c" "c \<noteq> CHR ''0''" using assms s by auto
  have "0 < digit_val c"
  proof (rule ccontr)
    assume "\<not> 0 < digit_val c"
    then have "(of_char c :: nat) = 48" using c(1) by (simp add: digit_val_def is_digit_def Let_def)
    then have "c = char_of (48 :: nat)" by (metis char_of_char)
    moreover have "char_of (48 :: nat) = CHR ''0''" by code_simp
    ultimately show False using c(2) by simp
  qed
  moreover have "0 < a \<Longrightarrow> 0 < foldl (\<lambda>a c. a * 10 + digit_val c) a t" for a by (induction t arbitrary: a) auto
  ultimately show ?thesis by (simp add: s nat_of_digits_def)
qed

lemma digit_char_val: "is_digit c \<Longrightarrow> digit_char (digit_val c) = c" "is_digit c \<Longrightarrow> digit_val c < 10"
  by (auto simp: digit_char_def digit_val_def is_digit_def Let_def)

lemma canonical_digits:
  "list_all is_digit s \<Longrightarrow> s \<noteq> [] \<Longrightarrow> s = ''0'' \<or> hd s \<noteq> CHR ''0'' \<Longrightarrow> show_nat (nat_of_digits s) = s"
proof (induction s rule: rev_induct)
  case (snoc c s)
  have c: "is_digit c" using snoc.prems by simp
  have step: "nat_of_digits (s @ [c]) = nat_of_digits s * 10 + digit_val c" by (simp add: nat_of_digits_def)
  show ?case
  proof (cases "s = []")
    case True
    then show ?thesis using digit_char_val [OF c] by (simp add: nat_of_digits_def show_nat.simps)
  next
    case False
    then have hd: "list_all is_digit s" "hd s \<noteq> CHR ''0''" using snoc.prems by auto
    then have "0 < nat_of_digits s" "show_nat (nat_of_digits s) = s" using digits_positive False snoc.IH by auto
    moreover have "(nat_of_digits s * 10 + digit_val c) div 10 = nat_of_digits s" "(nat_of_digits s * 10 + digit_val c) mod 10 = digit_val c"
      using digit_char_val(2) [OF c] by auto
    ultimately show ?thesis using digit_char_val(1) [OF c] unfolding step by (subst show_nat.simps) simp
  qed
qed simp

lemma parse_octet_show: "parse_octet (show_nat (unat b)) = Inr b"
proof -
  have b: "unat b < 256" using unsigned_less [of b] by simp
  have d: "list_all is_digit (show_nat (unat b))" using show_nat_digits by (auto simp: list_all_iff)
  have "length (show_nat n) \<le> 3 \<and> (show_nat n = ''0'' \<or> hd (show_nat n) \<noteq> CHR ''0'')" if "n < 256" for n
  proof -
    have lo: "show_nat n = [digit_char n]" if "n < 10" using that by (simp add: show_nat.simps)
    have mid: "show_nat n = [digit_char (n div 10), digit_char (n mod 10)]" if "10 \<le> n" "n < 100"
    proof -
      have "n div 10 < 10" using that by (simp add: div_less_iff_less_mult)
      then show ?thesis using that by (simp add: show_nat.simps [of n] show_nat.simps [of "n div 10"])
    qed
    have hi: "show_nat n = [digit_char (n div 100), digit_char (n div 10 mod 10), digit_char (n mod 10)]" if "100 \<le> n"
    proof -
      have "n div 100 < 10" "\<not> n div 10 < 10" using that \<open>n < 256\<close> by (simp_all add: div_less_iff_less_mult)
      then show ?thesis using that
        by (simp add: show_nat.simps [of n] show_nat.simps [of "n div 10"] show_nat.simps [of "n div 100"] div_mult2_eq [symmetric])
    qed
    moreover have "digit_char k \<noteq> CHR ''0''" if "0 < k" "k < 10" for k
      using that digit_val_char [of k] by (auto simp: digit_val_def)
    moreover have "n < 10 \<or> (10 \<le> n \<and> n < 100) \<or> 100 \<le> n" by linarith
    moreover have "0 < n div 10" "n div 10 < 10" if "10 \<le> n" "n < 100" using that by (auto simp: div_less_iff_less_mult)
    moreover have "0 < n div 100" "n div 100 < 10" if "100 \<le> n" using that \<open>n < 256\<close> by (auto simp: div_less_iff_less_mult)
    ultimately show ?thesis using lo mid hi by (cases "n = 0") (elim disjE; simp)+
  qed
  from this [OF b] show ?thesis using b d by (auto simp: parse_octet_def)
qed

lemma parse_octet_Inr: "parse_octet s = Inr b \<Longrightarrow> s = show_nat (unat b)"
  using canonical_digits [of s] by (auto simp: parse_octet_def unat_of_nat split: if_splits)

lemma octets_of_text: "split_on (CHR ''.'') (ipv4_text a) = map (\<lambda>b. show_nat (unat b)) (be_bytes 4 (unat a))"
proof -
  have "be_bytes 4 (unat a) \<noteq> []" by (metis be_bytes_length list.size(3) zero_neq_numeral)
  moreover have "CHR ''.'' \<notin> set (show_nat n)" for n using show_nat_digits not_digit_simps(7) by blast
  ultimately show ?thesis unfolding ipv4_text_def by (intro split_on_join) auto
qed

lemma ipv4_text_read: "ipv4_of_text (ipv4_text a) = Inr a"
proof -
  have "CHR ''/'' \<notin> set (show_nat n)" for n using show_nat_digits [of "CHR ''/''" n] by (auto simp: is_digit_def)
  then have "CHR ''/'' \<notin> set (ipv4_text a)"
    using set_join_subset [of "''.''" "map (\<lambda>b. show_nat (unat b)) (be_bytes 4 (unat a))"] by (auto simp: ipv4_text_def)
  moreover have "map_res parse_octet (map (\<lambda>b. show_nat (unat b)) bs) = Inr bs" for bs :: "byte list"
    by (induction bs) (simp_all add: parse_octet_show)
  moreover have "word_of_nat (be_nat (be_bytes 4 (unat a))) = a"
  proof -
    have "unat a < 256 ^ 4" using unsigned_less [of a] by simp
    then show ?thesis by (simp add: be_nat_bytes)
  qed
  ultimately show ?thesis by (simp add: ipv4_of_text_def octets_of_text Let_def)
qed

lemma ipv4_text_canonical: "ipv4_of_text s = Inr a \<Longrightarrow> ipv4_text a = s"
proof -
  assume s: "ipv4_of_text s = Inr a"
  then obtain bs where bs: "map_res parse_octet (split_on (CHR ''.'') s) = Inr bs" "a = word_of_nat (be_nat bs)"
    and len: "length (split_on (CHR ''.'') s) = 4"
    by (auto simp: ipv4_of_text_def Let_def bind_res_Inr_iff split: if_splits)
  have "xs = map (\<lambda>b. show_nat (unat b)) bs" if "map_res parse_octet xs = Inr bs" for xs bs
    using that by (induction xs arbitrary: bs) (auto split: sum.splits dest: parse_octet_Inr)
  from this [OF bs(1)] have parts: "split_on (CHR ''.'') s = map (\<lambda>b. show_nat (unat b)) bs" .
  have l: "length bs = 4" using len parts by simp
  then have "unat a = be_nat bs" using be_nat_bound [of bs] bs(2) by (simp add: unat_of_nat)
  then have "be_bytes 4 (unat a) = bs" using be_bytes_nat [of bs] l by simp
  then have "ipv4_text a = join ''.'' (split_on (CHR ''.'') s)" by (simp add: ipv4_text_def parts)
  then show ?thesis by simp
qed

text \<open>Addresses survive the database, and a text is stored only if it is the one way to write its
  address: four decimal octets up to 255 without leading zeros.
\<close>

theorem ipv4_roundtrip:
  "bind_res (ipv4_to_db (Inl (Some a))) (\<lambda>p. ipv4_to_python (case p of None \<Rightarrow> IpNone | Some s \<Rightarrow> IpText s)) = Inr (Some a)
    \<and> ipv4_to_db (Inr s) = (if s \<in> range ipv4_text then Inr (Some s) else Inl ValueError)"
proof -
  have "ipv4_of_text s = Inl ValueError" if "s \<notin> range ipv4_text"
  proof (cases "ipv4_of_text s")
    case (Inl e)
    have "e = ValueError" if "map_res parse_octet xs = Inl e" for xs
      using that by (induction xs) (auto simp: parse_octet_def split: if_splits sum.splits)
    then show ?thesis using Inl
      by (cases "map_res parse_octet (split_on (CHR ''.'') s)") (auto simp: ipv4_of_text_def Let_def split: if_splits)
  next
    case (Inr b)
    then show ?thesis using ipv4_text_canonical [of s b] that by auto
  qed
  then show ?thesis by (auto simp: ipv4_to_db_def ipv4_to_python_def ipv4_text_read)
qed

section \<open>URLs\<close>

definition is_alpha :: "char \<Rightarrow> bool" where
  "is_alpha c = (let k = (of_char c :: nat) in (65 \<le> k \<and> k \<le> 90) \<or> (97 \<le> k \<and> k \<le> 122))"

definition scheme_char :: "char \<Rightarrow> bool" where
  "scheme_char c = (is_alpha c \<or> is_digit c \<or> c \<in> set ''+-.'')"

definition ascii_lower :: "char \<Rightarrow> char" where
  "ascii_lower c = (let k = (of_char c :: nat) in if 65 \<le> k \<and> k \<le> 90 then char_of (k + 32) else c)"

text \<open>\<open>urlsplit\<close>: control characters and spaces are dropped in front, tab and line breaks everywhere; the
  scheme ends at the first colon, the network location at the first of \<open>/?#\<close>. The checks on brackets
  and on Unicode normalization of the location are the parameter \<open>netloc_ok\<close>.\<close>

definition urlsplit :: "(string \<Rightarrow> bool) \<Rightarrow> string \<Rightarrow> exc + string \<times> string" where
  "urlsplit netloc_ok url =
     (let u = filter (\<lambda>c. c \<notin> {CHR 0x09, CHR 0x0A, CHR 0x0D}) (dropWhile (\<lambda>c. (of_char c :: nat) \<le> 32) url);
          pre = takeWhile (\<lambda>c. c \<noteq> CHR '':'') u;
          found = (CHR '':'' \<in> set u \<and> pre \<noteq> [] \<and> is_alpha (hd u) \<and> list_all scheme_char pre);
          scheme = (if found then map ascii_lower pre else []);
          rest = (if found then drop (length pre + 1) u else u);
          netloc = (if prefix ''//'' rest then takeWhile (\<lambda>c. c \<notin> set ''/?#'') (drop 2 rest) else [])
      in if netloc_ok netloc then Inr (scheme, netloc) else Inl ValueError)"

definition url_to_python :: "string option \<Rightarrow> string option" where
  "url_to_python v = v"

definition url_to_db :: "(string \<Rightarrow> bool) \<Rightarrow> string option \<Rightarrow> exc + string option" where
  "url_to_db netloc_ok v =
     (case v of
        None \<Rightarrow> Inr None
      | Some s \<Rightarrow>
          if py_strip s \<noteq> s then Inl ValueError
          else bind_res (urlsplit netloc_ok s) (\<lambda>(scheme, netloc).
            if \<not> (scheme \<noteq> [] \<and> netloc \<noteq> []) then Inl ValueError
            else if list_ex (\<lambda>c. is_space c \<or> (of_char c :: nat) < 32) s then Inl ValueError
            else Inr (Some s)))"

definition absolute_url :: "(string \<Rightarrow> bool) \<Rightarrow> string \<Rightarrow> bool" where
  "absolute_url netloc_ok s \<longleftrightarrow>
     (\<exists>scheme netloc tail. s = scheme @ ''://'' @ netloc @ tail
        \<and> scheme \<noteq> [] \<and> is_alpha (hd scheme) \<and> list_all scheme_char scheme
        \<and> netloc \<noteq> [] \<and> set netloc \<inter> set ''/?#'' = {} \<and> netloc_ok netloc
        \<and> (tail = [] \<or> hd tail \<in> set ''/?#''))
     \<and> list_all (\<lambda>c. \<not> is_space c \<and> 32 \<le> (of_char c :: nat)) s"

lemma absolute_urlI:
  assumes "s = scheme @ ''://'' @ netloc @ tail" "scheme \<noteq> []" "is_alpha (hd scheme)" "list_all scheme_char scheme"
    and "netloc \<noteq> []" "set netloc \<inter> set ''/?#'' = {}" "netloc_ok netloc" "tail = [] \<or> hd tail \<in> set ''/?#''"
    and "list_all (\<lambda>c. \<not> is_space c \<and> 32 \<le> (of_char c :: nat)) s"
  shows "absolute_url netloc_ok s"
  unfolding absolute_url_def using assms by blast

lemma clean_url:
  assumes "list_all (\<lambda>c. \<not> is_space c \<and> 32 \<le> (of_char c :: nat)) s"
  shows "py_strip s = s" "filter (\<lambda>c. c \<notin> {CHR 0x09, CHR 0x0A, CHR 0x0D}) (dropWhile (\<lambda>c. (of_char c :: nat) \<le> 32) s) = s"
proof -
  have c: "\<not> is_space c" "\<not> (of_char c :: nat) \<le> 32" "c \<notin> {CHR 0x09, CHR 0x0A, CHR 0x0D}" if "c \<in> set s" for c
    using assms that by (auto simp: list_all_iff is_space_def Let_def le_less)
  show "py_strip s = s" using c(1) by (intro py_strip_ends) auto
  have "dropWhile (\<lambda>c. (of_char c :: nat) \<le> 32) s = s" using c(2) by (cases s) auto
  then show "filter (\<lambda>c. c \<notin> {CHR 0x09, CHR 0x0A, CHR 0x0D}) (dropWhile (\<lambda>c. (of_char c :: nat) \<le> 32) s) = s"
    using c(3) by (simp add: filter_id_conv)
qed

lemma split_absolute:
  assumes "s = scheme @ ''://'' @ netloc @ tail" "scheme \<noteq> []" "is_alpha (hd scheme)" "list_all scheme_char scheme"
    and "set netloc \<inter> set ''/?#'' = {}" "tail = [] \<or> hd tail \<in> set ''/?#''"
  shows "takeWhile (\<lambda>c. c \<noteq> CHR '':'') s = scheme" "hd s = hd scheme"
    "drop (length scheme + 1) s = ''//'' @ netloc @ tail" "takeWhile (\<lambda>c. c \<notin> set ''/?#'') (netloc @ tail) = netloc"
proof -
  have "\<not> scheme_char CHR '':''" by (simp add: scheme_char_def is_alpha_def is_digit_def Let_def)
  then have "\<forall>c \<in> set scheme. c \<noteq> CHR '':''" using assms(4) by (auto simp: list_all_iff)
  then show "takeWhile (\<lambda>c. c \<noteq> CHR '':'') s = scheme" by (simp add: assms(1) takeWhile_append2)
  show "hd s = hd scheme" using assms(2) by (simp add: assms(1))
  show "drop (length scheme + 1) s = ''//'' @ netloc @ tail" by (simp add: assms(1))
  have "\<forall>c \<in> set netloc. c \<notin> set ''/?#''" using assms(5) by auto
  then have "takeWhile (\<lambda>c. c \<notin> set ''/?#'') (netloc @ tail) = netloc @ takeWhile (\<lambda>c. c \<notin> set ''/?#'') tail"
    by (simp add: takeWhile_append2)
  moreover have "takeWhile (\<lambda>c. c \<notin> set ''/?#'') tail = []" using assms(6) by (cases tail) auto
  ultimately show "takeWhile (\<lambda>c. c \<notin> set ''/?#'') (netloc @ tail) = netloc" by simp
qed

lemma split_url_parts:
  assumes "CHR '':'' \<in> set s" "pre = takeWhile (\<lambda>c. c \<noteq> CHR '':'') s" "prefix ''//'' (drop (length pre + 1) s)"
    and "netloc = takeWhile (\<lambda>c. c \<notin> set ''/?#'') (drop 2 (drop (length pre + 1) s))"
  shows "\<exists>tail. s = pre @ ''://'' @ netloc @ tail \<and> (tail = [] \<or> hd tail \<in> set ''/?#'')"
proof -
  let ?tail = "dropWhile (\<lambda>c. c \<notin> set ''/?#'') (drop 2 (drop (length pre + 1) s))"
  have ne: "dropWhile (\<lambda>c. c \<noteq> CHR '':'') s \<noteq> []" using assms(1) by (auto simp: dropWhile_eq_Nil_conv)
  then obtain x r where xr: "dropWhile (\<lambda>c. c \<noteq> CHR '':'') s = x # r" by (cases "dropWhile (\<lambda>c. c \<noteq> CHR '':'') s") auto
  then have "x = CHR '':''" using hd_dropWhile [OF ne] by simp
  with xr have r: "dropWhile (\<lambda>c. c \<noteq> CHR '':'') s = CHR '':'' # r" by simp
  have s: "s = pre @ CHR '':'' # r" using r assms(2) by (metis takeWhile_dropWhile_id)
  then have d: "drop (length pre + 1) s = r" by simp
  obtain t where t: "r = ''//'' @ t" using assms(3) d by (auto simp: prefix_def)
  have "t = takeWhile (\<lambda>c. c \<notin> set ''/?#'') t @ dropWhile (\<lambda>c. c \<notin> set ''/?#'') t" by (simp only: takeWhile_dropWhile_id)
  then have "t = netloc @ ?tail" unfolding assms(4) d t by simp
  moreover have "?tail = [] \<or> hd ?tail \<in> set ''/?#''"
    using hd_dropWhile [of "\<lambda>c. c \<notin> set ''/?#''" "drop 2 (drop (length pre + 1) s)"] by blast
  ultimately show ?thesis using s t by (metis append.assoc append_Cons append_Nil)
qed

text \<open>
  A URL is stored unchanged exactly when it is a scheme, \<open>://\<close>, a location that is not empty and
  whatever follows, without white space and control characters below U+0020.
\<close>

theorem url_accepts:
  "url_to_db netloc_ok (Some s) = (if absolute_url netloc_ok s then Inr (Some s) else Inl ValueError)"
proof (cases "list_all (\<lambda>c. \<not> is_space c \<and> 32 \<le> (of_char c :: nat)) s")
  case False
  then have "list_ex (\<lambda>c. is_space c \<or> (of_char c :: nat) < 32) s"
    unfolding list_all_iff list_ex_iff by (meson not_le)
  moreover have "urlsplit netloc_ok s = Inl e \<Longrightarrow> e = ValueError" for e
    by (auto simp: urlsplit_def Let_def split: if_splits)
  ultimately show ?thesis using False
    by (cases "urlsplit netloc_ok s") (auto simp: url_to_db_def absolute_url_def split: prod.split)
next
  case True
  note clean = clean_url [OF True]
  have ex: "\<not> list_ex (\<lambda>c. is_space c \<or> (of_char c :: nat) < 32) s" using True unfolding list_all_iff list_ex_iff by (meson not_le)
  let ?pre = "takeWhile (\<lambda>c. c \<noteq> CHR '':'') s"
  let ?found = "CHR '':'' \<in> set s \<and> ?pre \<noteq> [] \<and> is_alpha (hd s) \<and> list_all scheme_char ?pre"
  let ?rest = "if ?found then drop (length ?pre + 1) s else s"
  let ?netloc = "if prefix ''//'' ?rest then takeWhile (\<lambda>c. c \<notin> set ''/?#'') (drop 2 ?rest) else []"
  have split: "urlsplit netloc_ok s =
      (if netloc_ok ?netloc then Inr (if ?found then map ascii_lower ?pre else [], ?netloc) else Inl ValueError)"
    unfolding urlsplit_def Let_def clean(2) ..
  have run: "url_to_db netloc_ok (Some s) = (if netloc_ok ?netloc \<and> ?found \<and> ?netloc \<noteq> [] then Inr (Some s) else Inl ValueError)"
    using ex by (auto simp: url_to_db_def clean(1) split)
  have "netloc_ok ?netloc \<and> ?found \<and> ?netloc \<noteq> [] \<longleftrightarrow> absolute_url netloc_ok s"
  proof
    assume l: "netloc_ok ?netloc \<and> ?found \<and> ?netloc \<noteq> []"
    then have pf: "prefix ''//'' (drop (length ?pre + 1) s)" by (simp split: if_splits)
    let ?n = "takeWhile (\<lambda>c. c \<notin> set ''/?#'') (drop 2 (drop (length ?pre + 1) s))"
    have n: "?netloc = ?n" using l pf by simp
    obtain tail where tail: "s = ?pre @ ''://'' @ ?n @ tail" "tail = [] \<or> hd tail \<in> set ''/?#''"
      using split_url_parts [OF _ refl pf refl] l by blast
    have disj: "set ?n \<inter> set ''/?#'' = {}" using set_takeWhileD [of _ "\<lambda>c. c \<notin> set ''/?#''"] by blast
    have found: "?pre \<noteq> []" "is_alpha (hd s)" "list_all scheme_char ?pre" using l by blast+
    have "hd s = hd ?pre" using found(1) by (cases s) (auto split: if_splits)
    then have hd: "is_alpha (hd ?pre)" using found(2) by simp
    have "netloc_ok ?n" "?n \<noteq> []" using l unfolding n by blast+
    then show "absolute_url netloc_ok s"
      using absolute_urlI [OF tail(1) found(1) hd found(3) _ disj _ tail(2) True] by blast
  next
    assume "absolute_url netloc_ok s"
    then obtain scheme netloc tail where s: "s = scheme @ ''://'' @ netloc @ tail" "scheme \<noteq> []" "is_alpha (hd scheme)"
      "list_all scheme_char scheme" "netloc \<noteq> []" "set netloc \<inter> set ''/?#'' = {}" "netloc_ok netloc" "tail = [] \<or> hd tail \<in> set ''/?#''"
      unfolding absolute_url_def by blast
    note parts = split_absolute [OF s(1-4) s(6) s(8)]
    have "CHR '':'' \<in> set s" using s(1) by simp
    then have found: "?found" using parts s by simp
    have "drop 2 (''//'' @ netloc @ tail) = netloc @ tail" by simp
    then have "?netloc = netloc" using found parts by (simp add: prefix_def)
    then show "netloc_ok ?netloc \<and> ?found \<and> ?netloc \<noteq> []" using found s by simp
  qed
  then show ?thesis unfolding run by simp
qed

text \<open>DEL and the control characters from U+0080 are not among the rejected ones.\<close>

lemma url_keeps_del: "absolute_url (\<lambda>n. True) (''http://a/'' @ [CHR 0x7F])"
  unfolding absolute_url_def
  by (intro conjI exI [of _ "''http''"] exI [of _ "''a''"] exI [of _ "''/'' @ [CHR 0x7F]"])
    (simp_all add: is_alpha_def scheme_char_def is_space_def Let_def)

section \<open>Paths\<close>

text \<open>A \<open>PurePosixPath\<close>: zero, one or two leading slashes, and the parts that are no empty text and no
  single dot.\<close>

datatype posix_path = Posix_path nat "string list"

definition parse_path :: "string \<Rightarrow> posix_path" where
  "parse_path s =
     Posix_path
       (if prefix ''//'' s \<and> \<not> prefix ''///'' s then 2 else if prefix ''/'' s then 1 else 0)
       (filter (\<lambda>p. p \<noteq> [] \<and> p \<noteq> ''.'') (split_on (CHR ''/'') s))"

definition path_text :: "posix_path \<Rightarrow> string" where
  "path_text p =
     (case p of Posix_path root parts \<Rightarrow>
        (let s = replicate root (CHR ''/'') @ join ''/'' parts in if s = [] then ''.'' else s))"

text \<open>What a caller may pass: \<open>str\<close> of anything else is taken as well.\<close>

datatype path_arg = PaNone | PaText string | PaPath posix_path | PaBytes string

definition path_to_python :: "path_arg \<Rightarrow> posix_path option" where
  "path_to_python v =
     (case v of PaNone \<Rightarrow> None | PaText s \<Rightarrow> Some (parse_path s) | PaPath p \<Rightarrow> Some p | PaBytes s \<Rightarrow> Some (parse_path s))"

definition path_to_db :: "(string \<Rightarrow> string) \<Rightarrow> path_arg \<Rightarrow> exc + string option" where
  "path_to_db repr_bytes v =
     (case v of
        PaNone \<Rightarrow> Inr None
      | _ \<Rightarrow>
         (let path = (case v of PaText s \<Rightarrow> s | PaPath p \<Rightarrow> path_text p | PaBytes s \<Rightarrow> repr_bytes s | PaNone \<Rightarrow> []) in
          if CHR 0x00 \<in> set path then Inl ValueError else Inr (Some path)))"

lemma parts_ok: "p \<in> set (split_on (CHR ''/'') s) \<Longrightarrow> CHR ''/'' \<notin> set p"
  by (rule split_on_parts_free)

lemma split_slashes: "split_on (CHR ''/'') (replicate n (CHR ''/'') @ s) = replicate n [] @ split_on (CHR ''/'') s"
  by (induction n) auto

lemma path_text_parse:
  assumes "root \<le> 2" "\<forall>p \<in> set parts. p \<noteq> [] \<and> p \<noteq> ''.'' \<and> CHR ''/'' \<notin> set p"
  shows "parse_path (path_text (Posix_path root parts)) = Posix_path root parts"
proof (cases "parts = []")
  case True
  have "root = 0 \<or> root = 1 \<or> root = 2" using assms(1) by linarith
  then show ?thesis using True by (auto simp: path_text_def parse_path_def numeral_2_eq_2)
next
  case False
  let ?j = "join ''/'' parts"
  have split: "split_on (CHR ''/'') ?j = parts" using False assms(2) by (intro split_on_join) auto
  obtain q qs where parts: "parts = q # qs" using False by (cases parts) auto
  then have q: "q \<noteq> []" "CHR ''/'' \<notin> set q" using assms(2) by auto
  obtain c r where qc: "q = c # r" "c \<noteq> CHR ''/''" using q by (cases q) auto
  have j: "?j \<noteq> []" "hd ?j = c" using parts qc by (cases qs; simp)+
  then obtain t where t: "?j = c # t" by (cases ?j) auto
  have ids: "filter (\<lambda>p. p \<noteq> [] \<and> p \<noteq> ''.'') parts = parts" using assms(2) by (simp add: filter_id_conv)
  have roots: "root = 0 \<or> root = 1 \<or> root = 2" using assms(1) by linarith
  have "filter (\<lambda>p. p \<noteq> [] \<and> p \<noteq> ''.'') (split_on (CHR ''/'') (replicate root (CHR ''/'') @ ?j)) = parts"
    unfolding split_slashes split by (simp add: ids)
  moreover have "(if prefix ''//'' (replicate root (CHR ''/'') @ ?j) \<and> \<not> prefix ''///'' (replicate root (CHR ''/'') @ ?j) then 2
      else if prefix ''/'' (replicate root (CHR ''/'') @ ?j) then 1 else 0) = root"
    using roots qc(2) unfolding t by (auto simp: numeral_2_eq_2)
  ultimately show ?thesis using j(1) by (simp add: path_text_def parse_path_def)
qed

lemma parsed_path: "\<exists>root parts. parse_path s = Posix_path root parts \<and> root \<le> 2 \<and> (\<forall>p \<in> set parts. p \<noteq> [] \<and> p \<noteq> ''.'' \<and> CHR ''/'' \<notin> set p)"
  unfolding parse_path_def using parts_ok by auto

text \<open>
  A path without NUL survives the database, and loading normalizes once: what is read from a loaded
  and saved path is what was loaded.
\<close>

theorem path_roundtrip:
  "bind_res (path_to_db repr_bytes (PaPath (parse_path s))) (\<lambda>p. Inr (path_to_python (case p of None \<Rightarrow> PaNone | Some t \<Rightarrow> PaText t)))
    = (if CHR 0x00 \<in> set (path_text (parse_path s)) then Inl ValueError else Inr (Some (parse_path s)))"
proof -
  obtain root parts where "parse_path s = Posix_path root parts" "root \<le> 2" "\<forall>p \<in> set parts. p \<noteq> [] \<and> p \<noteq> ''.'' \<and> CHR ''/'' \<notin> set p"
    using parsed_path by blast
  then have "parse_path (path_text (parse_path s)) = parse_path s" using path_text_parse by metis
  then show ?thesis by (simp add: path_to_db_def path_to_python_def)
qed

text \<open>Bytes are not rejected: the text of their \<open>repr\<close> is stored.\<close>

lemma path_bytes_stored: "CHR 0x00 \<notin> set (repr_bytes s) \<Longrightarrow> path_to_db repr_bytes (PaBytes s) = Inr (Some (repr_bytes s))"
  by (simp add: path_to_db_def)

section \<open>UUIDs\<close>

text \<open>The default that the two UUID fields give to their base class: a value, or a generator.\<close>

datatype 'v uuid_default = Given 'v | Uuid4 | Uuid7

definition uuid4_default :: "'v option \<Rightarrow> 'v uuid_default" where
  "uuid4_default dflt = (case dflt of None \<Rightarrow> Uuid4 | Some v \<Rightarrow> Given v)"

definition uuid7_default :: "'v option \<Rightarrow> 'v uuid_default" where
  "uuid7_default dflt = (case dflt of None \<Rightarrow> Uuid7 | Some v \<Rightarrow> Given v)"

end
