(* ===== verification/Vector_Ranking.thy ===== *)
theory Vector_Ranking
  imports Vector_Filters Py_Text Quote
begin

text \<open>
  What the two vector searches share: the query vector as a literal, the distance that a metric
  selects, with the operators of the server as a parameter, and the best rows of an ordered and
  limited query.
\<close>

section \<open>Query vectors and metrics\<close>

definition strip_quotes :: "string \<Rightarrow> string" where
  "strip_quotes s = rev (dropWhile (\<lambda>c. c = SQ \<or> c = DQ) (rev (dropWhile (\<lambda>c. c = SQ \<or> c = DQ) s)))"

definition vector_literal ::
  "(pyfloat \<Rightarrow> string) \<Rightarrow> (string \<Rightarrow> exc + pyfloat) \<Rightarrow> vec_value \<Rightarrow> exc + string option" where
  "vector_literal str_of float_of v =
     (case v of VvText s \<Rightarrow> Inr (Some (strip_quotes (py_strip s))) | _ \<Rightarrow> vector_encoder str_of float_of v)"

type_synonym 'x operators = "distance_op \<Rightarrow> 'x \<Rightarrow> string \<Rightarrow> real"

definition metric_distance :: "'x operators \<Rightarrow> string \<Rightarrow> 'x \<Rightarrow> string \<Rightarrow> real" where
  "metric_distance D metric x q =
     (if metric = ''l2'' then D L2_distance x q
      else if metric = ''cosine'' then D Cosine_distance x q
      else (-1) * D Inner_product x q)"

definition threshold_holds :: "string \<Rightarrow> real \<Rightarrow> real \<Rightarrow> bool" where
  "threshold_holds metric d t = (if metric = ''inner_product'' then d \<ge> t else d \<le> t)"

section \<open>The best rows\<close>

definition best_of :: "('a \<Rightarrow> 'k :: linorder) \<Rightarrow> nat \<Rightarrow> 'a list \<Rightarrow> 'a list \<Rightarrow> bool" where
  "best_of f k xs out \<longleftrightarrow> sorted (map f out) \<and> length out = min k (length xs)
     \<and> (\<exists>rest. mset xs = mset out + mset rest \<and> (\<forall>x \<in> set rest. \<forall>y \<in> set out. f y \<le> f x))"

lemma take_sort_best: "best_of f k xs (take k (sort_key f xs))"
proof -
  let ?s = "sort_key f xs"
  have sorted: "sorted (map f (take k ?s) @ map f (drop k ?s))"
    by (metis append_take_drop_id map_append sorted_sort_key)
  have "mset xs = mset (take k ?s) + mset (drop k ?s)"
    by (metis append_take_drop_id mset_append mset_sort)
  moreover have "\<forall>x \<in> set (drop k ?s). \<forall>y \<in> set (take k ?s). f y \<le> f x"
    using sorted by (auto simp: sorted_append)
  moreover have "sorted (map f (take k ?s))" using sorted by (simp only: sorted_append)
  moreover have "length (take k ?s) = min k (length xs)" by simp
  ultimately show ?thesis unfolding best_of_def by blast
qed

lemma best_of_mset: "mset xs = mset ys \<Longrightarrow> best_of f k xs out = best_of f k ys out"
  by (simp add: best_of_def size_mset [symmetric] del: size_mset)

lemma best_of_subset: "best_of f k xs out \<Longrightarrow> set out \<subseteq> set xs"
  by (auto simp: best_of_def simp flip: set_mset_mset)

end
