(* ===== verification/Hybrid_Search.thy ===== *)
theory Hybrid_Search
  imports Vector_Ranking
begin

text \<open>
  \<open>expressions/hybrid_search.py\<close>: a search that ranks rows by vector similarity and by text rank. A
  query is the evaluation of its statement on the rows of the table with the list of bound
  parameters; the operators of pgvector and \<open>ts_rank_cd\<close> of the server are parameters, and their
  values and the weights are real numbers.
\<close>

section \<open>The class\<close>

record hybrid =
  hy_vector_field :: string
  hy_text_field :: string
  hy_tsvector_field :: string
  hy_metric :: string
  hy_vector_weight :: real
  hy_text_weight :: real

definition HYBRID_METRICS :: "string list" where
  "HYBRID_METRICS = [''cosine'', ''l2'', ''inner_product'']"

definition HybridSearch ::
  "string list \<Rightarrow> string \<Rightarrow> string \<Rightarrow> string option \<Rightarrow> string \<Rightarrow> real \<Rightarrow> real \<Rightarrow> exc + hybrid" where
  "HybridSearch fields_map vector_field text_field tsvector_field distance_metric vector_weight text_weight =
     (if distance_metric \<notin> set HYBRID_METRICS then Inl HybridSearchError
      else if vector_field \<notin> set fields_map \<or> text_field \<notin> set fields_map then Inl HybridSearchError
      else Inr \<lparr>hy_vector_field = vector_field, hy_text_field = text_field,
                hy_tsvector_field = (case tsvector_field of
                    None \<Rightarrow> text_field @ ''_tsv'' | Some s \<Rightarrow> if s = [] then text_field @ ''_tsv'' else s),
                hy_metric = distance_metric, hy_vector_weight = vector_weight, hy_text_weight = text_weight\<rparr>)"

section \<open>The statements\<close>

datatype hybrid_param = HyText string | HyInt int | HyReal real

definition hy_real :: "hybrid_param list \<Rightarrow> nat \<Rightarrow> real" where
  "hy_real params k = (case params ! (k - 1) of HyReal r \<Rightarrow> r | HyInt i \<Rightarrow> real_of_int i | HyText _ \<Rightarrow> 0)"

definition hy_text :: "hybrid_param list \<Rightarrow> nat \<Rightarrow> string" where
  "hy_text params k = (case params ! (k - 1) of HyText s \<Rightarrow> s | _ \<Rightarrow> [])"

definition hy_int :: "hybrid_param list \<Rightarrow> nat \<Rightarrow> int" where
  "hy_int params k = (case params ! (k - 1) of HyInt i \<Rightarrow> i | _ \<Rightarrow> 0)"

text \<open>A row: its vector and its search vector, by column.\<close>

record ('x, 't) search_row =
  sr_id :: int
  sr_vector :: "string \<Rightarrow> 'x option"
  sr_tsvector :: "string \<Rightarrow> 't option"

record ('x, 't) hit =
  ht_row :: "('x, 't) search_row"
  ht_distance :: real
  ht_text :: real
  ht_score :: real

definition similarity :: "string \<Rightarrow> real \<Rightarrow> real" where
  "similarity metric d = (if metric = ''inner_product'' then d / (1 + \<bar>d\<bar>) else 1 / (1 + d))"

text \<open>\<open>ORDER BY combined_score DESC LIMIT n\<close>.\<close>

definition ranked :: "int \<Rightarrow> ('x, 't) hit list \<Rightarrow> exc + ('x, 't) hit list" where
  "ranked n hits = (if n < 0 then Inl OperationalError else Inr (take (nat n) (sort_key (\<lambda>h. - ht_score h) hits)))"

definition combined_row ::
  "'x operators \<Rightarrow> ('t \<Rightarrow> string \<Rightarrow> real) \<Rightarrow> hybrid \<Rightarrow> bool \<Rightarrow> hybrid_param list \<Rightarrow> ('x, 't) search_row \<Rightarrow> ('x, 't) hit list" where
  "combined_row D rank h filtered params r =
     (case (sr_vector r (hy_vector_field h), sr_tsvector r (hy_tsvector_field h)) of
        (Some x, Some tsv) \<Rightarrow>
          (let d = metric_distance D (hy_metric h) x (hy_text params 1) in
           if filtered \<and> \<not> threshold_holds (hy_metric h) d (hy_real params 6) then []
           else [\<lparr>ht_row = r, ht_distance = d, ht_text = rank tsv (hy_text params 2),
                  ht_score = hy_real params 4 * similarity (hy_metric h) d + hy_real params 5 * rank tsv (hy_text params 2)\<rparr>])
      | _ \<Rightarrow> [])"

definition combined_query ::
  "'x operators \<Rightarrow> ('t \<Rightarrow> string \<Rightarrow> real) \<Rightarrow> hybrid \<Rightarrow> bool \<Rightarrow> hybrid_param list \<Rightarrow> ('x, 't) search_row list
     \<Rightarrow> exc + ('x, 't) hit list" where
  "combined_query D rank h filtered params rows = ranked (hy_int params 3) (concat (map (combined_row D rank h filtered params) rows))"

definition vector_row ::
  "'x operators \<Rightarrow> hybrid \<Rightarrow> bool \<Rightarrow> hybrid_param list \<Rightarrow> ('x, 't) search_row \<Rightarrow> ('x, 't) hit list" where
  "vector_row D h filtered params r =
     (case sr_vector r (hy_vector_field h) of
        Some x \<Rightarrow>
          (let d = metric_distance D (hy_metric h) x (hy_text params 1) in
           if filtered \<and> \<not> threshold_holds (hy_metric h) d (hy_real params 3) then []
           else [\<lparr>ht_row = r, ht_distance = d, ht_text = 0, ht_score = similarity (hy_metric h) d\<rparr>])
      | None \<Rightarrow> [])"

definition vector_query ::
  "'x operators \<Rightarrow> hybrid \<Rightarrow> bool \<Rightarrow> hybrid_param list \<Rightarrow> ('x, 't) search_row list \<Rightarrow> exc + ('x, 't) hit list" where
  "vector_query D h filtered params rows = ranked (hy_int params 2) (concat (map (vector_row D h filtered params) rows))"

definition hybrid_search ::
  "'x operators \<Rightarrow> ('t \<Rightarrow> string \<Rightarrow> real) \<Rightarrow> hybrid \<Rightarrow> ('x, 't) search_row list
     \<Rightarrow> string \<Rightarrow> string option \<Rightarrow> int \<Rightarrow> real option \<Rightarrow> exc + ('x, 't) hit list" where
  "hybrid_search D rank h rows literal query_text max_results min_distance =
     (let threshold = (case min_distance of None \<Rightarrow> [] | Some t \<Rightarrow> [HyReal t]) in
      case query_text of
        Some q \<Rightarrow>
          if q \<noteq> [] \<and> hy_text_weight h > 0 then
            combined_query D rank h (min_distance \<noteq> None)
              ([HyText literal, HyText q, HyInt max_results, HyReal (hy_vector_weight h), HyReal (hy_text_weight h)] @ threshold) rows
          else vector_query D h (min_distance \<noteq> None) ([HyText literal, HyInt max_results] @ threshold) rows
      | None \<Rightarrow> vector_query D h (min_distance \<noteq> None) ([HyText literal, HyInt max_results] @ threshold) rows)"

text \<open>The query vector is made a literal first; its type excludes \<open>None\<close>.\<close>

definition hybrid_search_for ::
  "(pyfloat \<Rightarrow> string) \<Rightarrow> (string \<Rightarrow> exc + pyfloat) \<Rightarrow> 'x operators \<Rightarrow> ('t \<Rightarrow> string \<Rightarrow> real) \<Rightarrow> hybrid \<Rightarrow> ('x, 't) search_row list
     \<Rightarrow> vec_value \<Rightarrow> string option \<Rightarrow> int \<Rightarrow> real option \<Rightarrow> exc + ('x, 't) hit list" where
  "hybrid_search_for str_of float_of D rank h rows query_vector query_text max_results min_distance =
     bind_res (vector_literal str_of float_of query_vector) (\<lambda>literal.
       hybrid_search D rank h rows (case literal of None \<Rightarrow> [] | Some t \<Rightarrow> t) query_text max_results min_distance)"

section \<open>What a search returns\<close>

text \<open>Whether the text takes part, whether a row can be found, and its score.\<close>

definition uses_text :: "hybrid \<Rightarrow> string option \<Rightarrow> bool" where
  "uses_text h query_text \<longleftrightarrow> (\<exists>q. query_text = Some q \<and> q \<noteq> []) \<and> hy_text_weight h > 0"

definition findable :: "'x operators \<Rightarrow> hybrid \<Rightarrow> string \<Rightarrow> string option \<Rightarrow> real option \<Rightarrow> ('x, 't) search_row \<Rightarrow> bool" where
  "findable D h literal query_text min_distance r \<longleftrightarrow>
     (\<exists>x. sr_vector r (hy_vector_field h) = Some x
        \<and> (case min_distance of None \<Rightarrow> True
           | Some t \<Rightarrow> threshold_holds (hy_metric h) (metric_distance D (hy_metric h) x literal) t))
     \<and> (uses_text h query_text \<longrightarrow> sr_tsvector r (hy_tsvector_field h) \<noteq> None)"

definition hybrid_hit ::
  "'x operators \<Rightarrow> ('t \<Rightarrow> string \<Rightarrow> real) \<Rightarrow> hybrid \<Rightarrow> string \<Rightarrow> string option \<Rightarrow> ('x, 't) search_row \<Rightarrow> ('x, 't) hit" where
  "hybrid_hit D rank h literal query_text r =
     (let d = metric_distance D (hy_metric h) (the (sr_vector r (hy_vector_field h))) literal;
          t = rank (the (sr_tsvector r (hy_tsvector_field h))) (the query_text) in
      if uses_text h query_text then
        \<lparr>ht_row = r, ht_distance = d, ht_text = t,
         ht_score = hy_vector_weight h * similarity (hy_metric h) d + hy_text_weight h * t\<rparr>
      else \<lparr>ht_row = r, ht_distance = d, ht_text = 0, ht_score = similarity (hy_metric h) d\<rparr>)"

lemma combined_row_eq:
  assumes "uses_text h query_text" "hy_text params 1 = literal" "hy_text params 2 = the query_text"
    and "hy_real params 4 = hy_vector_weight h" "hy_real params 5 = hy_text_weight h"
    and "\<And>t. min_distance = Some t \<Longrightarrow> hy_real params 6 = t"
  shows "combined_row D rank h (min_distance \<noteq> None) params r =
    (if findable D h literal query_text min_distance r then [hybrid_hit D rank h literal query_text r] else [])"
  using assms
  by (cases "sr_vector r (hy_vector_field h)"; cases "sr_tsvector r (hy_tsvector_field h)"; cases min_distance;
      simp add: combined_row_def findable_def hybrid_hit_def Let_def)

lemma vector_row_eq:
  assumes "\<not> uses_text h query_text" "hy_text params 1 = literal" "\<And>t. min_distance = Some t \<Longrightarrow> hy_real params 3 = t"
  shows "vector_row D h (min_distance \<noteq> None) params r =
    (if findable D h literal query_text min_distance r then [hybrid_hit D rank h literal query_text r] else [])"
  using assms
  by (cases "sr_vector r (hy_vector_field h)"; cases min_distance;
      simp add: vector_row_def findable_def hybrid_hit_def Let_def)

lemma concat_filtered: "(\<And>r. f r = (if p r then [g r] else [])) \<Longrightarrow> concat (map f rows) = map g (filter p rows)"
  by (induction rows) auto

lemma ranked_best: "0 \<le> n \<Longrightarrow> \<exists>out. ranked n hits = Inr out \<and> best_of (\<lambda>x. - ht_score x) (nat n) hits out"
  by (simp add: ranked_def take_sort_best)



lemma squashed_mono: "d < e \<Longrightarrow> d / (1 + \<bar>d\<bar>) < e / (1 + \<bar>e\<bar>)" for d e :: real
proof -
  assume "d < e"
  then have "d * (1 + \<bar>e\<bar>) < e * (1 + \<bar>d\<bar>)"
  proof (cases "0 \<le> d \<or> e \<le> 0")
    case True
    then show ?thesis using \<open>d < e\<close> by (auto simp: algebra_simps)
  next
    case False
    then have "d * (1 + \<bar>e\<bar>) < 0" "0 < e * (1 + \<bar>d\<bar>)" by (auto intro: mult_neg_pos mult_pos_pos)
    then show ?thesis by linarith
  qed
  moreover have "0 < 1 + \<bar>d\<bar>" "0 < 1 + \<bar>e\<bar>" by simp_all
  ultimately show ?thesis by (simp add: divide_less_eq pos_less_divide_eq mult.commute)
qed

lemma squashed_bound: "\<bar>d / (1 + \<bar>d\<bar>)\<bar> < 1" for d :: real
  by (simp add: abs_divide)

lemma inverse_mono: "0 \<le> d \<Longrightarrow> d < e \<Longrightarrow> 1 / (1 + e) < 1 / (1 + d)" for d e :: real
  by (simp add: divide_strict_left_mono)

text \<open>
  The similarity of a distance that is not negative lies in (0, 1] and falls with the distance;
  of an inner product it lies between -1 and 1 and grows with it.
\<close>

theorem similarity_bounded:
  "(0 \<le> d \<and> metric \<noteq> ''inner_product'' \<longrightarrow>
      0 < similarity metric d \<and> similarity metric d \<le> 1 \<and> (\<forall>e. d < e \<longrightarrow> similarity metric e < similarity metric d))
    \<and> (metric = ''inner_product'' \<longrightarrow>
      \<bar>similarity metric d\<bar> < 1 \<and> (\<forall>e. d < e \<longrightarrow> similarity metric d < similarity metric e))"
  using squashed_mono squashed_bound inverse_mono by (simp add: similarity_def)

theorem similarity_bounded_witness:
  "0 < similarity ''cosine'' 2 \<and> similarity ''cosine'' 2 \<le> 1 \<and> \<bar>similarity ''inner_product'' (-3)\<bar> < 1"
  using similarity_bounded [of 2 "''cosine''"] similarity_bounded [of "-3" "''inner_product''"] by simp

end
