(* ===== verification/Graph_Vector_Search.thy ===== *)
theory Graph_Vector_Search
  imports Vector_Ranking Graph_Traversal
begin

text \<open>
  \<open>expressions/graph_vector_search.py\<close>: the nodes within a number of hops of a seed, ranked by their
  vector distance, and their hydration. The query is the evaluation of its statement on the node and
  edge tables with the bound parameters. Unlike the traversals, its recursion does not join the node
  table: a walk may pass through an id that no stored node has, only the result may not.
\<close>

section \<open>The class\<close>

record ('x, 'v) gv_node =
  gn_id :: int
  gn_vector :: "string \<Rightarrow> 'x option"
  gn_row :: "(string \<times> 'v) list"

record ('x, 'v) gv_tables =
  gv_nodes :: "('x, 'v) gv_node list"
  gv_columns :: "string list"
  gv_edges :: "edge list"

text \<open>A field of the node model: its name and its database column, if that has another name.\<close>

record gv_models =
  nm_fields :: "(string \<times> string option) list"
  em_fields :: "string list"

record gv_search =
  gs_vector_field :: string
  gs_source :: string
  gs_target :: string
  gs_bidirectional :: bool
  gs_seed :: int
  gs_max_hops :: int
  gs_direction :: string
  gs_edge_type :: "string option"
  gs_metric :: string
  gs_max_results :: int
  gs_min_distance :: "real option"
  gs_literal :: string

definition GRAPH_METRICS :: "string list" where
  "GRAPH_METRICS = [''l2'', ''cosine'', ''inner_product'']"

definition GraphVectorSearch ::
  "(pyfloat \<Rightarrow> string) \<Rightarrow> (string \<Rightarrow> exc + pyfloat) \<Rightarrow> gv_models \<Rightarrow> vec_value \<Rightarrow> int \<Rightarrow> string \<Rightarrow> int \<Rightarrow> string \<Rightarrow> string option
     \<Rightarrow> string \<Rightarrow> int \<Rightarrow> real option \<Rightarrow> string \<Rightarrow> string \<Rightarrow> exc + gv_search" where
  "GraphVectorSearch str_of float_of models query_vector seed_id vector_field max_hops direction edge_type
     distance_metric max_results min_distance source_field target_field =
     (if distance_metric \<notin> set GRAPH_METRICS then Inl GraphTraversalError
      else if direction \<notin> set DIRECTIONS then Inl GraphTraversalError
      else if vector_field \<notin> fst ` set (nm_fields models) then Inl GraphTraversalError
      else if source_field \<notin> set (em_fields models) \<or> target_field \<notin> set (em_fields models) then Inl GraphTraversalError
      else if edge_type \<noteq> None \<and> ''edge_type'' \<notin> set (em_fields models) then Inl GraphTraversalError
      else bind_res (vector_literal str_of float_of query_vector) (\<lambda>literal.
        Inr \<lparr>gs_vector_field = vector_field, gs_source = source_field, gs_target = target_field,
             gs_bidirectional = (''is_bidirectional'' \<in> set (em_fields models)), gs_seed = seed_id, gs_max_hops = max_hops,
             gs_direction = direction, gs_edge_type = edge_type, gs_metric = distance_metric,
             gs_max_results = max_results, gs_min_distance = min_distance,
             gs_literal = (case literal of None \<Rightarrow> [] | Some t \<Rightarrow> t)\<rparr>))"

section \<open>The recursive part\<close>

text \<open>The join condition and the next node: \<open>src\<close> and \<open>tgt\<close> of the edge, \<open>b\<close> the node of the row.\<close>

definition recursion_sql :: "gv_search \<Rightarrow> edge \<Rightarrow> int \<Rightarrow> bool \<times> int" where
  "recursion_sql gs e b =
     (let src = e_fk e (gs_source gs); tgt = e_fk e (gs_target gs) in
      if gs_bidirectional gs then
        (if gs_direction gs = ''outgoing'' then
           (src = b \<or> (e_bidirectional e \<and> tgt = b), if src = b then tgt else src)
         else if gs_direction gs = ''incoming'' then
           (tgt = b \<or> (e_bidirectional e \<and> src = b), if tgt = b then src else tgt)
         else (src = b \<or> tgt = b, if src = b then tgt else src))
      else
        (if gs_direction gs = ''outgoing'' then (src = b, tgt)
         else if gs_direction gs = ''incoming'' then (tgt = b, src)
         else (src = b \<or> tgt = b, if src = b then tgt else src)))"

record gv_row =
  gr_node :: int
  gr_hops :: nat
  gr_path :: "int list"

datatype gv_param = GvInt int | GvText string | GvReal real

definition gv_int :: "gv_param list \<Rightarrow> nat \<Rightarrow> int" where
  "gv_int params k = (case params ! (k - 1) of GvInt i \<Rightarrow> i | _ \<Rightarrow> 0)"

definition gv_text :: "gv_param list \<Rightarrow> nat \<Rightarrow> string" where
  "gv_text params k = (case params ! (k - 1) of GvText t \<Rightarrow> t | _ \<Rightarrow> [])"

definition gv_real :: "gv_param list \<Rightarrow> nat \<Rightarrow> real" where
  "gv_real params k = (case params ! (k - 1) of GvReal r \<Rightarrow> r | GvInt i \<Rightarrow> real_of_int i | GvText _ \<Rightarrow> 0)"

definition gv_step :: "gv_search \<Rightarrow> edge list \<Rightarrow> string option \<Rightarrow> int \<Rightarrow> gv_row \<Rightarrow> gv_row list" where
  "gv_step gs edges et limit b =
     [\<lparr>gr_node = snd (recursion_sql gs e (gr_node b)), gr_hops = gr_hops b + 1,
       gr_path = gr_path b @ [snd (recursion_sql gs e (gr_node b))]\<rparr>.
        e \<leftarrow> edges, fst (recursion_sql gs e (gr_node b)) \<and> int (gr_hops b) < limit
          \<and> snd (recursion_sql gs e (gr_node b)) \<notin> set (gr_path b) \<and> type_ok et e]"

definition gv_anchor :: "('x, 'v) gv_tables \<Rightarrow> int \<Rightarrow> gv_row list" where
  "gv_anchor t seed = [\<lparr>gr_node = gn_id n, gr_hops = 0, gr_path = [gn_id n]\<rparr>. n \<leftarrow> gv_nodes t, gn_id n = seed]"

section \<open>The selection\<close>

record 'v gv_result =
  gx_row :: "(string \<times> 'v) list"
  gx_id :: int
  gx_distance :: real
  gx_hops :: nat

text \<open>\<open>GROUP BY pk\<close> over the rows joined with the nodes, \<open>ORDER BY distance, pk LIMIT n\<close>.\<close>

definition gv_node_result ::
  "'x operators \<Rightarrow> gv_search \<Rightarrow> gv_param list \<Rightarrow> nat option \<Rightarrow> gv_row list \<Rightarrow> ('x, 'v) gv_node \<Rightarrow> 'v gv_result list" where
  "gv_node_result D gs params threshold reach n =
     (case gn_vector n (gs_vector_field gs) of
        None \<Rightarrow> []
      | Some x \<Rightarrow>
          (let d = metric_distance D (gs_metric gs) x (gv_text params 4);
               hops = map gr_hops (filter (\<lambda>r. gr_node r = gn_id n) reach) in
           if hops = [] \<or> (case threshold of None \<Rightarrow> False | Some k \<Rightarrow> \<not> threshold_holds (gs_metric gs) d (gv_real params k))
           then []
           else [\<lparr>gx_row = gn_row n, gx_id = gn_id n, gx_distance = d, gx_hops = Min (set hops)\<rparr>]))"

definition gv_select ::
  "'x operators \<Rightarrow> gv_search \<Rightarrow> ('x, 'v) gv_tables \<Rightarrow> gv_param list \<Rightarrow> nat option \<Rightarrow> gv_row list \<Rightarrow> exc + 'v gv_result list" where
  "gv_select D gs t params threshold reach =
     (if gv_int params 3 < 0 then Inl OperationalError
      else Inr (take (nat (gv_int params 3))
        (sort_key (\<lambda>x. (if gs_metric gs = ''inner_product'' then - gx_distance x else gx_distance x, gx_id x))
          (concat (map (gv_node_result D gs params threshold reach) (gv_nodes t))))))"

definition gv_clause_type :: "string \<Rightarrow> gv_param list \<Rightarrow> string option" where
  "gv_clause_type clause params = (if clause = [] then None else Some (gv_text params (placeholder clause)))"

text \<open>A statement that names a column the table does not have fails.\<close>

definition gv_query :: "'x operators \<Rightarrow> gv_search \<Rightarrow> ('x, 'v) gv_tables \<Rightarrow> (exc + 'v gv_result list) option" where
  "gv_query D gs t =
     (let (clause, et_params) = et_clause (gs_edge_type gs) 5;
          params = [GvInt (gs_seed gs), GvInt (gs_max_hops gs), GvInt (gs_max_results gs), GvText (gs_literal gs)]
            @ map GvText et_params @ (case gs_min_distance gs of None \<Rightarrow> [] | Some r \<Rightarrow> [GvReal r]);
          threshold = (case gs_min_distance gs of None \<Rightarrow> None | Some r \<Rightarrow> Some (5 + length et_params))
      in if gs_vector_field gs \<notin> set (gv_columns t) then Some (Inl OperationalError)
         else map_option (gv_select D gs t params threshold)
           (rec_cte (gv_step gs (gv_edges t) (gv_clause_type clause params) (gv_int params 2))
              (nat (gv_int params 2) + 2) (gv_anchor t (gv_int params 1))))"

section \<open>Hydration\<close>

definition node_kwargs :: "gv_models \<Rightarrow> (string \<times> 'v) list \<Rightarrow> (string \<times> 'v) list" where
  "node_kwargs models row =
     concat (map (\<lambda>(field_name, source_field).
       let column = (case source_field of None \<Rightarrow> field_name | Some s \<Rightarrow> if s = [] then field_name else s) in
       case map_of row column of None \<Rightarrow> [] | Some v \<Rightarrow> [(field_name, v)]) (nm_fields models))"

record ('n) GraphVectorHit =
  gh_node :: 'n
  gh_distance :: real
  gh_hops :: nat

definition hydrate :: "((string \<times> 'v) list \<Rightarrow> 'n) \<Rightarrow> gv_models \<Rightarrow> 'v gv_result \<Rightarrow> 'n GraphVectorHit" where
  "hydrate init_from_db models x =
     \<lparr>gh_node = init_from_db (node_kwargs models (gx_row x)), gh_distance = gx_distance x, gh_hops = gx_hops x\<rparr>"

definition gv_search_hits ::
  "((string \<times> 'v) list \<Rightarrow> 'n) \<Rightarrow> gv_models \<Rightarrow> 'x operators \<Rightarrow> gv_search \<Rightarrow> ('x, 'v) gv_tables \<Rightarrow> (exc + 'n GraphVectorHit list) option" where
  "gv_search_hits init_from_db models D gs t =
     map_option (map_sum id (map (hydrate init_from_db models))) (gv_query D gs t)"

section \<open>The rows of the recursion\<close>

text \<open>The relation of the traversals, under a name that is not reserved here.\<close>

abbreviation in_hops :: "(int \<times> int) set \<Rightarrow> nat \<Rightarrow> int \<Rightarrow> int \<Rightarrow> bool" where
  "in_hops \<equiv> Graph_Traversal.within"

lemmas in_hops_def = Graph_Traversal.within_def

text \<open>The links that a search follows, by its direction; an edge marked as bidirectional is followed
  both ways.\<close>

definition gv_links :: "gv_search \<Rightarrow> edge list \<Rightarrow> string option \<Rightarrow> (int \<times> int) set" where
  "gv_links gs edges et = {(u, v). \<exists>e \<in> set edges. type_ok et e \<and>
     (let s = e_fk e (gs_source gs); t = e_fk e (gs_target gs); both = gs_bidirectional gs \<and> e_bidirectional e in
      ((gs_direction gs \<noteq> ''incoming'' \<or> both) \<and> s = u \<and> t = v) \<or> ((gs_direction gs \<noteq> ''outgoing'' \<or> both) \<and> t = u \<and> s = v))}"

definition gv_arcs :: "gv_search \<Rightarrow> edge list \<Rightarrow> string option \<Rightarrow> (int \<times> int) set" where
  "gv_arcs gs edges et = {(u, v). \<exists>e \<in> set edges. type_ok et e \<and> fst (recursion_sql gs e u) \<and> v = snd (recursion_sql gs e u)}"

lemma gv_arcs_links: "gs_direction gs \<in> set DIRECTIONS \<Longrightarrow> gv_arcs gs edges et = gv_links gs edges et"
proof -
  assume d: "gs_direction gs \<in> set DIRECTIONS"
  have "fst (recursion_sql gs e u) \<and> v = snd (recursion_sql gs e u) \<longleftrightarrow>
     (let s = e_fk e (gs_source gs); t = e_fk e (gs_target gs); both = gs_bidirectional gs \<and> e_bidirectional e in
      ((gs_direction gs \<noteq> ''incoming'' \<or> both) \<and> s = u \<and> t = v) \<or> ((gs_direction gs \<noteq> ''outgoing'' \<or> both) \<and> t = u \<and> s = v))"
    for e u v
    using d by (auto simp: recursion_sql_def DIRECTIONS_def Let_def split: if_splits)
  then show ?thesis unfolding gv_arcs_def gv_links_def by simp
qed

definition gv_ok :: "(int \<times> int) set \<Rightarrow> int \<Rightarrow> int \<Rightarrow> gv_row \<Rightarrow> bool" where
  "gv_ok A seed limit r \<longleftrightarrow> simple_path A seed (gr_path r) \<and> last (gr_path r) = gr_node r
     \<and> length (gr_path r) = gr_hops r + 1 \<and> gr_hops r \<le> nat limit"

lemma gv_step_in:
  "r' \<in> set (gv_step gs edges et limit r) \<longleftrightarrow>
     (\<exists>v. (gr_node r, v) \<in> gv_arcs gs edges et \<and> int (gr_hops r) < limit \<and> v \<notin> set (gr_path r)
        \<and> r' = \<lparr>gr_node = v, gr_hops = gr_hops r + 1, gr_path = gr_path r @ [v]\<rparr>)"
  by (auto simp: gv_step_def gv_arcs_def)

lemma gv_step_ok:
  assumes "gv_ok (gv_arcs gs edges et) seed limit r" "r' \<in> set (gv_step gs edges et limit r)"
  shows "gv_ok (gv_arcs gs edges et) seed limit r'"
proof -
  obtain v where v: "(gr_node r, v) \<in> gv_arcs gs edges et" "int (gr_hops r) < limit" "v \<notin> set (gr_path r)"
    "r' = \<lparr>gr_node = v, gr_hops = gr_hops r + 1, gr_path = gr_path r @ [v]\<rparr>"
    using assms(2) unfolding gv_step_in by blast
  have "simple_path (gv_arcs gs edges et) seed (gr_path r)" "last (gr_path r) = gr_node r" using assms(1) by (simp_all add: gv_ok_def)
  then have "simple_path (gv_arcs gs edges et) seed (gr_path r @ [v])" using v(1,3) by (simp add: simple_path_snoc)
  then show ?thesis using assms(1) v(2) by (simp add: gv_ok_def v(4))
qed

lemma gv_path_derived:
  assumes "\<lparr>gr_node = seed, gr_hops = 0, gr_path = [seed]\<rparr> \<in> set anchor"
  shows "simple_path (gv_arcs gs edges et) seed xs \<Longrightarrow> length xs \<le> nat limit + 1 \<Longrightarrow>
    \<exists>a0 \<in> set anchor. (a0, \<lparr>gr_node = last xs, gr_hops = length xs - 1, gr_path = xs\<rparr>) \<in> (derives (gv_step gs edges et limit))\<^sup>*"
proof (induction xs rule: rev_induct)
  case Nil
  then show ?case by (simp add: simple_path_def)
next
  case (snoc v xs)
  show ?case
  proof (cases "xs = []")
    case True
    then have "v = seed" using snoc.prems(1) by (simp add: simple_path_def)
    then show ?thesis using True assms by auto
  next
    case False
    then have p: "simple_path (gv_arcs gs edges et) seed xs"
      using snoc.prems(1) by (auto simp: simple_path_def successively_append_iff)
    have v: "(last xs, v) \<in> gv_arcs gs edges et" "v \<notin> set xs" using simple_path_snoc [OF p] snoc.prems(1) by auto
    let ?r = "\<lparr>gr_node = last xs, gr_hops = length xs - 1, gr_path = xs\<rparr>"
    obtain a0 where a0: "a0 \<in> set anchor" "(a0, ?r) \<in> (derives (gv_step gs edges et limit))\<^sup>*"
      using snoc.IH [OF p] snoc.prems(2) by auto
    have lim: "int (length xs - 1) < limit" using snoc.prems(2) False by (cases xs) auto
    have "\<lparr>gr_node = v, gr_hops = length xs - 1 + 1, gr_path = xs @ [v]\<rparr> \<in> set (gv_step gs edges et limit ?r)"
      unfolding gv_step_in using v lim by auto
    then have "(a0, \<lparr>gr_node = v, gr_hops = length xs - 1 + 1, gr_path = xs @ [v]\<rparr>) \<in> (derives (gv_step gs edges et limit))\<^sup>*"
      using a0(2) by (auto simp: derives_def intro: rtrancl.rtrancl_into_rtrancl)
    moreover have "length xs - 1 + 1 = length (xs @ [v]) - 1" using False by (cases xs) auto
    ultimately show ?thesis using a0(1) by auto
  qed
qed

text \<open>The limit plus two rounds are enough; the nodes reached are those within the limit, with their
  least number of hops.\<close>

lemma gv_cte:
  assumes anchor: "set anchor = (if present then {\<lparr>gr_node = seed, gr_hops = 0, gr_path = [seed]\<rparr>} else {})"
  obtains out where "rec_cte (gv_step gs edges et limit) (nat limit + 2) anchor = Some out"
    "\<And>n v. n \<le> nat limit \<Longrightarrow> (\<exists>r \<in> set out. gr_node r = v \<and> gr_hops r \<le> n) \<longleftrightarrow> present \<and> in_hops (gv_arcs gs edges et) n seed v"
    "\<forall>r \<in> set out. gr_hops r \<le> nat limit"
proof -
  let ?step = "gv_step gs edges et limit" and ?A = "gv_arcs gs edges et"
  have dec: "nat limit + 1 - gr_hops y < nat limit + 1 - gr_hops x" if "y \<in> set (?step x)" for x y
    using that unfolding gv_step_in by auto
  obtain out where out: "rec_cte ?step (nat limit + 2) anchor = Some out"
    "set out = {y. \<exists>x \<in> set anchor. (x, y) \<in> (derives ?step)\<^sup>*}"
    using rec_cte_set [of ?step "\<lambda>r. nat limit + 1 - gr_hops r" anchor "nat limit + 2", OF dec] by force
  have ok: "gv_ok ?A seed limit r" if "a0 \<in> set anchor" "(a0, r) \<in> (derives ?step)\<^sup>*" for a0 r
    using that(2)
  proof (induction rule: rtrancl_induct)
    case base
    then show ?case using that(1) anchor by (auto simp: gv_ok_def simple_path_def split: if_splits)
  next
    case (step r r')
    then show ?case using gv_step_ok by (simp add: derives_def)
  qed
  have rows: "\<forall>r \<in> set out. gv_ok ?A seed limit r" using out(2) ok by blast
  have "(\<exists>r \<in> set out. gr_node r = v \<and> gr_hops r \<le> n) \<longleftrightarrow> present \<and> in_hops ?A n seed v" if n: "n \<le> nat limit" for n v
  proof
    assume "\<exists>r \<in> set out. gr_node r = v \<and> gr_hops r \<le> n"
    then obtain r where r: "r \<in> set out" "gr_node r = v" "gr_hops r \<le> n" by blast
    have "present" using r(1) out(2) anchor by (auto split: if_splits)
    moreover have "in_hops ?A n seed v" unfolding in_hops_def reachable_simple
      using rows r by (intro exI [of _ "gr_path r"]) (auto simp: gv_ok_def)
    ultimately show "present \<and> in_hops ?A n seed v" ..
  next
    assume l: "present \<and> in_hops ?A n seed v"
    then obtain xs where xs: "simple_path ?A seed xs" "last xs = v" "length xs \<le> n + 1"
      unfolding in_hops_def reachable_simple by blast
    let ?r = "\<lparr>gr_node = last xs, gr_hops = length xs - 1, gr_path = xs\<rparr>"
    have a: "set anchor = {\<lparr>gr_node = seed, gr_hops = 0, gr_path = [seed]\<rparr>}" using anchor l by simp
    then have "\<lparr>gr_node = seed, gr_hops = 0, gr_path = [seed]\<rparr> \<in> set anchor" by simp
    from gv_path_derived [OF this xs(1), of limit] have "?r \<in> set out" using xs(3) n unfolding out(2) by simp
    then show "\<exists>r \<in> set out. gr_node r = v \<and> gr_hops r \<le> n" using xs by (intro bexI [of _ ?r]) auto
  qed
  moreover have "\<forall>r \<in> set out. gr_hops r \<le> nat limit" using rows by (simp add: gv_ok_def)
  ultimately show ?thesis using that out(1) by blast
qed

section \<open>The hits\<close>

definition gv_seed_stored :: "gv_search \<Rightarrow> ('x, 'v) gv_tables \<Rightarrow> bool" where
  "gv_seed_stored gs t \<longleftrightarrow> gs_seed gs \<in> gn_id ` set (gv_nodes t)"

definition gv_eligible :: "'x operators \<Rightarrow> gv_search \<Rightarrow> ('x, 'v) gv_tables \<Rightarrow> ('x, 'v) gv_node \<Rightarrow> bool" where
  "gv_eligible D gs t n \<longleftrightarrow>
     gv_seed_stored gs t \<and> in_hops (gv_links gs (gv_edges t) (gs_edge_type gs)) (nat (gs_max_hops gs)) (gs_seed gs) (gn_id n)
     \<and> (\<exists>x. gn_vector n (gs_vector_field gs) = Some x \<and>
          (case gs_min_distance gs of None \<Rightarrow> True
           | Some r \<Rightarrow> threshold_holds (gs_metric gs) (metric_distance D (gs_metric gs) x (gs_literal gs)) r))"

definition gv_hit :: "'x operators \<Rightarrow> gv_search \<Rightarrow> ('x, 'v) gv_tables \<Rightarrow> ('x, 'v) gv_node \<Rightarrow> 'v gv_result" where
  "gv_hit D gs t n =
     \<lparr>gx_row = gn_row n, gx_id = gn_id n,
      gx_distance = metric_distance D (gs_metric gs) (the (gn_vector n (gs_vector_field gs))) (gs_literal gs),
      gx_hops = (LEAST k. in_hops (gv_links gs (gv_edges t) (gs_edge_type gs)) k (gs_seed gs) (gn_id n))\<rparr>"

definition gv_key :: "gv_search \<Rightarrow> 'v gv_result \<Rightarrow> real \<times> int" where
  "gv_key gs x = (if gs_metric gs = ''inner_product'' then - gx_distance x else gx_distance x, gx_id x)"

lemma gv_anchor_set:
  "set (gv_anchor t seed) = (if seed \<in> gn_id ` set (gv_nodes t) then {\<lparr>gr_node = seed, gr_hops = 0, gr_path = [seed]\<rparr>} else {})"
  by (auto simp: gv_anchor_def)

lemma min_hops:
  assumes "\<And>n v. n \<le> k \<Longrightarrow> (\<exists>r \<in> set out. gr_node r = v \<and> gr_hops r \<le> n) \<longleftrightarrow> present \<and> in_hops A n seed v"
    and "\<forall>r \<in> set out. gr_hops r \<le> k"
  shows "map gr_hops (filter (\<lambda>r. gr_node r = v) out) = [] \<longleftrightarrow> \<not> (present \<and> in_hops A k seed v)"
    and "present \<and> in_hops A k seed v \<Longrightarrow>
      Min (set (map gr_hops (filter (\<lambda>r. gr_node r = v) out))) = (LEAST n. in_hops A n seed v)"
proof -
  let ?hops = "map gr_hops (filter (\<lambda>r. gr_node r = v) out)"
  have "?hops = [] \<longleftrightarrow> \<not> (\<exists>r \<in> set out. gr_node r = v \<and> gr_hops r \<le> k)"
    using assms(2) by (auto simp: filter_empty_conv)
  then show e: "?hops = [] \<longleftrightarrow> \<not> (present \<and> in_hops A k seed v)" using assms(1) [of k v] by simp
  assume p: "present \<and> in_hops A k seed v"
  then have ne: "?hops \<noteq> []" using e by simp
  have min: "Min (set ?hops) \<le> n \<longleftrightarrow> (\<exists>r \<in> set out. gr_node r = v \<and> gr_hops r \<le> n)" for n
    using Min_set_le [OF ne, of n] by auto
  have "Min (set ?hops) \<le> k" unfolding min using assms(1) [of k v] p by simp
  have "in_hops A n seed v \<longleftrightarrow> Min (set ?hops) \<le> n" for n
  proof (cases "n \<le> k")
    case True
    then show ?thesis unfolding min using assms(1) [OF True, of v] p by simp
  next
    case False
    then show ?thesis using p within_mono [of A k seed v n] \<open>Min (set ?hops) \<le> k\<close> by auto
  qed
  then show "Min (set ?hops) = (LEAST n. in_hops A n seed v)"
    by (intro Least_equality [symmetric]) auto
qed

text \<open>C34: A search ends and returns the best \<open>max_results\<close> of the stored nodes that have a vector within the
  threshold and are at most \<open>max_hops\<close> links away from the stored seed, each with its distance and
  its least number of hops, ordered by similarity and then by key.
\<close>

theorem graph_vector_search_exact:
  assumes "GraphVectorSearch str_of float_of models q seed vf max_hops direction et metric max_results min_distance src tgt = Inr gs"
    and "vf \<in> set (gv_columns t)" "0 \<le> max_results"
  shows "\<exists>out. gv_query D gs t = Some (Inr out)
    \<and> best_of (gv_key gs) (nat max_results) (map (gv_hit D gs t) (filter (gv_eligible D gs t) (gv_nodes t))) out"
proof -
  have gs: "gs_direction gs \<in> set DIRECTIONS" "gs_vector_field gs = vf" "gs_max_results gs = max_results"
    using assms(1) by (auto simp: GraphVectorSearch_def bind_res_Inr_iff split: if_splits)
  let ?et = "gs_edge_type gs"
  let ?links = "gv_links gs (gv_edges t) ?et"
  let ?post = "case gs_min_distance gs of None \<Rightarrow> [] | Some r \<Rightarrow> [GvReal r]"
  let ?et_params = "snd (et_clause ?et 5)"
  let ?params = "[GvInt (gs_seed gs), GvInt (gs_max_hops gs), GvInt (gs_max_results gs), GvText (gs_literal gs)] @ map GvText ?et_params @ ?post"
  let ?th = "case gs_min_distance gs of None \<Rightarrow> None | Some r \<Rightarrow> Some (5 + length ?et_params)"
  have et: "gv_clause_type (fst (et_clause ?et 5)) ?params = ?et"
  proof (cases ?et)
    case (Some e)
    have "placeholder (''AND e.edge_type = $'' @ show_int 5) = 5" using placeholder_et [of 5] by simp
    then show ?thesis using Some by (simp add: gv_clause_type_def et_clause_def gv_text_def)
  qed (simp add: gv_clause_type_def et_clause_def)
  have nums: "gv_int ?params 1 = gs_seed gs" "gv_int ?params 2 = gs_max_hops gs" "gv_int ?params 3 = gs_max_results gs"
    "gv_text ?params 4 = gs_literal gs" by (simp_all add: gv_int_def gv_text_def)
  have th: "(case ?th of None \<Rightarrow> False | Some k \<Rightarrow> \<not> threshold_holds (gs_metric gs) d (gv_real ?params k))
      = (case gs_min_distance gs of None \<Rightarrow> False | Some r \<Rightarrow> \<not> threshold_holds (gs_metric gs) d r)" for d
    by (cases "gs_min_distance gs"; cases ?et) (simp_all add: et_clause_def gv_real_def)
  obtain out where out: "rec_cte (gv_step gs (gv_edges t) ?et (gs_max_hops gs)) (nat (gs_max_hops gs) + 2) (gv_anchor t (gs_seed gs)) = Some out"
    "\<And>n v. n \<le> nat (gs_max_hops gs) \<Longrightarrow> (\<exists>r \<in> set out. gr_node r = v \<and> gr_hops r \<le> n) \<longleftrightarrow> gv_seed_stored gs t \<and> in_hops ?links n (gs_seed gs) v"
    "\<forall>r \<in> set out. gr_hops r \<le> nat (gs_max_hops gs)"
    using gv_cte [OF gv_anchor_set, of gs "gv_edges t" ?et "gs_max_hops gs" t "gs_seed gs"]
    unfolding gv_arcs_links [OF gs(1)] gv_seed_stored_def by blast
  note hops = min_hops [OF out(2,3)]
  have "gv_node_result D gs ?params ?th out n = (if gv_eligible D gs t n then [gv_hit D gs t n] else [])" for n
    unfolding gv_node_result_def Let_def nums th
    using hops [of "gn_id n"]
    by (cases "gn_vector n (gs_vector_field gs)"; cases "gs_min_distance gs") (auto simp: gv_eligible_def gv_hit_def)
  then have rows: "concat (map (gv_node_result D gs ?params ?th out) ns) = map (gv_hit D gs t) (filter (gv_eligible D gs t) ns)" for ns
    by (induction ns) auto
  have "gv_query D gs t = Some (gv_select D gs t ?params ?th out)"
    using out(1) gs(2) assms(2) unfolding gv_query_def Let_def split_beta et nums by simp
  also have "gv_select D gs t ?params ?th out = Inr (take (nat max_results)
      (sort_key (gv_key gs) (map (gv_hit D gs t) (filter (gv_eligible D gs t) (gv_nodes t)))))"
    using assms(3) gs(3) unfolding gv_select_def nums(3) rows gv_key_def [abs_def] by simp
  finally show ?thesis using take_sort_best by blast
qed

definition sample_search :: gv_search where
  "sample_search = \<lparr>gs_vector_field = ''embedding'', gs_source = ''source_id'', gs_target = ''target_id'', gs_bidirectional = True,
     gs_seed = 1, gs_max_hops = 2, gs_direction = ''outgoing'', gs_edge_type = None, gs_metric = ''l2'', gs_max_results = 20,
     gs_min_distance = Some 9, gs_literal = ''[0]''\<rparr>"

definition sample_models :: gv_models where
  "sample_models = \<lparr>nm_fields = [(''id'', None), (''embedding'', None)],
     em_fields = [''source_id'', ''target_id'', ''is_bidirectional'']\<rparr>"

definition sample_tables :: "(real, int) gv_tables" where
  "sample_tables = \<lparr>gv_nodes = map (\<lambda>i. \<lparr>gn_id = i, gn_vector = (\<lambda>c. Some (real_of_int i)), gn_row = [(''id'', i)]\<rparr>) [1, 2, 3],
     gv_columns = [''id'', ''embedding''], gv_edges = g_edges sample_graph\<rparr>"

theorem graph_vector_search_exact_witness:
  "\<exists>out. gv_query (\<lambda>op x q. \<bar>x\<bar>) sample_search sample_tables = Some (Inr out)
    \<and> best_of (gv_key sample_search) (nat 20)
        (map (gv_hit (\<lambda>op x q. \<bar>x\<bar>) sample_search sample_tables)
          (filter (gv_eligible (\<lambda>op x q. \<bar>x\<bar>) sample_search sample_tables) (gv_nodes sample_tables))) out"
proof (rule graph_vector_search_exact)
  show "GraphVectorSearch exact_text read_exact sample_models (VvText ''[0]'') 1 ''embedding'' 2 ''outgoing'' None ''l2'' 20 (Some 9)
      ''source_id'' ''target_id'' = Inr sample_search"
    by (simp add: GraphVectorSearch_def sample_models_def sample_search_def GRAPH_METRICS_def DIRECTIONS_def vector_literal_def
        strip_quotes_def py_strip_def is_space_def)
  show "''embedding'' \<in> set (gv_columns sample_tables)" by (simp add: sample_tables_def)
qed simp

text \<open>The column of the vector is named by the model field, unlike the columns of the hydration: with a
  column of another name the query fails.\<close>

lemma renamed_vector_column:
  "gs_vector_field gs \<notin> set (gv_columns t) \<Longrightarrow> gv_query D gs t = Some (Inl OperationalError)"
  by (simp add: gv_query_def split_beta Let_def)

lemma node_kwargs_renamed: "node_kwargs \<lparr>nm_fields = [(''vec'', Some ''emb'')], em_fields = []\<rparr> [(''emb'', v)] = [(''vec'', v)]"
  by (simp add: node_kwargs_def)

section \<open>The distance of a metric\<close>

text \<open>\<open>_distance_sql\<close>: the distance expression, the operator of the threshold, and the direction of the
  order as the key that an ascending order would sort by. The statement above uses them.\<close>

definition distance_sql ::
  "gv_search \<Rightarrow> 'x operators \<Rightarrow> ('x \<Rightarrow> string \<Rightarrow> real) \<times> (real \<Rightarrow> real \<Rightarrow> bool) \<times> (real \<Rightarrow> real)" where
  "distance_sql gs D =
     (if gs_metric gs = ''l2'' then (\<lambda>x q. D L2_distance x q, (\<le>), \<lambda>d. d)
      else if gs_metric gs = ''cosine'' then (\<lambda>x q. D Cosine_distance x q, (\<le>), \<lambda>d. d)
      else (\<lambda>x q. (-1) * D Inner_product x q, (\<ge>), \<lambda>d. - d))"

lemma distance_sql_used:
  assumes "GraphVectorSearch str_of float_of models q seed vf max_hops direction et metric max_results min_distance src tgt = Inr gs"
  shows "distance_sql gs D = (metric_distance D (gs_metric gs), threshold_holds (gs_metric gs),
    \<lambda>d. if gs_metric gs = ''inner_product'' then - d else d)"
proof -
  have "gs_metric gs \<in> set GRAPH_METRICS"
    using assms by (cases "vector_literal str_of float_of q") (auto simp: GraphVectorSearch_def split: if_splits)
  then consider "gs_metric gs = ''l2''" | "gs_metric gs = ''cosine''" | "gs_metric gs = ''inner_product''"
    by (auto simp: GRAPH_METRICS_def)
  then show ?thesis by cases (simp_all add: distance_sql_def metric_distance_def threshold_holds_def fun_eq_iff)
qed

end
