(* ===== verification/User_Model.thy ===== *)
theory User_Model
  imports Py_Text Effects Json "HOL-Library.AList"
begin

text \<open>
  \<open>models/user.py\<close>: users that log in with an email and a password. An instance is the map of its
  attributes. The argon2 hasher, the constructor of Tortoise models and \<open>save\<close> are parameters.
\<close>

type_synonym attrs = "string \<Rightarrow> cval option"
type_synonym kwargs = "(string \<times> cval) list"

record 's password_hasher =
  ph_hash :: "string \<Rightarrow> ('s, string) act"
  ph_verify :: "string \<Rightarrow> string \<Rightarrow> ('s, bool) act"

record 's user_class =
  uc_init :: "kwargs \<Rightarrow> exc + attrs"
  uc_save :: "attrs \<Rightarrow> ('s, attrs) act"

text \<open>The defaults of the declared fields.\<close>

definition user_defaults :: attrs where
  "user_defaults = [''is_active'' \<mapsto> CBool True, ''is_staff'' \<mapsto> CBool False, ''is_superuser'' \<mapsto> CBool False,
     ''last_login'' \<mapsto> CNull]"

definition normalize_email :: "string \<Rightarrow> string" where
  "normalize_email email = py_lower (py_strip email)"

definition hash_password :: "'s password_hasher \<Rightarrow> string \<Rightarrow> ('s, string) act" where
  "hash_password H raw_password = (if raw_password = [] then throw ValueError else ph_hash H raw_password)"

definition verify_password :: "'s password_hasher \<Rightarrow> string \<Rightarrow> string \<Rightarrow> ('s, bool) act" where
  "verify_password H raw_password encoded =
     handle (ph_verify H encoded raw_password) [VerificationError, InvalidHashError] (\<lambda>_. ret False)"

definition set_password :: "'s password_hasher \<Rightarrow> attrs \<Rightarrow> string \<Rightarrow> ('s, attrs) act" where
  "set_password H self raw_password = map_act (\<lambda>h. self(''password_hash'' \<mapsto> CStr h)) (hash_password H raw_password)"

text \<open>An attribute that is no text is no hash.\<close>

definition stored_hash :: "attrs \<Rightarrow> string" where
  "stored_hash self = (case self ''password_hash'' of Some (CStr h) \<Rightarrow> h | _ \<Rightarrow> [])"

definition check_password :: "'s password_hasher \<Rightarrow> attrs \<Rightarrow> string \<Rightarrow> ('s, bool) act" where
  "check_password H self raw_password =
     (if stored_hash self = [] then ret False else verify_password H raw_password (stored_hash self))"

text \<open>A keyword that is also a named parameter is refused by the call itself.\<close>

definition create_user :: "'s password_hasher \<Rightarrow> 's user_class \<Rightarrow> string \<Rightarrow> string \<Rightarrow> kwargs \<Rightarrow> ('s, attrs) act" where
  "create_user H U email0 password kwargs =
     (if set (map fst kwargs) \<inter> {''cls'', ''email'', ''password''} \<noteq> {} then throw TypeError
      else let email = normalize_email email0 in
        if email = [] \<or> password = [] then throw ValueError
        else let is_active = (case map_of kwargs ''is_active'' of None \<Rightarrow> CBool True | Some v \<Rightarrow> v);
                 rest = AList.delete ''is_active'' kwargs in
          bind_act (lift_res (uc_init U ([(''email'', CStr email), (''is_active'', is_active)] @ rest))) (\<lambda>user.
            bind_act (set_password H user password) (\<lambda>user. uc_save U user)))"

definition create_superuser :: "'s password_hasher \<Rightarrow> 's user_class \<Rightarrow> string \<Rightarrow> string \<Rightarrow> kwargs \<Rightarrow> ('s, attrs) act" where
  "create_superuser H U email password kwargs =
     create_user H U email password
       (AList.update ''is_superuser'' (CBool True) (AList.update ''is_staff'' (CBool True)
         (AList.update ''is_active'' (CBool True) kwargs)))"

definition user_str :: "attrs \<Rightarrow> string" where
  "user_str self = (case self ''email'' of Some (CStr e) \<Rightarrow> e | _ \<Rightarrow> [])"

section \<open>Properties\<close>

lemma normalize_email_idem [simp]: "normalize_email (normalize_email e) = normalize_email e"
  by (simp add: normalize_email_def strip_lower)

lemma bind_act_Inr_iff: "bind_act m f s = (Inr y, u) \<longleftrightarrow> (\<exists>x t. m s = (Inr x, t) \<and> f x t = (Inr y, u))"
  by (auto simp: bind_act_def split: prod.splits sum.splits)

text \<open>What the hasher, the constructor and the table are relied on for.\<close>

definition hasher_ok :: "'s password_hasher \<Rightarrow> string \<Rightarrow> bool" where
  "hasher_ok H pw \<longleftrightarrow> (\<forall>s h t. ph_hash H pw s = (Inr h, t) \<longrightarrow>
     h \<noteq> [] \<and> (\<forall>q u. ph_verify H h q u = (if q = pw then Inr True else Inl VerifyMismatchError, u)))"

definition init_ok :: "'s user_class \<Rightarrow> bool" where
  "init_ok U \<longleftrightarrow> (\<forall>kw m. uc_init U kw = Inr m \<longrightarrow> m = user_defaults ++ map_of kw)"

definition table_ok :: "'s password_hasher \<Rightarrow> 's user_class \<Rightarrow> ('s \<Rightarrow> cval option set) \<Rightarrow> bool" where
  "table_ok H U emails \<longleftrightarrow>
     (\<forall>pw s r t. ph_hash H pw s = (r, t) \<longrightarrow> emails t = emails s)
     \<and> (\<forall>m s m' t. uc_save U m s = (Inr m', t) \<longrightarrow>
          (\<forall>n. n \<noteq> ''id'' \<longrightarrow> m' n = m n) \<and> m ''email'' \<notin> emails s \<and> emails t = insert (m ''email'') (emails s))"

lemma map_of_delete_other: "k \<noteq> a \<Longrightarrow> map_of (AList.delete k al) a = map_of al a"
  by (simp add: AList.delete_conv')

lemma created_user:
  assumes run: "create_user H U email pw kwargs s = (Inr m, t)" and ok: "init_ok U" "table_ok H U emails"
  obtains h s' where "ph_hash H pw s = (Inr h, s')" "stored_hash m = h"
    "m ''email'' = Some (CStr (normalize_email email))" "normalize_email email \<noteq> []" "pw \<noteq> []"
    "Some (CStr (normalize_email email)) \<notin> emails s" "emails t = insert (Some (CStr (normalize_email email))) (emails s)"
    "m ''is_active'' = Some (case map_of kwargs ''is_active'' of None \<Rightarrow> CBool True | Some v \<Rightarrow> v)"
    "\<And>f. f \<in> {''is_staff'', ''is_superuser''} \<Longrightarrow>
       m f = Some (case map_of kwargs f of None \<Rightarrow> CBool False | Some v \<Rightarrow> v)"
proof -
  let ?e = "normalize_email email"
  have named: "set (map fst kwargs) \<inter> {''cls'', ''email'', ''password''} = {}" and ne: "?e \<noteq> []" "pw \<noteq> []"
    using run by (auto simp: create_user_def throw_def Let_def split: if_splits)
  let ?a = "case map_of kwargs ''is_active'' of None \<Rightarrow> CBool True | Some v \<Rightarrow> v"
  let ?kw = "[(''email'', CStr ?e), (''is_active'', ?a)] @ AList.delete ''is_active'' kwargs"
  obtain m0 where m0: "uc_init U ?kw = Inr m0"
    and rest: "bind_act (set_password H m0 pw) (uc_save U) s = (Inr m, t)"
    using run named ne by (auto simp: create_user_def Let_def bind_act_Inr_iff lift_res_def)
  from rest obtain h s' where h: "ph_hash H pw s = (Inr h, s')"
    and save: "uc_save U (m0(''password_hash'' \<mapsto> CStr h)) s' = (Inr m, t)"
    using ne by (auto simp: set_password_def hash_password_def map_act_def bind_act_Inr_iff ret_def)
  have m0_def: "m0 = user_defaults ++ map_of ?kw" using m0 ok(1) unfolding init_ok_def by blast
  have save_laws: "\<And>n. n \<noteq> ''id'' \<Longrightarrow> m n = (m0(''password_hash'' \<mapsto> CStr h)) n"
    "m0 ''email'' \<notin> emails s'" "emails t = insert (m0 ''email'') (emails s')"
    using ok(2) save unfolding table_ok_def by fastforce+
  have same: "emails s' = emails s" using ok(2) h unfolding table_ok_def by blast
  have email: "m0 ''email'' = Some (CStr ?e)" by (simp add: m0_def)
  show ?thesis
  proof (rule that [OF h])
    show "stored_hash m = h" by (simp add: stored_hash_def save_laws(1))
    show "m ''is_active'' = Some ?a" by (simp add: save_laws(1) m0_def)
    show "m f = Some (case map_of kwargs f of None \<Rightarrow> CBool False | Some v \<Rightarrow> v)" if "f \<in> {''is_staff'', ''is_superuser''}" for f
      using that by (auto simp: save_laws(1) m0_def map_add_def user_defaults_def map_of_delete_other split: option.split)
  qed (use email same save_laws ne in simp_all)
qed

text \<open>C39: A created user logs in with the password it was created with and with no other, under the trimmed
  email in lower case; a second user of the same email is refused however it is written. A
  superuser has the three flags whatever keywords were given.
\<close>

theorem created_user_logs_in:
  assumes "hasher_ok H pw" "init_ok U" "table_ok H U emails"
    and "(if super then create_superuser H U email pw kwargs s else create_user H U email pw kwargs s) = (Inr m, t)"
  shows "user_str m = normalize_email email \<and> (\<forall>q u. check_password H m q u = (Inr (q = pw), u))
    \<and> (super \<longrightarrow> (\<forall>f \<in> {''is_active'', ''is_staff'', ''is_superuser''}. m f = Some (CBool True)))
    \<and> (\<forall>again q kw m' u. normalize_email again = normalize_email email \<longrightarrow> create_user H U again q kw t \<noteq> (Inr m', u))"
proof -
  obtain kws where run: "create_user H U email pw kws s = (Inr m, t)"
    and kws: "super \<Longrightarrow> (\<forall>f \<in> {''is_active'', ''is_staff'', ''is_superuser''}. map_of kws f = Some (CBool True))"
    using assms(4) by (cases super) (auto simp: create_superuser_def update_conv')
  from created_user [OF run assms(2,3)] obtain h s' where h: "ph_hash H pw s = (Inr h, s')" "stored_hash m = h"
    and m: "m ''email'' = Some (CStr (normalize_email email))" "emails t = insert (Some (CStr (normalize_email email))) (emails s)"
    and flags: "m ''is_active'' = Some (case map_of kws ''is_active'' of None \<Rightarrow> CBool True | Some v \<Rightarrow> v)"
      "\<And>f. f \<in> {''is_staff'', ''is_superuser''} \<Longrightarrow> m f = Some (case map_of kws f of None \<Rightarrow> CBool False | Some v \<Rightarrow> v)"
    by metis
  have v: "h \<noteq> []" "\<And>q u. ph_verify H h q u = (if q = pw then Inr True else Inl VerifyMismatchError, u)"
    using assms(1) h(1) unfolding hasher_ok_def by blast+
  have "catches [VerificationError, InvalidHashError] VerifyMismatchError" by code_simp
  then have check: "check_password H m q u = (Inr (q = pw), u)" for q u
    using v h(2) by (simp add: check_password_def verify_password_def handle_def ret_def)
  have "create_user H U again q kw t \<noteq> (Inr m', u)" if "normalize_email again = normalize_email email" for again q kw m' u
    using created_user [of H U again q kw t m' u emails] that assms(2,3) m(2) by auto
  with check kws flags m(1) show ?thesis by (auto simp: user_str_def)
qed


text \<open>A hasher that keeps the password behind a dollar sign, and the set of the emails in use.\<close>

definition plain_hasher :: "'s password_hasher" where
  "plain_hasher = \<lparr>ph_hash = (\<lambda>p. ret (CHR ''$'' # p)),
     ph_verify = (\<lambda>h q. if h = CHR ''$'' # q then ret True else throw VerifyMismatchError)\<rparr>"

definition email_table :: "cval option set user_class" where
  "email_table = \<lparr>uc_init = (\<lambda>kw. Inr (user_defaults ++ map_of kw)),
     uc_save = (\<lambda>m used. if m ''email'' \<in> used then (Inl IntegrityError, used) else (Inr m, insert (m ''email'') used))\<rparr>"

lemma plain_hasher_ok: "hasher_ok plain_hasher pw" "init_ok email_table" "table_ok plain_hasher email_table id"
  by (auto simp: hasher_ok_def init_ok_def table_ok_def plain_hasher_def email_table_def act_defs split: if_splits)

theorem created_user_logs_in_witness:
  "\<exists>m t. create_superuser plain_hasher email_table '' Admin@Example.com'' ''hunter2'' [(''is_staff'', CBool False)] {} = (Inr m, t)
     \<and> user_str m = ''admin@example.com'' \<and> m ''is_staff'' = Some (CBool True)
     \<and> check_password plain_hasher m ''hunter2'' t = (Inr True, t) \<and> check_password plain_hasher m ''hunter3'' t = (Inr False, t)
     \<and> (\<forall>m' u. create_user plain_hasher email_table ''ADMIN@example.com '' ''x'' [] t \<noteq> (Inr m', u))"
proof -
  let ?r = "create_superuser plain_hasher email_table '' Admin@Example.com'' ''hunter2'' [(''is_staff'', CBool False)] {}"
  have n: "normalize_email '' Admin@Example.com'' = ''admin@example.com''" "normalize_email ''ADMIN@example.com '' = ''admin@example.com''"
    by (code_simp, code_simp)
  have "\<exists>m t. ?r = (Inr m, t)"
    by (simp add: create_superuser_def create_user_def plain_hasher_def email_table_def set_password_def hash_password_def
        n Let_def act_simps ret_def)
  then obtain m t where r: "?r = (Inr m, t)" by blast
  show ?thesis
    using created_user_logs_in [OF plain_hasher_ok, where super = True and email = "'' Admin@Example.com''"
        and kwargs = "[(''is_staff'', CBool False)]" and s = "{}" and m = m and t = t] r n
    by auto
qed

text \<open>Nothing is written for a blank email or an empty password.\<close>

lemma create_user_rejects:
  "set (map fst kwargs) \<inter> {''cls'', ''email'', ''password''} = {} \<Longrightarrow> list_all is_space email \<or> pw = []
     \<Longrightarrow> create_user H U email pw kwargs s = (Inl ValueError, s)"
  by (auto simp: create_user_def normalize_email_def py_strip_def py_lower_def throw_def list_all_iff dest: set_dropWhileD)

text \<open>An error of the verifier that is neither a mismatch nor a malformed hash is not an answer.\<close>

lemma check_password_propagates:
  "stored_hash m \<noteq> [] \<Longrightarrow> ph_verify H (stored_hash m) pw s = (Inl e, t) \<Longrightarrow> \<not> catches [VerificationError, InvalidHashError] e
     \<Longrightarrow> check_password H m pw s = (Inl e, t)"
  by (simp add: check_password_def verify_password_def handle_def)

end
