(* ===== verification/Patches.thy ===== *)
theory Patches
  imports Vector_Filters Ltree_Field Effects Json
begin

text \<open>
  \<open>__init__.py\<close>: the codec that every asyncpg connection gets, and the extension of Tortoise ORM at
  import time. The connection, the modules of Tortoise and the original functions are parameters;
  the attributes that the extension sets are the fields of a record.
\<close>

section \<open>The codec of a connection\<close>

type_synonym vector_codec = "(codec_value \<Rightarrow> string) \<times> (string \<Rightarrow> exc + pyfloat list)"

record 's pg_connection =
  pc_set_type_codec :: "(string \<Rightarrow> vector_codec \<Rightarrow> string \<Rightarrow> ('s, unit) act) option"
  pc_fetchval :: "(string \<Rightarrow> ('s, cval) act) option"

definition schema_probe :: string where
  "schema_probe = ''SELECT n.nspname FROM pg_type t JOIN pg_namespace n ON n.oid = t.typnamespace WHERE t.typname = 'vector'' @ [CHR 0x27]"

text \<open>The schema that the probe names, \<open>public\<close> if it names none or fails.\<close>

definition schema_named :: "exc + cval \<Rightarrow> string" where
  "schema_named r = (case r of Inl e \<Rightarrow> ''public'' | Inr v \<Rightarrow> if v = CNull then ''public'' else py_str_of v)"

definition resolve_schema :: "'s pg_connection \<Rightarrow> ('s, string) act" where
  "resolve_schema conn =
     (case pc_fetchval conn of
        None \<Rightarrow> ret ''public''
      | Some fetchval \<Rightarrow>
          handle (map_act (\<lambda>v. schema_named (Inr v)) (fetchval schema_probe)) [Exception_cls] (\<lambda>e. ret (schema_named (Inl e))))"

definition register_codec ::
  "(string \<Rightarrow> vector_codec \<Rightarrow> string \<Rightarrow> ('s, unit) act) \<Rightarrow> vector_codec \<Rightarrow> string \<Rightarrow> string \<Rightarrow> ('s, unit) act" where
  "register_codec set_codec codec schema type_name =
     handle (set_codec type_name codec schema) [ValueError, AttributeError] (\<lambda>_. ret ())"

definition pgvector_codec_init :: "vector_codec \<Rightarrow> 's pg_connection \<Rightarrow> ('s, unit) act" where
  "pgvector_codec_init codec conn =
     (case pc_set_type_codec conn of
        None \<Rightarrow> ret ()
      | Some set_codec \<Rightarrow>
          bind_act (resolve_schema conn) (\<lambda>schema. for_each (register_codec set_codec codec schema) [''vector'', ''halfvec'']))"

definition combined_codec_init ::
  "vector_codec \<Rightarrow> 's pg_connection \<Rightarrow> ('s pg_connection \<Rightarrow> ('s, unit) act) option \<Rightarrow> ('s, unit) act" where
  "combined_codec_init codec conn original_init =
     bind_act (pgvector_codec_init codec conn) (\<lambda>_. case original_init of None \<Rightarrow> ret () | Some init \<Rightarrow> init conn)"

section \<open>The extended modules\<close>

datatype 'f model_field = VectorField vector_field | LTreeField ltree_field | OtherField 'f

datatype 'o filter_table =
    VectorFilters "(string \<times> filter_info) list"
  | LtreeFilters "(string \<times> (string \<times> string \<times> ltree_filter \<times> ltree_encoding)) list"
  | OtherFilters 'o

type_synonym ('f, 'o) get_filters = "string \<Rightarrow> 'f model_field option \<Rightarrow> string \<Rightarrow> 'o filter_table"

record 's pool_kwargs =
  pk_init :: "('s pg_connection \<Rightarrow> ('s, unit) act) option"
  pk_rest :: "(string \<times> cval) list"

type_synonym ('s, 'cl, 'p) create_pool = "'cl \<Rightarrow> 's pool_kwargs \<Rightarrow> ('s, 'p) act"

text \<open>A class that a module offers under a name: the one of this package or another.\<close>

datatype class_object = Extension string | Foreign string

record ('s, 'cl, 'p, 'f, 'o) tortoise =
  tt_vector_field :: "class_object option"
  tt_fields_all :: "string list"
  tt_hnsw :: "class_object option"
  tt_ivfflat :: "class_object option"
  tt_gist :: "class_object option"
  tt_filters_patched :: bool
  tt_filters_get :: "('f, 'o) get_filters"
  tt_models_get :: "('f, 'o) get_filters"
  tt_codec_patched :: bool
  tt_create_pool :: "('s, 'cl, 'p) create_pool"

definition patched_get_filters :: "('f, 'o) get_filters \<Rightarrow> ('f, 'o) get_filters" where
  "patched_get_filters original field_name field source_field =
     (case field of
        Some (VectorField v) \<Rightarrow> VectorFilters (get_vector_filters field_name source_field)
      | Some (LTreeField l) \<Rightarrow> LtreeFilters (get_ltree_filters field_name source_field)
      | _ \<Rightarrow> original field_name field source_field)"

definition patched_create_pool :: "vector_codec \<Rightarrow> ('s, 'cl, 'p) create_pool \<Rightarrow> ('s, 'cl, 'p) create_pool" where
  "patched_create_pool codec original self kwargs =
     original self (kwargs\<lparr>pk_init := Some (\<lambda>conn. combined_codec_init codec conn (pk_init kwargs))\<rparr>)"

definition register_vector_field :: "('s, 'cl, 'p, 'f, 'o) tortoise \<Rightarrow> ('s, 'cl, 'p, 'f, 'o) tortoise" where
  "register_vector_field M =
     (if tt_vector_field M \<noteq> None then M
      else M\<lparr>tt_vector_field := Some (Extension ''VectorField''), tt_fields_all := tt_fields_all M @ [''VectorField'']\<rparr>)"

definition register_indexes :: "('s, 'cl, 'p, 'f, 'o) tortoise \<Rightarrow> ('s, 'cl, 'p, 'f, 'o) tortoise" where
  "register_indexes M =
     (let M = (if tt_hnsw M \<noteq> None then M else M\<lparr>tt_hnsw := Some (Extension ''HNSWIndex'')\<rparr>);
          M = (if tt_ivfflat M \<noteq> None then M else M\<lparr>tt_ivfflat := Some (Extension ''IVFFlatIndex'')\<rparr>)
      in if tt_gist M \<noteq> None then M else M\<lparr>tt_gist := Some (Extension ''GiSTIndex'')\<rparr>)"

definition patch_filters :: "('s, 'cl, 'p, 'f, 'o) tortoise \<Rightarrow> ('s, 'cl, 'p, 'f, 'o) tortoise" where
  "patch_filters M =
     (if tt_filters_patched M then M
      else let patched = patched_get_filters (tt_filters_get M) in
        M\<lparr>tt_filters_get := patched, tt_filters_patched := True, tt_models_get := patched\<rparr>)"

definition patch_pool :: "vector_codec \<Rightarrow> ('s, 'cl, 'p, 'f, 'o) tortoise \<Rightarrow> ('s, 'cl, 'p, 'f, 'o) tortoise" where
  "patch_pool codec M =
     (if tt_codec_patched M then M
      else M\<lparr>tt_create_pool := patched_create_pool codec (tt_create_pool M), tt_codec_patched := True\<rparr>)"

definition apply_patches :: "vector_codec \<Rightarrow> ('s, 'cl, 'p, 'f, 'o) tortoise \<Rightarrow> ('s, 'cl, 'p, 'f, 'o) tortoise" where
  "apply_patches codec M = patch_pool codec (patch_filters (register_indexes (register_vector_field M)))"

definition patch :: "vector_codec \<Rightarrow> ('s, 'cl, 'p, 'f, 'o) tortoise \<Rightarrow> ('s, 'cl, 'p, 'f, 'o) tortoise" where
  "patch codec M = apply_patches codec M"

section \<open>Extending once\<close>

lemma vector_field_effect:
  "tt_vector_field (register_vector_field M) = (if tt_vector_field M = None then Some (Extension ''VectorField'') else tt_vector_field M)"
  "tt_fields_all (register_vector_field M) = tt_fields_all M @ (if tt_vector_field M = None then [''VectorField''] else [])"
  "tt_hnsw (register_vector_field M) = tt_hnsw M" "tt_ivfflat (register_vector_field M) = tt_ivfflat M"
  "tt_gist (register_vector_field M) = tt_gist M"
  "tt_filters_patched (register_vector_field M) = tt_filters_patched M" "tt_codec_patched (register_vector_field M) = tt_codec_patched M"
  "tt_filters_get (register_vector_field M) = tt_filters_get M" "tt_models_get (register_vector_field M) = tt_models_get M"
  "tt_create_pool (register_vector_field M) = tt_create_pool M"
  by (auto simp: register_vector_field_def)

lemma indexes_effect:
  "tt_vector_field (register_indexes M) = tt_vector_field M" "tt_fields_all (register_indexes M) = tt_fields_all M"
  "tt_hnsw (register_indexes M) = (if tt_hnsw M = None then Some (Extension ''HNSWIndex'') else tt_hnsw M)"
  "tt_ivfflat (register_indexes M) = (if tt_ivfflat M = None then Some (Extension ''IVFFlatIndex'') else tt_ivfflat M)"
  "tt_gist (register_indexes M) = (if tt_gist M = None then Some (Extension ''GiSTIndex'') else tt_gist M)"
  "tt_filters_patched (register_indexes M) = tt_filters_patched M" "tt_codec_patched (register_indexes M) = tt_codec_patched M"
  "tt_filters_get (register_indexes M) = tt_filters_get M" "tt_models_get (register_indexes M) = tt_models_get M"
  "tt_create_pool (register_indexes M) = tt_create_pool M"
  by (auto simp: register_indexes_def Let_def)

lemma filters_effect:
  "tt_vector_field (patch_filters M) = tt_vector_field M" "tt_fields_all (patch_filters M) = tt_fields_all M"
  "tt_hnsw (patch_filters M) = tt_hnsw M" "tt_ivfflat (patch_filters M) = tt_ivfflat M" "tt_gist (patch_filters M) = tt_gist M"
  "tt_filters_patched (patch_filters M)" "tt_codec_patched (patch_filters M) = tt_codec_patched M"
  "tt_create_pool (patch_filters M) = tt_create_pool M"
  "\<not> tt_filters_patched M \<Longrightarrow> tt_filters_get (patch_filters M) = patched_get_filters (tt_filters_get M)"
  "\<not> tt_filters_patched M \<Longrightarrow> tt_models_get (patch_filters M) = patched_get_filters (tt_filters_get M)"
  by (auto simp: patch_filters_def Let_def)

lemma pool_effect:
  "tt_vector_field (patch_pool codec M) = tt_vector_field M" "tt_fields_all (patch_pool codec M) = tt_fields_all M"
  "tt_hnsw (patch_pool codec M) = tt_hnsw M" "tt_ivfflat (patch_pool codec M) = tt_ivfflat M" "tt_gist (patch_pool codec M) = tt_gist M"
  "tt_filters_patched (patch_pool codec M) = tt_filters_patched M" "tt_codec_patched (patch_pool codec M)"
  "tt_filters_get (patch_pool codec M) = tt_filters_get M" "tt_models_get (patch_pool codec M) = tt_models_get M"
  "\<not> tt_codec_patched M \<Longrightarrow> tt_create_pool (patch_pool codec M) = patched_create_pool codec (tt_create_pool M)"
  by (auto simp: patch_pool_def)

lemmas patch_effects = vector_field_effect indexes_effect filters_effect pool_effect

text \<open>Everything that the extension sets is set; then it changes nothing.\<close>

definition extended :: "('s, 'cl, 'p, 'f, 'o) tortoise \<Rightarrow> bool" where
  "extended M \<longleftrightarrow> tt_vector_field M \<noteq> None \<and> tt_hnsw M \<noteq> None \<and> tt_ivfflat M \<noteq> None \<and> tt_gist M \<noteq> None
     \<and> tt_filters_patched M \<and> tt_codec_patched M"

lemma apply_patches_extends: "extended (apply_patches codec M)"
  by (simp add: extended_def apply_patches_def patch_effects)

lemma extended_unchanged: "extended M \<Longrightarrow> apply_patches codec M = M"
  by (simp add: extended_def apply_patches_def register_vector_field_def register_indexes_def patch_filters_def patch_pool_def Let_def)

lemma patch_again: "(patch codec ^^ n) (apply_patches codec M) = apply_patches codec M"
  by (induction n) (simp_all add: patch_def extended_unchanged apply_patches_extends)

text \<open>C40: The import and any number of later calls of \<open>patch()\<close> extend Tortoise once: vector and ltree
  columns get their filters in both modules and every other field those it had, names that were
  taken are kept, and a pool is created as before, with an initialization that gives each connection
  the codec once and then runs the caller's.
\<close>

theorem patches_applied_once:
  assumes "\<not> tt_filters_patched M" "\<not> tt_codec_patched M"
  shows "let P = (patch codec ^^ n) (apply_patches codec M) in
      P = apply_patches codec M \<and> tt_models_get P = tt_filters_get P
    \<and> (\<forall>name src. (\<forall>v. tt_filters_get P name (Some (VectorField v)) src = VectorFilters (get_vector_filters name src))
        \<and> (\<forall>l. tt_filters_get P name (Some (LTreeField l)) src = LtreeFilters (get_ltree_filters name src))
        \<and> (\<forall>f. tt_filters_get P name (Some (OtherField f)) src = tt_filters_get M name (Some (OtherField f)) src)
        \<and> tt_filters_get P name None src = tt_filters_get M name None src)
    \<and> (\<forall>get \<in> {tt_vector_field, tt_hnsw, tt_ivfflat, tt_gist}. get M \<noteq> None \<longrightarrow> get P = get M)
    \<and> (tt_vector_field M = None \<longrightarrow> tt_fields_all P = tt_fields_all M @ [''VectorField''])
    \<and> tt_create_pool P client kwargs = tt_create_pool M client (kwargs\<lparr>pk_init := Some (\<lambda>conn.
        bind_act (pgvector_codec_init codec conn) (\<lambda>_. case pk_init kwargs of None \<Rightarrow> ret () | Some init \<Rightarrow> init conn))\<rparr>)"
proof -
  have models: "tt_models_get (apply_patches codec M) = tt_filters_get (apply_patches codec M)"
    and get: "tt_filters_get (apply_patches codec M) = patched_get_filters (tt_filters_get M)"
    and pool: "tt_create_pool (apply_patches codec M) = patched_create_pool codec (tt_create_pool M)"
    using assms by (simp_all add: apply_patches_def patch_effects)
  have kept: "\<forall>get \<in> {tt_vector_field, tt_hnsw, tt_ivfflat, tt_gist}. get M \<noteq> None \<longrightarrow> get (apply_patches codec M) = get M"
    by (simp add: apply_patches_def patch_effects)
  have all: "tt_vector_field M = None \<longrightarrow> tt_fields_all (apply_patches codec M) = tt_fields_all M @ [''VectorField'']"
    by (simp add: apply_patches_def patch_effects)
  show ?thesis
    unfolding Let_def patch_again using models get pool kept all
    by (simp add: patched_get_filters_def patched_create_pool_def combined_codec_init_def)
qed

text \<open>
  A connection gets the codec for exactly those of its types \<open>vector\<close> and \<open>halfvec\<close> that exist in the
  schema the server names, and the initialization does not fail, whatever the probe gave.
\<close>

theorem codec_registered_where_types_are:
  assumes conn: "pc_set_type_codec conn = Some set_codec" "pc_fetchval conn = Some fetchval"
    and set: "\<And>n c sc s. if (sc, n) \<in> types then \<exists>t. set_codec n c sc s = (Inr (), t) \<and> codecs t = insert (sc, n) (codecs s)
        else set_codec n c sc s = (Inl ValueError, s)"
    and probe: "fetchval schema_probe s = (r, s1)" "codecs s1 = codecs s" "\<And>e. r = Inl e \<Longrightarrow> is_instance e Exception_cls"
  shows "\<exists>t. pgvector_codec_init codec conn s = (Inr (), t)
    \<and> codecs t = codecs s \<union> {(schema_named r, n) | n. n \<in> {''vector'', ''halfvec''} \<and> (schema_named r, n) \<in> types}"
proof -
  have schema: "resolve_schema conn s = (Inr (schema_named r), s1)"
    using conn(2) probe by (cases r) (auto simp: resolve_schema_def map_act_def bind_act_def handle_def ret_def catches_def)
  have "catches [ValueError, AttributeError] ValueError" by code_simp
  then have reg: "\<exists>t. register_codec set_codec codec sc n u = (Inr (), t)
      \<and> codecs t = codecs u \<union> (if (sc, n) \<in> types then {(sc, n)} else {})" for sc n u
    using set [of sc n codec u] by (auto simp: register_codec_def handle_def ret_def split: if_splits)
  let ?sc = "schema_named r"
  obtain t1 where t1: "register_codec set_codec codec ?sc ''vector'' s1 = (Inr (), t1)"
    "codecs t1 = codecs s1 \<union> (if (?sc, ''vector'') \<in> types then {(?sc, ''vector'')} else {})" using reg by blast
  obtain t2 where t2: "register_codec set_codec codec ?sc ''halfvec'' t1 = (Inr (), t2)"
    "codecs t2 = codecs t1 \<union> (if (?sc, ''halfvec'') \<in> types then {(?sc, ''halfvec'')} else {})" using reg by blast
  have "pgvector_codec_init codec conn s = (Inr (), t2)"
    using conn(1) schema t1(1) t2(1) by (simp add: pgvector_codec_init_def bind_act_def ret_def)
  moreover have "codecs t2 = codecs s \<union> {(?sc, n) | n. n \<in> {''vector'', ''halfvec''} \<and> (?sc, n) \<in> types}"
    using t1(2) t2(2) probe(2) by auto
  ultimately show ?thesis by blast
qed

section \<open>Concrete instances\<close>

definition text_codec :: vector_codec where
  "text_codec = (encode_vector (\<lambda>x. ''0.5''), decode_vector (\<lambda>s. Inl ValueError))"

text \<open>A server whose codecs are a set of schema and type, with \<open>vector\<close> alone in the schema \<open>ext\<close>.\<close>

definition old_server :: "(string \<times> string) set pg_connection" where
  "old_server = \<lparr>pc_set_type_codec = Some (\<lambda>n codec sc done.
       if (sc, n) \<in> {(''ext'', ''vector'')} then (Inr (), insert (sc, n) done) else (Inl ValueError, done)),
     pc_fetchval = Some (\<lambda>sql. ret (CStr ''ext''))\<rparr>"

theorem codec_registered_where_types_are_witness:
  "\<exists>t. pgvector_codec_init text_codec old_server {} = (Inr (), t) \<and> t = {(''ext'', ''vector'')}"
proof -
  have "schema_named (Inr (CStr ''ext'')) = ''ext''" by (simp add: schema_named_def py_str_of_def)
  then show ?thesis
    using codec_registered_where_types_are [where conn = old_server and types = "{(''ext'', ''vector'')}" and codecs = id and s = "{}"
        and set_codec = "\<lambda>n codec sc done. if (sc, n) \<in> {(''ext'', ''vector'')} then (Inr (), insert (sc, n) done) else (Inl ValueError, done)"
        and fetchval = "\<lambda>sql. ret (CStr ''ext'')" and r = "Inr (CStr ''ext'')" and ?s1.0 = "{}" and codec = text_codec]
    by (auto simp: old_server_def ret_def)
qed

text \<open>Modules in which another package already put an index class; a pool is its initialized connections.\<close>

definition stock_tortoise :: "((string \<times> string) set, string, nat, string, string) tortoise" where
  "stock_tortoise = \<lparr>tt_vector_field = None, tt_fields_all = [''IntField''], tt_hnsw = Some (Foreign ''HNSWIndex''),
     tt_ivfflat = None, tt_gist = None, tt_filters_patched = False,
     tt_filters_get = (\<lambda>name f src. OtherFilters name), tt_models_get = (\<lambda>name f src. OtherFilters name),
     tt_codec_patched = False,
     tt_create_pool = (\<lambda>self kwargs. bind_act (case pk_init kwargs of None \<Rightarrow> ret () | Some init \<Rightarrow> init old_server) (\<lambda>_. ret 1))\<rparr>"

theorem patches_applied_once_witness:
  "let P = (patch text_codec ^^ 2) (apply_patches text_codec stock_tortoise) in
     P = apply_patches text_codec stock_tortoise \<and> tt_hnsw P = Some (Foreign ''HNSWIndex'')
   \<and> tt_fields_all P = [''IntField'', ''VectorField'']
   \<and> tt_models_get P ''path'' (Some (LTreeField \<lparr>lt_max_length = 256, lt_separator = ''.''\<rparr>)) ''path'' = LtreeFilters (get_ltree_filters ''path'' ''path'')
   \<and> tt_create_pool P ''db'' \<lparr>pk_init = None, pk_rest = []\<rparr> {} = (Inr 1, {(''ext'', ''vector'')})"
proof -
  have init: "pgvector_codec_init text_codec old_server {} = (Inr (), {(''ext'', ''vector'')})"
    by (simp add: pgvector_codec_init_def old_server_def resolve_schema_def register_codec_def schema_named_def py_str_of_def act_defs
        catches_def is_instance_def numeral_eq_Suc)
  have off: "\<not> tt_filters_patched stock_tortoise" "\<not> tt_codec_patched stock_tortoise"
    by (simp_all add: stock_tortoise_def)
  have stock: "tt_hnsw stock_tortoise = Some (Foreign ''HNSWIndex'')" "tt_fields_all stock_tortoise = [''IntField'']"
    "tt_vector_field stock_tortoise = None"
    "\<And>kw. tt_create_pool stock_tortoise ''db'' kw = bind_act (case pk_init kw of None \<Rightarrow> ret () | Some init \<Rightarrow> init old_server) (\<lambda>_. ret 1)"
    by (simp_all add: stock_tortoise_def)
  define P where "P = (patch text_codec ^^ 2) (apply_patches text_codec stock_tortoise)"
  have claim: "P = apply_patches text_codec stock_tortoise" "tt_models_get P = tt_filters_get P"
    "tt_filters_get P ''path'' (Some (LTreeField \<lparr>lt_max_length = 256, lt_separator = ''.''\<rparr>)) ''path'' = LtreeFilters (get_ltree_filters ''path'' ''path'')"
    "tt_hnsw P = tt_hnsw stock_tortoise" "tt_fields_all P = tt_fields_all stock_tortoise @ [''VectorField'']"
    "tt_create_pool P ''db'' \<lparr>pk_init = None, pk_rest = []\<rparr> = tt_create_pool stock_tortoise ''db'' \<lparr>pk_init = Some (\<lambda>conn.
       bind_act (pgvector_codec_init text_codec conn) (\<lambda>_. ret ())), pk_rest = []\<rparr>"
    using patches_applied_once [OF off, where n = 2 and codec = text_codec and client = "''db''"
      and kwargs = "\<lparr>pk_init = None, pk_rest = []\<rparr>", unfolded Let_def, folded P_def] stock(1,3)
    by (blast, blast, blast, force, blast, force)
  have "tt_create_pool P ''db'' \<lparr>pk_init = None, pk_rest = []\<rparr> {} = (Inr 1, {(''ext'', ''vector'')})"
    unfolding claim(6) using init by (simp add: stock bind_act_def ret_def)
  then show ?thesis using claim(1-5) by (simp add: stock P_def [symmetric])
qed

text \<open>A connection that cannot register codecs is left alone; a cancelled probe ends the initialization.\<close>

lemma codec_init_unsupported: "pc_set_type_codec conn = None \<Longrightarrow> pgvector_codec_init codec conn = ret ()"
  by (simp add: pgvector_codec_init_def)

lemma codec_init_cancelled:
  "pc_set_type_codec conn = Some f \<Longrightarrow> pc_fetchval conn = Some g \<Longrightarrow> g schema_probe s = (Inl CancelledError, t)
     \<Longrightarrow> pgvector_codec_init codec conn s = (Inl CancelledError, t)"
  by (simp add: pgvector_codec_init_def resolve_schema_def act_defs catches_def is_instance_def numeral_eq_Suc)

end
