(* ===== verification/Recursive_Cte.thy ===== *)
theory Recursive_Cte
  imports Exceptions
begin

text \<open>
  \<open>expressions/recursive_cte.py\<close>: the builder of recursive common table expressions. The query type
  and the operations of pypika's query builder that it calls are parameters.
\<close>

record 'q query_ops =
  qo_union_all :: "'q \<Rightarrow> 'q \<Rightarrow> 'q"
  qo_empty :: 'q
  qo_with :: "'q \<Rightarrow> 'q \<Rightarrow> string \<Rightarrow> 'q"
  qo_from :: "'q \<Rightarrow> string \<Rightarrow> 'q"
  qo_select :: "'q \<Rightarrow> string \<Rightarrow> 'q"

record 'q recursive_cte =
  rc_name :: string
  rc_anchor :: "'q option"
  rc_union :: "'q option"

definition RecursiveCTE :: "string \<Rightarrow> 'q recursive_cte" where
  "RecursiveCTE name = \<lparr>rc_name = name, rc_anchor = None, rc_union = None\<rparr>"

definition cte_anchor :: "'q \<Rightarrow> 'q recursive_cte \<Rightarrow> 'q recursive_cte" where
  "cte_anchor query self = self\<lparr>rc_anchor := Some query\<rparr>"

definition cte_union :: "'q \<Rightarrow> 'q recursive_cte \<Rightarrow> 'q recursive_cte" where
  "cte_union query self = self\<lparr>rc_union := Some query\<rparr>"

definition cte_build :: "'q query_ops \<Rightarrow> 'q recursive_cte \<Rightarrow> exc + 'q" where
  "cte_build Q self =
     (case rc_anchor self of
        None \<Rightarrow> Inl RecursiveCTEError
      | Some a \<Rightarrow>
          (case rc_union self of
             None \<Rightarrow> Inl RecursiveCTEError
           | Some u \<Rightarrow>
               let combined = qo_union_all Q a u in
               Inr (qo_select Q (qo_from Q (qo_with Q (qo_empty Q) combined (rc_name self)) (rc_name self)) ''*'')))"

text \<open>A table is its name.\<close>

definition as_table :: "'q recursive_cte \<Rightarrow> string" where
  "as_table self = rc_name self"

section \<open>Building\<close>

text \<open>A call of \<open>anchor\<close> or \<open>union\<close>; the last of each counts, in any order.\<close>

datatype 'q cte_call = Anchor 'q | Union 'q

fun cte_run :: "'q cte_call list \<Rightarrow> 'q recursive_cte \<Rightarrow> 'q recursive_cte" where
  "cte_run [] self = self"
| "cte_run (Anchor q # cs) self = cte_run cs (cte_anchor q self)"
| "cte_run (Union q # cs) self = cte_run cs (cte_union q self)"

definition last_anchor :: "'q cte_call list \<Rightarrow> 'q option" where
  "last_anchor cs = fold (\<lambda>c r. case c of Anchor q \<Rightarrow> Some q | Union _ \<Rightarrow> r) cs None"

definition last_union :: "'q cte_call list \<Rightarrow> 'q option" where
  "last_union cs = fold (\<lambda>c r. case c of Union q \<Rightarrow> Some q | Anchor _ \<Rightarrow> r) cs None"

lemma cte_run_fields:
  "rc_name (cte_run cs self) = rc_name self"
  "rc_anchor (cte_run cs self) = fold (\<lambda>c r. case c of Anchor q \<Rightarrow> Some q | Union _ \<Rightarrow> r) cs (rc_anchor self)"
  "rc_union (cte_run cs self) = fold (\<lambda>c r. case c of Union q \<Rightarrow> Some q | Anchor _ \<Rightarrow> r) cs (rc_union self)"
  by (induction cs self rule: cte_run.induct) (simp_all add: cte_anchor_def cte_union_def)

lemma cte_build_calls:
  "cte_build Q (cte_run cs (RecursiveCTE name)) =
     (case (last_anchor cs, last_union cs) of
        (Some a, Some u) \<Rightarrow> Inr (qo_select Q (qo_from Q (qo_with Q (qo_empty Q) (qo_union_all Q a u) name) name) ''*'')
      | _ \<Rightarrow> Inl RecursiveCTEError)"
  by (simp add: cte_build_def cte_run_fields last_anchor_def last_union_def RecursiveCTE_def Let_def split: option.split)

end
