(* ===== verification/Hierarchy_Queries.thy ===== *)
theory Hierarchy_Queries
  imports Hierarchy_Move
begin

text \<open>
  The path queries of \<open>models/hierarchy_model.py\<close> against the parent links: on a table of the kind
  that \<open>move_to\<close> keeps, label prefixes are exactly the chains of parents, so every query answers what
  a walk over \<open>parent_id\<close> would.
\<close>

definition child_link :: "hnode set \<Rightarrow> (hnode \<times> hnode) set" where
  "child_link R = {(p, r). p \<in> R \<and> r \<in> R \<and> h_parent r = Some (h_id p)}"

lemma count_le_image: "count M x \<le> count (image_mset f M) (f x)"
  by (induction M) auto

lemma keyed_select_distinct:
  assumes "orm_table T rows" "keyed key (rows db)"
  shows "distinct (t_select T p db)"
proof -
  have "count (mset (t_select T p db)) x \<le> 1" for x
    using assms(2) count_le_image [of "rows db" x key] order_trans
    by (fastforce simp: orm_table.select_rows [OF assms(1)] keyed_def)
  then show ?thesis
    by (metis One_nat_def count_greater_zero_iff distinct_count_atmost_1 le_Suc_eq le_zero_eq not_gr0 set_mset_mset)
qed

lemma sort_key_unique:
  assumes "distinct nodes" "set nodes = set xs" "sorted_wrt (<) (map f xs)"
  shows "sort_key f nodes = xs"
proof -
  have d: "distinct (map f xs)" using assms(3) by (simp add: strict_sorted_iff)
  then have "inj_on f (set nodes)" using assms(2) by (simp add: distinct_map)
  then have "distinct (map f (sort_key f nodes))" using assms(1) by (simp add: distinct_map)
  then show ?thesis
    using d assms(2) \<open>inj_on f (set nodes)\<close> assms(3) strict_sorted_iff [of "map f xs"]
    by (intro map_sorted_distinct_set_unique [of f]) auto
qed

lemma distinct_single: "distinct xs \<Longrightarrow> set xs = {a} \<Longrightarrow> xs = [a]"
  by (cases xs; cases "tl xs") auto

lemma set_butlast_distinct: "distinct xs \<Longrightarrow> xs \<noteq> [] \<Longrightarrow> set (butlast xs) = set xs - {last xs}"
  by (induction xs rule: rev_induct) auto

lemma prefix_less: "xs < (xs @ y # ys :: 'a :: order list)"
  by (simp add: list_less_def lexord_append_rightI)

lemma ancestor_paths_iff: "p \<in> set (ancestor_paths s) \<longleftrightarrow> prefix (labels p) (labels s)"
proof -
  have part: "labels (join ''.'' (take (Suc i) (labels s))) = take (Suc i) (labels s)" for i
    unfolding labels_def by (rule split_on_join) (auto dest: in_set_takeD split_on_parts_free)
  have "p \<in> set (ancestor_paths s) \<longleftrightarrow> (\<exists>i < length (labels s). labels p = take (Suc i) (labels s))"
    by (auto simp: ancestor_paths_def Let_def labels_def [symmetric] part labels_inj [of p, symmetric])
  also have "\<dots> \<longleftrightarrow> prefix (labels p) (labels s)"
  proof
    assume "prefix (labels p) (labels s)"
    moreover obtain n where "length (labels p) = Suc n" using labels_not_Nil [of p] by (cases "labels p") auto
    ultimately have "labels p = take (Suc n) (labels s)" "n < length (labels s)"
      by (auto simp: prefix_def)
    then show "\<exists>i < length (labels s). labels p = take (Suc i) (labels s)" by blast
  qed (auto simp: take_is_prefix)
  finally show ?thesis .
qed

context hier_table begin

lemma path_inj: "r \<in> R \<Longrightarrow> s \<in> R \<Longrightarrow> h_namespace r = h_namespace s \<Longrightarrow> h_path r = h_path s \<Longrightarrow> r = s"
  using ok unfolding hier_ok_def paths_unique_def by blast

lemma link_labels:
  assumes "(p, r) \<in> child_link R"
  shows "h_namespace p = h_namespace r \<and> labels (h_path r) = labels (h_path p) @ [h_name r]"
proof -
  have pr: "p \<in> R" "r \<in> R" "h_parent r = Some (h_id p)" using assms by (auto simp: child_link_def)
  then obtain q where "q \<in> R" "h_id q = h_id p" "h_namespace q = h_namespace r" "labels (h_path r) = labels (h_path q) @ [h_name r]"
    using ok by (force simp: hier_ok_def hier_row_def)
  moreover from this pr(1) have "q = p" using ids by (simp add: inj_on_def)
  ultimately show ?thesis by simp
qed

lemma parent_linked:
  assumes "r \<in> R" "length (labels (h_path r)) \<noteq> 1"
  obtains q where "(q, r) \<in> child_link R" "labels (h_path r) = labels (h_path q) @ [h_name r]" "h_namespace q = h_namespace r"
proof -
  have "hier_row R r" using ok assms(1) by (simp add: hier_ok_def)
  then obtain q where "q \<in> R" "h_parent r = Some (h_id q)" "h_namespace q = h_namespace r"
    "labels (h_path r) = labels (h_path q) @ [h_name r]"
    using assms(2) by (auto simp: hier_row_def split: option.splits)
  with assms(1) that show thesis by (auto simp: child_link_def)
qed

lemma chain_prefix:
  "(a, r) \<in> (child_link R)\<^sup>* \<Longrightarrow> h_namespace a = h_namespace r \<and> prefix (labels (h_path a)) (labels (h_path r))"
  by (induction rule: rtrancl_induct) (auto dest!: link_labels simp: prefix_def)

lemma prefix_chain:
  assumes "a \<in> R"
  shows "r \<in> R \<Longrightarrow> h_namespace a = h_namespace r \<Longrightarrow> prefix (labels (h_path a)) (labels (h_path r)) \<Longrightarrow> (a, r) \<in> (child_link R)\<^sup>*"
proof (induction "length (labels (h_path r))" arbitrary: r rule: less_induct)
  case less
  show ?case
  proof (cases "labels (h_path a) = labels (h_path r)")
    case True
    then have "a = r" using ok assms less.prems by (auto simp: hier_ok_def paths_unique_def labels_inj)
    then show ?thesis by simp
  next
    case False
    then obtain x rest where rest: "labels (h_path r) = labels (h_path a) @ x # rest"
      using less.prems(3) by (metis append_Nil2 neq_Nil_conv prefixE)
    then have "length (labels (h_path r)) \<noteq> 1" by (cases "labels (h_path a)") auto
    then obtain q where q: "(q, r) \<in> child_link R" "labels (h_path r) = labels (h_path q) @ [h_name r]" "h_namespace q = h_namespace r"
      using parent_linked less.prems(1) by blast
    have "prefix (labels (h_path a)) (labels (h_path q))"
      using less.prems(3) False by (simp add: q(2) prefix_snoc)
    then have "(a, q) \<in> (child_link R)\<^sup>*"
      using less.hyps [of q] q less.prems(2) by (simp add: child_link_def)
    then show ?thesis using q(1) by simp
  qed
qed

lemma chain_iff:
  "a \<in> R \<Longrightarrow> r \<in> R \<Longrightarrow>
     (a, r) \<in> (child_link R)\<^sup>* \<longleftrightarrow> h_namespace a = h_namespace r \<and> prefix (labels (h_path a)) (labels (h_path r))"
  using chain_prefix prefix_chain by blast

lemma root_iff:
  assumes "r \<in> R"
  shows "is_root r \<longleftrightarrow> length (labels (h_path r)) = 1"
proof -
  have row: "hier_row R r" using ok assms by (simp add: hier_ok_def)
  then show ?thesis by (cases "h_parent r") (auto simp: is_root_def hier_row_def)
qed

lemma chain_proper:
  assumes "a \<in> R" "r \<in> R"
  shows "(a, r) \<in> (child_link R)\<^sup>+ \<longleftrightarrow> (a, r) \<in> (child_link R)\<^sup>* \<and> h_id a \<noteq> h_id r"
proof -
  have "(r, r) \<notin> (child_link R)\<^sup>+"
  proof
    assume "(r, r) \<in> (child_link R)\<^sup>+"
    then obtain q where "(r, q) \<in> (child_link R)\<^sup>*" "(q, r) \<in> child_link R" by (meson tranclD2)
    then show False using chain_prefix [of r q] link_labels [of q r] by (auto dest!: prefix_length_le)
  qed
  moreover have "h_id a = h_id r \<longleftrightarrow> a = r" using ids assms by (auto simp: inj_on_def)
  ultimately show ?thesis by (auto simp: rtrancl_eq_or_trancl)
qed

lemma proper_chain_prefix:
  "a \<in> R \<Longrightarrow> r \<in> R \<Longrightarrow> (a, r) \<in> (child_link R)\<^sup>+ \<longleftrightarrow>
     h_namespace a = h_namespace r \<and> prefix (labels (h_path a)) (labels (h_path r)) \<and> h_id a \<noteq> h_id r"
  by (simp add: chain_proper chain_iff)

text \<open>The chain of parents of a node.\<close>

lemma chain_exists:
  "r \<in> R \<Longrightarrow> \<exists>xs. xs \<noteq> [] \<and> is_root (hd xs) \<and> last xs = r \<and> set xs \<subseteq> R
     \<and> (\<forall>i. Suc i < length xs \<longrightarrow> (xs ! i, xs ! Suc i) \<in> child_link R)
     \<and> map (\<lambda>x. labels (h_path x)) xs = map (\<lambda>i. take (Suc i) (labels (h_path r))) [0..<length (labels (h_path r))]"
proof (induction "length (labels (h_path r))" arbitrary: r rule: less_induct)
  case less
  show ?case
  proof (cases "length (labels (h_path r)) = 1")
    case True
    then show ?thesis using less.prems root_iff by (intro exI [of _ "[r]"]) simp
  next
    case False
    then obtain q where q: "(q, r) \<in> child_link R" "labels (h_path r) = labels (h_path q) @ [h_name r]"
      using parent_linked less.prems by blast
    then have "q \<in> R" by (simp add: child_link_def)
    then obtain ys where ys: "ys \<noteq> []" "is_root (hd ys)" "last ys = q" "set ys \<subseteq> R"
      "\<forall>i. Suc i < length ys \<longrightarrow> (ys ! i, ys ! Suc i) \<in> child_link R"
      "map (\<lambda>x. labels (h_path x)) ys = map (\<lambda>i. take (Suc i) (labels (h_path q))) [0..<length (labels (h_path q))]"
      using less.hyps [of q] q(2) by auto
    have "((ys @ [r]) ! i, (ys @ [r]) ! Suc i) \<in> child_link R" if "Suc i < length (ys @ [r])" for i
    proof (cases "Suc i < length ys")
      case False
      then have "i = length ys - 1" using that ys(1) by (cases ys) auto
      then show ?thesis using ys(1,3) q(1) by (simp add: nth_append last_conv_nth)
    qed (use ys(5) in \<open>simp add: nth_append\<close>)
    then show ?thesis
      using ys less.prems q(2) by (intro exI [of _ "ys @ [r]"]) auto
  qed
qed

end

section \<open>The queries\<close>

lemma depth_labels: "hier_ok R \<Longrightarrow> r \<in> R \<Longrightarrow> h_depth r = int (length (labels (h_path r))) - 1"
  by (simp add: hier_ok_def hier_row_def)

text \<open>A list of nodes with ever longer prefixes of one path is sorted by path and by depth.\<close>

lemma takes_sorted: "n \<le> length L \<Longrightarrow> sorted_wrt (<) (map (\<lambda>i. take (Suc i) L :: 'a :: order list) [0..<n])"
proof -
  assume n: "n \<le> length L"
  have "take (Suc i) L < take (Suc j) L" if "i < j" "j < n" for i j
  proof -
    have "take (Suc j) L = take (Suc i) L @ take (j - i) (drop (Suc i) L)"
      using that by (simp flip: take_add)
    moreover have "take (j - i) (drop (Suc i) L) \<noteq> []" using that n by simp
    ultimately show ?thesis using prefix_less by (metis neq_Nil_conv)
  qed
  then show ?thesis by (simp add: sorted_wrt_iff_nth_less)
qed

locale stored_node = orm_table T rows for T :: "('db, hnode) table_ops" and rows +
  fixes db :: 'db and self :: hnode
  assumes keys: "keyed h_id (rows db)" and tree: "hier_ok (set_mset (rows db))" and stored: "self \<in># rows db"

sublocale stored_node \<subseteq> hier_table "set_mset (rows db)"
  by unfold_locales (use tree keyed_inj [OF keys] in auto)

context stored_node begin

lemma path_nonempty: "h_path self \<noteq> ''''"
  using hier_path_not_empty [of "set_mset (rows db)" self] tree stored by (simp add: hier_ok_def)

lemma select_distinct: "distinct (t_select T p db)"
  by (rule keyed_select_distinct [OF orm_table_axioms keys])

lemma same_id: "r \<in># rows db \<Longrightarrow> h_id r = h_id self \<longleftrightarrow> r = self"
  using ids stored by (auto simp: inj_on_def)

text \<open>The chain of parents holds exactly the nodes of the namespace whose path is a prefix, and is sorted
  by path and by depth.\<close>

lemma parent_chain:
  obtains xs where "xs \<noteq> []" "is_root (hd xs)" "last xs = self"
    "\<And>i. Suc i < length xs \<Longrightarrow> (xs ! i, xs ! Suc i) \<in> child_link (set_mset (rows db))"
    "set xs = {a. a \<in># rows db \<and> h_namespace a = h_namespace self \<and> prefix (labels (h_path a)) (labels (h_path self))}"
    "sorted_wrt (<) (map (\<lambda>x. labels (h_path x)) xs)" "sorted_wrt (<) (map h_depth xs)"
proof -
  let ?R = "set_mset (rows db)" and ?L = "labels (h_path self)"
  obtain xs where xs: "xs \<noteq> []" "is_root (hd xs)" "last xs = self" "set xs \<subseteq> ?R"
    "\<forall>i. Suc i < length xs \<longrightarrow> (xs ! i, xs ! Suc i) \<in> child_link ?R"
    "map (\<lambda>x. labels (h_path x)) xs = map (\<lambda>i. take (Suc i) ?L) [0..<length ?L]"
    using chain_exists [OF stored] by blast
  have len: "length xs = length ?L" using arg_cong [OF xs(6), of length] by simp
  have nth: "labels (h_path (xs ! i)) = take (Suc i) ?L" if "i < length xs" for i
    using arg_cong [OF xs(6), of "\<lambda>ys. ys ! i"] that len by simp
  have up: "(xs ! i, last xs) \<in> (child_link ?R)\<^sup>*" if "i < length xs" for i
  proof -
    have "(xs ! i, xs ! (i + k)) \<in> (child_link ?R)\<^sup>*" if "i + k < length xs" for k
      using that
    proof (induction k)
      case (Suc k)
      then have "(xs ! i, xs ! (i + k)) \<in> (child_link ?R)\<^sup>*" "(xs ! (i + k), xs ! Suc (i + k)) \<in> child_link ?R"
        using xs(5) by simp_all
      then show ?case by simp
    qed simp
    from this [of "length xs - 1 - i"] show ?thesis using that xs(1) by (simp add: last_conv_nth)
  qed
  have "set xs = {a. a \<in># rows db \<and> h_namespace a = h_namespace self \<and> prefix (labels (h_path a)) ?L}"
  proof (intro set_eqI iffI CollectI)
    fix a assume "a \<in> set xs"
    then obtain i where i: "i < length xs" "a = xs ! i" by (metis in_set_conv_nth)
    then show "a \<in># rows db \<and> h_namespace a = h_namespace self \<and> prefix (labels (h_path a)) ?L"
      using chain_prefix [OF up [OF i(1)]] xs(3,4) nth_mem [OF i(1)] by auto
  next
    fix a assume "a \<in> {a. a \<in># rows db \<and> h_namespace a = h_namespace self \<and> prefix (labels (h_path a)) ?L}"
    then have a: "a \<in> ?R" "h_namespace a = h_namespace self" "prefix (labels (h_path a)) ?L" by auto
    obtain n where n: "length (labels (h_path a)) = Suc n" using labels_not_Nil by (metis length_0_conv not0_implies_Suc)
    then have lab: "labels (h_path a) = take (Suc n) ?L" "n < length xs" using a(3) len by (auto simp: prefix_def)
    then have "labels (h_path a) = labels (h_path (xs ! n))" using nth by simp
    then have "h_path a = h_path (xs ! n)" by (simp only: labels_inj)
    moreover have "h_namespace (xs ! n) = h_namespace self" using chain_prefix [OF up [OF lab(2)]] xs(3) by simp
    moreover have "xs ! n \<in> ?R" using xs(4) nth_mem [OF lab(2)] by blast
    ultimately have "a = xs ! n" using path_inj [OF a(1)] a(2) by simp
    then show "a \<in> set xs" using lab(2) by simp
  qed
  moreover have "sorted_wrt (<) (map (\<lambda>x. labels (h_path x)) xs)"
    unfolding xs(6) by (rule takes_sorted) simp
  moreover have "h_depth (xs ! i) = int i" if "i < length xs" for i
  proof -
    have "xs ! i \<in> ?R" using xs(4) nth_mem [OF that] by blast
    then show ?thesis using depth_labels [OF tree] nth [OF that] that len by simp
  qed
  then have "sorted_wrt (<) (map h_depth xs)" by (simp add: sorted_wrt_iff_nth_less)
  ultimately show thesis using that xs(1,2,3,5) by blast
qed

lemma upward_queries:
  "\<exists>xs. get_path_to_root T self db = xs \<and> get_ancestors T self True None db = xs \<and> get_ancestors T self False None db = butlast xs
      \<and> last xs = self \<and> is_root (hd xs) \<and> get_root T self db = Inr (Some (hd xs))
      \<and> (\<forall>i. Suc i < length xs \<longrightarrow> (xs ! i, xs ! Suc i) \<in> child_link (set_mset (rows db)))"
proof -
  obtain xs where xs: "xs \<noteq> []" "is_root (hd xs)" "last xs = self"
    "\<And>i. Suc i < length xs \<Longrightarrow> (xs ! i, xs ! Suc i) \<in> child_link (set_mset (rows db))"
    "set xs = {a. a \<in># rows db \<and> h_namespace a = h_namespace self \<and> prefix (labels (h_path a)) (labels (h_path self))}"
    "sorted_wrt (<) (map (\<lambda>x. labels (h_path x)) xs)" "sorted_wrt (<) (map h_depth xs)"
    using parent_chain by blast
  have d: "distinct xs" using xs(7) by (simp add: strict_sorted_iff distinct_map)
  have sorted: "by_path (t_select T p db) = ys"
    if "{r \<in> set_mset (rows db). p r} = set ys" "sorted_wrt (<) (map (\<lambda>x. labels (h_path x)) ys)" for p ys
    unfolding by_path_def by (rule sort_key_unique [OF select_distinct _ that(2)]) (simp add: select_set that(1))
  have all: "get_ancestors T self True None db = xs"
    unfolding get_ancestors_def if_not_P [OF path_nonempty]
    by (rule sorted [OF _ xs(6)]) (auto simp: xs(5) ancestor_of_def scope_def)
  let ?nodes = "by_path (t_select T (\<lambda>r. h_path r \<in> set (ancestor_paths (h_path self)) \<and> h_namespace r = h_namespace self) db)"
  have nodes: "?nodes = xs"
    by (rule sorted [OF _ xs(6)]) (auto simp: xs(5) ancestor_paths_iff)
  have "sort_key h_depth xs = xs" using d xs(7) by (intro sort_key_unique) auto
  moreover have "list_ex (\<lambda>n. h_id n = h_id self) xs" using xs(1,3) by (auto simp: list_ex_iff)
  ultimately have path: "get_path_to_root T self db = xs"
    using path_nonempty nodes by (simp add: get_path_to_root_def)
  have split: "xs = butlast xs @ [self]" using xs(1,3) by (metis append_butlast_last_id)
  have "set (butlast xs) = {r. r \<in># rows db \<and> (prefix (labels (h_path r)) (labels (h_path self)) \<and> h_namespace r = h_namespace self \<and> h_id r \<noteq> h_id self)}"
  proof -
    have "set (butlast xs) = set xs - {self}" using set_butlast_distinct [OF d xs(1)] xs(3) by simp
    then show ?thesis using xs(5) same_id by auto
  qed
  moreover have "sorted_wrt (<) (map (\<lambda>x. labels (h_path x)) (butlast xs))"
    using xs(6) split by (metis map_append sorted_wrt_append)
  ultimately have proper: "get_ancestors T self False None db = butlast xs"
    unfolding get_ancestors_def if_not_P [OF path_nonempty]
    by (intro sorted) (auto simp: ancestor_of_def scope_def)
  have hd: "hd xs \<in> set xs" using xs(1) by simp
  have "get_root T self db = Inr (Some (hd xs))"
  proof (cases "CHR ''.'' \<in> set (h_path self)")
    case False
    then have one: "labels (h_path self) = [h_path self]" by (simp add: label_single)
    then have "prefix (labels (h_path (hd xs))) [h_path self]" using hd xs(5) by simp
    then have "labels (h_path (hd xs)) = [h_path self]" by (auto simp: prefix_Cons)
    then have "h_path (hd xs) = h_path self" by (metis join.simps(2) join_labels)
    then have "hd xs = self" using path_inj [of "hd xs" self] hd xs(5) stored by simp
    then show ?thesis using False path_nonempty by (simp add: get_root_def)
  next
    case True
    let ?p = "hd (split_on (CHR ''.'') (h_path self))"
    have "length (labels (h_path (hd xs))) = 1" using root_iff [of "hd xs"] xs(2,5) hd by auto
    moreover have "prefix (labels (h_path (hd xs))) (labels (h_path self))" using hd xs(5) by simp
    ultimately have "labels (h_path (hd xs)) = [hd (labels (h_path self))]"
      by (cases "labels (h_path (hd xs))"; cases "labels (h_path self)") auto
    then have p: "h_path (hd xs) = ?p" by (metis join.simps(2) join_labels labels_def)
    have "r = hd xs" if "r \<in># rows db" "h_path r = ?p" "h_namespace r = h_namespace self" for r
      using path_inj [of r "hd xs"] that p hd xs(5) by simp
    then have "set (t_select T (\<lambda>r. h_path r = ?p \<and> h_namespace r = h_namespace self) db) = {hd xs}"
      using p hd xs(5) by (auto simp: select_set)
    then have "t_select T (\<lambda>r. h_path r = ?p \<and> h_namespace r = h_namespace self) db = [hd xs]"
      by (rule distinct_single [OF select_distinct])
    then show ?thesis using True path_nonempty by (simp add: get_root_def one_or_none_def)
  qed
  with all path proper xs show ?thesis by blast
qed

lemma downward_queries:
  "set (get_descendants T self False None db) = {d. (self, d) \<in> (child_link (set_mset (rows db)))\<^sup>+}"
  "set (get_children T self db) = {c. (self, c) \<in> child_link (set_mset (rows db))}"
  "set (get_siblings T self False db) =
     {s. s \<noteq> self \<and> (\<exists>p. (p, self) \<in> child_link (set_mset (rows db)) \<and> (p, s) \<in> child_link (set_mset (rows db)))}"
proof -
  let ?R = "set_mset (rows db)"
  have "d \<in> ?R" if "(self, d) \<in> (child_link ?R)\<^sup>+" for d
    using that by (auto simp: child_link_def elim: tranclE)
  then have below: "(self, d) \<in> (child_link ?R)\<^sup>+ \<longleftrightarrow> d \<in> ?R \<and> h_namespace d = h_namespace self
      \<and> prefix (labels (h_path self)) (labels (h_path d)) \<and> h_id d \<noteq> h_id self" for d
    using proper_chain_prefix [OF stored, of d] by metis
  show "set (get_descendants T self False None db) = {d. (self, d) \<in> (child_link ?R)\<^sup>+}"
    using path_nonempty below
    by (auto simp: get_descendants_def by_path_def descendant_of_def scope_def select_set)
  show "set (get_children T self db) = {c. (self, c) \<in> child_link ?R}"
    using stored by (auto simp: get_children_def select_set child_link_def)
  have level: "h_depth s = h_depth self" if "(p, self) \<in> child_link ?R" "(p, s) \<in> child_link ?R" for p s
    using link_labels [OF that(1)] link_labels [OF that(2)] depth_labels [OF tree stored] depth_labels [OF tree, of s] that(2)
    by (simp add: child_link_def)
  have up: "\<exists>p. (p, self) \<in> child_link ?R" if "h_parent self = Some q" for q
  proof -
    have "length (labels (h_path self)) \<noteq> 1" using root_iff [OF stored] that by (auto simp: is_root_def)
    then show ?thesis using parent_linked [OF stored] by metis
  qed
  show "set (get_siblings T self False db) = {s. s \<noteq> self \<and> (\<exists>p. (p, self) \<in> child_link ?R \<and> (p, s) \<in> child_link ?R)}"
  proof (cases "h_parent self")
    case None
    then show ?thesis by (auto simp: get_siblings_def child_link_def)
  next
    case (Some q)
    then obtain p where p: "(p, self) \<in> child_link ?R" using up by blast
    then have q: "q = h_id p" "p \<in> ?R" using Some by (auto simp: child_link_def)
    have mem: "s \<in> set (get_siblings T self False db) \<longleftrightarrow>
        s \<in> ?R \<and> h_parent s = Some q \<and> h_depth s = h_depth self \<and> h_id s \<noteq> h_id self" for s
      by (auto simp: get_siblings_def Some select_set)
    have "s \<in> set (get_siblings T self False db) \<longleftrightarrow>
        s \<noteq> self \<and> (\<exists>p. (p, self) \<in> child_link ?R \<and> (p, s) \<in> child_link ?R)" (is "?l \<longleftrightarrow> ?r") for s
    proof
      assume ?l
      then have "s \<noteq> self" "(p, s) \<in> child_link ?R" using mem q by (auto simp: child_link_def)
      then show ?r using p by blast
    next
      assume ?r
      then obtain p' where p': "s \<noteq> self" "(p', self) \<in> child_link ?R" "(p', s) \<in> child_link ?R" by blast
      then have "s \<in> ?R" "h_parent s = Some q" using Some by (auto simp: child_link_def)
      then show ?l using mem level [OF p'(2,3)] same_id [of s] p'(1) by simp
    qed
    then show ?thesis by blast
  qed
qed

lemma validation_silent: "validate_hierarchy T self db = Inr []"
proof -
  have row: "hier_row (set_mset (rows db)) self" using tree stored by (simp add: hier_ok_def)
  show ?thesis
  proof (cases "h_parent self")
    case None
    then show ?thesis using row path_nonempty by (simp add: validate_hierarchy_def hier_row_def labels_def Let_def)
  next
    case (Some q)
    then have "length (labels (h_path self)) \<noteq> 1" using root_iff [OF stored] by (auto simp: is_root_def)
    then obtain p where p: "(p, self) \<in> child_link (set_mset (rows db))"
      "labels (h_path self) = labels (h_path p) @ [h_name self]" "h_namespace p = h_namespace self"
      using parent_linked [OF stored] by metis
    then have pq: "p \<in># rows db" "h_id p = q" using Some by (auto simp: child_link_def)
    then have "set (t_select T (\<lambda>r. h_id r = q \<and> h_namespace r = h_namespace self) db) = {p}"
      using p(3) ids by (auto simp: select_set inj_on_def)
    then have "t_select T (\<lambda>r. h_id r = q \<and> h_namespace r = h_namespace self) db = [p]"
      by (rule distinct_single [OF select_distinct])
    moreover have "prefix (h_path p @ ''.'') (h_path self)"
      using p(2) by (simp add: text_prefix_labels strict_prefix_def)
    ultimately show ?thesis
      using row path_nonempty Some by (simp add: validate_hierarchy_def hier_row_def labels_def Let_def one_or_none_def)
  qed
qed

end

interpretation small_node: stored_node list_table mset small_tree "small_tree ! 2"
  by unfold_locales (use small_tree_ok in \<open>auto simp: small_tree_def\<close>)

text \<open>C17: On a table of the kind that \<open>move_to\<close> keeps, the queries by path are the walks over the parent links:
  the path to the root and the ancestors are the chain of parents from a root down, in order; the
  root is its end; the descendants are the nodes below; siblings are the other children of the
  parent; and validation finds no problem.
\<close>

theorem hierarchy_queries_follow_parents:
  assumes "orm_table T rows" "keyed h_id (rows db)" "hier_ok (set_mset (rows db))" "self \<in># rows db"
  shows "(\<exists>xs. get_path_to_root T self db = xs \<and> get_ancestors T self True None db = xs
      \<and> get_ancestors T self False None db = butlast xs \<and> last xs = self \<and> is_root (hd xs) \<and> get_root T self db = Inr (Some (hd xs))
      \<and> (\<forall>i. Suc i < length xs \<longrightarrow> (xs ! i, xs ! Suc i) \<in> child_link (set_mset (rows db))))
    \<and> set (get_descendants T self False None db) = {d. (self, d) \<in> (child_link (set_mset (rows db)))\<^sup>+}
    \<and> set (get_children T self db) = {c. (self, c) \<in> child_link (set_mset (rows db))}
    \<and> set (get_siblings T self False db) =
        {s. s \<noteq> self \<and> (\<exists>p. (p, self) \<in> child_link (set_mset (rows db)) \<and> (p, s) \<in> child_link (set_mset (rows db)))}
    \<and> validate_hierarchy T self db = Inr []"
proof -
  have "stored_node T rows db self"
    by (intro stored_node.intro stored_node_axioms.intro assms)
  from stored_node.upward_queries [OF this] stored_node.downward_queries [OF this] stored_node.validation_silent [OF this]
  show ?thesis by blast
qed

theorem hierarchy_queries_follow_parents_witness:
  "\<exists>xs. get_path_to_root list_table (small_tree ! 2) small_tree = xs
     \<and> get_ancestors list_table (small_tree ! 2) False None small_tree = butlast xs
     \<and> get_root list_table (small_tree ! 2) small_tree = Inr (Some (hd xs))
     \<and> validate_hierarchy list_table (small_tree ! 2) small_tree = Inr []"
proof -
  have "small_tree ! 2 \<in># mset small_tree" by (simp add: small_tree_def)
  then show ?thesis
    using hierarchy_queries_follow_parents [OF list_orm.orm_table_axioms small_tree_ok(2), of "small_tree ! 2"] small_tree_ok(1)
    by auto
qed

end
