(* ===== verification/Tasks.thy ===== *)
theory Tasks
  imports Prelude
begin

text \<open>
  Tasks of one event loop. A task is at a program point, a step runs it to its next await and may
  change the shared state; a schedule is the list of the tasks that go on, one after the other.
  Invariants of such runs are proved step by step; \<open>terminating\<close> is the contract of a step function
  whose tasks end.
\<close>

definition task_step :: "('pc \<Rightarrow> 's \<Rightarrow> 'pc \<times> 's) \<Rightarrow> nat \<Rightarrow> 'pc list \<times> 's \<Rightarrow> 'pc list \<times> 's" where
  "task_step step t st = (case st of (ts, s) \<Rightarrow>
     if t < length ts then (case step (ts ! t) s of (pc, s) \<Rightarrow> (ts[t := pc], s)) else (ts, s))"

definition gather :: "('pc \<Rightarrow> 's \<Rightarrow> 'pc \<times> 's) \<Rightarrow> nat list \<Rightarrow> 'pc list \<times> 's \<Rightarrow> 'pc list \<times> 's" where
  "gather step sched = fold (task_step step) sched"

text \<open>One task alone.\<close>

fun alone :: "('pc \<Rightarrow> 's \<Rightarrow> 'pc \<times> 's) \<Rightarrow> nat \<Rightarrow> 'pc \<Rightarrow> 's \<Rightarrow> 'pc \<times> 's" where
  "alone step 0 pc s = (pc, s)"
| "alone step (Suc k) pc s = (case step pc s of (pc, s) \<Rightarrow> alone step k pc s)"

lemma gather_simps [simp]:
  "gather step [] st = st" "gather step (t # sched) st = gather step sched (task_step step t st)"
  by (simp_all add: gather_def)

lemma gather_append [simp]: "gather step (xs @ ys) st = gather step ys (gather step xs st)"
  by (simp add: gather_def)

lemma task_step_length [simp]: "length (fst (task_step step t st)) = length (fst st)"
  by (simp add: task_step_def case_prod_beta)

lemma gather_length [simp]: "length (fst (gather step sched st)) = length (fst st)"
  by (induction sched arbitrary: st) simp_all

lemma task_step_others: "t \<noteq> s \<Longrightarrow> fst (task_step step t st) ! s = fst st ! s"
  by (simp add: task_step_def case_prod_beta)

lemma task_step_self:
  "t < length ts \<Longrightarrow> step (ts ! t) s = (pc, s') \<Longrightarrow> task_step step t (ts, s) = (ts[t := pc], s')"
  by (simp add: task_step_def)

lemma gather_invariant:
  assumes "\<And>ts s t pc s'. Inv ts s \<Longrightarrow> t < length ts \<Longrightarrow> step (ts ! t) s = (pc, s') \<Longrightarrow> Inv (ts[t := pc]) s'"
  shows "Inv (fst st) (snd st) \<Longrightarrow> Inv (fst (gather step sched st)) (snd (gather step sched st))"
proof (induction sched arbitrary: st)
  case (Cons t sched)
  have "Inv (fst (task_step step t st)) (snd (task_step step t st))"
    using Cons.prems assms [of "fst st" "snd st" t] by (auto simp: task_step_def case_prod_beta)
  from Cons.IH [OF this] show ?case by simp
qed simp

text \<open>A task that runs first and alone.\<close>

lemma alone_gather: "gather step (replicate k 0) (pc # ts, s) = (case alone step k pc s of (pc, s) \<Rightarrow> (pc # ts, s))"
  by (induction k arbitrary: pc s) (auto simp: task_step_def split: prod.split)

text \<open>Each step brings a task that has not ended closer to its end.\<close>

locale terminating =
  fixes step :: "'pc \<Rightarrow> 's \<Rightarrow> 'pc \<times> 's" and steps_left :: "'pc \<Rightarrow> nat"
  assumes step_left: "steps_left (fst (step pc s)) \<le> steps_left pc - 1"
begin

lemma gather_left:
  "s < length (fst st) \<Longrightarrow> steps_left (fst (gather step sched st) ! s) \<le> steps_left (fst st ! s) - count_list sched s"
proof (induction sched arbitrary: st)
  case (Cons t sched)
  have "steps_left (fst (task_step step t st) ! s) \<le> steps_left (fst st ! s) - (if t = s then 1 else 0)"
    using Cons.prems task_step_others [of t s step st] step_left [of "fst st ! s" "snd st"]
    by (auto simp: task_step_def case_prod_beta)
  with Cons.IH [of "task_step step t st"] Cons.prems show ?case by fastforce
qed simp

text \<open>A schedule with enough turns for everyone ends them all.\<close>

lemma all_end:
  assumes "\<forall>pc \<in> set ts. steps_left pc \<le> n" "\<forall>t < length ts. n \<le> count_list sched t"
  shows "\<forall>pc \<in> set (fst (gather step sched (ts, s))). steps_left pc = 0"
proof
  fix pc assume "pc \<in> set (fst (gather step sched (ts, s)))"
  then obtain t where t: "t < length ts" "fst (gather step sched (ts, s)) ! t = pc"
    by (auto simp: in_set_conv_nth)
  then have "steps_left (ts ! t) \<le> n" "n \<le> count_list sched t" using assms by auto
  then show "steps_left pc = 0" using gather_left [of t "(ts, s)" sched] t by simp
qed

end

end
