(* ===== verification/Node_Interleaving.thy ===== *)
theory Node_Interleaving
  imports Graph_Node Tasks
begin

text \<open>
  \<open>save\<close> and \<open>delete\<close> of \<open>models/graph_node.py\<close> with the points at which they await the database.
  Between two of them every other task may run, so a table is used by a list of tasks, each at its
  own program point, and a schedule says which of them goes on. \<open>save_uninterrupted\<close> and
  \<open>delete_uninterrupted\<close> show that a task which runs alone does what \<open>save\<close> and \<open>delete\<close> do.
\<close>

section \<open>Calls and their program points\<close>

datatype 'd node_call =
    Save_Call bool "'d gnode" "string list option" bool bool
  | Delete_Call bool "'d gnode"

datatype 'd node_pc =
    At_Start "'d node_call"
  | At_Write bool "'d gnode" "string list option" bool bool "nat option"
  | At_Remove "'d gnode"
  | At_Bumps "(int \<times> nat) list"
  | Refused exc

definition creates :: "bool \<Rightarrow> string list option \<Rightarrow> bool \<Rightarrow> bool \<Rightarrow> bool" where
  "creates saved fs force_create force_update \<longleftrightarrow> force_create \<or> (\<not> saved \<and> fs = None \<and> \<not> force_update)"

definition bumps :: "int \<Rightarrow> nat option \<Rightarrow> (int \<times> nat) list" where
  "bumps d p = (case p of None \<Rightarrow> [] | Some i \<Rightarrow> [(d, i)])"

text \<open>One step runs a task up to its next await.\<close>

definition remove_node :: "('db, 'd) node_table \<Rightarrow> 'd gnode \<Rightarrow> 'db \<Rightarrow> 'd node_pc \<times> 'db" where
  "remove_node T n db = (At_Bumps (bumps (-1) (g_parent n)), snd (t_delete T (\<lambda>r. g_id r = g_id n) db))"

fun node_step :: "('db, 'd) node_table \<Rightarrow> 'd node_pc \<Rightarrow> 'db \<Rightarrow> 'd node_pc \<times> 'db" where
  "node_step T (At_Start (Save_Call saved n fs fc fu)) db =
     (if creates saved fs fc fu then (At_Bumps (bumps 1 (g_parent n)), base_save T saved n fs fc fu db)
      else (At_Write saved n fs fc fu (previous_parent_id T n db), db))"
| "node_step T (At_Write saved n fs fc fu old) db =
     (At_Bumps (if fs = None \<or> ''parent_id'' \<in> set (the fs) then bumps (-1) old @ bumps 1 (g_parent n) else []),
      base_save T saved n fs fc fu db)"
| "node_step T (At_Start (Delete_Call block n)) db =
     (if \<not> block then remove_node T n db
      else if length (t_select T (\<lambda>r. g_parent r = Some (g_id n)) db) \<noteq> 0 then (Refused GraphError, db)
      else (At_Remove n, db))"
| "node_step T (At_Remove n) db = remove_node T n db"
| "node_step T (At_Bumps ((d, i) # bs)) db = (At_Bumps bs, bump T d (Some i) db)"
| "node_step T (At_Bumps []) db = (At_Bumps [], db)"
| "node_step T (Refused e) db = (Refused e, db)"

lemma bumps_simps [simp]: "bumps d None = []" "bumps d (Some i) = [(d, i)]"
  by (simp_all add: bumps_def)

lemma bump_None [simp]: "bump T d None db = db"
  by (simp add: bump_def)

lemma save_uninterrupted:
  "alone (node_step T) 4 (At_Start (Save_Call saved n fs fc fu)) db = (At_Bumps [], save T saved n fs fc fu db)"
proof (cases "creates saved fs fc fu")
  case True
  then show ?thesis
    by (cases "g_parent n") (auto simp: eval_nat_numeral save_def creates_def)
next
  case False
  then show ?thesis
    by (cases "g_parent n"; cases "previous_parent_id T n db")
      (auto simp: eval_nat_numeral save_def creates_def Let_def)
qed

lemma delete_uninterrupted:
  "alone (node_step T) 3 (At_Start (Delete_Call block n)) db =
     (case delete T block n db of (Inl e, db) \<Rightarrow> (Refused e, db) | (Inr u, db) \<Rightarrow> (At_Bumps [], db))"
  by (cases "g_parent n") (auto simp: eval_nat_numeral delete_def remove_node_def)

fun ended :: "'d node_pc \<Rightarrow> bool" where
  "ended (At_Bumps []) \<longleftrightarrow> True"
| "ended (Refused e) \<longleftrightarrow> True"
| "ended pc \<longleftrightarrow> False"

section \<open>Counters while tasks run\<close>

text \<open>The counter updates that a task still owes, and the nodes whose number of children or whose
  counter it may change.\<close>

fun owed :: "(int \<times> nat) list \<Rightarrow> nat \<Rightarrow> int" where
  "owed [] i = 0"
| "owed ((d, j) # bs) i = (if j = i then d else 0) + owed bs i"

fun pending :: "'d node_pc \<Rightarrow> nat \<Rightarrow> int" where
  "pending (At_Bumps bs) i = owed bs i"
| "pending pc i = 0"

fun instance_of :: "'d node_pc \<Rightarrow> 'd gnode option" where
  "instance_of (At_Start (Save_Call saved n fs fc fu)) = Some n"
| "instance_of (At_Start (Delete_Call block n)) = Some n"
| "instance_of (At_Write saved n fs fc fu old) = Some n"
| "instance_of (At_Remove n) = Some n"
| "instance_of pc = None"

definition touched :: "'d gnode multiset \<Rightarrow> 'd node_pc \<Rightarrow> nat set" where
  "touched R pc = (case instance_of pc of
       None \<Rightarrow> (case pc of At_Bumps bs \<Rightarrow> snd ` set bs | _ \<Rightarrow> {})
     | Some n \<Rightarrow> {i. g_parent n = Some i \<or> (\<exists>r \<in># R. g_id r = g_id n \<and> g_parent r = Some i)})"

definition writes_counter :: "string list option \<Rightarrow> bool" where
  "writes_counter fs \<longleftrightarrow> fs = None \<or> ''child_count'' \<in> set (the fs)"

text \<open>The instance whose counter a task is still going to write.\<close>

fun writer :: "'d node_pc \<Rightarrow> 'd gnode option" where
  "writer (At_Start (Save_Call saved n fs fc fu)) = (if creates saved fs fc fu \<or> writes_counter fs then Some n else None)"
| "writer (At_Write saved n fs fc fu old) = (if writes_counter fs then Some n else None)"
| "writer pc = None"

text \<open>The instance fits the table: a new node has a free key, any other has a row, whose parent a
  delete knows. A save that does not create updates.\<close>

fun fits :: "'d gnode multiset \<Rightarrow> 'd node_pc \<Rightarrow> bool" where
  "fits R (At_Start (Save_Call saved n fs fc fu)) \<longleftrightarrow>
     (if creates saved fs fc fu then \<forall>r \<in># R. g_id r \<noteq> g_id n
      else \<not> fc \<and> (saved \<or> fu) \<and> (\<exists>r \<in># R. g_id r = g_id n))"
| "fits R (At_Write saved n fs fc fu old) \<longleftrightarrow>
     \<not> fc \<and> (saved \<or> fu) \<and> (\<exists>r \<in># R. g_id r = g_id n \<and> g_parent r = old)"
| "fits R (At_Start (Delete_Call block n)) \<longleftrightarrow> (\<exists>r \<in># R. g_id r = g_id n \<and> g_parent r = g_parent n)"
| "fits R (At_Remove n) \<longleftrightarrow> (\<exists>r \<in># R. g_id r = g_id n \<and> g_parent r = g_parent n)"
| "fits R pc \<longleftrightarrow> True"

text \<open>\<open>off \<epsilon> pc\<close>: a counter is off by what the task and, by \<open>\<epsilon>\<close>, the others still owe.\<close>

definition off :: "(nat \<Rightarrow> int) \<Rightarrow> 'd node_pc \<Rightarrow> nat \<Rightarrow> int" where
  "off \<epsilon> pc i = - pending pc i - \<epsilon> i"

lemma owed_bumps [simp]: "owed (bumps d p) i = d * points p i"
  by (cases p) (auto simp: points_def)

lemma owed_append [simp]: "owed (xs @ ys) i = owed xs i + owed ys i"
  by (induction xs) auto

lemma off_cong: "counts_off \<delta> R \<Longrightarrow> (\<And>i. \<delta> i = \<delta>' i) \<Longrightarrow> counts_off \<delta>' R"
  by (simp add: counts_off_def)

lemma off_insert:
  "counts_off \<delta> R \<Longrightarrow> g_child_count r = child_number R (g_id r) + \<delta> (g_id r) \<Longrightarrow>
     counts_off (\<lambda>i. \<delta> i - points (g_parent r) i) (add_mset r R)"
  by (simp add: counts_off_def)

lemma off_remove: "counts_off \<delta> (add_mset r S) \<Longrightarrow> counts_off (\<lambda>i. \<delta> i + points (g_parent r) i) S"
  by (auto simp: counts_off_def)

lemma off_replace:
  "counts_off \<delta> (add_mset r S) \<Longrightarrow> g_id r' = g_id r \<Longrightarrow> g_child_count r' = g_child_count r \<Longrightarrow>
     counts_off (\<lambda>i. \<delta> i + points (g_parent r) i - points (g_parent r') i) (add_mset r' S)"
  by (auto simp: counts_off_def)

lemma unique_insert: "unique_ids R \<Longrightarrow> \<forall>r \<in># R. g_id r \<noteq> g_id n \<Longrightarrow> unique_ids (add_mset n R)"
  by (auto simp: unique_ids_def not_in_iff [symmetric])

lemma unique_replace: "unique_ids (add_mset r S) \<Longrightarrow> g_id r' = g_id r \<Longrightarrow> unique_ids (add_mset r' S)"
  by (simp add: unique_ids_def)

lemma unique_remove: "unique_ids (add_mset r S) \<Longrightarrow> unique_ids S"
  unfolding unique_ids_def by (metis count_add_mset image_mset_add_mset le_Suc_eq le_trans nat_le_linear order_refl Suc_n_not_le_n)

lemma node_pc_cases [case_names saving writing deleting removing bumping refused]:
  assumes "\<And>saved n fs fc fu. pc = At_Start (Save_Call saved n fs fc fu) \<Longrightarrow> P"
    "\<And>saved n fs fc fu old. pc = At_Write saved n fs fc fu old \<Longrightarrow> P"
    "\<And>block n. pc = At_Start (Delete_Call block n) \<Longrightarrow> P" "\<And>n. pc = At_Remove n \<Longrightarrow> P"
    "\<And>bs. pc = At_Bumps bs \<Longrightarrow> P" "\<And>e. pc = Refused e \<Longrightarrow> P"
  shows P
  using assms by (cases pc rule: writer.cases) auto

section \<open>The effect of a step on the rows\<close>

inductive node_effect :: "'d gnode multiset \<Rightarrow> 'd node_pc \<Rightarrow> 'd gnode multiset \<Rightarrow> 'd node_pc \<Rightarrow> bool" where
  inserts: "creates saved fs fc fu \<Longrightarrow> \<forall>r \<in># R. g_id r \<noteq> g_id n \<Longrightarrow>
     node_effect R (At_Start (Save_Call saved n fs fc fu)) (add_mset n R) (At_Bumps (bumps 1 (g_parent n)))"
| reads: "\<not> creates saved fs fc fu \<Longrightarrow> \<not> fc \<Longrightarrow> saved \<or> fu \<Longrightarrow> r \<in># R \<Longrightarrow> g_id r = g_id n \<Longrightarrow>
     node_effect R (At_Start (Save_Call saved n fs fc fu)) R (At_Write saved n fs fc fu (g_parent r))"
| updates: "g_id r = g_id n \<Longrightarrow> bs = (if fs = None \<or> ''parent_id'' \<in> set (the fs)
       then bumps (-1) (g_parent r) @ bumps 1 (g_parent n) else []) \<Longrightarrow>
     node_effect (add_mset r S) (At_Write saved n fs fc fu (g_parent r)) (add_mset (write_columns fs n r) S) (At_Bumps bs)"
| guards: "\<exists>r \<in># R. g_id r = g_id n \<and> g_parent r = g_parent n \<Longrightarrow>
     node_effect R (At_Start (Delete_Call block n)) R (At_Remove n)"
| refuses: "node_effect R (At_Start (Delete_Call block n)) R (Refused GraphError)"
| removes: "pc = At_Remove n \<or> pc = At_Start (Delete_Call block n) \<Longrightarrow> g_id r = g_id n \<Longrightarrow> g_parent r = g_parent n \<Longrightarrow>
     node_effect (add_mset r S) pc S (At_Bumps (bumps (-1) (g_parent n)))"
| counts: "node_effect R (At_Bumps ((d, i) # bs)) (bumped d (Some i) R) (At_Bumps bs)"
| idle: "pc = At_Bumps [] \<or> pc = Refused e \<Longrightarrow> node_effect R pc R pc"

lemma step_effect:
  fixes T :: "('db, 'd) node_table"
  assumes "orm_table T rows" "unique_ids (rows db)" "fits (rows db) pc" "node_step T pc db = (pc', db')"
  shows "node_effect (rows db) pc (rows db') pc'"
proof -
  have remove_effect: "node_effect (rows db) pc (rows db') pc'"
    if old: "\<exists>r \<in># rows db. g_id r = g_id n \<and> g_parent r = g_parent n" and step: "remove_node T n db = (pc', db')"
      and pc: "pc = At_Remove n \<or> pc = At_Start (Delete_Call block n)" for n :: "'d gnode" and block
  proof -
    obtain r where r: "r \<in># rows db" "g_id r = g_id n" "g_parent r = g_parent n" using old by blast
    then obtain S where S: "rows db = add_mset r S" by (metis multi_member_split)
    have "rows db' = S" using delete_row [OF assms(1,2) S r(2)] step by (auto simp: remove_node_def)
    then show ?thesis using removes [OF pc r(2,3), of S] step S by (auto simp: remove_node_def)
  qed
  show ?thesis
  proof (cases pc rule: node_pc_cases)
    case (saving saved n fs fc fu)
    show ?thesis
    proof (cases "creates saved fs fc fu")
      case True
      then show ?thesis using assms(3,4) saving inserts [of saved fs fc fu "rows db" n]
        by (auto simp: base_save_def creates_def orm_table.insert_rows [OF assms(1)])
    next
      case False
      then obtain r where r: "r \<in># rows db" "g_id r = g_id n" "\<not> fc" "saved \<or> fu" using assms(3) saving by auto
      then show ?thesis
        using False assms(4) saving reads [OF False r(3,4,1,2)] previous_parent [OF assms(1,2) r(1,2)] by auto
    qed
  next
    case (writing saved n fs fc fu old)
    then obtain r where r: "r \<in># rows db" "g_id r = g_id n" "g_parent r = old" "\<not> fc" "saved \<or> fu"
      using assms(3) by auto
    then obtain S where S: "rows db = add_mset r S" by (metis multi_member_split)
    have "rows db' = add_mset (write_columns fs n r) S"
      using update_row [OF assms(1,2) S r(2)] assms(4) writing r(4,5) by (auto simp: base_save_def)
    then show ?thesis using updates [OF r(2) refl] assms(4) writing S r(3) by auto
  next
    case (deleting block n)
    then have old: "\<exists>r \<in># rows db. g_id r = g_id n \<and> g_parent r = g_parent n" using assms(3) by simp
    show ?thesis
    proof (cases "node_step T pc db = remove_node T n db")
      case True
      then show ?thesis using remove_effect [OF old] deleting assms(4) by auto
    next
      case False
      then show ?thesis using deleting assms(4) guards [OF old] refuses by (auto split: if_splits)
    qed
  next
    case (removing n)
    then show ?thesis using remove_effect assms(3,4) by auto
  next
    case (bumping bs)
    show ?thesis
    proof (cases bs)
      case Nil
      then show ?thesis using bumping assms(4) idle by auto
    next
      case (Cons b bs')
      then show ?thesis using bumping assms(4) counts [of "rows db" "fst b" "snd b" bs'] bump_rows [OF assms(1)]
        by (cases b) auto
    qed
  next
    case (refused e)
    then show ?thesis using assms(4) idle by auto
  qed
qed

inductive_cases effectE: "node_effect R pc R' pc'"

lemma write_columns_simps [simp]:
  "g_id n = g_id r \<Longrightarrow> g_id (write_columns fs n r) = g_id r"
  "g_parent (write_columns fs n r) = (if fs = None \<or> ''parent_id'' \<in> set (the fs) then g_parent n else g_parent r)"
  "g_child_count (write_columns fs n r) = (if writes_counter fs then g_child_count n else g_child_count r)"
  by (auto simp: write_columns_def writes_counter_def split: option.split)

text \<open>The instance that will be written holds the counter of its node, once what is owed is paid.\<close>

definition writes_current :: "(nat \<Rightarrow> int) \<Rightarrow> 'd gnode multiset \<Rightarrow> 'd node_pc \<Rightarrow> bool" where
  "writes_current \<epsilon> R pc \<longleftrightarrow> (\<forall>n. writer pc = Some n \<longrightarrow> g_child_count n = child_number R (g_id n) + off \<epsilon> pc (g_id n))"

lemma effect_counts:
  assumes "node_effect R pc R' pc'" "counts_off (off \<epsilon> pc) R" "writes_current \<epsilon> R pc"
  shows "counts_off (off \<epsilon> pc') R'"
  using assms
proof (induction rule: node_effect.induct)
  case (inserts saved fs fc fu R n)
  then have "g_child_count n = child_number R (g_id n) + off \<epsilon> (At_Start (Save_Call saved n fs fc fu)) (g_id n)"
    by (simp add: writes_current_def)
  from off_cong [OF off_insert [OF inserts.prems(1) this]] show ?case by (simp add: off_def)
next
  case (updates r n bs fs S saved fc fu)
  let ?r' = "write_columns fs n r"
  have "g_child_count ?r' = g_child_count r"
    using updates.hyps(1) updates.prems by (auto simp: writes_current_def counts_off_def off_def)
  from off_cong [OF off_replace [OF updates.prems(1) _ this]] updates.hyps show ?case by (simp add: off_def)
next
  case (removes pc n r S)
  then have "pending pc i = 0" for i by auto
  with off_cong [OF off_remove [OF removes.prems(1)]] removes.hyps show ?case by (simp add: off_def)
next
  case (counts R d i bs)
  from off_cong [OF counts_bumped [OF counts.prems(1), of d "Some i"]] show ?case
    by (simp add: off_def points_def)
qed (simp_all add: off_def [abs_def])

lemma effect_unique: "node_effect R pc R' pc' \<Longrightarrow> unique_ids R \<Longrightarrow> unique_ids R'"
proof (induction rule: node_effect.induct)
  case (updates r n bs fs S saved fc fu)
  then show ?case using unique_replace [OF updates.prems] by simp
next
  case (inserts saved fs fc fu R n)
  then show ?case using unique_insert by blast
next
  case (removes pc n r S)
  then show ?case using unique_remove by blast
qed simp_all

lemma effect_fits: "node_effect R pc R' pc' \<Longrightarrow> fits R' pc'"
  by (induction rule: node_effect.induct) auto

lemma effect_instance: "node_effect R pc R' pc' \<Longrightarrow> instance_of pc' = Some n \<Longrightarrow> instance_of pc = Some n"
  by (induction rule: node_effect.induct) auto

lemma effect_writer: "node_effect R pc R' pc' \<Longrightarrow> writer pc' = Some n \<Longrightarrow> writer pc = Some n"
  by (induction rule: node_effect.induct) (auto split: if_splits)

lemma effect_writes_current:
  assumes "node_effect R pc R' pc'" "writes_current \<epsilon> R pc"
  shows "writes_current \<epsilon> R' pc'"
  using assms by (induction rule: node_effect.induct) (auto simp: writes_current_def off_def split: if_splits)

text \<open>What a step leaves alone: the rows of other nodes up to their counters, and the counters of
  nodes that it does not touch.\<close>

lemma bumped_rows: "(\<exists>r \<in># bumped d p R. P (g_id r) (g_parent r)) \<longleftrightarrow> (\<exists>r \<in># R. P (g_id r) (g_parent r))"
proof -
  have "g_parent (shift d p r) = g_parent r" for r :: "'a gnode" by (simp add: shift_def)
  then show ?thesis by (simp add: bumped_shift)
qed

lemma effect_others:
  assumes "node_effect R pc R' pc'" "\<And>n. instance_of pc = Some n \<Longrightarrow> g_id n \<noteq> j"
  shows "(\<exists>r \<in># R'. g_id r = j \<and> Q (g_parent r)) \<longleftrightarrow> (\<exists>r \<in># R. g_id r = j \<and> Q (g_parent r))"
  using assms
proof (induction rule: node_effect.induct)
  case (counts R d i bs)
  show ?case by (rule bumped_rows [where P = "\<lambda>a b. a = j \<and> Q b"])
qed auto

lemma effect_untouched:
  assumes "node_effect R pc R' pc'" "i \<notin> touched R pc"
  shows "child_number R' i + off \<epsilon> pc' i = child_number R i + off \<epsilon> pc i"
  using assms
  by (induction rule: node_effect.induct) (auto simp: touched_def off_def points_def)

lemma effect_touched:
  assumes "node_effect R pc R' pc'"
  shows "touched R' pc' \<subseteq> touched R pc"
  using assms
  by (induction rule: node_effect.induct) (auto simp: touched_def bumps_def split: option.splits)

section \<open>Several tasks\<close>

definition owed_by_all :: "'d node_pc list \<Rightarrow> nat \<Rightarrow> int" where
  "owed_by_all ts i = sum_list (map (\<lambda>pc. pending pc i) ts)"

definition owed_by_others :: "'d node_pc list \<Rightarrow> nat \<Rightarrow> nat \<Rightarrow> int" where
  "owed_by_others ts t i = owed_by_all ts i - pending (ts ! t) i"

text \<open>Tasks get in each other's way when they work on one node, or when one writes the whole row
  of a node, its counter included, to which the other adds a child or from which it takes one.\<close>

definition independent :: "'d gnode multiset \<Rightarrow> 'd node_pc \<Rightarrow> 'd node_pc \<Rightarrow> bool" where
  "independent R a b \<longleftrightarrow>
     (\<forall>n m. instance_of a = Some n \<longrightarrow> instance_of b = Some m \<longrightarrow> g_id n \<noteq> g_id m)
     \<and> (\<forall>n. writer a = Some n \<longrightarrow> g_id n \<notin> touched R b)"

definition apart :: "'d gnode multiset \<Rightarrow> 'd node_pc list \<Rightarrow> bool" where
  "apart R ts \<longleftrightarrow> (\<forall>s < length ts. \<forall>t < length ts. s \<noteq> t \<longrightarrow> independent R (ts ! s) (ts ! t))"

definition counts_while_running :: "'d gnode multiset \<Rightarrow> 'd node_pc list \<Rightarrow> bool" where
  "counts_while_running R ts \<longleftrightarrow>
     unique_ids R \<and> apart R ts \<and> (\<forall>pc \<in> set ts. fits R pc)
     \<and> counts_off (\<lambda>i. - owed_by_all ts i) R
     \<and> (\<forall>t < length ts. writes_current (owed_by_others ts t) R (ts ! t))"

lemma off_all: "off (owed_by_others ts t) (ts ! t) i = - owed_by_all ts i"
  by (simp add: off_def owed_by_others_def)

lemma owed_update:
  "t < length ts \<Longrightarrow> owed_by_all (ts[t := pc]) i = owed_by_others ts t i + pending pc i"
proof -
  assume t: "t < length ts"
  have "owed_by_all ts i = owed_by_all (take t ts) i + (pending (ts ! t) i + owed_by_all (drop (Suc t) ts) i)"
    unfolding owed_by_all_def by (subst id_take_nth_drop [OF t]) simp
  then show ?thesis using t by (simp add: owed_by_others_def upd_conv_take_nth_drop owed_by_all_def)
qed

lemma owed_update_self [simp]: "t < length ts \<Longrightarrow> owed_by_others (ts[t := pc]) t i = owed_by_others ts t i"
  by (simp add: owed_by_others_def [of "ts[t := pc]"] owed_update)

lemma touched_others:
  assumes "node_effect R pc R' pc'" "\<And>n m. instance_of pc = Some n \<Longrightarrow> instance_of q = Some m \<Longrightarrow> g_id n \<noteq> g_id m"
  shows "touched R' q = touched R q"
proof (cases "instance_of q")
  case (Some m)
  then have "(\<exists>r \<in># R'. g_id r = g_id m \<and> g_parent r = Some i) \<longleftrightarrow> (\<exists>r \<in># R. g_id r = g_id m \<and> g_parent r = Some i)" for i
    using effect_others [OF assms(1), of "g_id m" "\<lambda>p. p = Some i"] assms(2) by blast
  with Some show ?thesis by (simp add: touched_def)
qed (simp add: touched_def)

lemma fits_others:
  assumes "node_effect R pc R' pc'" "\<And>n m. instance_of pc = Some n \<Longrightarrow> instance_of q = Some m \<Longrightarrow> g_id n \<noteq> g_id m"
    "fits R q"
  shows "fits R' q"
proof (cases "instance_of q")
  case (Some m)
  then have "(\<exists>r \<in># R'. g_id r = g_id m \<and> Q (g_parent r)) \<longleftrightarrow> (\<exists>r \<in># R. g_id r = g_id m \<and> Q (g_parent r))" for Q
    using effect_others [OF assms(1), of "g_id m" Q] assms(2) by blast
  note same = this
  show ?thesis
  proof (cases q rule: node_pc_cases)
    case (saving saved n fs fc fu)
    then show ?thesis using assms(3) Some same [of "\<lambda>_. True"] by auto
  next
    case (writing saved n fs fc fu old)
    then show ?thesis using assms(3) Some same [of "\<lambda>p. p = old"] by auto
  next
    case (deleting block n)
    then show ?thesis using assms(3) Some same [of "\<lambda>p. p = g_parent n"] by auto
  next
    case (removing n)
    then show ?thesis using assms(3) Some same [of "\<lambda>p. p = g_parent n"] by auto
  qed simp_all
next
  case None
  then show ?thesis by (cases q rule: node_pc_cases) auto
qed

lemma independent_step:
  assumes "node_effect R pc R' pc'" "independent R pc q" "independent R q pc"
  shows "independent R' pc' q" "independent R' q pc'"
proof -
  have "g_id n \<noteq> g_id m" if "instance_of pc = Some n" "instance_of q = Some m" for n m
    using assms(2) that by (simp add: independent_def)
  then have "touched R' q = touched R q" using touched_others [OF assms(1)] by blast
  then show "independent R' pc' q"
    using assms(2) effect_instance [OF assms(1)] effect_writer [OF assms(1)] by (auto simp: independent_def)
  show "independent R' q pc'"
    using assms(3) effect_instance [OF assms(1)] effect_touched [OF assms(1)] by (fastforce simp: independent_def)
qed

lemma independent_others:
  assumes "node_effect R pc R' pc'" "independent R a b" "independent R pc b"
  shows "independent R' a b"
proof -
  have "touched R' b = touched R b"
    using touched_others [OF assms(1)] assms(3) unfolding independent_def by blast
  then show ?thesis using assms(2) by (simp add: independent_def)
qed

lemma apart_step:
  assumes "node_effect R (ts ! t) R' pc'" "apart R ts" "t < length ts"
  shows "apart R' (ts[t := pc'])"
  unfolding apart_def
proof (intro allI impI)
  fix a b assume i: "a < length (ts[t := pc'])" "b < length (ts[t := pc'])" "a \<noteq> b"
  have ind: "independent R (ts ! x) (ts ! y)" if "x \<noteq> y" "x < length ts" "y < length ts" for x y
    using assms(2) that by (simp add: apart_def)
  show "independent R' (ts[t := pc'] ! a) (ts[t := pc'] ! b)"
  proof (cases "a = t \<or> b = t")
    case True
    then show ?thesis using independent_step [OF assms(1)] ind i assms(3) by auto
  next
    case False
    then show ?thesis using independent_others [OF assms(1) ind ind] i assms(3) by auto
  qed
qed

lemma writes_current_cong:
  "writes_current \<epsilon> R pc \<Longrightarrow> (\<And>i. \<epsilon> i = \<epsilon>' i) \<Longrightarrow> writes_current \<epsilon>' R pc"
  by (simp add: writes_current_def off_def)

lemma effect_keeps_counts:
  assumes "node_effect R (ts ! t) R' pc'" "counts_while_running R ts" "t < length ts"
  shows "counts_while_running R' (ts[t := pc'])"
proof -
  let ?ts = "ts[t := pc']"
  note c = assms(2) [unfolded counts_while_running_def]
  have ind: "independent R (ts ! x) (ts ! y)" if "x \<noteq> y" "x < length ts" "y < length ts" for x y
    using c that by (simp add: apart_def)
  have own: "off (owed_by_others ts t) pc' i = - owed_by_all ?ts i" for i
    using assms(3) by (simp add: off_def owed_update)
  have "counts_off (off (owed_by_others ts t) (ts ! t)) R"
    by (rule off_cong [of "\<lambda>i. - owed_by_all ts i"]) (use c in \<open>simp_all add: off_all\<close>)
  moreover have now: "writes_current (owed_by_others ts t) R (ts ! t)" using c assms(3) by simp
  ultimately have "counts_off (off (owed_by_others ts t) pc') R'" by (rule effect_counts [OF assms(1)])
  then have off: "counts_off (\<lambda>i. - owed_by_all ?ts i) R'" by (rule off_cong) (rule own)
  have fits: "fits R' q" if q: "q \<in> set ?ts" for q
  proof -
    obtain s where s: "s < length ts" "?ts ! s = q" using q by (auto simp: in_set_conv_nth)
    show ?thesis
    proof (cases "s = t")
      case True
      then show ?thesis using effect_fits [OF assms(1)] s by simp
    next
      case False
      then have "q = ts ! s" "independent R (ts ! t) q" using s ind assms(3) by auto
      moreover have "fits R (ts ! s)" using c s(1) by simp
      ultimately show ?thesis using fits_others [OF assms(1)] unfolding independent_def by blast
    qed
  qed
  have current: "writes_current (owed_by_others ?ts s) R' (?ts ! s)" if s: "s < length ?ts" for s
  proof (cases "s = t")
    case True
    have "writes_current (owed_by_others ts t) R' pc'" by (rule effect_writes_current [OF assms(1) now])
    then have "writes_current (owed_by_others ?ts t) R' pc'"
      by (rule writes_current_cong) (simp add: assms(3))
    with True assms(3) show ?thesis by simp
  next
    case False
    have "g_child_count n = child_number R' (g_id n) - owed_by_all ?ts (g_id n)" if n: "writer (ts ! s) = Some n" for n
    proof -
      have "g_child_count n = child_number R (g_id n) - owed_by_all ts (g_id n)"
        using c s n by (simp add: writes_current_def off_all)
      also have "\<dots> = child_number R (g_id n) + off (owed_by_others ts t) (ts ! t) (g_id n)" by (simp add: off_all)
      also have "\<dots> = child_number R' (g_id n) + off (owed_by_others ts t) pc' (g_id n)"
        using effect_untouched [OF assms(1)] ind [of s t] False s assms(3) n by (simp add: independent_def)
      finally show ?thesis by (simp add: own)
    qed
    then have "writes_current (owed_by_others ?ts s) R' (?ts ! s)"
      using False off_all [of ?ts s] by (simp add: writes_current_def)
    then show ?thesis .
  qed
  show ?thesis
    unfolding counts_while_running_def
    using effect_unique [OF assms(1)] apart_step [OF assms(1) _ assms(3)] off fits current c by simp
qed

lemma gather_keeps:
  assumes "orm_table T rows" "counts_while_running (rows (snd st)) (fst st)"
  shows "counts_while_running (rows (snd (gather (node_step T) sched st))) (fst (gather (node_step T) sched st))"
proof (rule gather_invariant [where Inv = "\<lambda>ts db. counts_while_running (rows db) ts", OF _ assms(2)])
  fix ts db t pc' db'
  assume inv: "counts_while_running (rows db) ts" and t: "t < length ts" and step: "node_step T (ts ! t) db = (pc', db')"
  then have "unique_ids (rows db)" "fits (rows db) (ts ! t)" by (simp_all add: counts_while_running_def)
  from effect_keeps_counts [OF step_effect [OF assms(1) this step] inv t]
  show "counts_while_running (rows db') (ts[t := pc'])" .
qed

text \<open>Calls that may run at the same time.\<close>

definition compatible :: "'d gnode multiset \<Rightarrow> 'd node_call list \<Rightarrow> bool" where
  "compatible R calls \<longleftrightarrow>
     apart R (map At_Start calls) \<and> (\<forall>c \<in> set calls. fits R (At_Start c))
     \<and> (\<forall>c \<in> set calls. \<forall>n. writer (At_Start c) = Some n \<longrightarrow> g_child_count n = child_number R (g_id n))"

lemma owed_start: "owed_by_all (map At_Start calls) i = 0"
  by (induction calls) (auto simp: owed_by_all_def)

lemma off_start: "t < length calls \<Longrightarrow> off (owed_by_others (map At_Start calls) t) (At_Start (calls ! t)) i = 0"
  using off_all [of "map At_Start calls" t i] by (simp add: owed_start)

lemma compatible_start:
  assumes "unique_ids R" "counts_ok R" "compatible R calls"
  shows "counts_while_running R (map At_Start calls)"
  using assms unfolding counts_while_running_def compatible_def
  by (auto simp: owed_start counts_ok_off writes_current_def off_start)

lemma owed_ended: "\<forall>pc \<in> set ts. ended pc \<Longrightarrow> owed_by_all ts i = 0"
proof (induction ts)
  case (Cons pc ts)
  then show ?case by (cases pc rule: ended.cases) (auto simp: owed_by_all_def)
qed (simp add: owed_by_all_def)

text \<open>Every step of a task that has not ended brings it closer to its end.\<close>

fun steps_left :: "'d node_pc \<Rightarrow> nat" where
  "steps_left (At_Start c) = 4"
| "steps_left (At_Write saved n fs fc fu old) = 3"
| "steps_left (At_Remove n) = 2"
| "steps_left (At_Bumps bs) = length bs"
| "steps_left (Refused e) = 0"

lemma ended_steps: "ended pc \<longleftrightarrow> steps_left pc = 0"
  by (cases pc rule: ended.cases) auto

interpretation node_tasks: terminating "node_step T" steps_left
proof unfold_locales
  fix pc db
  show "steps_left (fst (node_step T pc db)) \<le> steps_left pc - 1"
    by (cases "(T, pc, db)" rule: node_step.cases) (auto simp: remove_node_def bumps_def split: option.splits)
qed

section \<open>The counter under interleaving\<close>



text \<open>Without the separation the counter is lost although both instances are current when their calls
  begin: a save of all columns reads the previous parent, a child is created, and the save then
  writes the counter it was loaded with.\<close>

lemma overlapping_save_loses_count:
  "let calls = [Save_Call True (node 1 None 0 0) None False False, Save_Call False (node 2 (Some 1) 1 0) None False False];
     db = [node 1 None 0 0];
     (ts, db') = gather (node_step list_table) [0, 1, 1, 0] (map At_Start calls, db)
   in counts_ok (mset db) \<and> (\<forall>c \<in> set calls. fits (mset db) (At_Start c))
     \<and> (\<forall>pc \<in> set ts. ended pc) \<and> db' = [node 1 None 0 0, node 2 (Some 1) 1 0] \<and> \<not> counts_ok (mset db')"
  by (simp add: task_step_def creates_def save_def base_save_def write_columns_def [abs_def] bump_def
      previous_parent_id_def list_table_def counts_ok_def child_number_def Let_def)

end
