(* ===== verification/Lookup_Interleaving.thy ===== *)
theory Lookup_Interleaving
  imports Cache_Coherence Tasks
begin

text \<open>
  The cached lookups and the writes of \<open>models/cacheable_model.py\<close> with the points at which they await
  the table or the cache. A lookup that missed reads the row and stores it later; a write changes
  the table and invalidates later. What other tasks do in between is the subject of this theory.
  \<open>lookup_uninterrupted\<close> and its companions show that a task that runs alone does what \<open>get_cached\<close>,
  \<open>filter_cached\<close>, \<open>model_save\<close>, \<open>model_delete\<close> and \<open>refresh_from_db\<close> do.
\<close>

section \<open>Program points\<close>

datatype model_result = Found "model_instance option" | Listed "model_instance list" | Written model_instance | Deleted

datatype model_pc =
    M_Start model_op
  | M_Read string "(string \<times> cval) list"
  | M_Read_All string "(string \<times> cval) list"
  | M_Store string cval model_result
  | M_Drop model_instance model_result
  | M_Ended "exc + model_result"

text \<open>An exception ends the task.\<close>

definition go :: "(exc + 'a) \<times> 's \<Rightarrow> ('a \<Rightarrow> model_pc) \<Rightarrow> model_pc \<times> 's" where
  "go res f = (case res of (Inl e, s) \<Rightarrow> (M_Ended (Inl e), s) | (Inr x, s) \<Rightarrow> (f x, s))"

definition own_key :: "'c cacheable \<Rightarrow> model_instance \<Rightarrow> exc + string" where
  "own_key cls i = cache_key_for cls ''get''
     [(if cm_pk_attr cls = [] then ''id'' else cm_pk_attr cls, CStr (pk_text cls i))]"

definition as_record :: "(field_type \<Rightarrow> string \<Rightarrow> pyval option) \<Rightarrow> 'c cacheable \<Rightarrow> cval \<Rightarrow> exc + model_instance" where
  "as_record parse cls v = (case v of CDict d \<Rightarrow> Inr (from_cache parse cls d) | _ \<Rightarrow> Inl CacheDataError)"

definition as_records :: "(field_type \<Rightarrow> string \<Rightarrow> pyval option) \<Rightarrow> 'c cacheable \<Rightarrow> cval \<Rightarrow> exc + model_instance list" where
  "as_records parse cls v = (case v of
       CList items \<Rightarrow> map_res (\<lambda>d. case d of CDict d \<Rightarrow> Inr (from_cache parse cls d) | _ \<Rightarrow> Inl (not_a_record d)) items
     | _ \<Rightarrow> Inl CacheDataError)"

text \<open>One step, for a class with a positive TTL whose backend is \<open>C\<close>.\<close>

fun model_step ::
  "(field_type \<Rightarrow> string \<Rightarrow> pyval option) \<Rightarrow> 'c cacheable \<Rightarrow> 'c cache \<Rightarrow> 'd model_db
     \<Rightarrow> model_pc \<Rightarrow> 'd \<times> 'c \<Rightarrow> model_pc \<times> ('d \<times> 'c)" where
  "model_step parse cls C db (M_Start (GetOp kwargs)) st =
     (case cache_key_for cls ''get'' kwargs of
        Inl e \<Rightarrow> (M_Ended (Inl e), st)
      | Inr key \<Rightarrow> go (try_cache C key (as_record parse cls) st)
          (\<lambda>hit. case hit of None \<Rightarrow> M_Read key kwargs | Some i \<Rightarrow> M_Ended (Inr (Found (Some i)))))"
| "model_step parse cls C db (M_Read key kwargs) st =
     go (handle (map_act Some (on_db (db_get db kwargs))) [DoesNotExist] (\<lambda>_. ret None) st)
       (\<lambda>found. case found of
          None \<Rightarrow> M_Ended (Inr (Found None))
        | Some i \<Rightarrow> M_Store key (CDict (to_cache cls i)) (Found (Some i)))"
| "model_step parse cls C db (M_Start (FilterOp kwargs)) st =
     (case cache_key_for cls ''filter'' kwargs of
        Inl e \<Rightarrow> (M_Ended (Inl e), st)
      | Inr key \<Rightarrow> go (try_cache C key (as_records parse cls) st)
          (\<lambda>hit. case hit of None \<Rightarrow> M_Read_All key kwargs | Some is \<Rightarrow> M_Ended (Inr (Listed is))))"
| "model_step parse cls C db (M_Read_All key kwargs) st =
     go (on_db (db_filter db kwargs) st)
       (\<lambda>is. M_Store key (CList (map (\<lambda>i. CDict (to_cache cls i)) is)) (Listed is))"
| "model_step parse cls C db (M_Store key v res) st =
     go (suppress (on_cache (c_set C key v (Some (cm_ttl cls)))) st) (\<lambda>_. M_Ended (Inr res))"
| "model_step parse cls C db (M_Start (SaveOp i)) st = go (on_db (db_save db i) st) (\<lambda>j. M_Drop j (Written j))"
| "model_step parse cls C db (M_Start (DeleteOp i)) st = go (on_db (db_delete db i) st) (\<lambda>_. M_Drop i Deleted)"
| "model_step parse cls C db (M_Drop i res) st =
     (case own_key cls i of
        Inl e \<Rightarrow> (M_Ended (Inl e), st)
      | Inr key \<Rightarrow> go (suppress (map_act (\<lambda>_. ()) (on_cache (c_delete C key))) st) (\<lambda>_. M_Ended (Inr res)))"
| "model_step parse cls C db (M_Start (RefreshOp i)) st =
     go (on_db (db_refresh db i) st)
       (\<lambda>j. case own_key cls j of
          Inl e \<Rightarrow> M_Ended (Inl e) | Inr key \<Rightarrow> M_Store key (CDict (to_cache cls j)) (Written j))"
| "model_step parse cls C db (M_Ended res) st = (M_Ended res, st)"

lemma go_simps [simp]:
  "go (Inl e, s) f = (M_Ended (Inl e), s)" "go (Inr x, s) f = (f x, s)"
  by (simp_all add: go_def)

section \<open>A task alone\<close>

lemma get_uninterrupted:
  assumes "0 < cm_ttl cls" "model_backend cls pool = Inr C"
  shows "alone (model_step parse cls C db) 3 (M_Start (GetOp kwargs)) st =
    map_prod (\<lambda>r. M_Ended (map_sum id Found r)) id (get_cached parse cls pool db kwargs st)"
proof (cases "cache_key_for cls ''get'' kwargs")
  case (Inl e)
  then show ?thesis using assms by (simp add: eval_nat_numeral get_cached_def act_simps)
next
  case (Inr key)
  obtain hit st1 where hit: "try_cache C key (as_record parse cls) st = (hit, st1)" by (rule prod.exhaust)
  obtain found st2 where found: "handle (map_act Some (on_db (db_get db kwargs))) [DoesNotExist] (\<lambda>_. ret None) st1 = (found, st2)" by (rule prod.exhaust)
  note run = assms Inr hit [unfolded as_record_def [abs_def]] found
  show ?thesis
  proof (cases hit)
    case hit_raises: (Inl e)
    then show ?thesis using run by (simp add: eval_nat_numeral get_cached_def as_record_def [abs_def] bind_lift run_bind_Inl)
  next
    case looked: (Inr i)
    show ?thesis
    proof (cases i)
      case (Some j)
      then show ?thesis using run looked
        by (simp add: eval_nat_numeral get_cached_def as_record_def [abs_def] bind_lift bind_act_def ret_def)
    next
      case None
      then show ?thesis using run looked
        by (cases found) (auto simp: eval_nat_numeral get_cached_def as_record_def [abs_def] bind_lift bind_act_def ret_def go_def
            split: option.split prod.split sum.split)
    qed
  qed
qed

lemma filter_uninterrupted:
  assumes "0 < cm_ttl cls" "model_backend cls pool = Inr C"
  shows "alone (model_step parse cls C db) 3 (M_Start (FilterOp kwargs)) st =
    map_prod (\<lambda>r. M_Ended (map_sum id Listed r)) id (filter_cached parse cls pool db kwargs st)"
proof (cases "cache_key_for cls ''filter'' kwargs")
  case (Inl e)
  then show ?thesis using assms by (simp add: eval_nat_numeral filter_cached_def act_simps)
next
  case (Inr key)
  obtain hit st1 where hit: "try_cache C key (as_records parse cls) st = (hit, st1)" by (rule prod.exhaust)
  obtain found st2 where found: "on_db (db_filter db kwargs) st1 = (found, st2)" by (rule prod.exhaust)
  note run = assms Inr hit [unfolded as_records_def [abs_def]] found
  show ?thesis
  proof (cases hit)
    case hit_raises: (Inl e)
    then show ?thesis using run by (simp add: eval_nat_numeral filter_cached_def as_records_def [abs_def] bind_lift run_bind_Inl)
  next
    case looked: (Inr i)
    show ?thesis
    proof (cases i)
      case (Some j)
      then show ?thesis using run looked
        by (simp add: eval_nat_numeral filter_cached_def as_records_def [abs_def] bind_lift bind_act_def ret_def)
    next
      case None
      then show ?thesis using run looked
        by (cases found) (auto simp: eval_nat_numeral filter_cached_def as_records_def [abs_def] bind_lift bind_act_def ret_def go_def
            split: option.split prod.split sum.split)
    qed
  qed
qed

lemma model_save_uninterrupted:
  assumes "0 < cm_ttl cls" "model_backend cls pool = Inr C"
  shows "alone (model_step parse cls C db) 3 (M_Start (SaveOp i)) st =
    map_prod (\<lambda>r. M_Ended (map_sum id Written r)) id (model_save cls pool db i st)"
  using assms
  by (auto simp: eval_nat_numeral model_save_def invalidate_model_def own_key_def bind_act_def lift_res_def ret_def go_def
      split: sum.split prod.split)

lemma model_delete_uninterrupted:
  assumes "0 < cm_ttl cls" "model_backend cls pool = Inr C"
  shows "alone (model_step parse cls C db) 3 (M_Start (DeleteOp i)) st =
    map_prod (\<lambda>r. M_Ended (map_sum id (\<lambda>_. Deleted) r)) id (model_delete cls pool db i st)"
  using assms
  by (auto simp: eval_nat_numeral model_delete_def invalidate_model_def own_key_def bind_act_def lift_res_def ret_def go_def
      split: sum.split prod.split)

lemma refresh_uninterrupted:
  assumes "0 < cm_ttl cls" "model_backend cls pool = Inr C"
  shows "alone (model_step parse cls C db) 3 (M_Start (RefreshOp i)) st =
    map_prod (\<lambda>r. M_Ended (map_sum id Written r)) id (refresh_from_db cls pool db i st)"
  using assms
  by (auto simp: eval_nat_numeral refresh_from_db_def own_key_def bind_act_def lift_res_def ret_def go_def
      split: sum.split prod.split)

section \<open>The effect of a step on the table and the cache\<close>

type_synonym table_rows = "string \<Rightarrow> model_instance option"
type_synonym cache_content = "string \<Rightarrow> (exc + cval) option"

inductive lookup_effect ::
  "(field_type \<Rightarrow> string \<Rightarrow> pyval option) \<Rightarrow> 'c cacheable \<Rightarrow> table_rows \<Rightarrow> cache_content \<Rightarrow> model_pc
     \<Rightarrow> table_rows \<Rightarrow> cache_content \<Rightarrow> model_pc \<Rightarrow> bool"
  for parse :: "field_type \<Rightarrow> string \<Rightarrow> pyval option" and cls :: "'c cacheable" where
  fails: "\<forall>i res. pc \<noteq> M_Drop i res \<Longrightarrow> lookup_effect parse cls R K pc R K (M_Ended (Inl e))"
| hit: "cache_key_for cls ''get'' kwargs = Inr key \<Longrightarrow> K key = Some (Inr (CDict data)) \<Longrightarrow>
     lookup_effect parse cls R K (M_Start (GetOp kwargs)) R K (M_Ended (Inr (Found (Some (from_cache parse cls data)))))"
| misses: "cache_key_for cls ''get'' kwargs = Inr key \<Longrightarrow>
     lookup_effect parse cls R K (M_Start (GetOp kwargs)) R K (M_Read key kwargs)"
| absent: "\<forall>v. kwargs = [(cm_pk_attr cls, v)] \<longrightarrow> R (py_str_of v) = None \<Longrightarrow>
     lookup_effect parse cls R K (M_Read key kwargs) R K (M_Ended (Inr (Found None)))"
| reads: "R (pk_text cls i) = Some i \<Longrightarrow> \<forall>v. kwargs = [(cm_pk_attr cls, v)] \<longrightarrow> pk_text cls i = py_str_of v \<Longrightarrow>
     lookup_effect parse cls R K (M_Read key kwargs) R K (M_Store key (CDict (to_cache cls i)) (Found (Some i)))"
| hit_all: "lookup_effect parse cls R K (M_Start (FilterOp kwargs)) R K (M_Ended (Inr (Listed is)))"
| misses_all: "cache_key_for cls ''filter'' kwargs = Inr key \<Longrightarrow>
     lookup_effect parse cls R K (M_Start (FilterOp kwargs)) R K (M_Read_All key kwargs)"
| reads_all: "\<forall>i \<in> set is. R (pk_text cls i) = Some i \<Longrightarrow>
     lookup_effect parse cls R K (M_Read_All key kwargs) R K
       (M_Store key (CList (map (\<lambda>i. CDict (to_cache cls i)) is)) (Listed is))"
| stores: "lookup_effect parse cls R K (M_Store key v res) R (K(key \<mapsto> Inr v)) (M_Ended (Inr res))"
| saves: "lookup_effect parse cls R K (M_Start (SaveOp i)) (R(pk_text cls j := r)) K (M_Drop j (Written j))"
| deletes: "lookup_effect parse cls R K (M_Start (DeleteOp i)) (R(pk_text cls i := None)) K (M_Drop i Deleted)"
| drops: "lookup_effect parse cls R K (M_Drop i res) R (K(pk_key cls (pk_text cls i) := None)) (M_Ended (Inr res))"
| reloads: "R (pk_text cls j) = Some j \<Longrightarrow>
     lookup_effect parse cls R K (M_Start (RefreshOp i)) R K
       (M_Store (pk_key cls (pk_text cls j)) (CDict (to_cache cls j)) (Written j))"
| idle: "lookup_effect parse cls R K (M_Ended res) R K (M_Ended res)"

lemma step_fails [simp]:
  "lookup_effect parse cls R K (M_Start op) R K (M_Ended (Inl e))"
  "lookup_effect parse cls R K (M_Read key kwargs) R K (M_Ended (Inl e))"
  "lookup_effect parse cls R K (M_Read_All key kwargs) R K (M_Ended (Inl e))"
  by (simp_all add: lookup_effect.fails)

definition storable_pc :: "(cval \<Rightarrow> bool) \<Rightarrow> model_pc \<Rightarrow> bool" where
  "storable_pc good pc \<longleftrightarrow> (\<forall>key v res. pc = M_Store key v res \<longrightarrow> good v)"

lemma storable_pc_simps [simp]:
  "storable_pc good (M_Store key v res) \<longleftrightarrow> good v" "storable_pc good (M_Start op)" "storable_pc good (M_Read key kwargs)"
  "storable_pc good (M_Read_All key kwargs)" "storable_pc good (M_Drop i res)" "storable_pc good (M_Ended r)"
  by (simp_all add: storable_pc_def)

context cached_table begin

lemma own_key_eq: "own_key cls i = Inr (pk_key cls (pk_text cls i))"
  using pk_key_eq [OF named, of "CStr (pk_text cls i)"] pk_named by (simp add: own_key_def py_str_of_def)

lemma try_cache_hit:
  assumes "up c" "try_cache C key (as_record parse cls) (d, c) = (Inr (Some i), st)"
  shows "\<exists>data. content c key = Some (Inr (CDict data)) \<and> i = from_cache parse cls data"
  using assms get_ok [OF assms(1), of key]
  by (auto simp: try_cache_def handle_def bind_act_def on_cache_def ret_def lift_res_def as_record_def
      split: option.splits sum.splits if_splits cval.splits prod.splits)

lemma try_cache_same: "up c \<Longrightarrow> try_cache C key dec (d, c) = (r, st) \<Longrightarrow> st = (d, c)"
  using try_cache_state [of c key dec d] by simp

lemma store_runs:
  assumes "up c" "good v"
  shows "\<exists>c'. suppress (on_cache (c_set C key v t)) (d, c) = (Inr (), (d, c')) \<and> up c' \<and> content c' = (content c)(key \<mapsto> Inr v)"
  using set_obtain [OF assms, of key t] by (force simp: suppress_def handle_def on_cache_def)

lemma drop_runs:
  assumes "up c"
  shows "\<exists>c'. suppress (map_act (\<lambda>_. ()) (on_cache (c_delete C key))) (d, c) = (Inr (), (d, c')) \<and> up c'
    \<and> content c' = (content c)(key := None)"
  using delete_ok [OF assms, of key]
  by (force simp: suppress_def handle_def on_cache_def map_act_def bind_act_def ret_def)

end

context cached_table begin

lemma get_step:
  assumes "up c" "model_step parse cls C db (M_Start (GetOp kwargs)) (d, c) = (pc', (d', c'))"
  shows "lookup_effect parse cls (rows d) (content c) (M_Start (GetOp kwargs)) (rows d') (content c') pc'
    \<and> up c' \<and> storable_pc good pc'"
proof -
  obtain key where key: "cache_key_for cls ''get'' kwargs = Inr key" using cache_key_for_eq [OF named] by blast
  obtain r st where r: "try_cache C key (as_record parse cls) (d, c) = (r, st)" by (rule prod.exhaust)
  then have st: "st = (d, c)" by (rule try_cache_same [OF assms(1)])
  show ?thesis
  proof (cases r)
    case (Inl e)
    then show ?thesis using assms r st key by auto
  next
    case (Inr i)
    show ?thesis
    proof (cases i)
      case None
      then show ?thesis using assms r st key Inr lookup_effect.misses [OF key] by auto
    next
      case (Some j)
      then obtain data where data: "content c key = Some (Inr (CDict data))" "j = from_cache parse cls data"
        using try_cache_hit [OF assms(1), of key d j st] r Inr by auto
      then show ?thesis using assms r st key Inr Some lookup_effect.hit [of cls kwargs key "content c", OF key data(1)] by auto
    qed
  qed
qed

lemma read_step:
  assumes "up c" "model_step parse cls C db (M_Read key kwargs) (d, c) = (pc', (d', c'))"
  shows "lookup_effect parse cls (rows d) (content c) (M_Read key kwargs) (rows d') (content c') pc'
    \<and> up c' \<and> storable_pc good pc'"
proof -
  obtain q d1 where q: "db_get db kwargs d = (q, d1)" by fastforce
  show ?thesis
  proof (cases q)
    case (Inr i)
    then have i: "d1 = d" "rows d (pk_text cls i) = Some i" using q get_same by blast+
    have "pk_text cls i = py_str_of v" if "kwargs = [(cm_pk_attr cls, v)]" for v
      using get_pk [of v d] q Inr that row_key by (auto split: option.splits)
    then have "lookup_effect parse cls (rows d) (content c) (M_Read key kwargs) (rows d) (content c)
        (M_Store key (CDict (to_cache cls i)) (Found (Some i)))"
      using i(2) by (auto intro: lookup_effect.reads)
    then show ?thesis using assms q Inr i good_record row_cacheable
      by (auto simp: map_act_def bind_act_def on_db_def ret_def handle_def)
  next
    case (Inl e)
    then have d1: "d1 = d" using q lookup_fails by blast
    show ?thesis
    proof (cases "catches [DoesNotExist] e")
      case True
      have "rows d (py_str_of v) = None" if "kwargs = [(cm_pk_attr cls, v)]" for v
        using get_pk [of v d] q Inl that by (auto split: option.splits)
      then have "lookup_effect parse cls (rows d) (content c) (M_Read key kwargs) (rows d) (content c)
          (M_Ended (Inr (Found None)))" by (auto intro: lookup_effect.absent)
      then show ?thesis using assms q Inl d1 True
        by (auto simp: map_act_def bind_act_def on_db_def ret_def handle_def)
    next
      case False
      then show ?thesis using assms q Inl d1
        by (auto simp: map_act_def bind_act_def on_db_def ret_def handle_def)
    qed
  qed
qed

lemma filter_step:
  assumes "up c" "model_step parse cls C db (M_Start (FilterOp kwargs)) (d, c) = (pc', (d', c'))"
  shows "lookup_effect parse cls (rows d) (content c) (M_Start (FilterOp kwargs)) (rows d') (content c') pc'
    \<and> up c' \<and> storable_pc good pc'"
proof -
  obtain key where key: "cache_key_for cls ''filter'' kwargs = Inr key" using cache_key_for_eq [OF named] by blast
  obtain r st where r: "try_cache C key (as_records parse cls) (d, c) = (r, st)" by (rule prod.exhaust)
  then have st: "st = (d, c)" by (rule try_cache_same [OF assms(1)])
  show ?thesis
    using assms r st key lookup_effect.hit_all lookup_effect.misses_all [OF key]
    by (cases r) (auto split: option.splits)
qed

lemma write_step:
  assumes "up c" "model_step parse cls C db (M_Start op) (d, c) = (pc', (d', c'))"
    "op = SaveOp i \<or> op = DeleteOp i \<or> op = RefreshOp i"
  shows "lookup_effect parse cls (rows d) (content c) (M_Start op) (rows d') (content c') pc'
    \<and> up c' \<and> storable_pc good pc'"
  using assms(3)
proof (elim disjE)
  assume op: "op = SaveOp i"
  obtain q d1 where q: "db_save db i d = (q, d1)" by fastforce
  show ?thesis
  proof (cases q)
    case (Inl e)
    then have "rows d1 = rows d" using q save_fails by blast
    then show ?thesis using assms op q Inl by (auto simp: on_db_def)
  next
    case (Inr j)
    then obtain r where r: "rows d1 = (rows d)(pk_text cls j := r)" using q save_law by blast
    then show ?thesis
      using assms op q Inr lookup_effect.saves [of parse cls "rows d" "content c" i j r] by (auto simp: on_db_def)
  qed
next
  assume op: "op = DeleteOp i"
  obtain q d1 where q: "db_delete db i d = (q, d1)" by fastforce
  show ?thesis
  proof (cases q)
    case (Inl e)
    then have "rows d1 = rows d" using q remove_fails by blast
    then show ?thesis using assms op q Inl by (auto simp: on_db_def)
  next
    case (Inr u)
    then have "rows d1 = (rows d)(pk_text cls i := None)" using q delete_law by blast
    then show ?thesis using assms op q Inr lookup_effect.deletes [of parse cls "rows d" "content c" i]
      by (auto simp: on_db_def)
  qed
next
  assume op: "op = RefreshOp i"
  obtain q d1 where q: "db_refresh db i d = (q, d1)" by fastforce
  show ?thesis
  proof (cases q)
    case (Inl e)
    then have "d1 = d" using q refresh_fails by blast
    then show ?thesis using assms op q Inl by (auto simp: on_db_def)
  next
    case (Inr j)
    then have "d1 = d" "rows d (pk_text cls j) = Some j" using q refresh_law by blast+
    then show ?thesis using assms op q Inr lookup_effect.reloads good_record row_cacheable
      by (auto simp: on_db_def own_key_eq)
  qed
qed

lemma model_step_effect:
  assumes "up c" "storable_pc good pc" "model_step parse cls C db pc (d, c) = (pc', (d', c'))"
  shows "lookup_effect parse cls (rows d) (content c) pc (rows d') (content c') pc' \<and> up c' \<and> storable_pc good pc'"
proof (cases pc)
  case (M_Start op)
  then show ?thesis using assms get_step filter_step write_step by (cases op) blast+
next
  case (M_Read key kwargs)
  then show ?thesis using assms read_step by blast
next
  case (M_Read_All key kwargs)
  obtain q d1 where q: "db_filter db kwargs d = (q, d1)" by fastforce
  then have d1: "d1 = d" by (rule filter_same)
  show ?thesis
  proof (cases q)
    case (Inl e)
    then show ?thesis using assms M_Read_All q d1 by (auto simp: on_db_def)
  next
    case (Inr "is")
    then have current: "\<forall>i \<in> set is. rows d (pk_text cls i) = Some i" using q filter_rows by blast
    then have "good (CList (map (\<lambda>i. CDict (to_cache cls i)) is))" using good_records row_cacheable by blast
    then show ?thesis using assms M_Read_All q d1 Inr lookup_effect.reads_all [of "is" "rows d" cls, OF current]
      by (auto simp: on_db_def)
  qed
next
  case (M_Store key v res)
  obtain c1 where "suppress (on_cache (c_set C key v (Some (cm_ttl cls)))) (d, c) = (Inr (), (d, c1))" "up c1"
    "content c1 = (content c)(key \<mapsto> Inr v)" using store_runs assms(1,2) M_Store by (metis storable_pc_simps(1))
  then show ?thesis using assms M_Store lookup_effect.stores by auto
next
  case (M_Drop i res)
  obtain c1 where "suppress (map_act (\<lambda>_. ()) (on_cache (c_delete C (pk_key cls (pk_text cls i))))) (d, c) = (Inr (), (d, c1))"
    "up c1" "content c1 = (content c)(pk_key cls (pk_text cls i) := None)" using drop_runs assms(1) by metis
  then show ?thesis using assms M_Drop lookup_effect.drops by (auto simp: own_key_eq)
next
  case (M_Ended r)
  then show ?thesis using assms lookup_effect.idle by auto
qed

end

section \<open>Where answers come from\<close>

text \<open>\<open>held k x\<close>: at some moment the table held \<open>x\<close> for the primary key \<open>k\<close>, a row or none. An entry
  under a primary key, and a value about to be stored there, is the record of a row that was held.\<close>

definition entries_held :: "'c cacheable \<Rightarrow> (string \<Rightarrow> model_instance option \<Rightarrow> bool) \<Rightarrow> cache_content \<Rightarrow> bool" where
  "entries_held cls held K \<longleftrightarrow> (\<forall>k e. K (pk_key cls k) = Some e \<longrightarrow>
     (\<exists>r. held k (Some r) \<and> e = Inr (CDict (to_cache cls r))))"

definition in_step :: "'c cacheable \<Rightarrow> (string \<Rightarrow> model_instance option \<Rightarrow> bool) \<Rightarrow> model_pc \<Rightarrow> bool" where
  "in_step cls held pc \<longleftrightarrow> (case pc of
       M_Read key kwargs \<Rightarrow> cache_key_for cls ''get'' kwargs = Inr key
     | M_Read_All key kwargs \<Rightarrow> cache_key_for cls ''filter'' kwargs = Inr key
     | M_Store key v res \<Rightarrow> (\<forall>k. key = pk_key cls k \<longrightarrow> (\<exists>r. held k (Some r) \<and> v = CDict (to_cache cls r)))
     | _ \<Rightarrow> True)"

definition answer_held :: "'c cacheable \<Rightarrow> (string \<Rightarrow> model_instance option \<Rightarrow> bool) \<Rightarrow> model_op \<Rightarrow> model_result \<Rightarrow> bool" where
  "answer_held cls held op res \<longleftrightarrow> (\<forall>v x. op = GetOp [(cm_pk_attr cls, v)] \<and> res = Found x \<longrightarrow> held (py_str_of v) x)"

definition answers :: "'c cacheable \<Rightarrow> (string \<Rightarrow> model_instance option \<Rightarrow> bool) \<Rightarrow> model_op \<Rightarrow> model_pc \<Rightarrow> bool" where
  "answers cls held op pc \<longleftrightarrow> (case pc of
       M_Start op' \<Rightarrow> op' = op
     | M_Read key kwargs \<Rightarrow> op = GetOp kwargs
     | M_Read_All key kwargs \<Rightarrow> op = FilterOp kwargs
     | M_Store key v res \<Rightarrow> answer_held cls held op res
     | M_Drop i res \<Rightarrow> answer_held cls held op res
     | M_Ended r \<Rightarrow> (case r of Inl e \<Rightarrow> True | Inr res \<Rightarrow> answer_held cls held op res))"

lemmas held_defs = in_step_def answers_def answer_held_def

lemma held_mono:
  assumes "\<And>k x. held k x \<Longrightarrow> held' k x"
  shows "entries_held cls held K \<Longrightarrow> entries_held cls held' K" "in_step cls held pc \<Longrightarrow> in_step cls held' pc"
    "answers cls held op pc \<Longrightarrow> answers cls held' op pc"
proof -
  show "entries_held cls held K \<Longrightarrow> entries_held cls held' K"
    unfolding entries_held_def using assms by blast
  show "in_step cls held pc \<Longrightarrow> in_step cls held' pc"
    using assms by (cases pc) (simp_all add: in_step_def, blast)
  show "answers cls held op pc \<Longrightarrow> answers cls held' op pc"
    using assms by (cases pc) (auto simp: answers_def answer_held_def split: sum.splits)
qed

context cached_table begin

lemma effect_in_step:
  assumes "lookup_effect parse cls R K pc R' K' pc'" "in_step cls held pc" "\<And>k. held k (R k)"
  shows "in_step cls held pc'"
  using assms(1)
proof (cases rule: lookup_effect.cases)
  case (reads i kwargs key)
  show ?thesis
  proof (unfold reads(4) in_step_def, simp, intro allI impI)
    fix k assume "key = pk_key cls k"
    then obtain v where v: "kwargs = [(cm_pk_attr cls, v)]" "py_str_of v = k"
      using other_key [OF named, of "''get''" kwargs k] assms(2) reads(1) by (auto simp: in_step_def)
    then have "held k (Some i)" using reads(5,6) assms(3) [of k] by simp
    then show "\<exists>r. held k (Some r) \<and> to_cache cls i = to_cache cls r" by blast
  qed
next
  case (reads_all "is" key kwargs)
  then show ?thesis using other_key [OF named, of "''filter''" kwargs] assms(2) by (auto simp: in_step_def)
next
  case (reloads j i)
  then show ?thesis using assms(3) [of "pk_text cls j"] by (auto simp: in_step_def pk_key_inj)
qed (auto simp: in_step_def)

lemma effect_entries_held:
  assumes "lookup_effect parse cls R K pc R' K' pc'" "in_step cls held pc" "entries_held cls held K"
  shows "entries_held cls held K'"
  using assms
  by (cases rule: lookup_effect.cases) (auto simp: entries_held_def in_step_def)

lemma effect_answers:
  assumes "lookup_effect parse cls R K pc R' K' pc'" "answers cls held op pc" "entries_held cls held K"
    "\<And>k. held k (R k)" "\<And>k r. held k (Some r) \<Longrightarrow> cacheable_instance parse cls r"
  shows "answers cls held op pc'"
  using assms(1)
proof (cases rule: lookup_effect.cases)
  case (hit kwargs key data)
  show ?thesis
  proof (cases "\<exists>v. kwargs = [(cm_pk_attr cls, v)]")
    case True
    then obtain v where v: "kwargs = [(cm_pk_attr cls, v)]" by blast
    then have "K (pk_key cls (py_str_of v)) = Some (Inr (CDict data))" using hit pk_key_eq [OF named] by auto
    then obtain r where r: "held (py_str_of v) (Some r)" "data = to_cache cls r"
      using assms(3) by (auto simp: entries_held_def)
    then show ?thesis using hit v assms(2) from_cache_to_cache [OF assms(5) [OF r(1)]] by (auto simp: held_defs)
  next
    case False
    then show ?thesis using hit assms(2) by (auto simp: held_defs)
  qed
next
  case (absent kwargs key)
  then show ?thesis using assms(2) assms(4) by (auto simp: held_defs) (metis)
next
  case (reads i kwargs key)
  then show ?thesis using assms(2) assms(4) by (auto simp: held_defs) (metis)
qed (use assms(2) in \<open>auto simp: held_defs\<close>)

end

section \<open>Runs\<close>

fun pc_left :: "model_pc \<Rightarrow> nat" where
  "pc_left (M_Start op) = 3"
| "pc_left (M_Read key kwargs) = 2"
| "pc_left (M_Read_All key kwargs) = 2"
| "pc_left (M_Store key v res) = 1"
| "pc_left (M_Drop i res) = 1"
| "pc_left (M_Ended r) = 0"

lemma pc_left_0: "pc_left pc = 0 \<longleftrightarrow> (\<exists>r. pc = M_Ended r)"
  by (cases pc) auto

interpretation model_tasks: terminating "model_step parse cls C db" pc_left
proof unfold_locales
  fix pc st
  show "pc_left (fst (model_step parse cls C db pc st)) \<le> pc_left pc - 1"
    by (cases "(parse, cls, C, db, pc, st)" rule: model_step.cases)
      (auto simp: go_def split: sum.splits prod.splits option.splits)
qed

text \<open>A schedule is free of races if no row changes while a value for its key waits to be stored.\<close>

fun race_free ::
  "(model_pc \<Rightarrow> 'd \<times> 'c \<Rightarrow> model_pc \<times> ('d \<times> 'c)) \<Rightarrow> ('d \<Rightarrow> table_rows) \<Rightarrow> 'e cacheable \<Rightarrow> nat list
     \<Rightarrow> model_pc list \<times> ('d \<times> 'c) \<Rightarrow> bool" where
  "race_free advance rows cls [] st \<longleftrightarrow> True"
| "race_free advance rows cls (t # sched) st \<longleftrightarrow>
     (\<forall>k v res. rows (fst (snd (task_step advance t st))) k \<noteq> rows (fst (snd st)) k \<longrightarrow>
        M_Store (pk_key cls k) v res \<notin> set (fst st))
     \<and> race_free advance rows cls sched (task_step advance t st)"

definition dropping :: "'c cacheable \<Rightarrow> string \<Rightarrow> model_pc \<Rightarrow> bool" where
  "dropping cls k pc \<longleftrightarrow> (\<exists>i res. pc = M_Drop i res \<and> pk_text cls i = k)"

text \<open>Between writes and invalidations: an entry is the row, or a task is about to remove it.\<close>

definition nearly_coherent :: "'c cacheable \<Rightarrow> table_rows \<Rightarrow> cache_content \<Rightarrow> model_pc list \<Rightarrow> bool" where
  "nearly_coherent cls R K ts \<longleftrightarrow>
     (\<forall>pc \<in> set ts. in_step cls (\<lambda>k x. R k = x) pc)
     \<and> (\<forall>k e. K (pk_key cls k) = Some e \<longrightarrow>
          (\<exists>r. R k = Some r \<and> e = Inr (CDict (to_cache cls r))) \<or> (\<exists>pc \<in> set ts. dropping cls k pc))"

lemma set_step: "t < length ts \<Longrightarrow> q \<in> set (ts[t := pc]) \<Longrightarrow> q = pc \<or> q \<in> set ts"
  using set_update_subset_insert by fastforce

lemma dropping_stays:
  assumes "\<exists>q \<in> set ts. dropping cls k q" "t < length ts" "\<not> dropping cls k (ts ! t)"
  shows "\<exists>q \<in> set (ts[t := pc']). dropping cls k q"
proof -
  obtain s where "s < length ts" "dropping cls k (ts ! s)" using assms(1) by (auto simp: in_set_conv_nth)
  then have "s < length (ts[t := pc'])" "dropping cls k (ts[t := pc'] ! s)" using assms(3) by (cases "s = t"; simp)+
  then show ?thesis using nth_mem by blast
qed

context cached_table begin

lemma effect_nearly_coherent:
  assumes "lookup_effect parse cls R K (ts ! t) R' K' pc'" "t < length ts" "nearly_coherent cls R K ts"
    "\<And>k v res. R' k \<noteq> R k \<Longrightarrow> M_Store (pk_key cls k) v res \<notin> set ts"
  shows "nearly_coherent cls R' K' (ts[t := pc'])"
proof -
  have own: "in_step cls (\<lambda>k x. R k = x) (ts ! t)" using assms(2,3) by (simp add: nearly_coherent_def)
  have pc': "in_step cls (\<lambda>k x. R' k = x) pc'"
    using assms(1) effect_in_step [OF assms(1) own] by (cases rule: lookup_effect.cases) (auto simp: in_step_def)
  have others: "in_step cls (\<lambda>k x. R' k = x) q" if q: "q \<in> set ts" for q
  proof -
    have "in_step cls (\<lambda>k x. R k = x) q" using assms(3) q by (simp add: nearly_coherent_def)
    moreover have "R' k = R k" if "q = M_Store (pk_key cls k) v res" for k v res
      using assms(4) [of k v res] q that by blast
    ultimately show ?thesis by (auto simp: in_step_def split: model_pc.splits)
  qed
  have "(\<exists>r. R' k = Some r \<and> e = Inr (CDict (to_cache cls r))) \<or> (\<exists>q \<in> set (ts[t := pc']). dropping cls k q)"
    if e: "K' (pk_key cls k) = Some e" for k e
  proof (cases "dropping cls k pc'")
    case True
    then show ?thesis using assms(2) set_update_memI by fast
  next
    case False
    have "K (pk_key cls k) = Some e \<and> \<not> dropping cls k (ts ! t) \<and> R' k = R k
        \<or> (\<exists>r. R' k = Some r \<and> e = Inr (CDict (to_cache cls r)))"
      using assms(1) own e False
      by (cases rule: lookup_effect.cases) (auto simp: dropping_def in_step_def pk_key_inj split: if_splits)
    then show ?thesis
    proof
      assume same: "K (pk_key cls k) = Some e \<and> \<not> dropping cls k (ts ! t) \<and> R' k = R k"
      then have "(\<exists>r. R k = Some r \<and> e = Inr (CDict (to_cache cls r))) \<or> (\<exists>q \<in> set ts. dropping cls k q)"
        using assms(3) unfolding nearly_coherent_def by blast
      then show ?thesis using same dropping_stays [of ts cls k t pc'] assms(2) by auto
    qed blast
  qed
  then show ?thesis using pc' others set_step [OF assms(2)] unfolding nearly_coherent_def by blast
qed

lemma race_free_keeps:
  assumes "race_free (model_step parse cls C db) rows cls sched st" "up (snd (snd st))" "\<forall>pc \<in> set (fst st). storable_pc good pc"
    "nearly_coherent cls (rows (fst (snd st))) (content (snd (snd st))) (fst st)"
  shows "let (ts, (d, c)) = gather (model_step parse cls C db) sched st in up c \<and> nearly_coherent cls (rows d) (content c) ts"
  using assms
proof (induction sched arbitrary: st)
  case Nil
  then show ?case by (simp add: case_prod_beta)
next
  case (Cons t sched)
  obtain ts d c where st: "st = (ts, (d, c))" by (cases st) auto
  show ?case
  proof (cases "t < length ts")
    case True
    obtain pc' d' c' where step: "model_step parse cls C db (ts ! t) (d, c) = (pc', (d', c'))"
      by (metis surj_pair)
    then have next_st: "task_step (model_step parse cls C db) t st = (ts[t := pc'], (d', c'))"
      using True st by (simp add: task_step_self)
    have e: "lookup_effect parse cls (rows d) (content c) (ts ! t) (rows d') (content c') pc'" "up c'" "storable_pc good pc'"
      using model_step_effect [OF _ _ step] Cons.prems(2,3) st True by auto
    have "nearly_coherent cls (rows d') (content c') (ts[t := pc'])"
      by (rule effect_nearly_coherent [OF e(1) True]) (use Cons.prems(1,4) st next_st in auto)
    moreover have "\<forall>pc \<in> set (ts[t := pc']). storable_pc good pc" using Cons.prems(3) st e(3) set_step [OF True] by auto
    moreover have "race_free (model_step parse cls C db) rows cls sched (ts[t := pc'], (d', c'))"
      using Cons.prems(1) next_st by simp
    ultimately show ?thesis using Cons.IH [of "(ts[t := pc'], (d', c'))"] e(2) next_st by simp
  next
    case False
    then have "task_step (model_step parse cls C db) t st = st" using st by (simp add: task_step_def)
    then show ?thesis using Cons by simp
  qed
qed

lemma start_nearly_coherent:
  "coherent cls rows content (d, c) \<Longrightarrow> nearly_coherent cls (rows d) (content c) (map M_Start ops)"
  by (auto simp: nearly_coherent_def coherent_def in_step_def)

lemma ended_coherent:
  "nearly_coherent cls (rows d) (content c) ts \<Longrightarrow> \<forall>pc \<in> set ts. pc_left pc = 0 \<Longrightarrow> coherent cls rows content (d, c)"
  by (fastforce simp: nearly_coherent_def coherent_def dropping_def pc_left_0)

end

text \<open>The primary keys and rows, or absences, of the moments of a run.\<close>

definition was_held ::
  "(model_pc \<Rightarrow> 'd \<times> 'c \<Rightarrow> model_pc \<times> ('d \<times> 'c)) \<Rightarrow> ('d \<Rightarrow> table_rows) \<Rightarrow> nat list
     \<Rightarrow> model_pc list \<times> ('d \<times> 'c) \<Rightarrow> string \<Rightarrow> model_instance option \<Rightarrow> bool" where
  "was_held advance rows sched st k x \<longleftrightarrow>
     (\<exists>p. prefix p sched \<and> rows (fst (snd (gather advance p st))) k = x)"

lemma was_held_snoc: "was_held advance rows sched st k x \<Longrightarrow> was_held advance rows (sched @ [t]) st k x"
  by (auto simp: was_held_def)

lemma was_held_now: "was_held advance rows sched st k (rows (fst (snd (gather advance sched st))) k)"
  by (auto simp: was_held_def)

context cached_table begin

abbreviation advance :: "model_pc \<Rightarrow> 'd \<times> 'c \<Rightarrow> model_pc \<times> ('d \<times> 'c)" where
  "advance \<equiv> model_step parse cls C db"

definition explained :: "model_op list \<Rightarrow> (string \<Rightarrow> model_instance option \<Rightarrow> bool) \<Rightarrow> model_pc list \<times> ('d \<times> 'c) \<Rightarrow> bool" where
  "explained ops held st \<longleftrightarrow> (case st of (ts, (d, c)) \<Rightarrow>
     length ts = length ops \<and> up c \<and> entries_held cls held (content c)
     \<and> (\<forall>t < length ts. storable_pc good (ts ! t) \<and> in_step cls held (ts ! t) \<and> answers cls held (ops ! t) (ts ! t)))"

lemma was_held_cacheable:
  "was_held advance rows sched st k (Some r) \<Longrightarrow> cacheable_instance parse cls r"
  by (auto simp: was_held_def intro: row_cacheable)

lemma explained_mono:
  assumes "\<And>k x. held k x \<Longrightarrow> held' k x"
  shows "explained ops held st \<Longrightarrow> explained ops held' st"
proof -
  note mono = held_mono [of held held', OF assms]
  assume "explained ops held st"
  then show "explained ops held' st"
    unfolding explained_def by (auto simp: mono split: prod.splits)
qed

lemma explained_step:
  assumes "explained ops held (ts, (d, c))" "t < length ts" "model_step parse cls C db (ts ! t) (d, c) = (pc', (d', c'))"
    "\<And>k. held k (rows d k)" "\<And>k r. held k (Some r) \<Longrightarrow> cacheable_instance parse cls r"
  shows "explained ops held (ts[t := pc'], (d', c'))"
proof -
  note e = assms(1) [unfolded explained_def prod.case]
  have own: "storable_pc good (ts ! t)" "in_step cls held (ts ! t)" "answers cls held (ops ! t) (ts ! t)"
    using e assms(2) by blast+
  have eff: "lookup_effect parse cls (rows d) (content c) (ts ! t) (rows d') (content c') pc'" "up c'" "storable_pc good pc'"
    using model_step_effect [OF _ own(1) assms(3)] e by blast+
  have "in_step cls held pc'" by (rule effect_in_step [OF eff(1) own(2) assms(4)])
  moreover have "answers cls held (ops ! t) pc'"
    by (rule effect_answers [OF eff(1) own(3) _ assms(4,5)]) (use e in blast)
  moreover have "entries_held cls held (content c')"
    by (rule effect_entries_held [OF eff(1) own(2)]) (use e in blast)
  ultimately show ?thesis
    using e eff(2,3) assms(2) by (auto simp: explained_def nth_list_update)
qed

lemma run_explained:
  assumes "coherent cls rows content (d, c)" "up c"
  shows "explained ops (was_held advance rows sched (map M_Start ops, (d, c)))
    (gather advance sched (map M_Start ops, (d, c)))"
proof (induction sched rule: rev_induct)
  case Nil
  show ?case
    using assms by (auto simp: explained_def entries_held_def coherent_def was_held_def held_defs)
next
  case (snoc t sched)
  let ?st = "(map M_Start ops, (d, c))"
  let ?held = "was_held advance rows sched ?st"
  obtain ts d1 c1 where st: "gather advance sched ?st = (ts, (d1, c1))" by (metis surj_pair)
  show ?case
  proof (cases "t < length ts")
    case True
    obtain pc' d2 c2 where step: "advance (ts ! t) (d1, c1) = (pc', (d2, c2))" by (metis surj_pair)
    have "explained ops ?held (ts[t := pc'], (d2, c2))"
      by (rule explained_step [OF _ True step]) (use snoc st was_held_now [of advance rows sched ?st] was_held_cacheable in auto)
    then show ?thesis
      using explained_mono [OF was_held_snoc] st True step by (simp add: task_step_self)
  next
    case False
    then show ?thesis using explained_mono [OF was_held_snoc] snoc st by (simp add: task_step_def)
  qed
qed

end

section \<open>A race\<close>

context cached_table begin

text \<open>A lookup that read the row before a save and stores it after the save has invalidated leaves the
  old row in the cache: every later lookup answers with it until the entry expires, although no
  task is running any more.\<close>

lemma overlapping_save_leaves_old_row:
  assumes "coherent cls rows content (d, c)" "up c" "content c (pk_key cls (py_str_of v)) = None"
    "rows d (py_str_of v) = Some old" "db_save db i d = (Inr j, d')" "pk_text cls j = py_str_of v"
  shows "\<exists>c'. gather advance [0, 0, 1, 1, 0]
      ([M_Start (GetOp [(cm_pk_attr cls, v)]), M_Start (SaveOp i)], (d, c))
      = ([M_Ended (Inr (Found (Some old))), M_Ended (Inr (Written j))], (d', c'))
    \<and> up c' \<and> fst (get_cached parse cls pool db [(cm_pk_attr cls, v)] (d', c')) = Inr (Some old)"
proof -
  let ?key = "pk_key cls (py_str_of v)" and ?v = "CDict (to_cache cls old)"
  have old: "cacheable_instance parse cls old" by (rule row_cacheable [OF assms(4)])
  note key = pk_key_eq [OF named, of v]
  have missed: "advance (M_Start (GetOp [(cm_pk_attr cls, v)])) (d, c) = (M_Read ?key [(cm_pk_attr cls, v)], (d, c))"
    using get_ok [OF assms(2), of ?key] assms(3)
    by (simp add: key try_cache_def handle_def bind_act_def on_cache_def ret_def)
  have read: "advance (M_Read ?key [(cm_pk_attr cls, v)]) (d, c) = (M_Store ?key ?v (Found (Some old)), (d, c))"
    using assms(4) by (simp add: get_pk map_act_def bind_act_def on_db_def ret_def handle_def)
  have saved: "advance (M_Start (SaveOp i)) (d, c) = (M_Drop j (Written j), (d', c))"
    using assms(5) by (simp add: on_db_def)
  obtain c1 where c1: "advance (M_Drop j (Written j)) (d', c) = (M_Ended (Inr (Written j)), (d', c1))" "up c1"
    using drop_runs [OF assms(2), of "pk_key cls (pk_text cls j)" d'] by (auto simp: own_key_eq)
  obtain c2 where c2: "advance (M_Store ?key ?v (Found (Some old))) (d', c1) = (M_Ended (Inr (Found (Some old))), (d', c2))"
    "up c2" "content c2 = (content c1)(?key \<mapsto> Inr ?v)"
    using store_runs [OF c1(2) good_record [OF old], of ?key "Some (cm_ttl cls)" d'] by auto
  have run: "gather advance [0, 0, 1, 1, 0] ([M_Start (GetOp [(cm_pk_attr cls, v)]), M_Start (SaveOp i)], (d, c))
      = ([M_Ended (Inr (Found (Some old))), M_Ended (Inr (Written j))], (d', c2))"
    by (simp add: task_step_self missed read saved c1(1) c2(1) del: model_step.simps)
  have "try_cache C ?key (as_record parse cls) (d', c2) = (Inr (Some old), (d', c2))"
    using get_ok [OF c2(2), of ?key] c2(3) from_cache_to_cache [OF old]
    by (simp add: try_cache_def handle_def bind_act_def on_cache_def ret_def lift_res_def as_record_def)
  then have "fst (get_cached parse cls pool db [(cm_pk_attr cls, v)] (d', c2)) = Inr (Some old)"
    using enabled by (simp add: get_cached_def backend bind_lift key as_record_def [abs_def] bind_act_def ret_def)
  with run c2(2) show ?thesis by blast
qed

end

section \<open>Properties\<close>

lemma hello_fits: "note_fits hello_note"
  by (auto simp: cacheable_instance_def note_model_def hello_note_def attr_of_def typed_def cached_value_def serialize_value_def iso_parse_def)

definition renamed_note :: model_instance where
  "renamed_note = hello_note(''title'' \<mapsto> Py (CStr ''renamed''))"

lemma renamed_fits: "note_fits renamed_note"
  by (auto simp: cacheable_instance_def note_model_def hello_note_def renamed_note_def attr_of_def typed_def cached_value_def
      serialize_value_def iso_parse_def)

lemma note_keys: "pk_text note_model hello_note = ''7''" "pk_text note_model renamed_note = ''7''"
    "py_str_of (CInt 7) = ''7''"
proof -
  have "show_int 7 = ''7''" by code_simp
  then show "pk_text note_model hello_note = ''7''" "pk_text note_model renamed_note = ''7''" "py_str_of (CInt 7) = ''7''"
    by (simp_all add: pk_text_def note_model_def hello_note_def renamed_note_def attr_of_def str_pyval_def py_str_of_def)
qed

abbreviation note_db :: "model_instance list model_db" where
  "note_db \<equiv> list_db note_fits note_model"

abbreviation note_backend_of :: "memory \<Rightarrow> string \<Rightarrow> (exc + cval) option" where
  "note_backend_of \<equiv> rb_content (RedisCacheBackend mem_redis ''model:Note'' 300 (Some (JSONSerializer None))) mem_view"

lemma empty_cache: "note_backend_of mem_empty k = None" "m_reachable mem_empty"
  by (simp_all add: mem_empty_def rb_content_def mem_view_def)





end
