(* ===== verification/Timestamps.thy ===== *)
theory Timestamps
  imports Prelude
begin

text \<open>
  The declarations of \<open>models/base.py\<close> and \<open>models/mixins.py\<close> and what follows from them for the
  timestamps of an instance. The save of the ORM, which stamps a field by its declaration, is the
  locale \<open>stamping\<close>; times are microseconds of UTC.
\<close>

section \<open>Declarations\<close>

datatype field_decl =
    BigIntField bool
  | DatetimeField bool bool bool bool

text \<open>\<open>BigIntField primary_key\<close>; \<open>DatetimeField auto_now auto_now_add null use_tz\<close>.\<close>

definition BaseModel :: "(string \<times> field_decl) list" where
  "BaseModel = [(''id'', BigIntField True)]"

definition TimestampMixin :: "(string \<times> field_decl) list" where
  "TimestampMixin =
     [(''created_at'', DatetimeField False True False True), (''updated_at'', DatetimeField True False False True)]"

definition TimestampEndMixin :: "(string \<times> field_decl) list" where
  "TimestampEndMixin =
     [(''created_at'', DatetimeField False True False True), (''ended_at'', DatetimeField False False True True)]"

text \<open>The fields of a class with bases: of two declarations of one name the first base's counts.\<close>

definition class_fields :: "(string \<times> field_decl) list list \<Rightarrow> string \<Rightarrow> field_decl option" where
  "class_fields bases = map_of (concat bases)"

fun stamped :: "field_decl \<Rightarrow> int option \<Rightarrow> bool" where
  "stamped (DatetimeField auto_now auto_now_add nullable use_tz) v \<longleftrightarrow> auto_now \<or> (auto_now_add \<and> v = None)"
| "stamped (BigIntField primary_key) v \<longleftrightarrow> False"

section \<open>Saving\<close>

text \<open>\<open>save fields now written attrs\<close> gives the attributes after \<open>save(update_fields=written)\<close>: of the
  fields it writes, those with \<open>auto_now\<close>, and those with \<open>auto_now_add\<close> that have no value yet, get
  the time; nothing else changes.\<close>

type_synonym attributes = "string \<Rightarrow> int option"

locale stamping =
  fixes save :: "(string \<Rightarrow> field_decl option) \<Rightarrow> int \<Rightarrow> string set option \<Rightarrow> attributes \<Rightarrow> attributes"
  assumes save_stamps: "save fields now written attrs n =
    (if (written = None \<or> n \<in> the written) \<and> (\<exists>d. fields n = Some d \<and> stamped d (attrs n)) then Some now else attrs n)"
begin

lemma save_other: "fields n = None \<or> (\<exists>d. fields n = Some d \<and> \<not> stamped d (attrs n)) \<Longrightarrow> save fields now written attrs n = attrs n"
  by (auto simp: save_stamps)

end

text \<open>A life of an instance: saves, and values that the caller assigns in between.\<close>

datatype life = Save int "string set option" | Assign string int

fun live ::
  "((string \<Rightarrow> field_decl option) \<Rightarrow> int \<Rightarrow> string set option \<Rightarrow> attributes \<Rightarrow> attributes)
     \<Rightarrow> (string \<Rightarrow> field_decl option) \<Rightarrow> life list \<Rightarrow> attributes \<Rightarrow> attributes" where
  "live save fields [] attrs = attrs"
| "live save fields (Save now written # es) attrs = live save fields es (save fields now written attrs)"
| "live save fields (Assign n v # es) attrs = live save fields es (attrs(n \<mapsto> v))"

fun save_times :: "life list \<Rightarrow> int list" where
  "save_times [] = []"
| "save_times (Save now written # es) = now # save_times es"
| "save_times (Assign n v # es) = save_times es"

text \<open>The time of the last save that writes a field, and the last value assigned to it.\<close>

fun last_save :: "string \<Rightarrow> life list \<Rightarrow> int option \<Rightarrow> int option" where
  "last_save n [] t = t"
| "last_save n (Save now written # es) t = last_save n es (if written = None \<or> n \<in> the written then Some now else t)"
| "last_save n (Assign m v # es) t = last_save n es t"

fun last_assigned :: "string \<Rightarrow> life list \<Rightarrow> int option \<Rightarrow> int option" where
  "last_assigned n [] v = v"
| "last_assigned n (Save now written # es) v = last_assigned n es v"
| "last_assigned n (Assign m w # es) v = last_assigned n es (if m = n then Some w else v)"

definition assigns :: "string \<Rightarrow> life list \<Rightarrow> bool" where
  "assigns n es \<longleftrightarrow> (\<exists>v. Assign n v \<in> set es)"

lemma assigns_simps [simp]:
  "\<not> assigns n []" "assigns n (Save now written # es) \<longleftrightarrow> assigns n es"
  "assigns n (Assign m v # es) \<longleftrightarrow> n = m \<or> assigns n es"
  by (auto simp: assigns_def)

lemma last_save_bounds:
  assumes "t \<le> u" "\<forall>x \<in> set (save_times es). t \<le> x"
  shows "\<exists>w. last_save n es (Some u) = Some w \<and> t \<le> w"
  using assms by (induction n es "Some u" arbitrary: u rule: last_save.induct) auto

context stamping begin

lemma live_created:
  assumes "fields n = Some (DatetimeField False True nullable use_tz)" "\<not> assigns n es" "attrs n = Some t"
  shows "live save fields es attrs n = Some t"
  using assms(2,3)
proof (induction es arbitrary: attrs)
  case (Cons e es)
  then show ?case using assms(1) by (cases e) (simp_all add: save_stamps)
qed simp

lemma live_updated:
  assumes "fields n = Some (DatetimeField True auto_now_add nullable use_tz)" "\<not> assigns n es"
  shows "live save fields es attrs n = last_save n es (attrs n)"
  using assms(2)
proof (induction es arbitrary: attrs)
  case (Cons e es)
  then show ?case using assms(1) by (cases e) (simp_all add: save_stamps)
qed simp

lemma live_caller:
  assumes "fields n = Some (DatetimeField False False nullable use_tz)"
  shows "live save fields es attrs n = last_assigned n es (attrs n)"
proof (induction es arbitrary: attrs)
  case (Cons e es)
  then show ?case using assms(1) by (cases e) (auto simp: save_stamps)
qed simp

end

definition orm_save :: "(string \<Rightarrow> field_decl option) \<Rightarrow> int \<Rightarrow> string set option \<Rightarrow> attributes \<Rightarrow> attributes" where
  "orm_save fields now written attrs n =
    (case fields n of
       Some d \<Rightarrow> if (written = None \<or> n \<in> the written) \<and> stamped d (attrs n) then Some now else attrs n
     | None \<Rightarrow> attrs n)"

interpretation orm_stamps: stamping orm_save
  by unfold_locales (auto simp: orm_save_def split: option.split)

section \<open>Timestamps\<close>

text \<open>
  With \<open>TimestampMixin\<close> as the first base an instance that is created by a full save and then saved
  at later times, whatever else is assigned, keeps the time of its creation; \<open>updated_at\<close> is the time
  of the last save that wrote it and never before the creation. \<open>ended_at\<close> of \<open>TimestampEndMixin\<close> is
  what the caller assigned last: no save touches it.
\<close>

theorem timestamps_follow_saves:
  assumes "stamping save" "es = Save t None # rest" "\<forall>x \<in> set (save_times rest). t \<le> x"
    "attrs ''created_at'' = None" "\<not> assigns ''created_at'' es"
  shows "\<not> assigns ''updated_at'' es \<Longrightarrow>
      (let after = live save (class_fields (TimestampMixin # bases)) es attrs in
        after ''created_at'' = Some t
        \<and> after ''updated_at'' = last_save ''updated_at'' es None
        \<and> (\<exists>u. after ''updated_at'' = Some u \<and> t \<le> u))"
    "(let after = live save (class_fields (TimestampEndMixin # bases)) es attrs in
        after ''created_at'' = Some t \<and> after ''ended_at'' = last_assigned ''ended_at'' es (attrs ''ended_at''))"
proof -
  note laws = stamping.save_stamps [OF assms(1)]
  let ?F = "class_fields (TimestampMixin # bases)" and ?G = "class_fields (TimestampEndMixin # bases)"
  have f: "?F ''created_at'' = Some (DatetimeField False True False True)"
    "?F ''updated_at'' = Some (DatetimeField True False False True)"
    "?G ''created_at'' = Some (DatetimeField False True False True)"
    "?G ''ended_at'' = Some (DatetimeField False False True True)"
    by (simp_all add: class_fields_def TimestampMixin_def TimestampEndMixin_def)
  have rest: "\<not> assigns ''created_at'' rest" using assms(2,5) by simp
  have created: "live save F es attrs ''created_at'' = Some t"
    if F: "F ''created_at'' = Some (DatetimeField False True False True)" for F
    using stamping.live_created [where fields = F and n = "''created_at''" and attrs = "save F t None attrs", OF assms(1) F rest] assms(2,4) F
    by (simp add: laws)
  show "let after = live save ?G es attrs in
      after ''created_at'' = Some t \<and> after ''ended_at'' = last_assigned ''ended_at'' es (attrs ''ended_at'')"
    using created [of ?G, OF f(3)] stamping.live_caller [OF assms(1), of ?G "''ended_at''", OF f(4)] by simp
  assume u: "\<not> assigns ''updated_at'' es"
  have "live save ?F es attrs ''updated_at'' = last_save ''updated_at'' es (attrs ''updated_at'')"
    by (rule stamping.live_updated [OF assms(1), of ?F "''updated_at''", OF f(2) u])
  also have "\<dots> = last_save ''updated_at'' rest (Some t)" using assms(2) by simp
  finally have updated: "live save ?F es attrs ''updated_at'' = last_save ''updated_at'' rest (Some t)" .
  then show "let after = live save ?F es attrs in
      after ''created_at'' = Some t \<and> after ''updated_at'' = last_save ''updated_at'' es None
      \<and> (\<exists>u. after ''updated_at'' = Some u \<and> t \<le> u)"
    using created [of ?F, OF f(1)] last_save_bounds [of t t rest "''updated_at''"] assms(2,3) by simp
qed

text \<open>A save of other columns does not move \<open>updated_at\<close>.\<close>

lemma partial_save_keeps_updated:
  assumes "stamping save" "''updated_at'' \<notin> cols"
  shows "save (class_fields (TimestampMixin # bases)) now (Some cols) attrs ''updated_at'' = attrs ''updated_at''"
  using assms by (simp add: stamping.save_stamps)

theorem timestamps_follow_saves_witness:
  "let after = live orm_save (class_fields [TimestampEndMixin, BaseModel])
      [Save 5 None, Assign ''ended_at'' 8, Save 9 (Some {''ended_at''})] Map.empty
   in after ''created_at'' = Some 5 \<and> after ''ended_at'' = Some 8"
  using timestamps_follow_saves(2) [OF orm_stamps.stamping_axioms, of
      "[Save 5 None, Assign ''ended_at'' 8, Save 9 (Some {''ended_at''})]" 5
      "[Assign ''ended_at'' 8, Save 9 (Some {''ended_at''})]" Map.empty "[BaseModel]"]
  by simp

end
