(* ===== verification/Field_Repr.thy ===== *)
theory Field_Repr
  imports Py_Literal Vector_Field Ltree_Field Scalar_Fields
begin

text \<open>
  \<open>__repr__\<close> of the fields, their constructors with the arguments that the representations name, and
  the column types of the scalar fields. A representation reads back as the call that builds the
  field again; the text of every address fits its column.
\<close>

section \<open>Constructors\<close>

text \<open>The parameters of the scalar fields, handed on to the base class.\<close>

record scalar_field =
  sf_null :: bool
  sf_default :: "cval option"
  sf_description :: "string option"
  sf_options :: "(string \<times> cval) list"

definition scalar_init :: "bool \<Rightarrow> cval option \<Rightarrow> string option \<Rightarrow> (string \<times> cval) list \<Rightarrow> scalar_field" where
  "scalar_init nullable dflt description kwargs =
     \<lparr>sf_null = nullable, sf_default = dflt, sf_description = description, sf_options = kwargs\<rparr>"

text \<open>\<open>SQL_TYPE\<close> of a class, and of its \<open>_db_<dialect>\<close> class where there is one.\<close>

definition ipv4_sql_type :: "string \<Rightarrow> string" where
  "ipv4_sql_type dialect = (if dialect = ''sqlite'' then ''VARCHAR(15)'' else ''inet'')"

definition url_sql_type :: string where
  "url_sql_type = ''TEXT''"

definition path_sql_type :: string where
  "path_sql_type = ''TEXT''"

section \<open>Representations\<close>

definition ipv4_repr :: "scalar_field \<Rightarrow> string" where
  "ipv4_repr fd = ''IPv4Field(null='' @ py_repr (CBool (sf_null fd)) @ '')''"

definition url_repr :: "scalar_field \<Rightarrow> string" where
  "url_repr fd = ''URLField(null='' @ py_repr (CBool (sf_null fd)) @ '')''"

definition path_repr :: "scalar_field \<Rightarrow> string" where
  "path_repr fd = ''PathField(null='' @ py_repr (CBool (sf_null fd)) @ '')''"

definition vector_repr :: "vector_field \<Rightarrow> string" where
  "vector_repr fd = ''VectorField(dimensions='' @ py_repr (case vf_dimensions fd of None \<Rightarrow> CNull | Some n \<Rightarrow> CInt n)
     @ '', vector_type='' @ py_repr (CStr (vf_type fd)) @ '')''"

definition ltree_repr :: "ltree_field \<Rightarrow> string" where
  "ltree_repr fd = ''LTreeField(max_length='' @ py_repr (CInt (lt_max_length fd))
     @ '', separator='' @ py_repr (CStr (lt_separator fd)) @ '')''"

lemma read_call:
  assumes "kwargs \<noteq> []" "\<forall>(k, v) \<in> set kwargs. CHR ''='' \<notin> set k \<and> call_value v"
    "name \<noteq> []" "CHR ''('' \<notin> set name" "hd name \<noteq> CHR '' ''"
  shows "read_call_line (name @ ''('' @ call_kwargs kwargs @ ''),'') = Some (name, kwargs)"
  using read_written_call [OF assms, of "[]"] by simp

text \<open>In a list of calls each representation reads as a call of its class with the values of the
  attributes, whatever characters the separator or the type hold.\<close>

theorem repr_reads_back:
  "read_call_line (ipv4_repr fd @ '','') = Some (''IPv4Field'', [(''null'', CBool (sf_null fd))])"
  "read_call_line (url_repr fd @ '','') = Some (''URLField'', [(''null'', CBool (sf_null fd))])"
  "read_call_line (path_repr fd @ '','') = Some (''PathField'', [(''null'', CBool (sf_null fd))])"
  "read_call_line (vector_repr vf @ '','') = Some (''VectorField'',
     [(''dimensions'', case vf_dimensions vf of None \<Rightarrow> CNull | Some n \<Rightarrow> CInt n), (''vector_type'', CStr (vf_type vf))])"
  "read_call_line (ltree_repr lt @ '','') = Some (''LTreeField'',
     [(''max_length'', CInt (lt_max_length lt)), (''separator'', CStr (lt_separator lt))])"
proof -
  have scalar: "read_call_line (name @ ''(null='' @ py_repr (CBool b) @ ''),'') = Some (name, [(''null'', CBool b)])"
    if "name \<noteq> []" "CHR ''('' \<notin> set name" "hd name \<noteq> CHR '' ''" for name b
    using read_call [of "[(''null'', CBool b)]" name, OF _ _ that] by (simp add: call_kwargs_def call_value_def)
  have pair: "read_call_line (name @ ''('' @ k @ ''='' @ py_repr v @ '', '' @ l @ ''='' @ py_repr w @ ''),'') = Some (name, [(k, v), (l, w)])"
    if "name \<noteq> []" "CHR ''('' \<notin> set name" "hd name \<noteq> CHR '' ''" "CHR ''='' \<notin> set k" "CHR ''='' \<notin> set l"
      "call_value v" "call_value w" for name k v l w
    using read_call [of "[(k, v), (l, w)]" name, OF _ _ that(1-3)] that(4-7) by (simp add: call_kwargs_def)
  show "read_call_line (ipv4_repr fd @ '','') = Some (''IPv4Field'', [(''null'', CBool (sf_null fd))])"
    using scalar [of "''IPv4Field''" "sf_null fd"] unfolding ipv4_repr_def by simp
  show "read_call_line (url_repr fd @ '','') = Some (''URLField'', [(''null'', CBool (sf_null fd))])"
    using scalar [of "''URLField''" "sf_null fd"] unfolding url_repr_def by simp
  show "read_call_line (path_repr fd @ '','') = Some (''PathField'', [(''null'', CBool (sf_null fd))])"
    using scalar [of "''PathField''" "sf_null fd"] unfolding path_repr_def by simp
  show "read_call_line (vector_repr vf @ '','') = Some (''VectorField'',
     [(''dimensions'', case vf_dimensions vf of None \<Rightarrow> CNull | Some n \<Rightarrow> CInt n), (''vector_type'', CStr (vf_type vf))])"
    using pair [of "''VectorField''" "''dimensions''" "''vector_type''"
        "case vf_dimensions vf of None \<Rightarrow> CNull | Some n \<Rightarrow> CInt n" "CStr (vf_type vf)"]
    unfolding vector_repr_def by (auto simp: call_value_def split: option.splits)
  show "read_call_line (ltree_repr lt @ '','') = Some (''LTreeField'',
     [(''max_length'', CInt (lt_max_length lt)), (''separator'', CStr (lt_separator lt))])"
    using pair [of "''LTreeField''" "''max_length''" "''separator''" "CInt (lt_max_length lt)" "CStr (lt_separator lt)"]
    unfolding ltree_repr_def by (simp add: call_value_def)
qed

section \<open>Column widths\<close>

definition varchar_width :: "string \<Rightarrow> nat option" where
  "varchar_width sql_type =
     (if prefix ''VARCHAR('' sql_type then Some (nat_of_digits (takeWhile is_digit (drop 8 sql_type))) else None)"

lemma octet_length: "length (show_nat (unat (b :: byte))) \<le> 3"
proof -
  have "unat b < 256" using unsigned_less [of b] by simp
  then have "unat b div 10 div 10 < 10" by (simp add: div_mult2_eq [symmetric] div_less_iff_less_mult)
  then show ?thesis
    by (simp add: show_nat.simps [of "unat b"] show_nat.simps [of "unat b div 10"] show_nat.simps [of "unat b div 10 div 10"])
qed

lemma length_four: "length xs = 4 \<Longrightarrow> \<exists>p q r s. xs = [p, q, r, s]"
  by (auto simp: numeral_eq_Suc length_Suc_conv)

lemma ipv4_text_length: "length (ipv4_text a) \<le> 15"
proof -
  obtain p q r s where "be_bytes 4 (unat a) = [p, q, r, s]"
    using length_four [OF be_bytes_length] by blast
  then show ?thesis
    using octet_length [of p] octet_length [of q] octet_length [of r] octet_length [of s]
    by (simp add: ipv4_text_def)
qed

text \<open>Every value that \<open>IPv4Field\<close> writes fits the column that the field declares, in every dialect.\<close>

theorem ipv4_fits_column:
  assumes "ipv4_to_db v = Inr (Some s)"
  shows "case varchar_width (ipv4_sql_type dialect) of None \<Rightarrow> dialect \<noteq> ''sqlite'' | Some w \<Rightarrow> length s \<le> w"
proof -
  obtain a where "s = ipv4_text a"
    using assms by (auto simp: ipv4_to_db_def map_sum_def split: sum.splits option.splits)
  moreover have "varchar_width ''VARCHAR(15)'' = Some 15" "varchar_width ''inet'' = None" by code_simp+
  ultimately show ?thesis using ipv4_text_length [of a] by (simp add: ipv4_sql_type_def)
qed

theorem ipv4_fits_column_witness:
  "length (ipv4_text (- 1)) \<le> the (varchar_width (ipv4_sql_type ''sqlite''))"
proof -
  have "ipv4_to_db (Inl (Some (- 1))) = Inr (Some (ipv4_text (- 1)))" by (simp add: ipv4_to_db_def)
  from ipv4_fits_column [OF this, of "''sqlite''"] show ?thesis by (simp split: option.splits)
qed

end
