(* ===== verification/Spec2Isabelle.thy ===== *)
theory Spec2Isabelle
  imports Quote Cached_Decorators Redis_Properties Soft_Delete Graph_Walk Hierarchy_Move Pathfinding Graph_Traversal Timescale_Calls Cache_Coherence Event_Setup Redis_Manager
    Cached_Wrapper Vector_Field Vector_Filters Migrations Graph_Edge Indexes Ltree_Field Scalar_Fields Hybrid_Search Graph_Vector_Search
    User_Model Patches Recursive_Cte Hierarchy_Queries Node_Interleaving Lookup_Interleaving
    Timestamps Field_Repr
begin

text \<open>
  A verification development for \<open>tortoise_extended\<close>, an extension of Tortoise ORM: vector, ltree and
  scalar fields, indexes, migrations, graph and hierarchy models, recursive graph queries, vector
  searches, TimescaleDB management, event streams and a Redis cache. All paths below are under
  \<open>src/src/tortoise_extended/\<close>; a definition has the name of the function or method it models, with
  a prefix where several classes have a method of one name.

  \<^bold>\<open>How the program is modelled.\<close> Python strings are HOL strings, so a code point lies between U+0000
  and U+00FF; ints are \<open>int\<close>, bytes are 8-bit words. An exception is a value of \<open>exc\<close> (theory
  \<open>Exceptions\<close>), a computation that may raise has the type \<open>exc + 'a\<close>, and code that awaits a service
  is an \<open>act\<close>, a function on the state of that service (theory \<open>Effects\<close>). \<open>Prelude\<close> and \<open>Py_Text\<close> hold
  the text operations of Python, \<open>Py_Literal\<close> the reading of Python literals, \<open>Struct_Float\<close> the
  packing of floats. Code that is not in the repository is a parameter: the Redis client, pickle,
  sha256, argon2, the tables, models, schema tools and connections of Tortoise, pypika, and the
  functions of the PostgreSQL server. What is relied on is stated as locales (\<open>orm_table\<close>,
  \<open>redis_store\<close>, \<open>cache_backend\<close>, \<open>faithful_serializer\<close>, \<open>stream_server\<close>) or as named hypotheses, and
  each of them is met by a concrete instance: lists of rows in \<open>Orm\<close>, a Redis server with a clock in
  \<open>Redis_Memory\<close>, the serializers of the program itself in \<open>Serializers\<close>.

  \<^bold>\<open>The parts.\<close>
  \<^item> Errors and text: \<open>Exceptions\<close> (\<open>exceptions.py\<close>); \<open>Quote\<close> and \<open>Sql_Template\<close> (\<open>_quote.py\<close>,
    \<open>expressions/_edge_filter.py\<close>) with a scanner of SQL tokens that shows that a quoted argument is one
    token whatever it holds.
  \<^item> The cache: \<open>Cache_Key\<close>, \<open>Serializers\<close> over \<open>Json\<close> and \<open>Json_Roundtrip\<close> (\<open>cache/base.py\<close>),
    \<open>Redis_Backend\<close>, \<open>Redis_Many\<close> and \<open>Redis_Manager\<close> (\<open>cache/redis.py\<close>), whose contract is proved in
    \<open>Redis_Properties\<close>. The state of the stampede control is the map of claims with its futures and
    the program point of every task; \<open>Single_Flight\<close> is the step relation, \<open>Single_Flight_Invariant\<close>,
    \<open>Flight_Progress\<close> and \<open>Flight_Results\<close> are what holds in every reachable state.
    \<open>Cached_Decorators\<close> and \<open>Cached_Wrapper\<close> (\<open>cache/decorators.py\<close>), \<open>Query_Key\<close> and \<open>Query_Cache\<close>
    (\<open>cache/queryset.py\<close>, \<open>cache/_coerce.py\<close>) are its clients. \<open>Cacheable_Model\<close>
    (\<open>models/cacheable_model.py\<close>) puts a table before the cache; \<open>Cache_Coherence\<close> proves that the two
    agree when calls run one at a time, \<open>Lookup_Interleaving\<close> what holds when they take turns at their
    awaits.
  \<^item> Models on a table: \<open>Orm\<close> is the interface; \<open>Soft_Delete\<close>, \<open>Graph_Node\<close> with \<open>Graph_Walk\<close>,
    \<open>Graph_Edge\<close>, \<open>Hierarchy\<close> with \<open>Hierarchy_Move\<close> and \<open>Hierarchy_Queries\<close>, \<open>User_Model\<close> (the files of \<open>models/\<close>). Each has
    its row type, its operations, the invariant of its columns and the preservation by the operations.
    \<open>Node_Interleaving\<close> splits the saves and deletes of graph nodes at their awaits; \<open>Tasks\<close> has the
    schedules, the invariants and the progress of such tasks. \<open>Timestamps\<close> is \<open>models/base.py\<close> and
    \<open>models/mixins.py\<close>.
  \<^item> Recursive queries: \<open>Cte\<close> evaluates \<open>WITH RECURSIVE\<close> as the server does and proves what such a
    recursion derives; \<open>Pathfinding\<close>, \<open>Graph_Traversal\<close> and \<open>Graph_Vector_Search\<close> (the files of
    \<open>expressions/\<close>) are statements over it, with their parameters and placeholders, and are compared
    with paths and reachability in the edge relation. \<open>Recursive_Cte\<close> is the builder.
  \<^item> Vectors: \<open>Vector_Field\<close> (\<open>fields/vector.py\<close> and the codec of \<open>__init__.py\<close>), \<open>Vector_Filters\<close>
    (\<open>expressions/graph_filters.py\<close>), \<open>Vector_Ranking\<close> and \<open>Hybrid_Search\<close>
    (\<open>expressions/hybrid_search.py\<close>).
  \<^item> Other fields and schema: \<open>Ltree_Field\<close> (\<open>fields/ltree.py\<close>, \<open>expressions/ltree_filters.py\<close>),
    \<open>Scalar_Fields\<close> (\<open>fields/ipv4.py\<close>, \<open>url.py\<close>, \<open>path.py\<close>, \<open>uuid.py\<close>), \<open>Field_Repr\<close> (their
    representations and column types), \<open>Indexes\<close> (\<open>indexes/\<close>),
    \<open>Migrations\<close> (\<open>migrations/operations.py\<close>), \<open>Patches\<close> (\<open>__init__.py\<close>).
  \<^item> Time series: \<open>Timescale\<close> and \<open>Continuous_Aggregate\<close> (\<open>timescale/\<close>), joined in
    \<open>Timescale_Calls\<close>; \<open>Event_Stream\<close>, \<open>Event_Ingest\<close>, \<open>Event_Setup\<close> and \<open>Event_Properties\<close>
    (\<open>models/event_stream.py\<close>, \<open>timescale/stream.py\<close>).

  \<^bold>\<open>What is shown.\<close> For every component its functional behaviour on all branches, errors included;
  and across components: round trips (JSON, cached querysets, vectors, paths, addresses, migration
  files); refinement of soft deletion to a set of live rows and of rollups to a partition of events;
  canonical and unambiguous cache keys; one execution per key, the end of every call and the origin of
  every result under any interleaving and cancellation; agreement of cached models with their table,
  also between interleaved tasks as long as none of them races; counters of graph nodes that are right
  after interleaved writes;
  exactness of the graph queries against paths of the edge relation, with their termination; the
  confinement of caller text to data in every statement; idempotence of setup and of the extension of
  Tortoise.

  \<^bold>\<open>Bounds and fuel.\<close> A loop that recursion on the data does not cover has fuel, and the theorems
  prove that the given fuel is enough: the number of rows plus two for \<open>path_to_root\<close> and plus one for
  \<open>subtree\<close>, which visit a row once; the hop limit plus two for a recursive query, whose rows carry a
  hop counter; the length of the text plus one for the JSON reader; four steps for a save of a graph node
  and three for a cached lookup or write, their numbers of awaits. The widths of the 16-bit fields of
  a binary vector and of the float formats are kept: beyond them the model raises as \<open>struct\<close> does.

  \<^bold>\<open>Not modelled.\<close> Messages of exceptions and log lines; \<open>__repr__\<close> of the models; \<open>_types.py\<close> beyond the value types; re-exports of the packages. Strings beyond U+00FF, where the case and space tables of Unicode would be needed. Node ids
  of the graph queries are integers, and distances, ranks and weights of the searches real numbers, so
  NaN and rounding of the server are left out there. Concurrency is modelled for the stampede control,
  the cached models and the graph nodes; the other operations run one at a time. One event loop runs all
  tasks, so writers in other processes are not modelled.
\<close>

end
